(* ===== verification/Prelude.thy ===== *)
theory Prelude
  imports Complex_Main "HOL-Library.Word"
begin

text \<open>
  Shared vocabulary of the development: results in the style of Rust's \<open>Result\<close> (a sum whose
  left side is the error), the combinators the sources use on them (\<open>?\<close>, \<open>ok_or\<close>,
  \<open>collect::<Result<Vec<_>, _>>\<close>), 64-bit saturating and checked counters, small facts on lists
  and association lists, and the collections of rewrite rules the component theories extend.
\<close>

named_theorems result_simps \<open>inversion of computations in the result type\<close>
named_theorems model_defs \<open>definitions that only name a record shape or a constant\<close>

section \<open>Results\<close>

abbreviation Ok :: "'a \<Rightarrow> 'e + 'a" where
  "Ok \<equiv> Inr"

abbreviation Err :: "'e \<Rightarrow> 'e + 'a" where
  "Err \<equiv> Inl"

text \<open>The question-mark operator: continue with the value or leave with the error.\<close>

fun and_then :: "'e + 'a \<Rightarrow> ('a \<Rightarrow> 'e + 'b) \<Rightarrow> 'e + 'b" where
  "and_then (Inl e) f = Inl e"
| "and_then (Inr x) f = f x"

fun ok_or :: "'e \<Rightarrow> 'a option \<Rightarrow> 'e + 'a" where
  "ok_or e None = Inl e"
| "ok_or e (Some x) = Inr x"

fun map_err :: "('e \<Rightarrow> 'f) \<Rightarrow> 'e + 'a \<Rightarrow> 'f + 'a" where
  "map_err f (Inl e) = Inl (f e)"
| "map_err f (Inr x) = Inr x"

fun is_ok :: "'e + 'a \<Rightarrow> bool" where
  "is_ok (Inl e) = False"
| "is_ok (Inr x) = True"

text \<open>\<open>iter().map(f).collect::<Result<Vec<_>, _>>()\<close>: the values in order, or the first error.\<close>

fun traverse :: "('a \<Rightarrow> 'e + 'b) \<Rightarrow> 'a list \<Rightarrow> 'e + 'b list" where
  "traverse f [] = Inr []"
| "traverse f (x # xs) = and_then (f x) (\<lambda>y. and_then (traverse f xs) (\<lambda>ys. Inr (y # ys)))"

text \<open>A \<open>for\<close> loop whose body may leave with an error.\<close>

fun for_each :: "('a \<Rightarrow> 'e + unit) \<Rightarrow> 'a list \<Rightarrow> 'e + unit" where
  "for_each f [] = Inr ()"
| "for_each f (x # xs) = and_then (f x) (\<lambda>_. for_each f xs)"

lemma and_then_Inr [result_simps]:
  "and_then r f = Inr y \<longleftrightarrow> (\<exists>x. r = Inr x \<and> f x = Inr y)"
  by (cases r) auto

lemma and_then_Inl [result_simps]:
  "and_then r f = Inl e \<longleftrightarrow> r = Inl e \<or> (\<exists>x. r = Inr x \<and> f x = Inl e)"
  by (cases r) auto

lemma ok_or_Inr [result_simps]: "ok_or e r = Inr x \<longleftrightarrow> r = Some x"
  by (cases r) auto

lemma ok_or_Inl [result_simps]: "ok_or e r = Inl d \<longleftrightarrow> r = None \<and> d = e"
  by (cases r) auto

lemma map_err_Inr [result_simps]: "map_err f r = Inr x \<longleftrightarrow> r = Inr x"
  by (cases r) auto

lemma is_ok_iff: "is_ok r \<longleftrightarrow> (\<exists>x. r = Inr x)"
  by (cases r) auto

lemma is_ok_and_then: "is_ok (and_then r f) \<longleftrightarrow> (\<exists>x. r = Inr x \<and> is_ok (f x))"
  by (cases r) auto

lemma is_ok_ok_or: "is_ok (ok_or e r) \<longleftrightarrow> r \<noteq> None"
  by (cases r) auto

lemma is_ok_map_err [simp]: "is_ok (map_err f r) = is_ok r"
  by (cases r) auto

lemma for_each_Inr: "for_each f xs = Inr () \<longleftrightarrow> (\<forall>x\<in>set xs. f x = Inr ())"
  by (induction xs) (auto simp: and_then_Inr)

lemma traverse_Inr_map:
  "\<forall>x\<in>set xs. f x = Inr (g x) \<Longrightarrow> traverse f xs = Inr (map g xs)"
  by (induction xs) auto

lemma traverse_Inr_length: "traverse f xs = Inr ys \<Longrightarrow> length ys = length xs"
  by (induction xs arbitrary: ys) (auto simp: and_then_Inr)

lemma traverse_Inr_set:
  "traverse f xs = Inr ys \<Longrightarrow> y \<in> set ys \<Longrightarrow> \<exists>x\<in>set xs. f x = Inr y"
  by (induction xs arbitrary: ys) (auto simp: and_then_Inr)

section \<open>Updating one element of a vector\<close>

text \<open>\<open>iter_mut().find(p)\<close> followed by a fallible update of the element found: the first match is
  replaced, or the given error says that there is none.\<close>

fun update_first :: "('a \<Rightarrow> bool) \<Rightarrow> 'e \<Rightarrow> ('a \<Rightarrow> 'e + 'a) \<Rightarrow> 'a list \<Rightarrow> 'e + 'a list" where
  "update_first P missing f [] = Inl missing"
| "update_first P missing f (x # xs) =
    (if P x then and_then (f x) (\<lambda>y. Inr (y # xs))
     else and_then (update_first P missing f xs) (\<lambda>ys. Inr (x # ys)))"

lemma update_first_split:
  "\<forall>a\<in>set as. \<not> P a \<Longrightarrow> P x \<Longrightarrow>
   update_first P missing f (as @ x # bs) = and_then (f x) (\<lambda>y. Inr (as @ y # bs))"
  by (induction as; cases "f x") auto

lemma update_first_missing: "(\<forall>a\<in>set xs. \<not> P a) \<Longrightarrow> update_first P missing f xs = Inl missing"
  by (induction xs) auto

lemma update_first_Inr:
  "update_first P missing f xs = Inr ys \<longleftrightarrow>
    (\<exists>as x bs y. xs = as @ x # bs \<and> (\<forall>a\<in>set as. \<not> P a) \<and> P x \<and> f x = Inr y \<and> ys = as @ y # bs)"
proof
  assume up: "update_first P missing f xs = Inr ys"
  then obtain as x bs where "xs = as @ x # bs" "\<forall>a\<in>set as. \<not> P a" "P x"
    using update_first_missing [of xs P missing f] split_list_first_prop [of xs P] by auto
  then show "\<exists>as x bs y. xs = as @ x # bs \<and> (\<forall>a\<in>set as. \<not> P a) \<and> P x \<and> f x = Inr y \<and> ys = as @ y # bs"
    using up by (auto simp: update_first_split and_then_Inr)
qed (auto simp: update_first_split)

lemma find_split: "List.find P xs = Some x \<Longrightarrow> \<exists>as bs. xs = as @ x # bs \<and> (\<forall>a\<in>set as. \<not> P a) \<and> P x"
proof (induction xs)
  case (Cons y xs)
  show ?case
  proof (cases "P y")
    case False
    then obtain as bs where "xs = as @ x # bs" "\<forall>a\<in>set as. \<not> P a" "P x" using Cons by auto
    then have "y # xs = (y # as) @ x # bs \<and> (\<forall>a\<in>set (y # as). \<not> P a) \<and> P x" using False by simp
    then show ?thesis by blast
  qed (use Cons in \<open>auto intro: exI [of _ "[]"]\<close>)
qed simp

section \<open>Unsigned 64-bit counters\<close>

type_synonym u64 = "64 word"
type_synonym u32 = "32 word"

definition saturating_add :: "u64 \<Rightarrow> u64 \<Rightarrow> u64" where
  "saturating_add a b = (if unat a + unat b < 2 ^ 64 then a + b else 18446744073709551615)"

definition saturating_sub :: "u64 \<Rightarrow> u64 \<Rightarrow> u64" where
  "saturating_sub a b = (if b \<le> a then a - b else 0)"

definition checked_add :: "u64 \<Rightarrow> u64 \<Rightarrow> u64 option" where
  "checked_add a b = (if unat a + unat b < 2 ^ 64 then Some (a + b) else None)"

lemma unat_saturating_add: "unat (saturating_add a b) = min (unat a + unat b) (2 ^ 64 - 1)"
  by (auto simp: saturating_add_def unat_word_ariths min_def)

lemma checked_add_Some: "checked_add a b = Some c \<Longrightarrow> unat c = unat a + unat b"
  by (auto simp: checked_add_def unat_word_ariths split: if_splits)

lemma checked_add_None: "checked_add a b = None \<longleftrightarrow> 2 ^ 64 \<le> unat a + unat b"
  by (auto simp: checked_add_def)

text \<open>Code equations that compare integers instead of unary numbers.\<close>

lemma saturating_add_code [code]:
  "saturating_add a b = (if uint a + uint b < 2 ^ 64 then a + b else 18446744073709551615)"
proof -
  have "uint a + uint b = int (unat a + unat b)" by simp
  then show ?thesis unfolding saturating_add_def by (simp only: of_nat_less_numeral_power_cancel_iff)
qed

lemma checked_add_code [code]:
  "checked_add a b = (if uint a + uint b < 2 ^ 64 then Some (a + b) else None)"
proof -
  have "uint a + uint b = int (unat a + unat b)" by simp
  then show ?thesis unfolding checked_add_def by (simp only: of_nat_less_numeral_power_cancel_iff)
qed

end
