(* ===== verification/Rust_Str.thy ===== *)
theory Rust_Str
  imports Prelude
begin

text \<open>
  The part of Rust's \<open>str\<close>, \<open>String\<close> and byte-slice library that the sources call.
  A \<open>&str\<close> is modelled by its UTF-8 bytes, a list of HOL's 8-bit characters, and so is a
  \<open>Vec<u8>\<close>; a byte string is a \<open>&str\<close> when \<open>utf8_valid\<close> holds.
  Splitting on an ASCII delimiter, prefix and suffix tests and ASCII case mapping act on bytes
  exactly as they do on the characters of valid UTF-8, because an ASCII byte never occurs inside
  the encoding of another character.
\<close>

section \<open>Bytes\<close>

definition byte :: "char \<Rightarrow> nat" where
  "byte c = of_char c"

definition in_range :: "nat \<Rightarrow> nat \<Rightarrow> char \<Rightarrow> bool" where
  "in_range lo hi c \<longleftrightarrow> lo \<le> byte c \<and> byte c \<le> hi"

definition is_ascii_alphabetic :: "char \<Rightarrow> bool" where
  "is_ascii_alphabetic c \<longleftrightarrow> in_range 65 90 c \<or> in_range 97 122 c"

definition is_ascii_digit :: "char \<Rightarrow> bool" where
  "is_ascii_digit c \<longleftrightarrow> in_range 48 57 c"

definition is_ascii_alphanumeric :: "char \<Rightarrow> bool" where
  "is_ascii_alphanumeric c \<longleftrightarrow> is_ascii_alphabetic c \<or> is_ascii_digit c"

definition to_ascii_uppercase :: "char \<Rightarrow> char" where
  "to_ascii_uppercase c = (if in_range 97 122 c then char_of (byte c - 32) else c)"

definition to_ascii_lowercase :: "char \<Rightarrow> char" where
  "to_ascii_lowercase c = (if in_range 65 90 c then char_of (byte c + 32) else c)"

definition eq_ignore_ascii_case :: "string \<Rightarrow> string \<Rightarrow> bool" where
  "eq_ignore_ascii_case a b \<longleftrightarrow> map to_ascii_lowercase a = map to_ascii_lowercase b"

text \<open>Cheap code equations for the conversion between bytes and numbers.\<close>

definition char_of_byte_value :: "nat \<Rightarrow> char" where
  "char_of_byte_value = char_of"

lemma char_of_byte_value_code [code]:
  "char_of_byte_value n = Char (n mod 2 = 1) (n div 2 mod 2 = 1) (n div 4 mod 2 = 1) (n div 8 mod 2 = 1)
     (n div 16 mod 2 = 1) (n div 32 mod 2 = 1) (n div 64 mod 2 = 1) (n div 128 mod 2 = 1)"
  by (simp add: char_of_byte_value_def char_of_def bit_iff_odd odd_iff_mod_2_eq_one)

lemma byte_code [code]:
  "byte (Char b0 b1 b2 b3 b4 b5 b6 b7) =
     (if b0 then 1 else 0) + (if b1 then 2 else 0) + (if b2 then 4 else 0) + (if b3 then 8 else 0)
     + (if b4 then 16 else 0) + (if b5 then 32 else 0) + (if b6 then 64 else 0) + (if b7 then 128 else 0)"
  by (simp add: byte_def of_bool_def)

declare char_of_byte_value_def [symmetric, code_unfold]

lemma byte_less_256 [simp]: "byte c < 256"
  by (simp add: byte_def)

lemma char_of_byte [simp]: "char_of (byte c) = c"
  by (simp add: byte_def)

lemma byte_char_of [simp]: "n < 256 \<Longrightarrow> byte (char_of n) = n"
  by (simp add: byte_def)

section \<open>Splitting, joining, prefixes and suffixes\<close>

text \<open>\<open>s.split(c)\<close>: never empty, one piece more than there are separators.\<close>

fun split_on :: "char \<Rightarrow> string \<Rightarrow> string list" where
  "split_on c [] = [[]]"
| "split_on c (x # xs) =
     (if x = c then [] # split_on c xs
      else (case split_on c xs of [] \<Rightarrow> [[x]] | p # ps \<Rightarrow> (x # p) # ps))"

text \<open>\<open>s.split_once(c)\<close>: around the first separator.\<close>

fun split_once :: "char \<Rightarrow> string \<Rightarrow> (string \<times> string) option" where
  "split_once c [] = None"
| "split_once c (x # xs) =
     (if x = c then Some ([], xs)
      else (case split_once c xs of None \<Rightarrow> None | Some (l, r) \<Rightarrow> Some (x # l, r)))"

text \<open>\<open>s.rsplit_once(c)\<close>: around the last separator.\<close>

definition rsplit_once :: "char \<Rightarrow> string \<Rightarrow> (string \<times> string) option" where
  "rsplit_once c s =
     (case split_once c (rev s) of None \<Rightarrow> None | Some (r, l) \<Rightarrow> Some (rev l, rev r))"

text \<open>\<open>parts.join(sep)\<close>.\<close>

fun join_with :: "string \<Rightarrow> string list \<Rightarrow> string" where
  "join_with sep [] = []"
| "join_with sep [x] = x"
| "join_with sep (x # y # ys) = x @ sep @ join_with sep (y # ys)"

definition starts_with :: "'a list \<Rightarrow> 'a list \<Rightarrow> bool" where
  "starts_with p s \<longleftrightarrow> take (length p) s = p"

definition strip_prefix :: "string \<Rightarrow> string \<Rightarrow> string option" where
  "strip_prefix p s = (if starts_with p s then Some (drop (length p) s) else None)"

text \<open>\<open>s.strip_suffix(c).unwrap_or(s)\<close> for a single character.\<close>

definition strip_suffix_char :: "char \<Rightarrow> string \<Rightarrow> string" where
  "strip_suffix_char c s = (if s \<noteq> [] \<and> last s = c then butlast s else s)"

text \<open>\<open>s.trim_end_matches([..])\<close>.\<close>

definition trim_end_matches :: "char list \<Rightarrow> string \<Rightarrow> string" where
  "trim_end_matches cs s = rev (dropWhile (\<lambda>c. c \<in> set cs) (rev s))"

lemma split_on_not_Nil [simp]: "split_on c s \<noteq> []"
  by (cases s) (auto split: list.splits)

lemma split_on_no_sep: "c \<notin> set s \<Longrightarrow> split_on c s = [s]"
  by (induction s) auto

lemma split_on_append_sep:
  "c \<notin> set p \<Longrightarrow> split_on c (p @ c # s) = p # split_on c s"
  by (induction p) auto

lemma split_on_pieces: "p \<in> set (split_on c s) \<Longrightarrow> c \<notin> set p"
  by (induction s arbitrary: p) (auto split: if_splits list.splits)

lemma join_split_on: "join_with [c] (split_on c s) = s"
proof (induction s)
  case (Cons x xs)
  obtain p ps where ps: "split_on c xs = p # ps"
    by (cases "split_on c xs") auto
  with Cons.IH show ?case
    by (cases ps) (auto simp: ps)
qed simp

lemma split_on_join:
  assumes "xs \<noteq> []" "\<forall>x\<in>set xs. c \<notin> set x"
  shows "split_on c (join_with [c] xs) = xs"
  using assms
proof (induction xs rule: induct_list012)
  case (2 x)
  then show ?case by (simp add: split_on_no_sep)
next
  case (3 x y zs)
  then have "split_on c (join_with [c] (y # zs)) = y # zs" by simp
  with 3 show ?case by (simp add: split_on_append_sep)
qed simp

lemma join_with_eq_Nil: "join_with [c] xs = [] \<longleftrightarrow> xs = [] \<or> xs = [[]]"
  by (induction xs rule: induct_list012) auto

lemma set_join_with: "set (join_with [c] xs) \<subseteq> insert c (\<Union>x\<in>set xs. set x)"
  by (induction xs rule: induct_list012) auto

lemma last_join_with:
  "xs \<noteq> [] \<Longrightarrow> last xs \<noteq> [] \<Longrightarrow> last (join_with [c] xs) = last (last xs)"
  by (induction xs rule: induct_list012) (auto simp: join_with_eq_Nil)

lemma join_with_snoc:
  "xs \<noteq> [] \<Longrightarrow> join_with sep (xs @ [x]) = join_with sep xs @ sep @ x"
  by (induction xs rule: induct_list012) auto

lemma split_once_None: "split_once c s = None \<longleftrightarrow> c \<notin> set s"
  by (induction s) (auto split: option.splits)

lemma split_once_append: "c \<notin> set l \<Longrightarrow> split_once c (l @ c # r) = Some (l, r)"
  by (induction l) auto

lemma split_once_SomeD: "split_once c s = Some (l, r) \<Longrightarrow> s = l @ c # r \<and> c \<notin> set l"
  by (induction s arbitrary: l) (auto split: option.splits if_splits)

lemma split_once_Some: "split_once c s = Some (l, r) \<longleftrightarrow> s = l @ c # r \<and> c \<notin> set l"
  using split_once_append split_once_SomeD by blast

lemma starts_with_iff: "starts_with p s \<longleftrightarrow> (\<exists>r. s = p @ r)"
  unfolding starts_with_def by (metis append_eq_conv_conj append_take_drop_id)

lemma starts_with_append [simp]: "starts_with p (p @ s)"
  by (auto simp: starts_with_iff)

lemma strip_prefix_Some [result_simps]: "strip_prefix p s = Some r \<longleftrightarrow> s = p @ r"
  by (auto simp: strip_prefix_def starts_with_iff)

lemma strip_prefix_append [simp]: "strip_prefix p (p @ r) = Some r"
  by (simp add: strip_prefix_Some)

lemma starts_with_simps [simp]:
  "starts_with [] s" "\<not> starts_with (x # p) []"
  "starts_with (x # p) (y # s) \<longleftrightarrow> x = y \<and> starts_with p s"
  by (auto simp: starts_with_def)

lemma strip_prefix_simps [simp]:
  "strip_prefix [] s = Some s" "strip_prefix (x # p) [] = None"
  "strip_prefix (x # p) (y # s) = (if x = y then strip_prefix p s else None)"
  by (auto simp: strip_prefix_def)

lemma strip_suffix_char_id: "s = [] \<or> last s \<noteq> c \<Longrightarrow> strip_suffix_char c s = s"
  by (auto simp: strip_suffix_char_def)

lemma strip_suffix_char_cases:
  "(strip_suffix_char c s = s) \<or> s = strip_suffix_char c s @ [c]"
  by (auto simp: strip_suffix_char_def)

section \<open>UTF-8\<close>

text \<open>
  Reading one character from the front of a byte string, as \<open>core::str::lossy\<close> does: the number
  of bytes consumed, and whether they are a well-formed character. For an ill-formed front the
  number is the length of its longest well-formed beginning, at least one.
\<close>

definition is_cont :: "char \<Rightarrow> bool" where
  "is_cont c \<longleftrightarrow> in_range 128 191 c"

definition second_of_three :: "char \<Rightarrow> char \<Rightarrow> bool" where
  "second_of_three b c \<longleftrightarrow>
     (byte b = 224 \<and> in_range 160 191 c) \<or> (in_range 225 236 b \<and> is_cont c)
     \<or> (byte b = 237 \<and> in_range 128 159 c) \<or> (in_range 238 239 b \<and> is_cont c)"

definition second_of_four :: "char \<Rightarrow> char \<Rightarrow> bool" where
  "second_of_four b c \<longleftrightarrow>
     (byte b = 240 \<and> in_range 144 191 c) \<or> (in_range 241 243 b \<and> is_cont c)
     \<or> (byte b = 244 \<and> in_range 128 143 c)"

fun conts :: "nat \<Rightarrow> nat \<Rightarrow> string \<Rightarrow> nat \<times> bool" where
  "conts 0 n bs = (n, True)"
| "conts (Suc k) n [] = (n, False)"
| "conts (Suc k) n (c # bs) = (if is_cont c then conts k (Suc n) bs else (n, False))"

fun utf8_chunk :: "string \<Rightarrow> nat \<times> bool" where
  "utf8_chunk [] = (0, True)"
| "utf8_chunk (b # bs) =
     (if byte b < 128 then (1, True)
      else if in_range 194 223 b then conts 1 1 bs
      else if in_range 224 239 b then
        (case bs of c # r \<Rightarrow> if second_of_three b c then conts 1 2 r else (1, False) | [] \<Rightarrow> (1, False))
      else if in_range 240 244 b then
        (case bs of c # r \<Rightarrow> if second_of_four b c then conts 2 2 r else (1, False) | [] \<Rightarrow> (1, False))
      else (1, False))"

lemma conts_ge: "n \<le> fst (conts k n bs)"
  by (induction k n bs rule: conts.induct) auto

lemma utf8_chunk_pos: "0 < fst (utf8_chunk (b # bs))"
  using conts_ge [of 1 1 bs]
  by (auto split: list.splits intro: less_le_trans [OF _ conts_ge])

function utf8_valid :: "string \<Rightarrow> bool" where
  "utf8_valid [] = True"
| "utf8_valid (b # bs) =
     (snd (utf8_chunk (b # bs)) \<and> utf8_valid (drop (fst (utf8_chunk (b # bs))) (b # bs)))"
  by pat_completeness auto
termination
  by (relation "measure length") (use utf8_chunk_pos in \<open>auto simp del: utf8_chunk.simps\<close>)

text \<open>\<open>String::from_utf8_lossy\<close>: every ill-formed piece becomes U+FFFD.\<close>

definition replacement_char :: string where
  "replacement_char = [char_of (239::nat), char_of (191::nat), char_of (189::nat)]"

function from_utf8_lossy :: "string \<Rightarrow> string" where
  "from_utf8_lossy [] = []"
| "from_utf8_lossy (b # bs) =
     (let (n, ok) = utf8_chunk (b # bs)
      in (if ok then take n (b # bs) else replacement_char) @ from_utf8_lossy (drop n (b # bs)))"
  by pat_completeness auto
termination
proof (relation "measure length")
  fix b bs p n ok
  assume "p = utf8_chunk (b # bs)" "(n, ok) = p"
  then have "0 < n" using utf8_chunk_pos [of b bs] by (metis fst_conv)
  then show "(drop n (b # bs), b # bs) \<in> measure length" by simp
qed simp

declare utf8_valid.simps(2) [simp del] from_utf8_lossy.simps(2) [simp del] utf8_chunk.simps(2) [simp del]

lemma utf8_valid_ascii_Cons:
  "byte b < 128 \<Longrightarrow> utf8_valid (b # bs) = utf8_valid bs"
  by (simp add: utf8_valid.simps(2) utf8_chunk.simps(2))

lemma utf8_valid_ascii: "\<forall>c\<in>set s. byte c < 128 \<Longrightarrow> utf8_valid s"
  by (induction s) (auto simp: utf8_valid_ascii_Cons)

text \<open>On well-formed text the lossy conversion changes nothing.\<close>

lemma from_utf8_lossy_valid: "utf8_valid s \<Longrightarrow> from_utf8_lossy s = s"
proof (induction s rule: utf8_valid.induct)
  case (2 b bs)
  then show ?case
    by (auto simp: utf8_valid.simps(2) from_utf8_lossy.simps(2) split_beta Let_def)
qed simp

section \<open>Trimming\<close>

text \<open>
  \<open>str::trim\<close> removes characters with the Unicode property \<open>White_Space\<close>: U+0009 to U+000D,
  U+0020, U+0085, U+00A0, U+1680, U+2000 to U+200A, U+2028, U+2029, U+202F, U+205F and U+3000.
  The first function gives the encoded length of such a character at the front of a byte string,
  the second the same for a reversed byte string.
\<close>

fun ws_len :: "string \<Rightarrow> nat" where
  "ws_len (a # b # c # r) =
     (if in_range 9 13 a \<or> byte a = 32 then 1
      else if byte a = 194 \<and> (byte b = 133 \<or> byte b = 160) then 2
      else if byte a = 225 \<and> byte b = 154 \<and> byte c = 128 then 3
      else if byte a = 226 \<and> byte b = 128
        \<and> (in_range 128 138 c \<or> in_range 168 169 c \<or> byte c = 175) then 3
      else if byte a = 226 \<and> byte b = 129 \<and> byte c = 159 then 3
      else if byte a = 227 \<and> byte b = 128 \<and> byte c = 128 then 3
      else 0)"
| "ws_len (a # b # r) =
     (if in_range 9 13 a \<or> byte a = 32 then 1
      else if byte a = 194 \<and> (byte b = 133 \<or> byte b = 160) then 2 else 0)"
| "ws_len (a # r) = (if in_range 9 13 a \<or> byte a = 32 then 1 else 0)"
| "ws_len [] = 0"

fun rev_ws_len :: "string \<Rightarrow> nat" where
  "rev_ws_len (c # b # a # r) =
     (if 0 < ws_len [c] then 1
      else if ws_len [b, c] = 2 then 2
      else if ws_len [a, b, c] = 3 then 3 else 0)"
| "rev_ws_len (c # b # r) =
     (if 0 < ws_len [c] then 1 else if ws_len [b, c] = 2 then 2 else 0)"
| "rev_ws_len (c # r) = ws_len [c]"
| "rev_ws_len [] = 0"

function trim_start :: "string \<Rightarrow> string" where
  "trim_start s = (if s = [] \<or> ws_len s = 0 then s else trim_start (drop (ws_len s) s))"
  by pat_completeness auto
termination
  by (relation "measure length") auto

function trim_rev_end :: "string \<Rightarrow> string" where
  "trim_rev_end s = (if s = [] \<or> rev_ws_len s = 0 then s else trim_rev_end (drop (rev_ws_len s) s))"
  by pat_completeness auto
termination
  by (relation "measure length") auto

declare trim_start.simps [simp del] trim_rev_end.simps [simp del]

definition trim :: "string \<Rightarrow> string" where
  "trim s = rev (trim_rev_end (rev (trim_start s)))"

section \<open>Decimal numbers\<close>

text \<open>\<open>format!("{n}")\<close> of an unsigned number.\<close>

fun show_nat :: "nat \<Rightarrow> string" where
  "show_nat n = (if n < 10 then [char_of (48 + n)] else show_nat (n div 10) @ [char_of (48 + n mod 10)])"

declare show_nat.simps [simp del]

lemma show_nat_not_Nil [simp]: "show_nat n \<noteq> []"
  by (subst show_nat.simps) simp

lemma show_nat_digits: "c \<in> set (show_nat n) \<Longrightarrow> is_ascii_digit c"
proof (induction n rule: show_nat.induct)
  case (1 n)
  then show ?case
    by (subst (asm) show_nat.simps) (auto simp: is_ascii_digit_def in_range_def split: if_splits)
qed

fun read_nat :: "string \<Rightarrow> nat" where
  "read_nat s = foldl (\<lambda>n c. 10 * n + (byte c - 48)) 0 s"

lemma read_show_nat: "read_nat (show_nat n) = n"
proof (induction n rule: show_nat.induct)
  case (1 n)
  then show ?case
    by (subst show_nat.simps) (auto simp del: show_nat.simps)
qed

lemma show_nat_inj: "show_nat m = show_nat n \<Longrightarrow> m = n"
  by (metis read_show_nat)

end
