(* ===== verification/Location.thy ===== *)
theory Location
  imports Rust_Str
begin

text \<open>
  Provider-neutral location addressing, \<open>crates/fm-domain/src/location.rs\<close>: percent encoding,
  the URI grammars of the six schemes, name validation, lexical normalisation below a root, and
  the operations \<open>parse\<close>, \<open>try_new\<close>, \<open>join\<close>, \<open>parent\<close>, \<open>name\<close>,
  \<open>from_native_path\<close> and \<open>to_native_path\<close> (the \<open>cfg(unix)\<close> variants).
  The recogniser \<open>uuid::Uuid::parse_str(..).is_ok()\<close> of the \<open>uuid\<close> crate is the parameter
  \<open>uuid_ok\<close> of every definition that reaches it.
\<close>

section \<open>Data\<close>

record location =
  provider_id :: string
  uri :: string

datatype location_error =
    InvalidUri
  | UnsupportedProvider string
  | UnknownProvider string
  | MismatchedProvider string string
  | NullByte
  | EmptySegment
  | InvalidPercentEncoding
  | InvalidUnicode
  | ReservedWindowsName string
  | InvalidName string
  | EscapesRoot
  | RootMismatch
  | UnsupportedNativePath
  | RelativeNativePath

definition location_new :: "string \<Rightarrow> string \<Rightarrow> location" where
  "location_new p u = \<lparr>provider_id = p, uri = u\<rparr>"

definition SCHEME_MAP :: "(string \<times> string) list" where
  "SCHEME_MAP = [(''file'', ''local''), (''archive'', ''archive''), (''sftp'', ''sftp''),
     (''ftp'', ''ftp''), (''ftps'', ''ftp''), (''webdav'', ''webdav'')]"

definition RESERVED_SCHEMES :: "string list" where
  "RESERVED_SCHEMES = []"

abbreviation slash :: char where
  "slash \<equiv> CHR ''/''"

abbreviation backslash :: char where
  "backslash \<equiv> CHR 0x5C"

abbreviation nul :: char where
  "nul \<equiv> CHR 0x00"

section \<open>Percent encoding\<close>

definition hex_value :: "char \<Rightarrow> nat option" where
  "hex_value b =
     (if in_range 48 57 b then Some (byte b - 48)
      else if in_range 97 102 b then Some (byte b - 97 + 10)
      else if in_range 65 70 b then Some (byte b - 65 + 10)
      else None)"

fun percent_decode :: "string \<Rightarrow> location_error + string" where
  "percent_decode [] = Inr []"
| "percent_decode (b # bs) =
     (if b = CHR ''%'' then
        (case bs of
           high # low # rest \<Rightarrow>
             (case hex_value high of
                None \<Rightarrow> Inl InvalidPercentEncoding
              | Some h \<Rightarrow>
                  (case hex_value low of
                     None \<Rightarrow> Inl InvalidPercentEncoding
                   | Some l \<Rightarrow>
                       and_then (percent_decode rest) (\<lambda>d. Inr (char_of (h * 16 + l) # d))))
         | _ \<Rightarrow> Inl InvalidPercentEncoding)
      else and_then (percent_decode bs) (\<lambda>d. Inr (b # d)))"

definition HEX :: string where
  "HEX = ''0123456789ABCDEF''"

definition unreserved :: "char \<Rightarrow> bool" where
  "unreserved b \<longleftrightarrow> is_ascii_alphanumeric b \<or> b \<in> set ''-._~:''"

fun percent_encode :: "string \<Rightarrow> string" where
  "percent_encode [] = []"
| "percent_encode (b # bs) =
     (if unreserved b then b # percent_encode bs
      else CHR ''%'' # HEX ! (byte b div 16) # HEX ! (byte b mod 16) # percent_encode bs)"

section \<open>Names and schemes\<close>

definition parse_scheme :: "string \<Rightarrow> location_error + string" where
  "parse_scheme u =
     and_then (ok_or InvalidUri (split_once (CHR '':'') u)) (\<lambda>(scheme, _).
       (case scheme of
          [] \<Rightarrow> Inl InvalidUri
        | b # bs \<Rightarrow>
            if is_ascii_alphabetic b
               \<and> list_all (\<lambda>c. is_ascii_alphabetic c \<or> c \<in> set ''+-.'') bs
            then Inr scheme else Inl InvalidUri))"

definition provider_for_scheme :: "string \<Rightarrow> location_error + string" where
  "provider_for_scheme scheme =
     (if scheme = ''search'' then Inr ''search''
      else (case map_of SCHEME_MAP scheme of
              Some p \<Rightarrow> Inr p
            | None \<Rightarrow> if scheme \<in> set RESERVED_SCHEMES then Inl (UnsupportedProvider scheme)
                      else Inl (UnknownProvider scheme)))"

definition validate_search_uri :: "string \<Rightarrow> location_error + unit" where
  "validate_search_uri u =
     and_then (ok_or InvalidUri (strip_prefix ''search://'' u)) (\<lambda>remainder.
       (case split_on slash remainder of
          [authority, search_id] \<Rightarrow>
            if authority \<noteq> ''local'' then Inl InvalidUri
            else if search_id = [] then Inl InvalidUri
            else Inr ()
        | _ \<Rightarrow> Inl InvalidUri))"

definition device_stem :: "string \<Rightarrow> string" where
  "device_stem name =
     map to_ascii_uppercase (hd (split_on (CHR ''.'') (trim_end_matches '' .'' name)))"

definition numbered_device :: "string \<Rightarrow> string \<Rightarrow> bool" where
  "numbered_device prefix stem \<longleftrightarrow>
     (case strip_prefix prefix stem of
        None \<Rightarrow> False
      | Some number \<Rightarrow> number \<in> set [''1'', ''2'', ''3'', ''4'', ''5'', ''6'', ''7'', ''8'', ''9''])"

definition reject_windows_device_name :: "string \<Rightarrow> location_error + unit" where
  "reject_windows_device_name name =
     (let stem = device_stem name in
      if stem \<in> set [''CON'', ''PRN'', ''AUX'', ''NUL'', ''CLOCK$'']
         \<or> numbered_device ''COM'' stem \<or> numbered_device ''LPT'' stem
      then Inl (ReservedWindowsName name) else Inr ())"

definition validate_name :: "string \<Rightarrow> location_error + unit" where
  "validate_name name =
     (if name = [] then Inl EmptySegment
      else if name = ''.'' \<or> name = ''..'' \<or> slash \<in> set name \<or> backslash \<in> set name
      then Inl (InvalidName name)
      else if nul \<in> set name then Inl NullByte
      else reject_windows_device_name name)"

fun normalize_segments_from :: "string list \<Rightarrow> string list \<Rightarrow> location_error + string list" where
  "normalize_segments_from normalized [] = Inr normalized"
| "normalize_segments_from normalized (s # ss) =
     (if s = ''.'' then normalize_segments_from normalized ss
      else if s = ''..'' then
        (if normalized = [] then Inl EscapesRoot
         else normalize_segments_from (butlast normalized) ss)
      else normalize_segments_from (normalized @ [s]) ss)"

definition normalize_segments :: "string list \<Rightarrow> location_error + string list" where
  "normalize_segments segs = normalize_segments_from [] segs"

section \<open>Path segments\<close>

text \<open>
  The segment list of a path, shared by the file and the remote grammars: split at the slashes,
  refuse an empty piece, decode each piece.
\<close>

definition decode_path :: "string \<Rightarrow> location_error + string list" where
  "decode_path path =
     (let raw_segments = split_on slash path in
      if [] \<in> set raw_segments then Inl EmptySegment
      else traverse percent_decode raw_segments)"

definition encode_path :: "string list \<Rightarrow> string" where
  "encode_path segs = join_with ''/'' (map percent_encode segs)"

text \<open>One turn of the validation loop; the FTP grammar leaves out the device-name test.\<close>

definition check_segment :: "bool \<Rightarrow> string \<Rightarrow> location_error + unit" where
  "check_segment devices segment =
     (if nul \<in> set segment then Inl NullByte
      else if slash \<in> set segment \<or> backslash \<in> set segment
      then Inl (InvalidName (from_utf8_lossy segment))
      else if devices \<and> utf8_valid segment then reject_windows_device_name segment
      else Inr ())"

text \<open>\<open>String::from_utf8(bytes)\<close> with the error the sources map it to.\<close>

definition utf8_name :: "string \<Rightarrow> location_error + string" where
  "utf8_name bytes = (if utf8_valid bytes then Inr bytes else Inl InvalidUnicode)"

section \<open>The file grammar\<close>

record parsed_file_uri =
  authority :: string
  segments :: "string list"

definition has_query :: "string \<Rightarrow> bool" where
  "has_query s \<longleftrightarrow> CHR ''?'' \<in> set s \<or> CHR ''#'' \<in> set s"

text \<open>The part before the path: empty for \<open>file:///path\<close>, a host for \<open>file://host/path\<close>.\<close>

definition split_authority :: "string \<Rightarrow> location_error + (string \<times> string)" where
  "split_authority remainder =
     (case strip_prefix ''/'' remainder of
        Some path \<Rightarrow> Inr ([], path)
      | None \<Rightarrow> ok_or InvalidUri (split_once slash remainder))"

definition file_parse :: "string \<Rightarrow> location_error + parsed_file_uri" where
  "file_parse u =
     and_then (ok_or InvalidUri (strip_prefix ''file://'' u)) (\<lambda>remainder.
       if has_query remainder then Inl InvalidUri
       else and_then (split_authority remainder) (\<lambda>(auth, path).
            if path = [] then Inr \<lparr>authority = auth, segments = []\<rparr>
            else let path' = strip_suffix_char slash path in
              if path' = [] then Inr \<lparr>authority = auth, segments = []\<rparr>
              else and_then (decode_path path') (\<lambda>segs.
                Inr \<lparr>authority = auth, segments = segs\<rparr>)))"

definition file_validate_segments :: "parsed_file_uri \<Rightarrow> location_error + unit" where
  "file_validate_segments p =
     and_then (percent_decode (authority p)) (\<lambda>auth.
       if nul \<in> set auth then Inl NullByte
       else for_each (check_segment True) (segments p))"

section \<open>The remote grammars\<close>

text \<open>\<open>ParsedSftpUri\<close> and \<open>ParsedWebDavUri\<close> have the same two fields; FTP keeps its scheme.\<close>

record parsed_remote_uri =
  connection_id :: string
  remote_segments :: "string list"

record parsed_ftp_uri = parsed_remote_uri +
  ftp_scheme :: string

definition remote_path_segments :: "string \<Rightarrow> location_error + string list" where
  "remote_path_segments path = (if path = [] then Inr [] else decode_path path)"

definition sftp_parse :: "(string \<Rightarrow> bool) \<Rightarrow> string \<Rightarrow> location_error + parsed_remote_uri" where
  "sftp_parse uuid_ok u =
     and_then (ok_or InvalidUri (strip_prefix ''sftp://'' u)) (\<lambda>remainder.
       if has_query remainder then Inl InvalidUri
       else and_then (ok_or InvalidUri (split_once slash remainder)) (\<lambda>(cid, path).
         if cid = [] \<or> \<not> uuid_ok cid then Inl InvalidUri
         else and_then (remote_path_segments path) (\<lambda>segs.
           Inr \<lparr>connection_id = cid, remote_segments = segs\<rparr>)))"

definition sftp_validate_segments :: "parsed_remote_uri \<Rightarrow> location_error + unit" where
  "sftp_validate_segments p = for_each (check_segment True) (remote_segments p)"

definition webdav_parse :: "(string \<Rightarrow> bool) \<Rightarrow> string \<Rightarrow> location_error + parsed_remote_uri" where
  "webdav_parse uuid_ok u =
     and_then (ok_or InvalidUri (strip_prefix ''webdav://'' u)) (\<lambda>remainder.
       if has_query remainder then Inl InvalidUri
       else and_then (ok_or InvalidUri (split_once slash remainder)) (\<lambda>(cid, path).
         if cid = [] \<or> \<not> uuid_ok cid then Inl InvalidUri
         else and_then (remote_path_segments path) (\<lambda>segs.
           Inr \<lparr>connection_id = cid, remote_segments = segs\<rparr>)))"

definition webdav_validate_segments :: "parsed_remote_uri \<Rightarrow> location_error + unit" where
  "webdav_validate_segments p = for_each (check_segment True) (remote_segments p)"

definition ftp_parse :: "(string \<Rightarrow> bool) \<Rightarrow> string \<Rightarrow> location_error + parsed_ftp_uri" where
  "ftp_parse uuid_ok u =
     and_then (parse_scheme u) (\<lambda>scheme.
       if scheme \<noteq> ''ftp'' \<and> scheme \<noteq> ''ftps'' then Inl InvalidUri
       else and_then (ok_or InvalidUri (strip_prefix (scheme @ ''://'') u)) (\<lambda>remainder.
         if has_query remainder then Inl InvalidUri
         else and_then (ok_or InvalidUri (split_once slash remainder)) (\<lambda>(cid, path).
           if \<not> uuid_ok cid then Inl InvalidUri
           else and_then (remote_path_segments path) (\<lambda>segs.
             Inr \<lparr>connection_id = cid, remote_segments = segs, ftp_scheme = scheme\<rparr>))))"

definition ftp_validate_segments :: "parsed_ftp_uri \<Rightarrow> location_error + unit" where
  "ftp_validate_segments p = for_each (check_segment False) (remote_segments p)"

section \<open>The archive grammar\<close>

record parsed_archive_uri =
  outer :: string
  inner_segments :: "string list"

definition archive_segment :: "string \<Rightarrow> location_error + string" where
  "archive_segment segment =
     and_then (percent_decode segment) (\<lambda>decoded.
       and_then (utf8_name decoded) (\<lambda>name.
         and_then (validate_name name) (\<lambda>_. Inr decoded)))"

definition archive_parse :: "string \<Rightarrow> location_error + parsed_archive_uri" where
  "archive_parse u =
     and_then (ok_or InvalidUri (strip_prefix ''archive://'' u)) (\<lambda>remainder.
       if has_query remainder then Inl InvalidUri
       else and_then (ok_or InvalidUri (split_once (CHR ''!'') remainder)) (\<lambda>(out, inner).
         if out = [] \<or> CHR ''!'' \<in> set out then Inl InvalidUri
         else and_then (file_parse (''file://'' @ out)) (\<lambda>parsed_outer.
           and_then (file_validate_segments parsed_outer) (\<lambda>_.
             if segments parsed_outer = [] then Inl InvalidUri
             else and_then
               (if inner = [] then Inr [] else ok_or InvalidUri (strip_prefix ''/'' inner)) (\<lambda>inner'.
                 and_then
                   (if inner' = [] then Inr [] else traverse archive_segment (split_on slash inner'))
                   (\<lambda>segs. Inr \<lparr>outer = out, inner_segments = segs\<rparr>))))))"

definition archive_into_location :: "parsed_archive_uri \<Rightarrow> location" where
  "archive_into_location p =
     (let inner = join_with ''/'' (map percent_encode (inner_segments p));
          separator = (if inner = [] then [] else ''/'')
      in location_new ''archive'' (''archive://'' @ outer p @ ''!'' @ separator @ inner))"

definition archive_join :: "parsed_archive_uri \<Rightarrow> string \<Rightarrow> location_error + location" where
  "archive_join p name =
     Inr (archive_into_location (p\<lparr>inner_segments := inner_segments p @ [name]\<rparr>))"

definition archive_parent :: "parsed_archive_uri \<Rightarrow> location_error + location option" where
  "archive_parent p =
     (if inner_segments p = [] then Inr None
      else Inr (Some (archive_into_location (p\<lparr>inner_segments := butlast (inner_segments p)\<rparr>))))"

definition archive_name :: "parsed_archive_uri \<Rightarrow> location_error + string" where
  "archive_name p =
     (if inner_segments p = [] then Inl (InvalidName ''archive root has no name'')
      else utf8_name (last (inner_segments p)))"

section \<open>Parsing\<close>

definition location_parse :: "(string \<Rightarrow> bool) \<Rightarrow> string \<Rightarrow> location_error + location" where
  "location_parse uuid_ok u =
     and_then (parse_scheme u) (\<lambda>scheme.
       if scheme = ''search'' then
         and_then (validate_search_uri u) (\<lambda>_. Inr (location_new ''search'' u))
       else and_then (provider_for_scheme scheme) (\<lambda>provider.
         if scheme = ''archive'' then
           and_then (archive_parse u) (\<lambda>_. Inr (location_new provider u))
         else if scheme = ''sftp'' then
           and_then (sftp_parse uuid_ok u) (\<lambda>parsed.
             and_then (sftp_validate_segments parsed) (\<lambda>_. Inr (location_new provider u)))
         else if scheme = ''ftp'' \<or> scheme = ''ftps'' then
           and_then (ftp_parse uuid_ok u) (\<lambda>parsed.
             and_then (ftp_validate_segments parsed) (\<lambda>_. Inr (location_new provider u)))
         else if scheme = ''webdav'' then
           and_then (webdav_parse uuid_ok u) (\<lambda>parsed.
             and_then (webdav_validate_segments parsed) (\<lambda>_. Inr (location_new provider u)))
         else
           and_then (file_parse u) (\<lambda>parsed.
             and_then (file_validate_segments parsed) (\<lambda>_.
               Inr (location_new provider
                      (if segments parsed = [] then u else strip_suffix_char slash u))))))"

definition try_new ::
  "(string \<Rightarrow> bool) \<Rightarrow> string \<Rightarrow> string \<Rightarrow> location_error + location" where
  "try_new uuid_ok provider u =
     and_then (parse_scheme u) (\<lambda>scheme.
       and_then (provider_for_scheme scheme) (\<lambda>expected.
         if provider \<noteq> expected then Inl (MismatchedProvider provider scheme)
         else location_parse uuid_ok u))"

section \<open>Printing\<close>

definition file_into_location ::
  "(string \<Rightarrow> bool) \<Rightarrow> parsed_file_uri \<Rightarrow> location_error + location" where
  "file_into_location uuid_ok p =
     and_then (file_validate_segments p) (\<lambda>_.
       location_parse uuid_ok (''file://'' @ authority p @ ''/'' @ encode_path (segments p)))"

definition sftp_into_location ::
  "(string \<Rightarrow> bool) \<Rightarrow> parsed_remote_uri \<Rightarrow> location_error + location" where
  "sftp_into_location uuid_ok p =
     and_then (sftp_validate_segments p) (\<lambda>_.
       location_parse uuid_ok (''sftp://'' @ connection_id p @ ''/'' @ encode_path (remote_segments p)))"

definition webdav_into_location ::
  "(string \<Rightarrow> bool) \<Rightarrow> parsed_remote_uri \<Rightarrow> location_error + location" where
  "webdav_into_location uuid_ok p =
     and_then (webdav_validate_segments p) (\<lambda>_.
       location_parse uuid_ok (''webdav://'' @ connection_id p @ ''/'' @ encode_path (remote_segments p)))"

definition ftp_into_location ::
  "(string \<Rightarrow> bool) \<Rightarrow> parsed_ftp_uri \<Rightarrow> location_error + location" where
  "ftp_into_location uuid_ok p =
     and_then (ftp_validate_segments p) (\<lambda>_.
       location_parse uuid_ok
         (ftp_scheme p @ ''://'' @ connection_id p @ ''/'' @ encode_path (remote_segments p)))"

section \<open>Operations of each grammar\<close>

definition sftp_join ::
  "(string \<Rightarrow> bool) \<Rightarrow> parsed_remote_uri \<Rightarrow> string \<Rightarrow> location_error + location" where
  "sftp_join uuid_ok p name =
     sftp_into_location uuid_ok (p\<lparr>remote_segments := remote_segments p @ [name]\<rparr>)"

definition sftp_parent ::
  "(string \<Rightarrow> bool) \<Rightarrow> parsed_remote_uri \<Rightarrow> location_error + location option" where
  "sftp_parent uuid_ok p =
     (if remote_segments p = [] then Inr None
      else and_then (sftp_into_location uuid_ok (p\<lparr>remote_segments := butlast (remote_segments p)\<rparr>))
             (\<lambda>l. Inr (Some l)))"

definition sftp_name :: "parsed_remote_uri \<Rightarrow> location_error + string" where
  "sftp_name p =
     (if remote_segments p = [] then Inl (InvalidName ''sftp root has no name'')
      else utf8_name (last (remote_segments p)))"

definition webdav_join ::
  "(string \<Rightarrow> bool) \<Rightarrow> parsed_remote_uri \<Rightarrow> string \<Rightarrow> location_error + location" where
  "webdav_join uuid_ok p name =
     webdav_into_location uuid_ok (p\<lparr>remote_segments := remote_segments p @ [name]\<rparr>)"

definition webdav_parent ::
  "(string \<Rightarrow> bool) \<Rightarrow> parsed_remote_uri \<Rightarrow> location_error + location option" where
  "webdav_parent uuid_ok p =
     (if remote_segments p = [] then Inr None
      else and_then (webdav_into_location uuid_ok (p\<lparr>remote_segments := butlast (remote_segments p)\<rparr>))
             (\<lambda>l. Inr (Some l)))"

definition webdav_name :: "parsed_remote_uri \<Rightarrow> location_error + string" where
  "webdav_name p =
     (if remote_segments p = [] then Inl (InvalidName ''webdav root has no name'')
      else utf8_name (last (remote_segments p)))"

definition ftp_join ::
  "(string \<Rightarrow> bool) \<Rightarrow> parsed_ftp_uri \<Rightarrow> string \<Rightarrow> location_error + location" where
  "ftp_join uuid_ok p name =
     ftp_into_location uuid_ok (p\<lparr>remote_segments := remote_segments p @ [name]\<rparr>)"

definition ftp_parent ::
  "(string \<Rightarrow> bool) \<Rightarrow> parsed_ftp_uri \<Rightarrow> location_error + location option" where
  "ftp_parent uuid_ok p =
     (if remote_segments p = [] then Inr None
      else and_then (ftp_into_location uuid_ok (p\<lparr>remote_segments := butlast (remote_segments p)\<rparr>))
             (\<lambda>l. Inr (Some l)))"

definition ftp_name :: "parsed_ftp_uri \<Rightarrow> location_error + string" where
  "ftp_name p =
     (if remote_segments p = [] then Inl (InvalidName ''FTP root has no name'')
      else utf8_name (last (remote_segments p)))"

section \<open>Operations on locations\<close>

definition ensure_local :: "location \<Rightarrow> location_error + unit" where
  "ensure_local l =
     and_then (parse_scheme (uri l)) (\<lambda>scheme.
       if provider_id l \<noteq> ''local'' \<or> scheme \<noteq> ''file''
       then Inl (MismatchedProvider (provider_id l) scheme) else Inr ())"

definition normalize_within ::
  "(string \<Rightarrow> bool) \<Rightarrow> location \<Rightarrow> location \<Rightarrow> location_error + location" where
  "normalize_within uuid_ok l root_dir =
     and_then (ensure_local l) (\<lambda>_.
     and_then (ensure_local root_dir) (\<lambda>_.
     and_then (file_parse (uri l)) (\<lambda>parsed.
     and_then (file_parse (uri root_dir)) (\<lambda>parsed_root.
       if authority parsed \<noteq> authority parsed_root then Inl RootMismatch
       else
         and_then (normalize_segments (segments parsed)) (\<lambda>normalized.
         and_then (normalize_segments (segments parsed_root)) (\<lambda>normalized_root.
           if \<not> starts_with normalized_root normalized then Inl EscapesRoot
           else file_into_location uuid_ok
                  \<lparr>authority = authority parsed, segments = normalized\<rparr>))))))"

definition location_parent ::
  "(string \<Rightarrow> bool) \<Rightarrow> location \<Rightarrow> location_error + location option" where
  "location_parent uuid_ok l =
     (if provider_id l = ''archive'' then and_then (archive_parse (uri l)) archive_parent
      else if provider_id l = ''sftp'' then
        and_then (sftp_parse uuid_ok (uri l)) (sftp_parent uuid_ok)
      else if provider_id l = ''ftp'' then
        and_then (ftp_parse uuid_ok (uri l)) (ftp_parent uuid_ok)
      else if provider_id l = ''webdav'' then
        and_then (webdav_parse uuid_ok (uri l)) (webdav_parent uuid_ok)
      else
        and_then (ensure_local l) (\<lambda>_.
        and_then (file_parse (uri l)) (\<lambda>parsed.
        and_then (file_validate_segments parsed) (\<lambda>_.
          if segments parsed = [] then Inr None
          else and_then (file_into_location uuid_ok (parsed\<lparr>segments := butlast (segments parsed)\<rparr>))
                 (\<lambda>p. Inr (Some p))))))"

definition location_join ::
  "(string \<Rightarrow> bool) \<Rightarrow> location \<Rightarrow> string \<Rightarrow> location_error + location" where
  "location_join uuid_ok l name =
     (if provider_id l = ''archive'' then
        and_then (validate_name name) (\<lambda>_. and_then (archive_parse (uri l)) (\<lambda>p. archive_join p name))
      else if provider_id l = ''sftp'' then
        and_then (validate_name name) (\<lambda>_.
          and_then (sftp_parse uuid_ok (uri l)) (\<lambda>p. sftp_join uuid_ok p name))
      else if provider_id l = ''ftp'' then
        and_then (validate_name name) (\<lambda>_.
          and_then (ftp_parse uuid_ok (uri l)) (\<lambda>p. ftp_join uuid_ok p name))
      else if provider_id l = ''webdav'' then
        and_then (validate_name name) (\<lambda>_.
          and_then (webdav_parse uuid_ok (uri l)) (\<lambda>p. webdav_join uuid_ok p name))
      else
        and_then (ensure_local l) (\<lambda>_.
        and_then (validate_name name) (\<lambda>_.
        and_then (file_parse (uri l)) (\<lambda>parsed.
        and_then (file_validate_segments parsed) (\<lambda>_.
          file_into_location uuid_ok (parsed\<lparr>segments := segments parsed @ [name]\<rparr>))))))"

definition location_name :: "(string \<Rightarrow> bool) \<Rightarrow> location \<Rightarrow> location_error + string" where
  "location_name uuid_ok l =
     (if provider_id l = ''archive'' then and_then (archive_parse (uri l)) archive_name
      else if provider_id l = ''sftp'' then and_then (sftp_parse uuid_ok (uri l)) sftp_name
      else if provider_id l = ''ftp'' then and_then (ftp_parse uuid_ok (uri l)) ftp_name
      else if provider_id l = ''webdav'' then and_then (webdav_parse uuid_ok (uri l)) webdav_name
      else
        and_then (ensure_local l) (\<lambda>_.
        and_then (file_parse (uri l)) (\<lambda>parsed.
        and_then (file_validate_segments parsed) (\<lambda>_.
          if segments parsed = [] then Inl (InvalidName ''filesystem root has no name'')
          else utf8_name (last (segments parsed))))))"

section \<open>Native paths (unix)\<close>

text \<open>\<open>std::path::Component\<close> and \<open>Path::components\<close> on unix.\<close>

datatype component = RootDir | CurDir | ParentDir | Normal string

fun path_piece :: "string \<Rightarrow> component list" where
  "path_piece s =
     (if s = [] \<or> s = ''.'' then [] else if s = ''..'' then [ParentDir] else [Normal s])"

definition path_components :: "string \<Rightarrow> component list" where
  "path_components p =
     (let pieces = split_on slash p; body = concat (map path_piece pieces) in
      if starts_with ''/'' p then RootDir # body
      else if hd pieces = ''.'' then CurDir # body else body)"

definition path_is_absolute :: "string \<Rightarrow> bool" where
  "path_is_absolute p \<longleftrightarrow> starts_with ''/'' p"

text \<open>\<open>PathBuf::push\<close> on unix.\<close>

definition path_push :: "string \<Rightarrow> string \<Rightarrow> string" where
  "path_push p s =
     (if starts_with ''/'' s then s
      else if p = [] \<or> last p = slash then p @ s else p @ ''/'' @ s)"

definition native_path_to_location ::
  "(string \<Rightarrow> bool) \<Rightarrow> string \<Rightarrow> location_error + location" where
  "native_path_to_location uuid_ok path =
     file_into_location uuid_ok
       \<lparr>authority = [],
        segments = concat (map (\<lambda>c. case c of Normal name \<Rightarrow> [name] | _ \<Rightarrow> []) (path_components path))\<rparr>"

definition location_to_native_path :: "parsed_file_uri \<Rightarrow> location_error + string" where
  "location_to_native_path parsed =
     (if authority parsed \<noteq> [] then Inl UnsupportedNativePath
      else and_then (file_validate_segments parsed) (\<lambda>_.
        Inr (foldl path_push ''/'' (segments parsed))))"

definition from_native_path :: "(string \<Rightarrow> bool) \<Rightarrow> string \<Rightarrow> location_error + location" where
  "from_native_path uuid_ok path =
     (if \<not> path_is_absolute path then Inl RelativeNativePath
      else native_path_to_location uuid_ok path)"

definition to_native_path :: "location \<Rightarrow> location_error + string" where
  "to_native_path l =
     and_then (ensure_local l) (\<lambda>_. and_then (file_parse (uri l)) location_to_native_path)"

end
