(* ===== verification/Location_Laws.thy ===== *)
theory Location_Laws
  imports Location
begin

text \<open>
  Correctness of \<open>location.rs\<close>. The percent codec is a round trip whose output needs no further
  escaping; printing a parsed URI and parsing it again gives the same segments, for the file, SFTP,
  WebDAV, FTP and archive grammars alike. That common contract is the locale
  \<open>segment_grammar\<close>, interpreted on each grammar, and the laws of \<open>join\<close>, \<open>parent\<close> and
  \<open>name\<close> follow from it once. The last sections treat normalisation below a root and native
  paths.
\<close>

section \<open>The percent codec\<close>

lemma hex_value_HEX: "n < 16 \<Longrightarrow> hex_value (HEX ! n) = Some n"
proof -
  have "\<forall>n\<in>{..<16}. hex_value (HEX ! n) = Some n" by code_simp
  then show "n < 16 \<Longrightarrow> hex_value (HEX ! n) = Some n" by simp
qed

lemma unreserved_HEX: "n < 16 \<Longrightarrow> unreserved (HEX ! n)"
proof -
  have "\<forall>n\<in>{..<16}. unreserved (HEX ! n)" by code_simp
  then show "n < 16 \<Longrightarrow> unreserved (HEX ! n)" by simp
qed

lemmas unreserved_defs = unreserved_def is_ascii_alphanumeric_def is_ascii_alphabetic_def
  is_ascii_digit_def in_range_def byte_def

lemma nibbles: "byte b div 16 < 16" "byte b mod 16 < 16"
  using byte_less_256 [of b] by (auto simp: less_mult_imp_div_less)

lemma percent_round_trip: "percent_decode (percent_encode bs) = Inr bs"
proof (induction bs)
  case (Cons b bs)
  have "unreserved b \<Longrightarrow> b \<noteq> CHR ''%''"
    by (auto simp: unreserved_defs)
  with Cons.IH nibbles show ?case
    by (auto simp: hex_value_HEX)
qed simp

lemma percent_encode_chars: "c \<in> set (percent_encode bs) \<Longrightarrow> unreserved c \<or> c = CHR ''%''"
proof (induction bs)
  case (Cons b bs)
  with nibbles show ?case by (auto simp: unreserved_HEX split: if_splits)
qed simp

lemma unreserved_not_reserved: "unreserved c \<or> c = CHR ''%'' \<Longrightarrow> c \<notin> set ''/?#!''"
  by (auto simp: unreserved_defs)

lemma percent_encode_reserved:
  "slash \<notin> set (percent_encode s)" "CHR ''?'' \<notin> set (percent_encode s)"
  "CHR ''#'' \<notin> set (percent_encode s)" "CHR ''!'' \<notin> set (percent_encode s)"
  using percent_encode_chars [of _ s] unreserved_not_reserved by auto

lemma percent_encode_Nil [simp]: "percent_encode s = [] \<longleftrightarrow> s = []"
  by (cases s) simp_all

lemma Nil_percent_encode [simp]: "[] = percent_encode s \<longleftrightarrow> s = []"
  by (cases s) simp_all

abbreviation nonempty :: "string \<Rightarrow> bool" where
  "nonempty s \<equiv> s \<noteq> []"

lemma encode_path_reserved:
  "CHR ''?'' \<notin> set (encode_path ss)" "CHR ''#'' \<notin> set (encode_path ss)"
  "CHR ''!'' \<notin> set (encode_path ss)"
  using set_join_with [of slash "map percent_encode ss"] percent_encode_reserved
  by (auto simp: encode_path_def)

lemma encode_path_Nil_iff: "list_all nonempty ss \<Longrightarrow> encode_path ss = [] \<longleftrightarrow> ss = []"
  by (auto simp: encode_path_def join_with_eq_Nil list_all_iff)

lemma encode_path_Nil [simp]: "encode_path [] = []"
  by (simp add: encode_path_def)

lemma split_encode_path: "ss \<noteq> [] \<Longrightarrow> split_on slash (encode_path ss) = map percent_encode ss"
  by (simp add: encode_path_def split_on_join percent_encode_reserved)

lemma decode_encode_path:
  assumes "ss \<noteq> []" "list_all nonempty ss"
  shows "decode_path (encode_path ss) = Inr ss"
proof -
  have "traverse percent_decode (map percent_encode ss) = Inr ss"
    by (induction ss) (auto simp: percent_round_trip)
  with assms show ?thesis
    by (auto simp: decode_path_def split_encode_path list_all_iff)
qed

lemma encode_path_last:
  assumes "ss \<noteq> []" "list_all nonempty ss"
  shows "last (encode_path ss) \<noteq> slash"
proof -
  have ne: "last ss \<noteq> []" using assms by (auto simp: list_all_iff)
  then have "last (encode_path ss) = last (percent_encode (last ss))"
    using assms by (simp add: encode_path_def last_join_with last_map)
  moreover have "last (percent_encode (last ss)) \<in> set (percent_encode (last ss))"
    using ne by (simp add: last_in_set)
  ultimately show ?thesis using percent_encode_reserved(1) by metis
qed

lemma percent_decode_Nil: "percent_decode s = Inr d \<Longrightarrow> d = [] \<longleftrightarrow> s = []"
  by (cases s) (auto simp: result_simps split: if_splits list.splits option.splits)

lemma decode_path_nonempty:
  assumes "decode_path path = Inr ss"
  shows "list_all nonempty ss \<and> ss \<noteq> []"
proof -
  have tr: "traverse percent_decode (split_on slash path) = Inr ss" "[] \<notin> set (split_on slash path)"
    using assms by (auto simp: decode_path_def Let_def split: if_splits)
  have "s \<noteq> []" if "s \<in> set ss" for s
    using traverse_Inr_set [OF tr(1) that] percent_decode_Nil tr(2) by metis
  moreover have "length ss = length (split_on slash path)"
    using tr(1) by (rule traverse_Inr_length)
  ultimately show ?thesis by (auto simp: list_all_iff)
qed

section \<open>Schemes\<close>

lemmas scheme_eval = parse_scheme_def is_ascii_alphabetic_def in_range_def byte_def

lemma parse_scheme_literals [simp]:
  "parse_scheme (''file://'' @ r) = Inr ''file''" "parse_scheme (''sftp://'' @ r) = Inr ''sftp''"
  "parse_scheme (''webdav://'' @ r) = Inr ''webdav''" "parse_scheme (''ftp://'' @ r) = Inr ''ftp''"
  "parse_scheme (''ftps://'' @ r) = Inr ''ftps''" "parse_scheme (''archive://'' @ r) = Inr ''archive''"
  by (simp_all add: scheme_eval)

lemma provider_for_scheme_simps [simp]:
  "provider_for_scheme ''file'' = Inr ''local''" "provider_for_scheme ''sftp'' = Inr ''sftp''"
  "provider_for_scheme ''webdav'' = Inr ''webdav''" "provider_for_scheme ''ftp'' = Inr ''ftp''"
  "provider_for_scheme ''ftps'' = Inr ''ftp''" "provider_for_scheme ''archive'' = Inr ''archive''"
  by (simp_all add: provider_for_scheme_def SCHEME_MAP_def)

section \<open>Printing and parsing the file grammar\<close>

lemma split_authority_append: "slash \<notin> set a \<Longrightarrow> split_authority (a @ slash # p) = Inr (a, p)"
  by (cases a) (auto simp: split_authority_def split_once_append [of slash "_ # _", simplified])

lemma split_authority_Inr:
  "split_authority r = Inr (a, p) \<Longrightarrow> r = a @ slash # p \<and> slash \<notin> set a"
  by (auto simp: split_authority_def result_simps split_once_Some split: option.splits)

lemma file_parse_print:
  assumes "slash \<notin> set a" "\<not> has_query a" "list_all nonempty ss"
  shows "file_parse (''file://'' @ a @ ''/'' @ encode_path ss) = Inr \<lparr>authority = a, segments = ss\<rparr>"
proof -
  have q: "\<not> has_query (a @ slash # encode_path ss)"
    using assms(2) encode_path_reserved by (auto simp: has_query_def)
  show ?thesis
  proof (cases "ss = []")
    case True
    then show ?thesis using q assms(1) by (simp add: file_parse_def split_authority_append)
  next
    case False
    then have "strip_suffix_char slash (encode_path ss) = encode_path ss" "encode_path ss \<noteq> []"
      using encode_path_last [OF False assms(3)] encode_path_Nil_iff [OF assms(3)]
      by (auto simp: strip_suffix_char_id)
    then show ?thesis using q assms(1) decode_encode_path [OF False assms(3)]
      by (simp add: file_parse_def split_authority_append Let_def)
  qed
qed

lemma file_parse_Inr:
  assumes "file_parse u = Inr p"
  shows "\<exists>path. u = ''file://'' @ authority p @ slash # path \<and> slash \<notin> set (authority p)
    \<and> \<not> has_query (authority p @ slash # path) \<and> list_all nonempty (segments p)"
  using assms decode_path_nonempty
  by (fastforce simp: file_parse_def result_simps Let_def has_query_def
      dest!: split_authority_Inr split: if_splits)

lemma location_parse_file:
  assumes "slash \<notin> set a" "\<not> has_query a" "list_all nonempty ss"
    "file_validate_segments \<lparr>authority = a, segments = ss\<rparr> = Inr ()"
  shows "location_parse uuid_ok (''file://'' @ a @ ''/'' @ encode_path ss)
    = Inr (location_new ''local'' (''file://'' @ a @ ''/'' @ encode_path ss))"
proof -
  let ?u = "''file://'' @ a @ ''/'' @ encode_path ss"
  have "strip_suffix_char slash ?u = ?u" if "ss \<noteq> []"
    using encode_path_last [OF that assms(3)] encode_path_Nil_iff [OF assms(3)] that
    by (auto intro!: strip_suffix_char_id)
  moreover have "parse_scheme ?u = Inr ''file''" by (rule parse_scheme_literals)
  ultimately show ?thesis
    using file_parse_print [OF assms(1-3)] assms(4) by (simp add: location_parse_def)
qed

section \<open>Printing and parsing the remote grammars\<close>

lemma remote_path_segments_print:
  "list_all nonempty ss \<Longrightarrow> remote_path_segments (encode_path ss) = Inr ss"
  using decode_encode_path [of ss] encode_path_Nil_iff [of ss]
  by (auto simp: remote_path_segments_def)

lemma remote_path_segments_nonempty:
  "remote_path_segments path = Inr ss \<Longrightarrow> list_all nonempty ss"
  using decode_path_nonempty by (auto simp: remote_path_segments_def split: if_splits)

definition remote_id_ok :: "(string \<Rightarrow> bool) \<Rightarrow> string \<Rightarrow> bool" where
  "remote_id_ok uuid_ok cid \<longleftrightarrow> slash \<notin> set cid \<and> \<not> has_query cid \<and> uuid_ok cid"

lemma has_query_print: "\<not> has_query cid \<Longrightarrow> \<not> has_query (cid @ slash # encode_path ss)"
  using encode_path_reserved by (auto simp: has_query_def)

lemma has_query_prefix: "\<not> has_query (a @ b) \<Longrightarrow> \<not> has_query a"
  by (auto simp: has_query_def)

lemma sftp_parse_print:
  assumes "remote_id_ok uuid_ok cid" "cid \<noteq> []" "list_all nonempty ss"
  shows "sftp_parse uuid_ok (''sftp://'' @ cid @ ''/'' @ encode_path ss)
    = Inr \<lparr>connection_id = cid, remote_segments = ss\<rparr>"
  using assms has_query_print [of cid ss] remote_path_segments_print [of ss]
  by (simp add: sftp_parse_def split_once_append remote_id_ok_def)

lemma webdav_parse_print:
  assumes "remote_id_ok uuid_ok cid" "cid \<noteq> []" "list_all nonempty ss"
  shows "webdav_parse uuid_ok (''webdav://'' @ cid @ ''/'' @ encode_path ss)
    = Inr \<lparr>connection_id = cid, remote_segments = ss\<rparr>"
  using assms has_query_print [of cid ss] remote_path_segments_print [of ss]
  by (simp add: webdav_parse_def split_once_append remote_id_ok_def)

lemma ftp_parse_print:
  assumes "remote_id_ok uuid_ok cid" "scheme = ''ftp'' \<or> scheme = ''ftps''" "list_all nonempty ss"
  shows "ftp_parse uuid_ok (scheme @ ''://'' @ cid @ ''/'' @ encode_path ss)
    = Inr \<lparr>connection_id = cid, remote_segments = ss, ftp_scheme = scheme\<rparr>"
  using assms has_query_print [of cid ss] remote_path_segments_print [of ss]
  by (auto simp: ftp_parse_def scheme_eval split_once_append remote_id_ok_def)

lemma sftp_parse_Inr:
  assumes "sftp_parse uuid_ok u = Inr p"
  shows "remote_id_ok uuid_ok (connection_id p)" "connection_id p \<noteq> []"
    "list_all nonempty (remote_segments p)"
  using assms remote_path_segments_nonempty has_query_prefix
  by (auto simp: sftp_parse_def result_simps split_once_Some remote_id_ok_def split: if_splits)

lemma webdav_parse_Inr:
  assumes "webdav_parse uuid_ok u = Inr p"
  shows "remote_id_ok uuid_ok (connection_id p)" "connection_id p \<noteq> []"
    "list_all nonempty (remote_segments p)"
  using assms remote_path_segments_nonempty has_query_prefix
  by (auto simp: webdav_parse_def result_simps split_once_Some remote_id_ok_def split: if_splits)

lemma ftp_parse_Inr:
  assumes "ftp_parse uuid_ok u = Inr p"
  shows "remote_id_ok uuid_ok (connection_id p)" "ftp_scheme p = ''ftp'' \<or> ftp_scheme p = ''ftps''"
    "list_all nonempty (remote_segments p)"
  using assms remote_path_segments_nonempty has_query_prefix
  by (auto simp: ftp_parse_def result_simps split_once_Some remote_id_ok_def split: if_splits)

section \<open>Printing and parsing the archive grammar\<close>

definition archive_segment_ok :: "string \<Rightarrow> bool" where
  "archive_segment_ok s \<longleftrightarrow> utf8_valid s \<and> validate_name s = Inr ()"

definition archive_outer_ok :: "string \<Rightarrow> bool" where
  "archive_outer_ok out \<longleftrightarrow> out \<noteq> [] \<and> CHR ''!'' \<notin> set out \<and> \<not> has_query out
     \<and> (\<exists>p. file_parse (''file://'' @ out) = Inr p \<and> file_validate_segments p = Inr () \<and> segments p \<noteq> [])"

lemma archive_segment_ok_nonempty: "archive_segment_ok s \<Longrightarrow> s \<noteq> []"
  by (auto simp: archive_segment_ok_def validate_name_def)

lemma archive_segment_Inr: "archive_segment s = Inr d \<Longrightarrow> archive_segment_ok d"
  by (auto simp: archive_segment_def archive_segment_ok_def utf8_name_def result_simps split: if_splits)

lemma archive_segment_encode: "archive_segment_ok s \<Longrightarrow> archive_segment (percent_encode s) = Inr s"
  by (simp add: archive_segment_def archive_segment_ok_def utf8_name_def percent_round_trip)

lemma guarded_Inr: "(if b then Inl e else r) = Inr x \<longleftrightarrow> \<not> b \<and> r = Inr x"
  by simp

lemma archive_segments_Inr:
  assumes "(if r = [] then Inr [] else traverse archive_segment (split_on slash r)) = Inr ss"
  shows "list_all archive_segment_ok ss"
  using assms traverse_Inr_set archive_segment_Inr
  by (fastforce simp: list_all_iff split: if_splits)

lemma archive_parse_Inr:
  assumes "archive_parse u = Inr p"
  shows "archive_outer_ok (outer p)" "list_all archive_segment_ok (inner_segments p)"
proof -
  obtain r oi q w i ss where parts:
    "\<not> has_query r" "split_once (CHR ''!'') r = Some oi" "fst oi \<noteq> []" "CHR ''!'' \<notin> set (fst oi)"
    "file_parse (''file://'' @ fst oi) = Inr q" "file_validate_segments q = Inr w" "segments q \<noteq> []"
    "(if i = [] then Inr [] else traverse archive_segment (split_on slash i)) = Inr ss"
    "\<lparr>outer = fst oi, inner_segments = ss\<rparr> = p"
    using assms
    by (simp only: archive_parse_def result_simps case_prod_beta guarded_Inr de_Morgan_disj sum.inject) blast
  have "r = fst oi @ CHR ''!'' # snd oi" using split_once_SomeD [of _ r "fst oi" "snd oi"] parts(2) by simp
  then have "\<not> has_query (fst oi)" using parts(1) has_query_prefix by metis
  then show "archive_outer_ok (outer p)" using parts(3-7) unfolding archive_outer_ok_def parts(9) [symmetric] by simp
  show "list_all archive_segment_ok (inner_segments p)" using archive_segments_Inr [OF parts(8)] parts(9) by auto
qed

lemma traverse_archive_encode:
  "list_all archive_segment_ok ss \<Longrightarrow> traverse archive_segment (map percent_encode ss) = Inr ss"
  by (induction ss) (auto simp: archive_segment_encode)

lemma archive_into_location_provider [simp]: "provider_id (archive_into_location p) = ''archive''"
  by (simp add: archive_into_location_def location_new_def Let_def)

lemma archive_parse_print:
  assumes "archive_outer_ok (outer p)" "list_all archive_segment_ok (inner_segments p)"
  shows "archive_parse (uri (archive_into_location p)) = Inr p"
proof -
  let ?ss = "inner_segments p"
  have ne: "list_all nonempty ?ss"
    using assms(2) archive_segment_ok_nonempty by (auto simp: list_all_iff)
  have tr: "traverse archive_segment (map percent_encode ?ss) = Inr ?ss"
    using assms(2) by (rule traverse_archive_encode)
  show ?thesis
  proof (cases "?ss = []")
    case True
    then show ?thesis using assms(1)
      by (auto simp: archive_into_location_def location_new_def archive_parse_def archive_outer_ok_def
          has_query_def split_once_append)
  next
    case False
    then have "encode_path ?ss \<noteq> []" using encode_path_Nil_iff [OF ne] by simp
    then show ?thesis using assms(1) False tr split_encode_path [OF False] encode_path_reserved [of ?ss]
      by (auto simp: archive_into_location_def location_new_def archive_parse_def archive_outer_ok_def
          has_query_def split_once_append Let_def simp flip: encode_path_def)
  qed
qed

section \<open>What printing returns\<close>

lemma file_into_location_Inr:
  assumes "slash \<notin> set (authority p)" "\<not> has_query (authority p)" "list_all nonempty (segments p)"
  shows "file_into_location uuid_ok p = Inr l \<longleftrightarrow>
    file_validate_segments p = Inr ()
    \<and> l = location_new ''local'' (''file://'' @ authority p @ ''/'' @ encode_path (segments p))"
  using location_parse_file [OF assms, of uuid_ok]
  by (cases p) (auto simp: file_into_location_def result_simps)

lemma sftp_into_location_Inr:
  assumes "remote_id_ok uuid_ok (connection_id p)" "connection_id p \<noteq> []"
    "list_all nonempty (remote_segments p)"
  shows "sftp_into_location uuid_ok p = Inr l \<longleftrightarrow>
    sftp_validate_segments p = Inr ()
    \<and> l = location_new ''sftp'' (''sftp://'' @ connection_id p @ ''/'' @ encode_path (remote_segments p))"
  using sftp_parse_print [OF assms] parse_scheme_literals(2)
  by (cases p) (auto simp: sftp_into_location_def location_parse_def sftp_validate_segments_def result_simps)

lemma webdav_into_location_Inr:
  assumes "remote_id_ok uuid_ok (connection_id p)" "connection_id p \<noteq> []"
    "list_all nonempty (remote_segments p)"
  shows "webdav_into_location uuid_ok p = Inr l \<longleftrightarrow>
    webdav_validate_segments p = Inr ()
    \<and> l = location_new ''webdav'' (''webdav://'' @ connection_id p @ ''/'' @ encode_path (remote_segments p))"
  using webdav_parse_print [OF assms] parse_scheme_literals(3)
  by (cases p) (auto simp: webdav_into_location_def location_parse_def webdav_validate_segments_def result_simps)

lemma ftp_into_location_Inr:
  assumes "remote_id_ok uuid_ok (connection_id p)" "ftp_scheme p = ''ftp'' \<or> ftp_scheme p = ''ftps''"
    "list_all nonempty (remote_segments p)"
  shows "ftp_into_location uuid_ok p = Inr l \<longleftrightarrow>
    ftp_validate_segments p = Inr ()
    \<and> l = location_new ''ftp''
        (ftp_scheme p @ ''://'' @ connection_id p @ ''/'' @ encode_path (remote_segments p))"
proof -
  define u where "u = ftp_scheme p @ ''://'' @ connection_id p @ ''/'' @ encode_path (remote_segments p)"
  have parsed: "ftp_parse uuid_ok u = Inr p"
    unfolding u_def using ftp_parse_print [OF assms] by (cases p) simp
  have scheme: "parse_scheme u = Inr (ftp_scheme p)"
    unfolding u_def using assms(2) by (auto simp: scheme_eval)
  have "location_parse uuid_ok u = and_then (ftp_validate_segments p) (\<lambda>_. Inr (location_new ''ftp'' u))"
    using assms(2) by (auto simp: location_parse_def scheme parsed)
  then show ?thesis
    unfolding ftp_into_location_def u_def [symmetric] by (auto simp: result_simps)
qed

section \<open>The contract of a segment grammar\<close>

locale segment_grammar =
  fixes parse :: "string \<Rightarrow> location_error + 'p"
    and print :: "'p \<Rightarrow> location_error + location"
    and segs :: "'p \<Rightarrow> string list"
    and with_segs :: "string list \<Rightarrow> 'p \<Rightarrow> 'p"
    and seg_ok :: "string \<Rightarrow> bool"
    and wf :: "'p \<Rightarrow> bool"
    and provider :: string
  assumes parse_wf: "parse u = Inr p \<Longrightarrow> wf p \<and> list_all seg_ok (segs p)"
    and print_parse: "wf p \<Longrightarrow> list_all seg_ok (segs p) \<Longrightarrow> print p = Inr l \<Longrightarrow>
      provider_id l = provider \<and> parse (uri l) = Inr p"
    and print_prefix: "wf p \<Longrightarrow> list_all seg_ok (segs p) \<Longrightarrow> print p = Inr l \<Longrightarrow>
      segs p = ss @ [n] \<Longrightarrow> \<exists>l'. print (with_segs ss p) = Inr l'"
    and segs_with: "segs (with_segs ss p) = ss"
    and with_with: "with_segs ss (with_segs ss' p) = with_segs ss p"
    and with_segs_same: "with_segs (segs p) p = p"
    and wf_with: "wf (with_segs ss p) = wf p"
begin

lemma join_parses:
  assumes "parse u = Inr p" "seg_ok n" "print (with_segs (segs p @ [n]) p) = Inr l"
  shows "provider_id l = provider" "parse (uri l) = Inr (with_segs (segs p @ [n]) p)"
  using print_parse [of "with_segs (segs p @ [n]) p" l] assms parse_wf [OF assms(1)]
  by (auto simp: segs_with wf_with)

lemma join_then_parent:
  assumes "parse u = Inr p" "seg_ok n" "print (with_segs (segs p @ [n]) p) = Inr l"
  shows "\<exists>l'. print (with_segs (butlast (segs p @ [n])) (with_segs (segs p @ [n]) p)) = Inr l'
    \<and> provider_id l' = provider \<and> parse (uri l') = Inr p"
proof -
  let ?q = "with_segs (segs p @ [n]) p"
  have wf: "wf p" "list_all seg_ok (segs p)" using parse_wf [OF assms(1)] by auto
  have "\<exists>l'. print (with_segs (segs p) ?q) = Inr l'"
    by (rule print_prefix [of ?q l "segs p" n]) (use assms wf in \<open>auto simp: segs_with wf_with\<close>)
  then obtain l' where "print (with_segs (segs p) ?q) = Inr l'" ..
  moreover have "with_segs (segs p) ?q = p" by (simp add: with_with with_segs_same)
  ultimately show ?thesis using print_parse [OF wf] by auto
qed

lemma parent_parses:
  assumes "parse u = Inr p" "segs p \<noteq> []" "print (with_segs (butlast (segs p)) p) = Inr l"
  shows "provider_id l = provider" "parse (uri l) = Inr (with_segs (butlast (segs p)) p)"
  using print_parse [of "with_segs (butlast (segs p)) p" l] assms parse_wf [OF assms(1)]
  by (auto simp: segs_with wf_with list_all_iff dest: in_set_butlastD)

end

lemma for_each_snoc: "for_each f (xs @ [x]) = Inr () \<Longrightarrow> for_each f xs = Inr ()"
  by (auto simp: for_each_Inr)

interpretation file_grammar: segment_grammar file_parse "file_into_location uuid_ok" segments
  "\<lambda>ss p. p\<lparr>segments := ss\<rparr>" nonempty
  "\<lambda>p. slash \<notin> set (authority p) \<and> \<not> has_query (authority p)" "''local''" for uuid_ok
proof unfold_locales
  fix u p
  assume "file_parse u = Inr p"
  from file_parse_Inr [OF this]
  show "(slash \<notin> set (authority p) \<and> \<not> has_query (authority p)) \<and> list_all nonempty (segments p)"
    using has_query_prefix by blast
next
  fix p :: parsed_file_uri and l
  assume p: "slash \<notin> set (authority p) \<and> \<not> has_query (authority p)" "list_all nonempty (segments p)"
    and "file_into_location uuid_ok p = Inr l"
  then show "provider_id l = ''local'' \<and> file_parse (uri l) = Inr p"
    using file_into_location_Inr [of p uuid_ok l] file_parse_print [of "authority p" "segments p"]
    by (auto simp: location_new_def)
next
  fix p :: parsed_file_uri and l ss n
  assume "slash \<notin> set (authority p) \<and> \<not> has_query (authority p)" "list_all nonempty (segments p)"
    "file_into_location uuid_ok p = Inr l" "segments p = ss @ [n]"
  then show "\<exists>l'. file_into_location uuid_ok (p\<lparr>segments := ss\<rparr>) = Inr l'"
    using file_into_location_Inr [of p uuid_ok l] file_into_location_Inr [of "p\<lparr>segments := ss\<rparr>" uuid_ok]
    by (auto simp: file_validate_segments_def result_simps for_each_Inr split: if_splits)
qed auto

interpretation sftp_grammar: segment_grammar "sftp_parse uuid_ok" "sftp_into_location uuid_ok"
  remote_segments "\<lambda>ss p. p\<lparr>remote_segments := ss\<rparr>" nonempty
  "\<lambda>p. remote_id_ok uuid_ok (connection_id p) \<and> connection_id p \<noteq> []" "''sftp''" for uuid_ok
proof unfold_locales
  fix u p
  assume "sftp_parse uuid_ok u = Inr p"
  from sftp_parse_Inr [OF this]
  show "(remote_id_ok uuid_ok (connection_id p) \<and> connection_id p \<noteq> [])
    \<and> list_all nonempty (remote_segments p)" by blast
next
  fix p :: parsed_remote_uri and l
  assume "remote_id_ok uuid_ok (connection_id p) \<and> connection_id p \<noteq> []"
    "list_all nonempty (remote_segments p)" "sftp_into_location uuid_ok p = Inr l"
  then show "provider_id l = ''sftp'' \<and> sftp_parse uuid_ok (uri l) = Inr p"
    using sftp_into_location_Inr [of uuid_ok p l]
      sftp_parse_print [of uuid_ok "connection_id p" "remote_segments p"]
    by (auto simp: location_new_def)
next
  fix p :: parsed_remote_uri and l ss n
  assume "remote_id_ok uuid_ok (connection_id p) \<and> connection_id p \<noteq> []"
    "list_all nonempty (remote_segments p)" "sftp_into_location uuid_ok p = Inr l"
    "remote_segments p = ss @ [n]"
  then show "\<exists>l'. sftp_into_location uuid_ok (p\<lparr>remote_segments := ss\<rparr>) = Inr l'"
    using sftp_into_location_Inr [of uuid_ok p l]
      sftp_into_location_Inr [of uuid_ok "p\<lparr>remote_segments := ss\<rparr>"]
    by (auto simp: sftp_validate_segments_def for_each_Inr)
qed auto

interpretation webdav_grammar: segment_grammar "webdav_parse uuid_ok" "webdav_into_location uuid_ok"
  remote_segments "\<lambda>ss p. p\<lparr>remote_segments := ss\<rparr>" nonempty
  "\<lambda>p. remote_id_ok uuid_ok (connection_id p) \<and> connection_id p \<noteq> []" "''webdav''" for uuid_ok
proof unfold_locales
  fix u p
  assume "webdav_parse uuid_ok u = Inr p"
  from webdav_parse_Inr [OF this]
  show "(remote_id_ok uuid_ok (connection_id p) \<and> connection_id p \<noteq> [])
    \<and> list_all nonempty (remote_segments p)" by blast
next
  fix p :: parsed_remote_uri and l
  assume "remote_id_ok uuid_ok (connection_id p) \<and> connection_id p \<noteq> []"
    "list_all nonempty (remote_segments p)" "webdav_into_location uuid_ok p = Inr l"
  then show "provider_id l = ''webdav'' \<and> webdav_parse uuid_ok (uri l) = Inr p"
    using webdav_into_location_Inr [of uuid_ok p l]
      webdav_parse_print [of uuid_ok "connection_id p" "remote_segments p"]
    by (auto simp: location_new_def)
next
  fix p :: parsed_remote_uri and l ss n
  assume "remote_id_ok uuid_ok (connection_id p) \<and> connection_id p \<noteq> []"
    "list_all nonempty (remote_segments p)" "webdav_into_location uuid_ok p = Inr l"
    "remote_segments p = ss @ [n]"
  then show "\<exists>l'. webdav_into_location uuid_ok (p\<lparr>remote_segments := ss\<rparr>) = Inr l'"
    using webdav_into_location_Inr [of uuid_ok p l]
      webdav_into_location_Inr [of uuid_ok "p\<lparr>remote_segments := ss\<rparr>"]
    by (auto simp: webdav_validate_segments_def for_each_Inr)
qed auto

interpretation ftp_grammar: segment_grammar "ftp_parse uuid_ok" "ftp_into_location uuid_ok"
  remote_segments "\<lambda>ss p. p\<lparr>remote_segments := ss\<rparr>" nonempty
  "\<lambda>p. remote_id_ok uuid_ok (connection_id p) \<and> (ftp_scheme p = ''ftp'' \<or> ftp_scheme p = ''ftps'')"
  "''ftp''" for uuid_ok
proof unfold_locales
  fix u p
  assume "ftp_parse uuid_ok u = Inr p"
  from ftp_parse_Inr [OF this]
  show "(remote_id_ok uuid_ok (connection_id p) \<and> (ftp_scheme p = ''ftp'' \<or> ftp_scheme p = ''ftps''))
    \<and> list_all nonempty (remote_segments p)" by blast
next
  fix p :: parsed_ftp_uri and l
  assume "remote_id_ok uuid_ok (connection_id p) \<and> (ftp_scheme p = ''ftp'' \<or> ftp_scheme p = ''ftps'')"
    "list_all nonempty (remote_segments p)" "ftp_into_location uuid_ok p = Inr l"
  then show "provider_id l = ''ftp'' \<and> ftp_parse uuid_ok (uri l) = Inr p"
    using ftp_into_location_Inr [of uuid_ok p l]
      ftp_parse_print [of uuid_ok "connection_id p" "ftp_scheme p" "remote_segments p"]
    by (cases p) (auto simp: location_new_def)
next
  fix p :: parsed_ftp_uri and l ss n
  assume "remote_id_ok uuid_ok (connection_id p) \<and> (ftp_scheme p = ''ftp'' \<or> ftp_scheme p = ''ftps'')"
    "list_all nonempty (remote_segments p)" "ftp_into_location uuid_ok p = Inr l"
    "remote_segments p = ss @ [n]"
  then show "\<exists>l'. ftp_into_location uuid_ok (p\<lparr>remote_segments := ss\<rparr>) = Inr l'"
    using ftp_into_location_Inr [of uuid_ok p l]
      ftp_into_location_Inr [of uuid_ok "p\<lparr>remote_segments := ss\<rparr>"]
    by (auto simp: ftp_validate_segments_def for_each_Inr)
qed auto

interpretation archive_grammar: segment_grammar archive_parse "\<lambda>p. Inr (archive_into_location p)"
  inner_segments "\<lambda>ss p. p\<lparr>inner_segments := ss\<rparr>" archive_segment_ok
  "\<lambda>p. archive_outer_ok (outer p)" "''archive''"
  by unfold_locales (auto simp: archive_parse_print dest: archive_parse_Inr)

section \<open>Join, parent and name\<close>

text \<open>
  The path a location denotes: what identifies its tree (host, connection or archive file) and the
  decoded segments below it.
\<close>

definition location_path ::
  "(string \<Rightarrow> bool) \<Rightarrow> location \<Rightarrow> location_error + (string \<times> string list)" where
  "location_path uuid_ok l =
     (if provider_id l = ''archive'' then
        and_then (archive_parse (uri l)) (\<lambda>p. Inr (outer p, inner_segments p))
      else if provider_id l = ''sftp'' then
        and_then (sftp_parse uuid_ok (uri l)) (\<lambda>p. Inr (connection_id p, remote_segments p))
      else if provider_id l = ''ftp'' then
        and_then (ftp_parse uuid_ok (uri l))
          (\<lambda>p. Inr (ftp_scheme p @ ''://'' @ connection_id p, remote_segments p))
      else if provider_id l = ''webdav'' then
        and_then (webdav_parse uuid_ok (uri l)) (\<lambda>p. Inr (connection_id p, remote_segments p))
      else and_then (ensure_local l) (\<lambda>_.
        and_then (file_parse (uri l)) (\<lambda>p. Inr (authority p, segments p))))"

definition joined :: "(string \<Rightarrow> bool) \<Rightarrow> location \<Rightarrow> string \<Rightarrow> location \<Rightarrow> bool" where
  "joined uuid_ok l n l' \<longleftrightarrow>
     (\<exists>k ss p. location_path uuid_ok l = Inr (k, ss)
        \<and> location_path uuid_ok l' = Inr (k, ss @ [n])
        \<and> provider_id l' = provider_id l
        \<and> location_name uuid_ok l' = Inr n
        \<and> location_parent uuid_ok l' = Inr (Some p)
        \<and> provider_id p = provider_id l
        \<and> location_path uuid_ok p = Inr (k, ss))"

lemma validate_name_nonempty: "validate_name n = Inr () \<Longrightarrow> n \<noteq> []"
  by (auto simp: validate_name_def)

lemma join_archive:
  assumes "location_join uuid_ok l n = Inr l'" "utf8_valid n" "provider_id l = ''archive''"
  shows "joined uuid_ok l n l'"
proof -
  obtain p where p: "archive_parse (uri l) = Inr p" "archive_segment_ok n"
    and l': "archive_into_location (p\<lparr>inner_segments := inner_segments p @ [n]\<rparr>) = l'"
    using assms by (auto simp: location_join_def archive_join_def archive_segment_ok_def result_simps)
  have "Inr (archive_into_location (p\<lparr>inner_segments := inner_segments p @ [n]\<rparr>)) = Inr l'"
    using l' by simp
  note j = archive_grammar.join_parses [OF p this] archive_grammar.join_then_parent [OF p this]
  show ?thesis
    using j p assms(2,3)
    by (auto simp: joined_def location_path_def location_name_def location_parent_def
        archive_name_def archive_parent_def utf8_name_def)
qed

lemma join_sftp:
  assumes "location_join uuid_ok l n = Inr l'" "utf8_valid n" "provider_id l = ''sftp''"
  shows "joined uuid_ok l n l'"
proof -
  obtain p where p: "sftp_parse uuid_ok (uri l) = Inr p" "n \<noteq> []"
    and l': "sftp_into_location uuid_ok (p\<lparr>remote_segments := remote_segments p @ [n]\<rparr>) = Inr l'"
    using assms validate_name_nonempty by (auto simp: location_join_def sftp_join_def result_simps)
  note j = sftp_grammar.join_parses [OF p l'] sftp_grammar.join_then_parent [OF p l']
  show ?thesis
    using j p assms(2,3)
    by (auto simp: joined_def location_path_def location_name_def location_parent_def
        sftp_name_def sftp_parent_def utf8_name_def)
qed

lemma join_webdav:
  assumes "location_join uuid_ok l n = Inr l'" "utf8_valid n" "provider_id l = ''webdav''"
  shows "joined uuid_ok l n l'"
proof -
  obtain p where p: "webdav_parse uuid_ok (uri l) = Inr p" "n \<noteq> []"
    and l': "webdav_into_location uuid_ok (p\<lparr>remote_segments := remote_segments p @ [n]\<rparr>) = Inr l'"
    using assms validate_name_nonempty by (auto simp: location_join_def webdav_join_def result_simps)
  note j = webdav_grammar.join_parses [OF p l'] webdav_grammar.join_then_parent [OF p l']
  show ?thesis
    using j p assms(2,3)
    by (auto simp: joined_def location_path_def location_name_def location_parent_def
        webdav_name_def webdav_parent_def utf8_name_def)
qed

lemma join_ftp:
  assumes "location_join uuid_ok l n = Inr l'" "utf8_valid n" "provider_id l = ''ftp''"
  shows "joined uuid_ok l n l'"
proof -
  obtain p where p: "ftp_parse uuid_ok (uri l) = Inr p" "n \<noteq> []"
    and l': "ftp_into_location uuid_ok (p\<lparr>remote_segments := remote_segments p @ [n]\<rparr>) = Inr l'"
    using assms validate_name_nonempty by (auto simp: location_join_def ftp_join_def result_simps)
  note j = ftp_grammar.join_parses [OF p l'] ftp_grammar.join_then_parent [OF p l']
  show ?thesis
    using j p assms(2,3)
    by (auto simp: joined_def location_path_def location_name_def location_parent_def
        ftp_name_def ftp_parent_def utf8_name_def)
qed

lemma ensure_local_Inr: "ensure_local l = Inr () \<longleftrightarrow> provider_id l = ''local'' \<and> parse_scheme (uri l) = Inr ''file''"
  by (auto simp: ensure_local_def result_simps)

lemma ensure_local_file:
  assumes "provider_id l = ''local''" "file_parse (uri l) = Inr p"
  shows "ensure_local l = Inr ()"
  using file_parse_Inr [OF assms(2)] assms(1) parse_scheme_literals(1)
  by (auto simp: ensure_local_Inr)

lemma file_into_location_validated:
  "file_into_location uuid_ok p = Inr l \<Longrightarrow> file_validate_segments p = Inr ()"
  by (auto simp: file_into_location_def result_simps)

lemma join_local:
  assumes "location_join uuid_ok l n = Inr l'" "utf8_valid n"
    "provider_id l \<notin> {''archive'', ''sftp'', ''ftp'', ''webdav''}"
  shows "joined uuid_ok l n l'"
proof -
  obtain p where p: "file_parse (uri l) = Inr p" "n \<noteq> []" and local: "ensure_local l = Inr ()"
    and l': "file_into_location uuid_ok (p\<lparr>segments := segments p @ [n]\<rparr>) = Inr l'"
    using assms validate_name_nonempty by (auto simp: location_join_def result_simps)
  obtain l'' where l'': "file_into_location uuid_ok
      (p\<lparr>segments := segments p @ [n]\<rparr>\<lparr>segments := butlast (segments p @ [n])\<rparr>) = Inr l''"
    "provider_id l'' = ''local''" "file_parse (uri l'') = Inr p"
    using file_grammar.join_then_parent [OF p l'] by auto
  note j = file_grammar.join_parses [OF p l']
  have "provider_id l = ''local''" using local by (simp add: ensure_local_Inr)
  then show ?thesis
    using j l'' p local assms(2) file_into_location_validated [OF l'] ensure_local_file [OF j]
      ensure_local_file [OF l''(2,3)]
    by (auto simp: joined_def location_path_def location_name_def location_parent_def utf8_name_def)
qed

lemmas join_cases = join_archive join_sftp join_webdav join_ftp join_local

section \<open>Canonical URIs\<close>

lemma split_on_snoc_sep: "split_on c (s @ [c]) = split_on c s @ [[]]"
  by (induction s) (auto split: list.splits simp: Cons_eq_append_conv)

lemma decode_path_last: "decode_path q = Inr ss \<Longrightarrow> q = [] \<or> last q \<noteq> slash"
  by (cases q rule: rev_cases) (auto simp: decode_path_def Let_def split_on_snoc_sep split: if_splits)

lemma file_parse_canonical:
  assumes "file_parse u = Inr p" "segments p \<noteq> []"
  shows "file_parse (strip_suffix_char slash u) = Inr p \<and> last (strip_suffix_char slash u) \<noteq> slash
    \<and> parse_scheme (strip_suffix_char slash u) = Inr ''file''"
proof -
  obtain a path where u: "u = ''file://'' @ a @ slash # path" "slash \<notin> set a"
      "\<not> has_query (a @ slash # path)" and path: "path \<noteq> []"
    and d: "decode_path (strip_suffix_char slash path) = Inr (segments p)"
      "strip_suffix_char slash path \<noteq> []" and a: "a = authority p"
    using assms
    by (auto simp: file_parse_def result_simps Let_def dest!: split_authority_Inr split: if_splits)
  define q where "q = strip_suffix_char slash path"
  have q: "q \<noteq> []" "last q \<noteq> slash" "set q \<subseteq> set path"
    using d decode_path_last [OF d(1)] by (auto simp: q_def strip_suffix_char_def dest: in_set_butlastD)
  have su: "strip_suffix_char slash u = ''file://'' @ a @ slash # q"
    using path by (auto simp: u(1) q_def strip_suffix_char_def butlast_append)
  have "\<not> has_query (a @ slash # q)" using u(3) q(3) by (auto simp: has_query_def)
  then have "file_parse (''file://'' @ a @ slash # q) = Inr p"
    using d(1) u(2) q a by (simp add: file_parse_def split_authority_append strip_suffix_char_id Let_def flip: q_def)
  then show ?thesis using su q parse_scheme_literals(1) [of "a @ slash # q"] by simp
qed

section \<open>Normalisation below a root\<close>

lemma normalize_segments_from_set:
  assumes "normalize_segments_from acc ss = Inr r" "''.'' \<notin> set acc" "''..'' \<notin> set acc"
  shows "''.'' \<notin> set r \<and> ''..'' \<notin> set r \<and> set r \<subseteq> set acc \<union> set ss"
  using assms
proof (induction acc ss rule: normalize_segments_from.induct)
  case (2 acc s ss)
  then show ?case by (auto split: if_splits dest: in_set_butlastD)
qed auto

lemma normalize_segments_set:
  assumes "normalize_segments ss = Inr r"
  shows "''.'' \<notin> set r" "''..'' \<notin> set r" "set r \<subseteq> set ss"
  using normalize_segments_from_set [of "[]" ss r] assms by (auto simp: normalize_segments_def)

lemma normalize_segments_plain:
  "''.'' \<notin> set ss \<Longrightarrow> ''..'' \<notin> set ss \<Longrightarrow> normalize_segments_from acc ss = Inr (acc @ ss)"
  by (induction ss arbitrary: acc) auto

lemma location_path_file:
  "provider_id l = ''local'' \<Longrightarrow> file_parse (uri l) = Inr p \<Longrightarrow>
   location_path uuid_ok l = Inr (authority p, segments p)"
  using ensure_local_file by (auto simp: location_path_def)

section \<open>Native paths\<close>

definition normal_names :: "string \<Rightarrow> string list" where
  "normal_names path = concat (map (\<lambda>c. case c of Normal name \<Rightarrow> [name] | _ \<Rightarrow> []) (path_components path))"

lemma normal_names_ok: "s \<in> set (normal_names path) \<Longrightarrow> s \<noteq> [] \<and> slash \<notin> set s"
  using split_on_pieces [of _ slash path]
  by (auto simp: normal_names_def path_components_def Let_def split: component.splits if_splits)

lemma foldl_path_push:
  assumes "\<forall>s\<in>set ss. s \<noteq> [] \<and> slash \<notin> set s" "p \<noteq> []" "last p \<noteq> slash"
  shows "foldl path_push p ss = p @ concat (map (\<lambda>s. slash # s) ss)"
  using assms
proof (induction ss arbitrary: p)
  case (Cons s ss)
  from Cons.prems have "path_push p s = p @ slash # s"
    by (cases s) (auto simp: path_push_def)
  moreover have "last s \<noteq> slash" using Cons.prems by (metis last_in_set list.set_intros(1))
  ultimately show ?case using Cons by simp
qed simp

lemma join_with_concat: "ss \<noteq> [] \<Longrightarrow> slash # join_with ''/'' ss = concat (map (\<lambda>s. slash # s) ss)"
  by (induction ss rule: induct_list012) auto

lemma foldl_path_push_root:
  assumes "\<forall>s\<in>set ss. s \<noteq> [] \<and> slash \<notin> set s"
  shows "foldl path_push ''/'' ss = ''/'' @ join_with ''/'' ss"
proof (cases ss)
  case (Cons s rest)
  have s: "s \<noteq> []" "slash \<notin> set s" using assms Cons by auto
  then have push: "path_push ''/'' s = slash # s" by (cases s) (auto simp: path_push_def)
  have "last (slash # s) \<noteq> slash" using s by (metis last_ConsR last_in_set)
  then have "foldl path_push (slash # s) rest = (slash # s) @ concat (map (\<lambda>s. slash # s) rest)"
    using assms Cons by (intro foldl_path_push) auto
  then show ?thesis using push Cons join_with_concat [of ss] by simp
qed simp

section \<open>Properties\<close>

text \<open>percent encoding is lossless on arbitrary bytes: decoding what \<open>percent_encode\<close> printed
  gives the bytes back, and the printed text holds none of the characters that structure a URI
  (slash, question mark, hash, exclamation mark), so it can stand as one path segment.\<close>

lemma percent_codec:
  "percent_decode (percent_encode bs) = Inr bs \<and> set (percent_encode bs) \<inter> set ''/?#!'' = {}"
  using percent_round_trip percent_encode_reserved by auto

text \<open>C31: joining a name. For every provider, when \<open>Location::join\<close> accepts a name the new location
  denotes the path of the old one with exactly that name appended, in the same tree; its
  \<open>name\<close> is the name given, and its \<open>parent\<close> exists and denotes the path of the old location.\<close>

theorem join_appends_one_segment:
  assumes "location_join uuid_ok l n = Inr l'" and "utf8_valid n"
  shows "\<exists>k ss p. location_path uuid_ok l = Inr (k, ss)
    \<and> location_path uuid_ok l' = Inr (k, ss @ [n])
    \<and> provider_id l' = provider_id l
    \<and> location_name uuid_ok l' = Inr n
    \<and> location_parent uuid_ok l' = Inr (Some p)
    \<and> provider_id p = provider_id l
    \<and> location_path uuid_ok p = Inr (k, ss)"
  using join_cases [OF assms] unfolding joined_def by blast

theorem join_appends_one_segment_witness:
  "\<exists>k ss p. location_path (\<lambda>s. s = ''id'') (location_new ''sftp'' ''sftp://id/a'') = Inr (k, ss)
    \<and> location_path (\<lambda>s. s = ''id'') (location_new ''sftp'' ''sftp://id/a/b%20c'') = Inr (k, ss @ [''b c''])
    \<and> provider_id (location_new ''sftp'' ''sftp://id/a/b%20c'')
        = provider_id (location_new ''sftp'' ''sftp://id/a'')
    \<and> location_name (\<lambda>s. s = ''id'') (location_new ''sftp'' ''sftp://id/a/b%20c'') = Inr ''b c''
    \<and> location_parent (\<lambda>s. s = ''id'') (location_new ''sftp'' ''sftp://id/a/b%20c'') = Inr (Some p)
    \<and> provider_id p = provider_id (location_new ''sftp'' ''sftp://id/a'')
    \<and> location_path (\<lambda>s. s = ''id'') p = Inr (k, ss)"
  by (rule join_appends_one_segment) code_simp+

text \<open>C6: containment. When \<open>normalize_within\<close> accepts a location it returns a local location on
  the root's host whose segments extend the root's normalised segments and contain neither
  \<open>.\<close> nor \<open>..\<close>: no accepted location leaves the configured root.\<close>

theorem normalize_within_contained:
  assumes "normalize_within uuid_ok l root_dir = Inr l'"
  shows "\<exists>a rs0 rs ss. location_path uuid_ok root_dir = Inr (a, rs0)
    \<and> normalize_segments rs0 = Inr rs
    \<and> provider_id l' = ''local'' \<and> location_path uuid_ok l' = Inr (a, rs @ ss)
    \<and> ''.'' \<notin> set (rs @ ss) \<and> ''..'' \<notin> set (rs @ ss)"
proof -
  obtain p r ns rs where local: "ensure_local root_dir = Inr ()"
    and p: "file_parse (uri l) = Inr p" and r: "file_parse (uri root_dir) = Inr r"
    and auth: "authority p = authority r"
    and ns: "normalize_segments (segments p) = Inr ns" and rs: "normalize_segments (segments r) = Inr rs"
    and pre: "starts_with rs ns"
    and out: "file_into_location uuid_ok \<lparr>authority = authority p, segments = ns\<rparr> = Inr l'"
    using assms by (auto simp: normalize_within_def result_simps split: if_splits)
  obtain ss where ss: "ns = rs @ ss" using pre by (auto simp: starts_with_iff)
  have "list_all nonempty ns"
    using file_parse_Inr [OF p] normalize_segments_set(3) [OF ns] by (auto simp: list_all_iff)
  then have "provider_id l' = ''local'' \<and> file_parse (uri l') = Inr \<lparr>authority = authority p, segments = ns\<rparr>"
    using file_parse_Inr [OF p] has_query_prefix
    by (intro file_grammar.print_parse [OF _ _ out]) auto
  moreover have "location_path uuid_ok root_dir = Inr (authority r, segments r)"
    using local r location_path_file by (simp add: ensure_local_Inr)
  ultimately show ?thesis
    using location_path_file [of l' _ uuid_ok] rs ss auth normalize_segments_set(1,2) [OF ns] by auto
qed

theorem normalize_within_contained_witness:
  "\<exists>a rs0 rs ss. location_path (\<lambda>_. False) (location_new ''local'' ''file:///srv/./data'') = Inr (a, rs0)
    \<and> normalize_segments rs0 = Inr rs
    \<and> provider_id (location_new ''local'' ''file:///srv/data/y'') = ''local''
    \<and> location_path (\<lambda>_. False) (location_new ''local'' ''file:///srv/data/y'') = Inr (a, rs @ ss)
    \<and> ''.'' \<notin> set (rs @ ss) \<and> ''..'' \<notin> set (rs @ ss)"
  by (rule normalize_within_contained
      [where l = "location_new ''local'' ''file:///srv/x/../data/y''"]) code_simp

text \<open>C32: one location has one URI: parsing the URI of a parsed location gives that location again,
  for every scheme (a directory's trailing slash is dropped once and for all).\<close>

theorem location_parse_idempotent:
  assumes "location_parse uuid_ok u = Inr l"
  shows "location_parse uuid_ok (uri l) = Inr l"
proof (cases "uri l = u")
  case True
  then show ?thesis using assms by simp
next
  case False
  then obtain p where p: "file_parse u = Inr p" "file_validate_segments p = Inr ()" "segments p \<noteq> []"
    and l: "l = location_new ''local'' (strip_suffix_char slash u)"
    using assms
    by (auto simp: location_parse_def provider_for_scheme_def SCHEME_MAP_def location_new_def result_simps
        split: if_splits)
  note c = file_parse_canonical [OF p(1,3)]
  then have "strip_suffix_char slash (strip_suffix_char slash u) = strip_suffix_char slash u"
    by (intro strip_suffix_char_id) simp
  then show ?thesis using c p l by (simp add: location_parse_def location_new_def)
qed

theorem location_parse_idempotent_witness:
  "location_parse (\<lambda>_. False) (uri (location_new ''local'' ''file:///a/b'')) = Inr (location_new ''local'' ''file:///a/b'')"
  by (rule location_parse_idempotent [where u = "''file:///a/b/''"]) code_simp

text \<open>native paths on unix. A location made from an absolute native path converts back to the
  native path that lists the normal components of the original.\<close>

lemma native_path_round_trip:
  assumes "from_native_path uuid_ok path = Inr l"
  shows "to_native_path l = Inr (''/'' @ join_with ''/'' (normal_names path))"
proof -
  let ?p = "\<lparr>authority = [], segments = normal_names path\<rparr>"
  have out: "file_into_location uuid_ok ?p = Inr l"
    using assms by (auto simp: from_native_path_def native_path_to_location_def normal_names_def split: if_splits)
  have "list_all nonempty (normal_names path)"
    using normal_names_ok by (auto simp: list_all_iff)
  then have l: "provider_id l = ''local'' \<and> file_parse (uri l) = Inr ?p"
    by (intro file_grammar.print_parse [OF _ _ out]) (auto simp: has_query_def)
  have "foldl path_push ''/'' (normal_names path) = ''/'' @ join_with ''/'' (normal_names path)"
    using normal_names_ok by (intro foldl_path_push_root) auto
  then show ?thesis
    using l ensure_local_file [of l ?p] file_into_location_validated [OF out]
    by (simp add: to_native_path_def location_to_native_path_def)
qed

text \<open>a parent component of a native path is dropped, not resolved: the path \<open>/a/../b\<close>, which
  names \<open>/b\<close>, becomes the location of \<open>/a/b\<close>.\<close>

lemma from_native_path_drops_parent:
  "from_native_path uuid_ok ''/a/../b'' = from_native_path uuid_ok ''/a/b''"
  by (simp add: from_native_path_def native_path_to_location_def path_is_absolute_def path_components_def)

end
