(* ===== verification/Workspace_Model.thy ===== *)
theory Workspace_Model
  imports Location
begin

text \<open>
  The workspace data model of \<open>src/crates/fm-domain/src/workspace.rs\<close>: panes, tabs, the recursive
  layout tree and \<open>Workspace::validate\<close>, which collects every violated invariant. Identifiers are
  UUIDs that the code only creates and compares; they are natural numbers here. A finite \<open>f32\<close>
  is a multiple of two to the power -149, and \<open>Finite k\<close> stands for that multiple, so that comparisons are exact.
  Timestamps are the milliseconds of a UTC instant.
\<close>

type_synonym workspace_id = nat
type_synonym pane_id = nat
type_synonym tab_id = nat
type_synonym timestamp = int

section \<open>Constants\<close>

datatype f32 = Finite int | Infinite bool | NaN

definition CURRENT_WORKSPACE_SCHEMA_VERSION :: u32 where
  "CURRENT_WORKSPACE_SCHEMA_VERSION = 3"

definition MAX_NAVIGATION_HISTORY_LEN :: nat where
  "MAX_NAVIGATION_HISTORY_LEN = 100"

text \<open>The literals \<open>0.1\<close> and \<open>0.9\<close> as single-precision numbers: \<open>13421773 / 2^27\<close> and
  \<open>15099494 / 2^24\<close>.\<close>

definition SPLIT_RATIO_RANGE :: "int \<times> int" where
  "SPLIT_RATIO_RANGE = (13421773 * 2 ^ 122, 15099494 * 2 ^ 125)"

section \<open>Data\<close>

datatype directory_view_mode = Table | Grid

datatype icon_size = Small | Medium | Large

datatype sort_direction = Ascending | Descending

record sort_descriptor =
  sort_column_id :: string
  direction :: sort_direction

record column_configuration =
  column_id :: string
  width :: u32
  column_visible :: bool

record persisted_filter =
  query :: string

record directory_view_configuration =
  sort_by :: "sort_descriptor list"
  columns :: "column_configuration list"
  show_hidden :: bool
  folders_first :: bool
  quick_filter :: "persisted_filter option"
  view_mode :: directory_view_mode
  icon_size :: icon_size

record navigation_history =
  hist_back :: "location list"
  hist_forward :: "location list"

record tab_state =
  tab_id :: tab_id
  tab_location :: location
  title_override :: "string option"
  history :: navigation_history
  tab_view :: directory_view_configuration
  pinned :: bool

record pane_state =
  pane_id :: pane_id
  pane_title :: "string option"
  tabs :: "tab_state list"
  active_tab_id :: tab_id
  default_view :: directory_view_configuration

datatype split_axis = Horizontal | Vertical

datatype workspace_layout =
    Pane pane_id
  | Split split_axis f32 workspace_layout workspace_layout

record operation_centre_preferences =
  centre_visible :: bool
  height :: u32

record workspace =
  schema_version :: u32
  ws_id :: workspace_id
  ws_name :: string
  layout :: workspace_layout
  panes :: "pane_state list"
  active_pane_id :: pane_id
  operation_centre :: operation_centre_preferences
  created_at :: timestamp
  updated_at :: timestamp
  revision :: u64

datatype workspace_validation_error =
    DuplicatePaneId pane_id
  | DuplicateTabId pane_id tab_id
  | NoPanes
  | EmptyPane pane_id
  | ActivePaneNotFound pane_id
  | ActiveTabNotFound pane_id tab_id
  | LayoutReferencesUnknownPane pane_id
  | PaneMissingFromLayout pane_id
  | PaneDuplicatedInLayout pane_id
  | InvalidSplitRatio f32
  | InvalidLocation tab_id
  | NavigationHistoryExceedsBound tab_id nat
  | DuplicateColumnId pane_id "tab_id option" string
  | UnsupportedSchemaVersion u32

section \<open>Validation\<close>

text \<open>\<open>seen\<close> is the loop's hash set; a repeated column is reported at each repetition.\<close>

fun push_duplicate_column_errors_from ::
  "string list \<Rightarrow> pane_id \<Rightarrow> tab_id option \<Rightarrow> column_configuration list \<Rightarrow> workspace_validation_error list" where
  "push_duplicate_column_errors_from seen pid tid [] = []"
| "push_duplicate_column_errors_from seen pid tid (column # rest) =
    (if column_id column \<in> set seen then [DuplicateColumnId pid tid (column_id column)] else [])
    @ push_duplicate_column_errors_from (column_id column # seen) pid tid rest"

definition push_duplicate_column_errors ::
  "pane_id \<Rightarrow> tab_id option \<Rightarrow> column_configuration list \<Rightarrow> workspace_validation_error list" where
  "push_duplicate_column_errors = push_duplicate_column_errors_from []"

definition history_len :: "tab_state \<Rightarrow> nat" where
  "history_len tab = length (hist_back (history tab)) + length (hist_forward (history tab))"

fun validate_tabs :: "tab_id list \<Rightarrow> pane_id \<Rightarrow> tab_state list \<Rightarrow> workspace_validation_error list" where
  "validate_tabs seen pid [] = []"
| "validate_tabs seen pid (tab # rest) =
    (if tab_id tab \<in> set seen then [DuplicateTabId pid (tab_id tab)] else [])
    @ (if provider_id (tab_location tab) = [] \<or> uri (tab_location tab) = [] then [InvalidLocation (tab_id tab)] else [])
    @ (if MAX_NAVIGATION_HISTORY_LEN < history_len tab
       then [NavigationHistoryExceedsBound (tab_id tab) (history_len tab)] else [])
    @ push_duplicate_column_errors pid (Some (tab_id tab)) (columns (tab_view tab))
    @ validate_tabs (tab_id tab # seen) pid rest"

fun validate_panes :: "pane_id list \<Rightarrow> pane_state list \<Rightarrow> workspace_validation_error list" where
  "validate_panes seen [] = []"
| "validate_panes seen (pane # rest) =
    (if pane_id pane \<in> set seen then [DuplicatePaneId (pane_id pane)] else [])
    @ (if tabs pane = [] then [EmptyPane (pane_id pane)] else [])
    @ validate_tabs [] (pane_id pane) (tabs pane)
    @ (if list_ex (\<lambda>tab. tab_id tab = active_tab_id pane) (tabs pane) then []
       else [ActiveTabNotFound (pane_id pane) (active_tab_id pane)])
    @ push_duplicate_column_errors (pane_id pane) None (columns (default_view pane))
    @ validate_panes (pane_id pane # seen) rest"

fun ratio_allowed :: "f32 \<Rightarrow> bool" where
  "ratio_allowed (Finite k) \<longleftrightarrow> fst SPLIT_RATIO_RANGE \<le> k \<and> k \<le> snd SPLIT_RATIO_RANGE"
| "ratio_allowed (Infinite neg) \<longleftrightarrow> False"
| "ratio_allowed NaN \<longleftrightarrow> False"

text \<open>\<open>collect_layout_pane_ids\<close> extends two vectors; the pair holds what one call appends to them.\<close>

fun collect_layout_pane_ids :: "workspace_layout \<Rightarrow> pane_id list \<times> workspace_validation_error list" where
  "collect_layout_pane_ids (Pane pid) = ([pid], [])"
| "collect_layout_pane_ids (Split axis ratio fst_half snd_half) =
    (let (ids1, errs1) = collect_layout_pane_ids fst_half;
         (ids2, errs2) = collect_layout_pane_ids snd_half
     in (ids1 @ ids2, (if ratio_allowed ratio then [] else [InvalidSplitRatio ratio]) @ errs1 @ errs2))"

definition layout_count_errors :: "pane_id list \<Rightarrow> pane_state list \<Rightarrow> workspace_validation_error list" where
  "layout_count_errors ids ps = concat (map (\<lambda>pane.
     let n = length (filter (\<lambda>i. i = pane_id pane) ids)
     in if n = 0 then [PaneMissingFromLayout (pane_id pane)]
        else if n = 1 then [] else [PaneDuplicatedInLayout (pane_id pane)]) ps)"

fun unknown_layout_errors :: "pane_id list \<Rightarrow> pane_state list \<Rightarrow> pane_id list \<Rightarrow> workspace_validation_error list" where
  "unknown_layout_errors reported ps [] = []"
| "unknown_layout_errors reported ps (i # ids) =
    (if list_ex (\<lambda>pane. pane_id pane = i) ps then unknown_layout_errors reported ps ids
     else (if i \<in> set reported then [] else [LayoutReferencesUnknownPane i])
       @ unknown_layout_errors (i # reported) ps ids)"

definition validation_errors :: "workspace \<Rightarrow> workspace_validation_error list" where
  "validation_errors w =
    (if CURRENT_WORKSPACE_SCHEMA_VERSION < schema_version w
     then [UnsupportedSchemaVersion (schema_version w)] else [])
    @ (if panes w = [] then [NoPanes] else [])
    @ validate_panes [] (panes w)
    @ (if list_ex (\<lambda>pane. pane_id pane = active_pane_id w) (panes w) then []
       else [ActivePaneNotFound (active_pane_id w)])
    @ (let (ids, ratio_errors) = collect_layout_pane_ids (layout w)
       in ratio_errors @ layout_count_errors ids (panes w) @ unknown_layout_errors [] (panes w) ids)"

definition validate :: "workspace \<Rightarrow> workspace_validation_error list + unit" where
  "validate w = (let errors = validation_errors w in if errors = [] then Inr () else Inl errors)"

section \<open>What each violation means\<close>

fun layout_pane_ids :: "workspace_layout \<Rightarrow> pane_id list" where
  "layout_pane_ids (Pane pid) = [pid]"
| "layout_pane_ids (Split axis ratio l r) = layout_pane_ids l @ layout_pane_ids r"

fun layout_ratios :: "workspace_layout \<Rightarrow> f32 list" where
  "layout_ratios (Pane pid) = []"
| "layout_ratios (Split axis ratio l r) = ratio # layout_ratios l @ layout_ratios r"

abbreviation pane_ids :: "workspace \<Rightarrow> pane_id list" where
  "pane_ids w \<equiv> map pane_id (panes w)"

text \<open>The declarative reading of each error: which fact about the workspace it reports.\<close>

fun violates :: "workspace \<Rightarrow> workspace_validation_error \<Rightarrow> bool" where
  "violates w (DuplicatePaneId p) \<longleftrightarrow> 2 \<le> count_list (pane_ids w) p"
| "violates w (DuplicateTabId p t) \<longleftrightarrow>
    (\<exists>pane\<in>set (panes w). pane_id pane = p \<and> 2 \<le> count_list (map tab_id (tabs pane)) t)"
| "violates w NoPanes \<longleftrightarrow> panes w = []"
| "violates w (EmptyPane p) \<longleftrightarrow> (\<exists>pane\<in>set (panes w). pane_id pane = p \<and> tabs pane = [])"
| "violates w (ActivePaneNotFound p) \<longleftrightarrow> p = active_pane_id w \<and> p \<notin> set (pane_ids w)"
| "violates w (ActiveTabNotFound p t) \<longleftrightarrow>
    (\<exists>pane\<in>set (panes w). pane_id pane = p \<and> active_tab_id pane = t \<and> t \<notin> tab_id ` set (tabs pane))"
| "violates w (LayoutReferencesUnknownPane p) \<longleftrightarrow> p \<in> set (layout_pane_ids (layout w)) \<and> p \<notin> set (pane_ids w)"
| "violates w (PaneMissingFromLayout p) \<longleftrightarrow> p \<in> set (pane_ids w) \<and> p \<notin> set (layout_pane_ids (layout w))"
| "violates w (PaneDuplicatedInLayout p) \<longleftrightarrow>
    p \<in> set (pane_ids w) \<and> 2 \<le> count_list (layout_pane_ids (layout w)) p"
| "violates w (InvalidSplitRatio r) \<longleftrightarrow> r \<in> set (layout_ratios (layout w)) \<and> \<not> ratio_allowed r"
| "violates w (InvalidLocation t) \<longleftrightarrow>
    (\<exists>pane\<in>set (panes w). \<exists>tab\<in>set (tabs pane). tab_id tab = t
      \<and> (provider_id (tab_location tab) = [] \<or> uri (tab_location tab) = []))"
| "violates w (NavigationHistoryExceedsBound t n) \<longleftrightarrow>
    (\<exists>pane\<in>set (panes w). \<exists>tab\<in>set (tabs pane). tab_id tab = t \<and> history_len tab = n
      \<and> MAX_NAVIGATION_HISTORY_LEN < n)"
| "violates w (DuplicateColumnId p None c) \<longleftrightarrow>
    (\<exists>pane\<in>set (panes w). pane_id pane = p \<and> 2 \<le> count_list (map column_id (columns (default_view pane))) c)"
| "violates w (DuplicateColumnId p (Some t) c) \<longleftrightarrow>
    (\<exists>pane\<in>set (panes w). pane_id pane = p
      \<and> (\<exists>tab\<in>set (tabs pane). tab_id tab = t \<and> 2 \<le> count_list (map column_id (columns (tab_view tab))) c))"
| "violates w (UnsupportedSchemaVersion v) \<longleftrightarrow>
    v = schema_version w \<and> CURRENT_WORKSPACE_SCHEMA_VERSION < v"

section \<open>The checks report exactly the violations\<close>

lemma count_list_ge_2: "2 \<le> count_list (x # xs) y \<longleftrightarrow> 2 \<le> count_list xs y \<or> (x = y \<and> y \<in> set xs)"
  using count_list_0_iff [of xs y] by (auto simp: Suc_le_eq)

lemma list_ex_key: "list_ex (\<lambda>x. f x = k) xs \<longleftrightarrow> k \<in> f ` set xs"
  by (auto simp: list_ex_iff)

lemma push_duplicate_columns_set:
  "e \<in> set (push_duplicate_column_errors_from seen p t cs) \<longleftrightarrow>
    (\<exists>c. e = DuplicateColumnId p t c
      \<and> (c \<in> set seen \<and> c \<in> column_id ` set cs \<or> 2 \<le> count_list (map column_id cs) c))"
proof (induction cs arbitrary: seen)
  case (Cons c cs)
  show ?case unfolding list.map count_list_ge_2 by (auto simp: Cons)
qed simp

lemma validate_tabs_set:
  "e \<in> set (validate_tabs seen p ts) \<longleftrightarrow>
    (\<exists>t. e = DuplicateTabId p t
      \<and> (t \<in> set seen \<and> t \<in> tab_id ` set ts \<or> 2 \<le> count_list (map tab_id ts) t))
    \<or> (\<exists>tab\<in>set ts. e = InvalidLocation (tab_id tab)
      \<and> (provider_id (tab_location tab) = [] \<or> uri (tab_location tab) = []))
    \<or> (\<exists>tab\<in>set ts. e = NavigationHistoryExceedsBound (tab_id tab) (history_len tab)
      \<and> MAX_NAVIGATION_HISTORY_LEN < history_len tab)
    \<or> (\<exists>tab\<in>set ts. e \<in> set (push_duplicate_column_errors p (Some (tab_id tab)) (columns (tab_view tab))))"
proof (induction ts arbitrary: seen)
  case (Cons t ts)
  show ?case
    unfolding list.map count_list_ge_2 validate_tabs.simps set_append Un_iff Cons list.set bex_simps(5)
    by (simp split: if_split) blast
qed simp

lemma validate_panes_set:
  "e \<in> set (validate_panes seen ps) \<longleftrightarrow>
    (\<exists>p. e = DuplicatePaneId p \<and> (p \<in> set seen \<and> p \<in> pane_id ` set ps \<or> 2 \<le> count_list (map pane_id ps) p))
    \<or> (\<exists>pane\<in>set ps. e = EmptyPane (pane_id pane) \<and> tabs pane = [])
    \<or> (\<exists>pane\<in>set ps. e \<in> set (validate_tabs [] (pane_id pane) (tabs pane)))
    \<or> (\<exists>pane\<in>set ps. e = ActiveTabNotFound (pane_id pane) (active_tab_id pane)
      \<and> active_tab_id pane \<notin> tab_id ` set (tabs pane))
    \<or> (\<exists>pane\<in>set ps. e \<in> set (push_duplicate_column_errors (pane_id pane) None (columns (default_view pane))))"
proof (induction ps arbitrary: seen)
  case (Cons p ps)
  show ?case
    unfolding list.map count_list_ge_2 validate_panes.simps set_append Un_iff Cons list.set bex_simps(5)
    by (simp add: list_ex_key split: if_split) blast
qed simp

lemma collect_layout_pane_ids_eq:
  "collect_layout_pane_ids l =
    (layout_pane_ids l, map InvalidSplitRatio (filter (\<lambda>r. \<not> ratio_allowed r) (layout_ratios l)))"
  by (induction l) auto

lemma filter_count: "length (filter (\<lambda>i. i = x) xs) = count_list xs x"
  by (induction xs) auto

lemma layout_count_errors_set:
  "e \<in> set (layout_count_errors ids ps) \<longleftrightarrow>
    (\<exists>pane\<in>set ps. e = PaneMissingFromLayout (pane_id pane) \<and> pane_id pane \<notin> set ids
      \<or> e = PaneDuplicatedInLayout (pane_id pane) \<and> 2 \<le> count_list ids (pane_id pane))"
proof -
  have pane: "e \<in> set (if n = 0 then [PaneMissingFromLayout i] else if n = 1 then [] else [PaneDuplicatedInLayout i])
      \<longleftrightarrow> e = PaneMissingFromLayout i \<and> n = 0 \<or> e = PaneDuplicatedInLayout i \<and> 2 \<le> n" for n :: nat and i
    by auto
  show ?thesis
    by (simp only: layout_count_errors_def Let_def filter_count set_concat set_map
        UN_iff bex_simps(7) pane) (simp only: count_list_0_iff)
qed

lemma unknown_layout_errors_set:
  "e \<in> set (unknown_layout_errors reported ps ids) \<longleftrightarrow>
    (\<exists>i. e = LayoutReferencesUnknownPane i \<and> i \<in> set ids \<and> i \<notin> pane_id ` set ps \<and> i \<notin> set reported)"
  by (induction ids arbitrary: reported) (auto simp: list_ex_iff)

lemma validation_errors_violates: "e \<in> set (validation_errors w) \<longleftrightarrow> violates w e"
  unfolding validation_errors_def collect_layout_pane_ids_eq
  by (cases "(w, e)" rule: violates.cases)
    (auto simp: validate_panes_set validate_tabs_set push_duplicate_column_errors_def
      push_duplicate_columns_set layout_count_errors_set unknown_layout_errors_set list_ex_key)

section \<open>Validity\<close>

definition tab_ok :: "tab_state \<Rightarrow> bool" where
  "tab_ok tab \<longleftrightarrow> provider_id (tab_location tab) \<noteq> [] \<and> uri (tab_location tab) \<noteq> []
    \<and> history_len tab \<le> MAX_NAVIGATION_HISTORY_LEN
    \<and> distinct (map column_id (columns (tab_view tab)))"

definition pane_ok :: "pane_state \<Rightarrow> bool" where
  "pane_ok pane \<longleftrightarrow> tabs pane \<noteq> [] \<and> distinct (map tab_id (tabs pane))
    \<and> list_all tab_ok (tabs pane)
    \<and> active_tab_id pane \<in> tab_id ` set (tabs pane)
    \<and> distinct (map column_id (columns (default_view pane)))"

definition layout_ok :: "workspace_layout \<Rightarrow> pane_id list \<Rightarrow> bool" where
  "layout_ok l ids \<longleftrightarrow> list_all ratio_allowed (layout_ratios l)
    \<and> distinct (layout_pane_ids l) \<and> set (layout_pane_ids l) = set ids"

definition workspace_ok :: "workspace \<Rightarrow> bool" where
  "workspace_ok w \<longleftrightarrow> schema_version w \<le> CURRENT_WORKSPACE_SCHEMA_VERSION
    \<and> panes w \<noteq> [] \<and> distinct (pane_ids w) \<and> list_all pane_ok (panes w)
    \<and> active_pane_id w \<in> set (pane_ids w)
    \<and> layout_ok (layout w) (pane_ids w)"

lemma distinct_count_list: "distinct xs \<longleftrightarrow> (\<forall>x. \<not> 2 \<le> count_list xs x)"
proof (induction xs)
  case (Cons x xs)
  show ?case unfolding count_list_ge_2 distinct.simps Cons by blast
qed simp

lemma push_duplicate_columns_Nil:
  "push_duplicate_column_errors p t cs = [] \<longleftrightarrow> distinct (map column_id cs)"
proof -
  have "push_duplicate_column_errors p t cs = [] \<longleftrightarrow> (\<forall>e. e \<notin> set (push_duplicate_column_errors p t cs))"
    by (metis list.set_intros(1) neq_Nil_conv empty_iff list.set(1))
  then show ?thesis
    unfolding push_duplicate_column_errors_def push_duplicate_columns_set distinct_count_list by auto
qed

lemma validate_tabs_Nil:
  "validate_tabs seen p ts = [] \<longleftrightarrow>
    distinct (map tab_id ts) \<and> set seen \<inter> tab_id ` set ts = {} \<and> list_all tab_ok ts"
  by (induction ts arbitrary: seen) (auto simp: push_duplicate_columns_Nil tab_ok_def)

lemma validate_panes_Nil:
  "validate_panes seen ps = [] \<longleftrightarrow>
    distinct (map pane_id ps) \<and> set seen \<inter> pane_id ` set ps = {} \<and> list_all pane_ok ps"
  by (induction ps arbitrary: seen)
    (auto simp: push_duplicate_columns_Nil validate_tabs_Nil pane_ok_def list_ex_key)

lemma layout_errors_Nil:
  "layout_count_errors ids ps = [] \<and> unknown_layout_errors [] ps ids = [] \<longleftrightarrow>
    distinct ids \<and> set ids = pane_id ` set ps"
proof -
  have Nil: "xs = [] \<longleftrightarrow> (\<forall>e. e \<notin> set xs)" for xs :: "workspace_validation_error list"
    by (cases xs) auto
  have "layout_count_errors ids ps = [] \<longleftrightarrow>
      (\<forall>i\<in>pane_id ` set ps. i \<in> set ids \<and> \<not> 2 \<le> count_list ids i)"
    unfolding Nil layout_count_errors_set by blast
  moreover have "unknown_layout_errors [] ps ids = [] \<longleftrightarrow> set ids \<subseteq> pane_id ` set ps"
    unfolding Nil unknown_layout_errors_set by auto
  moreover have "2 \<le> count_list ids i \<Longrightarrow> i \<in> set ids" for i
    using count_list_0_iff [of ids i] by auto
  ultimately show ?thesis unfolding distinct_count_list by blast
qed

lemma validation_errors_Nil: "validation_errors w = [] \<longleftrightarrow> workspace_ok w"
  using layout_errors_Nil [of "layout_pane_ids (layout w)" "panes w"]
  by (auto simp: validation_errors_def collect_layout_pane_ids_eq workspace_ok_def layout_ok_def
      validate_panes_Nil list_ex_key filter_empty_conv list_all_iff)

lemma validate_Inr [result_simps]: "validate w = Inr u \<longleftrightarrow> workspace_ok w"
  by (simp add: validate_def Let_def validation_errors_Nil)

section \<open>Properties\<close>

text \<open>C30: validation is complete and sound. \<open>Workspace::validate\<close> accepts a workspace exactly when no
  invariant is violated, and otherwise returns a non-empty list that contains an error if and
  only if the workspace really violates what that error names: every violation is reported, no
  error is spurious.\<close>

theorem validate_reports_violations:
  "case validate w of
     Inr _ \<Rightarrow> (\<nexists>e. violates w e)
   | Inl errors \<Rightarrow> errors \<noteq> [] \<and> (\<forall>e. e \<in> set errors \<longleftrightarrow> violates w e)"
  by (auto simp: validate_def Let_def validation_errors_violates [symmetric])

text \<open>a workspace passes validation exactly when its schema is known, it has panes with distinct
  ids and well-formed tabs, the active pane exists, and the layout tree shows every pane exactly
  once with split ratios inside the allowed range.\<close>

lemma validate_ok_iff:
  "is_ok (validate w) \<longleftrightarrow> workspace_ok w"
  by (simp add: validate_def Let_def validation_errors_Nil)

end
