(* ===== verification/Workspace_Command.thy ===== *)
theory Workspace_Command
  imports Workspace_Model
begin

text \<open>
  The semantic workspace commands of \<open>src/crates/fm-domain/src/workspace_command.rs\<close>, their
  application to a loaded workspace (\<open>src/crates/fm-application/src/workspace/command.rs\<close>) and the
  default workspace (\<open>default_workspace.rs\<close>). The identifiers drawn by \<open>TabId::new\<close>, \<open>PaneId::new\<close>
  and \<open>WorkspaceId::new\<close> and the clock reading of \<open>Utc::now\<close> are arguments. \<open>command::apply\<close> mutates a
  workspace its caller owns and drops on an error, so the model returns the changed workspace or
  the error.
\<close>

section \<open>Commands and errors\<close>

datatype navigation_mode = Push | Back | Forward | Refresh

datatype quick_filter_patch = Clear | Set persisted_filter

record directory_view_patch =
  patch_sort :: "sort_descriptor list option"
  patch_columns :: "column_configuration list option"
  patch_show_hidden :: "bool option"
  patch_folders_first :: "bool option"
  patch_quick_filter :: "quick_filter_patch option"
  patch_view_mode :: "directory_view_mode option"
  patch_icon_size :: "icon_size option"

datatype workspace_command =
    RenameWorkspace workspace_id string u64
  | SetActivePane workspace_id pane_id u64
  | AddTab workspace_id pane_id location u64
  | CloseTab workspace_id pane_id tab_id u64
  | ActivateTab workspace_id pane_id tab_id u64
  | NavigateTab workspace_id pane_id tab_id "location option" navigation_mode u64
  | UpdateView workspace_id pane_id tab_id directory_view_patch u64
  | UpdateLayout workspace_id workspace_layout u64

fun command_workspace_id :: "workspace_command \<Rightarrow> workspace_id" where
  "command_workspace_id (RenameWorkspace w n r) = w"
| "command_workspace_id (SetActivePane w p r) = w"
| "command_workspace_id (AddTab w p l r) = w"
| "command_workspace_id (CloseTab w p t r) = w"
| "command_workspace_id (ActivateTab w p t r) = w"
| "command_workspace_id (NavigateTab w p t l m r) = w"
| "command_workspace_id (UpdateView w p t v r) = w"
| "command_workspace_id (UpdateLayout w l r) = w"

fun expected_revision :: "workspace_command \<Rightarrow> u64" where
  "expected_revision (RenameWorkspace w n r) = r"
| "expected_revision (SetActivePane w p r) = r"
| "expected_revision (AddTab w p l r) = r"
| "expected_revision (CloseTab w p t r) = r"
| "expected_revision (ActivateTab w p t r) = r"
| "expected_revision (NavigateTab w p t l m r) = r"
| "expected_revision (UpdateView w p t v r) = r"
| "expected_revision (UpdateLayout w l r) = r"

datatype workspace_error =
    NotFound workspace_id
  | RevisionConflict workspace_id "u64 option" u64
  | Invalid "workspace_validation_error list"
  | UnsupportedSchema u32
  | Corrupt string string
  | Io string
  | Serialization string
  | PaneNotFound workspace_id pane_id
  | TabNotFound workspace_id pane_id tab_id
  | InvalidCommand string
  | DuplicateName string

section \<open>The default workspace\<close>

definition location_for :: "(string \<Rightarrow> bool) \<Rightarrow> string \<Rightarrow> location" where
  "location_for uuid_ok path =
    (case from_native_path uuid_ok path of Inr l \<Rightarrow> l | Inl _ \<Rightarrow> location_new ''local'' ''file:///'')"

definition default_directory_view :: directory_view_configuration where
  "default_directory_view = \<lparr>
     sort_by = [\<lparr>sort_column_id = ''core.name'', direction = Ascending\<rparr>],
     columns = [\<lparr>column_id = ''core.name'', width = 360, column_visible = True\<rparr>,
                \<lparr>column_id = ''core.size'', width = 100, column_visible = True\<rparr>,
                \<lparr>column_id = ''core.modified'', width = 170, column_visible = True\<rparr>],
     show_hidden = False, folders_first = True, quick_filter = None,
     view_mode = Table, icon_size = Medium\<rparr>"

definition build_tab :: "tab_id \<Rightarrow> location \<Rightarrow> tab_state" where
  "build_tab new_id loc = \<lparr>tab_id = new_id, tab_location = loc, title_override = None,
     history = \<lparr>hist_back = [], hist_forward = []\<rparr>, tab_view = default_directory_view, pinned = False\<rparr>"

definition default_pane :: "pane_id \<Rightarrow> tab_id \<Rightarrow> location \<Rightarrow> pane_state" where
  "default_pane new_pane new_tab loc =
    (let tab = build_tab new_tab loc
     in \<lparr>pane_id = new_pane, pane_title = None, tabs = [tab], active_tab_id = tab_id tab,
         default_view = default_directory_view\<rparr>)"

record fresh_ids =
  fresh_workspace :: workspace_id
  fresh_left :: pane_id
  fresh_right :: pane_id
  fresh_left_tab :: tab_id
  fresh_right_tab :: tab_id

definition default_workspace ::
  "(string \<Rightarrow> bool) \<Rightarrow> fresh_ids \<Rightarrow> timestamp \<Rightarrow> string \<Rightarrow> string option \<Rightarrow> workspace" where
  "default_workspace uuid_ok ids now home_directory secondary_location =
    (let left = default_pane (fresh_left ids) (fresh_left_tab ids) (location_for uuid_ok home_directory);
         right = default_pane (fresh_right ids) (fresh_right_tab ids)
           (location_for uuid_ok (case secondary_location of Some p \<Rightarrow> p | None \<Rightarrow> home_directory))
     in \<lparr>schema_version = CURRENT_WORKSPACE_SCHEMA_VERSION, ws_id = fresh_workspace ids,
         ws_name = ''Default'',
         layout = Split Horizontal (Finite (2 ^ 148)) (Pane (pane_id left)) (Pane (pane_id right)),
         panes = [left, right], active_pane_id = pane_id left,
         operation_centre = \<lparr>centre_visible = False, height = 240\<rparr>,
         created_at = now, updated_at = now, revision = 1\<rparr>)"

section \<open>Finding panes and tabs\<close>

definition find_pane :: "workspace \<Rightarrow> pane_id \<Rightarrow> workspace_error + pane_state" where
  "find_pane w p = ok_or (PaneNotFound (ws_id w) p) (List.find (\<lambda>pane. pane_id pane = p) (panes w))"

definition find_tab :: "pane_state \<Rightarrow> workspace_id \<Rightarrow> tab_id \<Rightarrow> workspace_error + tab_state" where
  "find_tab pane w t =
    ok_or (TabNotFound w (pane_id pane) t) (List.find (\<lambda>tab. tab_id tab = t) (tabs pane))"

text \<open>\<open>find_pane_mut\<close> and \<open>find_tab_mut\<close> lend the element to the code that updates it; here that
  code is the argument \<open>f\<close>.\<close>

definition find_pane_mut ::
  "workspace \<Rightarrow> pane_id \<Rightarrow> (pane_state \<Rightarrow> workspace_error + pane_state) \<Rightarrow> workspace_error + workspace" where
  "find_pane_mut w p f =
    and_then (update_first (\<lambda>pane. pane_id pane = p) (PaneNotFound (ws_id w) p) f (panes w))
      (\<lambda>ps. Inr (w\<lparr>panes := ps\<rparr>))"

definition find_tab_mut ::
  "workspace \<Rightarrow> pane_id \<Rightarrow> tab_id \<Rightarrow> (tab_state \<Rightarrow> workspace_error + tab_state) \<Rightarrow> workspace_error + workspace" where
  "find_tab_mut w p t f =
    find_pane_mut w p (\<lambda>pane.
      and_then (update_first (\<lambda>tab. tab_id tab = t) (TabNotFound (ws_id w) p t) f (tabs pane))
        (\<lambda>ts. Inr (pane\<lparr>tabs := ts\<rparr>)))"

section \<open>Closing a tab\<close>

fun position :: "('a \<Rightarrow> bool) \<Rightarrow> 'a list \<Rightarrow> nat option" where
  "position P [] = None"
| "position P (x # xs) = (if P x then Some 0 else map_option Suc (position P xs))"

definition remove_at :: "nat \<Rightarrow> 'a list \<Rightarrow> 'a list" where
  "remove_at i xs = take i xs @ drop (Suc i) xs"

definition close_tab_in ::
  "(string \<Rightarrow> bool) \<Rightarrow> string \<Rightarrow> tab_id \<Rightarrow> workspace_id \<Rightarrow> pane_id \<Rightarrow> tab_id \<Rightarrow> pane_state
    \<Rightarrow> workspace_error + pane_state" where
  "close_tab_in uuid_ok home_directory new_id w p t pane =
    and_then (ok_or (TabNotFound w p t) (position (\<lambda>tab. tab_id tab = t) (tabs pane))) (\<lambda>pos.
      let was_active = active_tab_id pane = t;
          rest = remove_at pos (tabs pane)
      in if rest = [] then
           let replacement = (build_tab new_id (location_for uuid_ok home_directory))\<lparr>tab_view := default_view pane\<rparr>
           in Inr (pane\<lparr>tabs := [replacement], active_tab_id := tab_id replacement\<rparr>)
         else if was_active then Inr (pane\<lparr>tabs := rest, active_tab_id := tab_id (rest ! (pos - 1))\<rparr>)
         else Inr (pane\<lparr>tabs := rest\<rparr>))"

definition close_tab ::
  "(string \<Rightarrow> bool) \<Rightarrow> string \<Rightarrow> tab_id \<Rightarrow> workspace \<Rightarrow> pane_id \<Rightarrow> tab_id \<Rightarrow> workspace_error + workspace" where
  "close_tab uuid_ok home_directory new_id w p t =
    find_pane_mut w p (close_tab_in uuid_ok home_directory new_id (ws_id w) p t)"

section \<open>Navigation\<close>

definition push_history_entry :: "location list \<Rightarrow> location \<Rightarrow> location list" where
  "push_history_entry stack loc = (if stack \<noteq> [] \<and> last stack = loc then stack else stack @ [loc])"

function enforce_history_bound :: "navigation_history \<Rightarrow> navigation_history" where
  "enforce_history_bound h =
    (if MAX_NAVIGATION_HISTORY_LEN < length (hist_back h) + length (hist_forward h) then
       if hist_back h \<noteq> [] then enforce_history_bound (h\<lparr>hist_back := tl (hist_back h)\<rparr>)
       else if hist_forward h \<noteq> [] then enforce_history_bound (h\<lparr>hist_forward := tl (hist_forward h)\<rparr>)
       else h
     else h)"
  by pat_completeness auto
termination
  by (relation "measure (\<lambda>h. length (hist_back h) + length (hist_forward h))") auto

declare enforce_history_bound.simps [simp del]

definition navigate ::
  "tab_state \<Rightarrow> location option \<Rightarrow> navigation_mode \<Rightarrow> workspace_error + tab_state" where
  "navigate tab target mode =
    (let h = history tab in
     case mode of
       Push \<Rightarrow> and_then (ok_or (InvalidCommand ''push navigation requires an explicit location'') target)
         (\<lambda>loc. let b = (if tab_location tab \<noteq> loc then push_history_entry (hist_back h) (tab_location tab)
                         else hist_back h)
           in Inr (tab\<lparr>tab_location := loc,
                history := enforce_history_bound \<lparr>hist_back = b, hist_forward = []\<rparr>\<rparr>))
     | Back \<Rightarrow> (if hist_back h = [] then Inr tab
         else Inr (tab\<lparr>tab_location := last (hist_back h),
           history := enforce_history_bound \<lparr>hist_back = butlast (hist_back h),
             hist_forward = push_history_entry (hist_forward h) (tab_location tab)\<rparr>\<rparr>))
     | Forward \<Rightarrow> (if hist_forward h = [] then Inr tab
         else Inr (tab\<lparr>tab_location := last (hist_forward h),
           history := enforce_history_bound \<lparr>
             hist_back = push_history_entry (hist_back h) (tab_location tab),
             hist_forward = butlast (hist_forward h)\<rparr>\<rparr>))
     | Refresh \<Rightarrow> and_then (ok_or (InvalidCommand ''refresh navigation requires an explicit location'') target)
         (\<lambda>loc. Inr (tab\<lparr>tab_location := loc\<rparr>)))"

section \<open>Patching a view\<close>

fun apply_quick_filter_patch :: "quick_filter_patch \<Rightarrow> persisted_filter option" where
  "apply_quick_filter_patch Clear = None"
| "apply_quick_filter_patch (Set new) = Some new"

definition patched :: "'a \<Rightarrow> 'a option \<Rightarrow> 'a" where
  "patched old new = (case new of Some x \<Rightarrow> x | None \<Rightarrow> old)"

definition apply_view_patch ::
  "directory_view_configuration \<Rightarrow> directory_view_patch \<Rightarrow> directory_view_configuration" where
  "apply_view_patch view patch = \<lparr>
     sort_by = patched (sort_by view) (patch_sort patch),
     columns = patched (columns view) (patch_columns patch),
     show_hidden = patched (show_hidden view) (patch_show_hidden patch),
     folders_first = patched (folders_first view) (patch_folders_first patch),
     quick_filter = patched (quick_filter view) (map_option apply_quick_filter_patch (patch_quick_filter patch)),
     view_mode = patched (view_mode view) (patch_view_mode patch),
     icon_size = patched (icon_size view) (patch_icon_size patch)\<rparr>"

section \<open>Applying a command\<close>

fun mutate ::
  "(string \<Rightarrow> bool) \<Rightarrow> string \<Rightarrow> tab_id \<Rightarrow> workspace \<Rightarrow> workspace_command \<Rightarrow> workspace_error + workspace" where
  "mutate uuid_ok home new_id w (RenameWorkspace _ n _) =
    (if trim n = [] then Inl (InvalidCommand ''workspace name must not be empty'')
     else Inr (w\<lparr>ws_name := n\<rparr>))"
| "mutate uuid_ok home new_id w (SetActivePane _ p _) =
    and_then (find_pane w p) (\<lambda>_. Inr (w\<lparr>active_pane_id := p\<rparr>))"
| "mutate uuid_ok home new_id w (AddTab _ p loc _) =
    find_pane_mut w p (\<lambda>pane.
      let tab = (build_tab new_id loc)\<lparr>tab_view := default_view pane\<rparr>
      in Inr (pane\<lparr>active_tab_id := tab_id tab, tabs := tabs pane @ [tab]\<rparr>))"
| "mutate uuid_ok home new_id w (CloseTab _ p t _) = close_tab uuid_ok home new_id w p t"
| "mutate uuid_ok home new_id w (ActivateTab _ p t _) =
    find_pane_mut (w\<lparr>active_pane_id := p\<rparr>) p (\<lambda>pane.
      if list_ex (\<lambda>tab. tab_id tab = t) (tabs pane) then Inr (pane\<lparr>active_tab_id := t\<rparr>)
      else Inl (TabNotFound (ws_id w) p t))"
| "mutate uuid_ok home new_id w (NavigateTab _ p t loc mode _) =
    find_tab_mut w p t (\<lambda>tab. navigate tab loc mode)"
| "mutate uuid_ok home new_id w (UpdateView _ p t patch _) =
    find_tab_mut w p t (\<lambda>tab. Inr (tab\<lparr>tab_view := apply_view_patch (tab_view tab) patch\<rparr>))"
| "mutate uuid_ok home new_id w (UpdateLayout _ l _) = Inr (w\<lparr>layout := l\<rparr>)"

definition apply_command_to ::
  "(string \<Rightarrow> bool) \<Rightarrow> string \<Rightarrow> tab_id \<Rightarrow> workspace \<Rightarrow> workspace_command \<Rightarrow> workspace_error + workspace" where
  "apply_command_to uuid_ok home new_id w command =
    and_then (mutate uuid_ok home new_id w command)
      (\<lambda>w'. and_then (map_err Invalid (validate w')) (\<lambda>_. Inr w'))"

section \<open>History\<close>

lemma enforce_history_bound_le:
  "length (hist_back (enforce_history_bound h)) + length (hist_forward (enforce_history_bound h))
    \<le> MAX_NAVIGATION_HISTORY_LEN"
proof (induction h rule: enforce_history_bound.induct)
  case (1 h)
  then show ?case by (subst (1 2) enforce_history_bound.simps) (auto simp: not_less)
qed

lemma enforce_history_bound_id:
  "length (hist_back h) + length (hist_forward h) \<le> MAX_NAVIGATION_HISTORY_LEN \<Longrightarrow>
   enforce_history_bound h = h"
  by (subst enforce_history_bound.simps) simp

lemma enforce_history_bound_suffix:
  "\<exists>m n. hist_back (enforce_history_bound h) = drop m (hist_back h)
    \<and> hist_forward (enforce_history_bound h) = drop n (hist_forward h)"
proof (induction h rule: enforce_history_bound.induct)
  case (1 h)
  show ?case
  proof (cases "length (hist_back h) + length (hist_forward h) \<le> MAX_NAVIGATION_HISTORY_LEN
      \<or> hist_back h = [] \<and> hist_forward h = []")
    case True
    then have "enforce_history_bound h = h" by (subst enforce_history_bound.simps) auto
    then show ?thesis by (metis drop0)
  next
    case False
    then show ?thesis using 1
      by (subst (1 2) enforce_history_bound.simps) (auto simp: not_le drop_Suc [symmetric] intro: exI [of _ 0])
  qed
qed

section \<open>Soundness\<close>

definition loc_ok :: "location \<Rightarrow> bool" where
  "loc_ok l \<longleftrightarrow> provider_id l \<noteq> [] \<and> uri l \<noteq> []"

definition history_sound :: "tab_state \<Rightarrow> bool" where
  "history_sound tab \<longleftrightarrow> list_all loc_ok (hist_back (history tab) @ hist_forward (history tab))"

definition histories_sound :: "workspace \<Rightarrow> bool" where
  "histories_sound w \<longleftrightarrow> list_all (\<lambda>pane. list_all history_sound (tabs pane)) (panes w)"

definition workspace_sound :: "workspace \<Rightarrow> bool" where
  "workspace_sound w \<longleftrightarrow> workspace_ok w \<and> histories_sound w"

definition has_tab :: "workspace \<Rightarrow> pane_id \<Rightarrow> tab_id \<Rightarrow> bool" where
  "has_tab w p t \<longleftrightarrow> (\<exists>pane\<in>set (panes w). pane_id pane = p \<and> t \<in> tab_id ` set (tabs pane))"

fun addressed :: "workspace \<Rightarrow> workspace_command \<Rightarrow> bool" where
  "addressed w (RenameWorkspace _ n _) \<longleftrightarrow> trim n \<noteq> []"
| "addressed w (SetActivePane _ p _) \<longleftrightarrow> p \<in> set (pane_ids w)"
| "addressed w (AddTab _ p loc _) \<longleftrightarrow> p \<in> set (pane_ids w)"
| "addressed w (CloseTab _ p t _) \<longleftrightarrow> has_tab w p t"
| "addressed w (ActivateTab _ p t _) \<longleftrightarrow> has_tab w p t"
| "addressed w (NavigateTab _ p t loc mode _) \<longleftrightarrow> has_tab w p t \<and> (loc = None \<longrightarrow> mode \<in> {Back, Forward})"
| "addressed w (UpdateView _ p t patch _) \<longleftrightarrow> has_tab w p t"
| "addressed w (UpdateLayout _ l _) \<longleftrightarrow> True"

fun payload_ok :: "workspace \<Rightarrow> workspace_command \<Rightarrow> bool" where
  "payload_ok w (AddTab _ p loc _) \<longleftrightarrow> loc_ok loc"
| "payload_ok w (NavigateTab _ p t loc mode _) \<longleftrightarrow> mode \<in> {Push, Refresh} \<longrightarrow> (\<forall>l. loc = Some l \<longrightarrow> loc_ok l)"
| "payload_ok w (UpdateView _ p t patch _) \<longleftrightarrow> (\<forall>cs. patch_columns patch = Some cs \<longrightarrow> distinct (map column_id cs))"
| "payload_ok w (UpdateLayout _ l _) \<longleftrightarrow> layout_ok l (pane_ids w)"
| "payload_ok w _ \<longleftrightarrow> True"

lemma loc_ok_new: "p \<noteq> [] \<Longrightarrow> u \<noteq> [] \<Longrightarrow> loc_ok (location_new p u)"
  by (simp add: loc_ok_def location_new_def)

lemma find_pane_mut_Inr:
  "find_pane_mut w p f = Inr w' \<longleftrightarrow>
    (\<exists>as pane bs pane'. panes w = as @ pane # bs \<and> (\<forall>a\<in>set as. pane_id a \<noteq> p) \<and> pane_id pane = p
      \<and> f pane = Inr pane' \<and> w' = w\<lparr>panes := as @ pane' # bs\<rparr>)"
  by (auto simp: find_pane_mut_def and_then_Inr update_first_Inr) blast

lemma replace_pane_ok:
  assumes "panes w = as @ pane # bs" "workspace_ok w" "pane_id pane' = pane_id pane"
  shows "workspace_ok (w\<lparr>panes := as @ pane' # bs\<rparr>) \<longleftrightarrow> pane_ok pane'"
  using assms by (auto simp: workspace_ok_def)

lemma replace_pane_sound:
  assumes "panes w = as @ pane # bs" "workspace_sound w" "pane_id pane' = pane_id pane"
  shows "workspace_sound (w\<lparr>panes := as @ pane' # bs\<rparr>) \<longleftrightarrow> pane_ok pane' \<and> list_all history_sound (tabs pane')"
  using assms replace_pane_ok [of w as pane bs pane'] by (auto simp: workspace_sound_def histories_sound_def)

lemma replace_tab_ok:
  assumes "tabs pane = as @ tab # bs" "pane_ok pane" "tab_id tab' = tab_id tab"
  shows "pane_ok (pane\<lparr>tabs := as @ tab' # bs\<rparr>) \<longleftrightarrow> tab_ok tab'"
  using assms by (auto simp: pane_ok_def)

lemma position_Some:
  "position P xs = Some i \<Longrightarrow> i < length xs \<and> P (xs ! i) \<and> (\<forall>j<i. \<not> P (xs ! j))"
proof (induction xs arbitrary: i)
  case (Cons x xs)
  then show ?case by (cases i) (auto simp: less_Suc_eq_0_disj nth_Cons split: if_splits)
qed simp

lemma position_None: "position P xs = None \<longleftrightarrow> (\<forall>x\<in>set xs. \<not> P x)"
  by (induction xs) auto


lemma is_ok_update_first:
  "is_ok (update_first P missing f xs) \<longleftrightarrow> (\<exists>x. List.find P xs = Some x \<and> is_ok (f x))"
  by (induction xs) (auto simp: is_ok_iff and_then_Inr)

lemma find_distinct:
  "distinct (map k xs) \<Longrightarrow> List.find (\<lambda>x. k x = a) xs = Some x \<longleftrightarrow> x \<in> set xs \<and> k x = a"
  by (induction xs) auto

lemma is_ok_find_pane_mut:
  assumes "workspace_ok w"
  shows "is_ok (find_pane_mut w p f) \<longleftrightarrow> (\<exists>pane\<in>set (panes w). pane_id pane = p \<and> is_ok (f pane))"
proof -
  have "is_ok (find_pane_mut w p f) \<longleftrightarrow> is_ok (update_first (\<lambda>pane. pane_id pane = p) (PaneNotFound (ws_id w) p) f (panes w))"
    by (simp add: find_pane_mut_def is_ok_iff and_then_Inr)
  then show ?thesis
    using assms find_distinct [of pane_id "panes w" p]
    by (auto simp: is_ok_update_first workspace_ok_def)
qed

lemma is_ok_find_tab_mut:
  assumes "workspace_ok w"
  shows "is_ok (find_tab_mut w p t f) \<longleftrightarrow>
    (\<exists>pane\<in>set (panes w). pane_id pane = p \<and> (\<exists>tab\<in>set (tabs pane). tab_id tab = t \<and> is_ok (f tab)))"
proof -
  have "is_ok (and_then (update_first (\<lambda>tab. tab_id tab = t) e f (tabs pane)) (\<lambda>ts. Inr (pane\<lparr>tabs := ts\<rparr>)))
      \<longleftrightarrow> (\<exists>tab\<in>set (tabs pane). tab_id tab = t \<and> is_ok (f tab))" if "pane \<in> set (panes w)"
    for pane and e :: workspace_error
  proof -
    have "distinct (map tab_id (tabs pane))"
      using that assms by (auto simp: workspace_ok_def list_all_iff pane_ok_def)
    then show ?thesis
      using is_ok_update_first [of "\<lambda>tab. tab_id tab = t" e f "tabs pane"] find_distinct [of tab_id "tabs pane" t]
      by (auto simp: is_ok_iff and_then_Inr)
  qed
  then show ?thesis unfolding find_tab_mut_def is_ok_find_pane_mut [OF assms] by auto
qed

lemma is_ok_navigate: "is_ok (navigate tab loc mode) \<longleftrightarrow> (loc = None \<longrightarrow> mode \<in> {Back, Forward})"
  by (cases mode) (auto simp: navigate_def Let_def is_ok_and_then is_ok_ok_or is_ok_iff result_simps)

lemma is_ok_close_tab_in: "is_ok (close_tab_in uuid_ok home new_id w p t pane) \<longleftrightarrow> t \<in> tab_id ` set (tabs pane)"
proof -
  have "is_ok (close_tab_in uuid_ok home new_id w p t pane) \<longleftrightarrow> position (\<lambda>tab. tab_id tab = t) (tabs pane) \<noteq> None"
    by (auto simp: close_tab_in_def is_ok_and_then Let_def result_simps)
  then show ?thesis by (auto simp: position_None)
qed

lemma find_pane_Inr: "workspace_ok w \<Longrightarrow> (\<exists>pane. find_pane w p = Inr pane) \<longleftrightarrow> p \<in> set (pane_ids w)"
  using find_distinct [of pane_id "panes w" p] by (auto simp: find_pane_def workspace_ok_def result_simps)

lemma mutate_addressed:
  assumes "workspace_ok w"
  shows "is_ok (mutate uuid_ok home new_id w c) \<longleftrightarrow> addressed w c"
proof (cases c)
  case (SetActivePane i p r)
  then show ?thesis using find_pane_Inr [OF assms] by (simp add: is_ok_and_then)
next
  case (AddTab i p loc r)
  then show ?thesis by (auto simp: is_ok_find_pane_mut [OF assms] Let_def)
next
  case (CloseTab i p t r)
  then show ?thesis by (auto simp: close_tab_def is_ok_find_pane_mut [OF assms] is_ok_close_tab_in has_tab_def)
next
  case (ActivateTab i p t r)
  have ok: "is_ok (find_pane_mut (w\<lparr>active_pane_id := p\<rparr>) p f) \<longleftrightarrow> is_ok (find_pane_mut w p f)" for f
    by (simp add: find_pane_mut_def is_ok_iff and_then_Inr)
  show ?thesis
    by (auto simp: ActivateTab ok is_ok_find_pane_mut [OF assms] has_tab_def list_ex_key split: if_splits)
qed (auto simp: is_ok_find_tab_mut [OF assms] is_ok_navigate has_tab_def)

section \<open>Results of commands\<close>


lemma provider_for_scheme_ne: "provider_for_scheme s = Inr p \<Longrightarrow> p \<noteq> []"
  by (auto simp: provider_for_scheme_def SCHEME_MAP_def split: if_splits)

lemma location_parse_ok:
  assumes "location_parse uuid_ok u = Inr l" "1 < length u"
  shows "loc_ok l"
proof -
  obtain scheme where scheme: "parse_scheme u = Inr scheme" using assms(1)
    by (auto simp: location_parse_def and_then_Inr)
  have strip: "strip_suffix_char slash u \<noteq> []"
    using assms(2) strip_suffix_char_cases [of slash u] by auto
  show ?thesis
  proof (cases "scheme = ''search''")
    case True
    then show ?thesis using assms scheme by (auto simp: location_parse_def and_then_Inr loc_ok_def location_new_def)
  next
    case False
    then obtain p where p: "provider_for_scheme scheme = Inr p" using assms(1) scheme
      by (auto simp: location_parse_def and_then_Inr)
    have "l = location_new p u \<or> l = location_new p (strip_suffix_char slash u)"
      using assms(1) False unfolding location_parse_def scheme p and_then.simps if_False
      by (auto simp: and_then_Inr split: if_splits)
    then show ?thesis using provider_for_scheme_ne [OF p] strip assms(2) by (auto intro!: loc_ok_new)
  qed
qed

lemma location_for_ok: "loc_ok (location_for uuid_ok path)"
proof (cases "from_native_path uuid_ok path")
  case (Inr l)
  then obtain p where "file_into_location uuid_ok p = Inr l"
    by (auto simp: from_native_path_def native_path_to_location_def split: if_splits)
  then have "loc_ok l"
    using location_parse_ok [of uuid_ok "''file://'' @ authority p @ ''/'' @ encode_path (segments p)" l]
    by (auto simp: file_into_location_def result_simps)
  then show ?thesis using Inr by (simp add: location_for_def)
qed (simp add: location_for_def loc_ok_new)


lemma tab_ok_alt:
  "tab_ok tab \<longleftrightarrow> loc_ok (tab_location tab) \<and> history_len tab \<le> MAX_NAVIGATION_HISTORY_LEN
    \<and> distinct (map column_id (columns (tab_view tab)))"
  by (auto simp: tab_ok_def loc_ok_def)

lemma push_history_entry_dest: "x \<in> set (push_history_entry s l) \<Longrightarrow> x = l \<or> x \<in> set s"
  by (auto simp: push_history_entry_def split: if_splits)

lemma enforce_history_bound_dest:
  "x \<in> set (hist_back (enforce_history_bound h)) \<Longrightarrow> x \<in> set (hist_back h)"
  "x \<in> set (hist_forward (enforce_history_bound h)) \<Longrightarrow> x \<in> set (hist_forward h)"
  using enforce_history_bound_suffix [of h] by (auto dest: in_set_dropD)

lemma navigate_frame:
  "navigate tab loc mode = Inr tab' \<Longrightarrow>
    tab_id tab' = tab_id tab \<and> tab_view tab' = tab_view tab \<and> title_override tab' = title_override tab \<and> pinned tab' = pinned tab"
  by (cases mode) (auto simp: navigate_def Let_def result_simps split: if_splits)

lemma navigate_bound:
  assumes "navigate tab loc mode = Inr tab'" "history_len tab \<le> MAX_NAVIGATION_HISTORY_LEN"
  shows "history_len tab' \<le> MAX_NAVIGATION_HISTORY_LEN"
  using assms enforce_history_bound_le
  by (cases mode) (auto simp: navigate_def Let_def result_simps history_len_def split: if_splits)

lemma navigate_history_sound:
  assumes "navigate tab loc mode = Inr tab'" "history_sound tab" "loc_ok (tab_location tab)"
  shows "history_sound tab'"
  using assms
  by (cases mode) (auto simp: navigate_def Let_def result_simps history_sound_def list_all_iff
      dest!: enforce_history_bound_dest push_history_entry_dest in_set_butlastD split: if_splits)

lemma navigate_location:
  "navigate tab loc mode = Inr tab' \<Longrightarrow> history_sound tab \<Longrightarrow> loc_ok (tab_location tab) \<Longrightarrow>
    loc_ok (tab_location tab') \<longleftrightarrow> (mode \<in> {Push, Refresh} \<longrightarrow> loc_ok (the loc))"
  by (cases mode) (auto simp: navigate_def Let_def result_simps history_sound_def list_all_iff split: if_splits)


lemma close_tab_in_cases:
  assumes "close_tab_in uuid_ok home new_id w p t pane = Inr pane'"
  obtains pos where "pos < length (tabs pane)" "tab_id (tabs pane ! pos) = t"
    "\<forall>j<pos. tab_id (tabs pane ! j) \<noteq> t"
    "remove_at pos (tabs pane) = []"
    "pane' = pane\<lparr>tabs := [(build_tab new_id (location_for uuid_ok home))\<lparr>tab_view := default_view pane\<rparr>],
       active_tab_id := new_id\<rparr>"
  | pos where "pos < length (tabs pane)" "tab_id (tabs pane ! pos) = t"
    "\<forall>j<pos. tab_id (tabs pane ! j) \<noteq> t"
    "remove_at pos (tabs pane) \<noteq> []"
    "pane' = pane\<lparr>tabs := remove_at pos (tabs pane), active_tab_id :=
       (if active_tab_id pane = t then tab_id (remove_at pos (tabs pane) ! (pos - 1)) else active_tab_id pane)\<rparr>"
proof -
  obtain pos where pos: "position (\<lambda>tab. tab_id tab = t) (tabs pane) = Some pos"
    using assms by (auto simp: close_tab_in_def result_simps)
  note at = position_Some [OF pos]
  show thesis
  proof (cases "remove_at pos (tabs pane) = []")
    case True
    then show thesis using assms pos at by (intro that(1) [of pos]) (auto simp: close_tab_in_def build_tab_def)
  next
    case False
    then show thesis using assms pos at by (intro that(2) [of pos]) (auto simp: close_tab_in_def Let_def split: if_splits)
  qed
qed

lemma remove_at_nth:
  assumes "i < length xs"
  shows "xs = take i xs @ xs ! i # drop (Suc i) xs" "length (remove_at i xs) = length xs - 1"
  using assms by (simp_all add: id_take_nth_drop [symmetric] remove_at_def)

lemma remove_at_distinct:
  assumes "i < length xs" "distinct (map k xs)"
  shows "k ` set (remove_at i xs) = k ` set xs - {k (xs ! i)}" "distinct (map k (remove_at i xs))"
proof -
  have "distinct (map k (take i xs @ xs ! i # drop (Suc i) xs))"
    using assms remove_at_nth(1) [OF assms(1)] by metis
  then show "distinct (map k (remove_at i xs))" by (auto simp: remove_at_def)
  have "k ` set xs = k ` set (take i xs @ xs ! i # drop (Suc i) xs)" using remove_at_nth(1) [OF assms(1)] by metis
  then show "k ` set (remove_at i xs) = k ` set xs - {k (xs ! i)}"
    using \<open>distinct (map k (take i xs @ xs ! i # drop (Suc i) xs))\<close>
    by (simp add: remove_at_def image_Un)
qed

lemma remove_at_set: "set (remove_at i xs) \<subseteq> set xs"
  by (auto simp: remove_at_def dest: in_set_takeD in_set_dropD)

lemma build_tab_sound: "loc_ok l \<Longrightarrow> distinct (map column_id (columns v)) \<Longrightarrow>
    tab_ok ((build_tab i l)\<lparr>tab_view := v\<rparr>) \<and> history_sound ((build_tab i l)\<lparr>tab_view := v\<rparr>)"
  by (simp add: build_tab_def tab_ok_alt history_sound_def history_len_def)

lemma close_tab_in_sound:
  assumes "close_tab_in uuid_ok home new_id w p t pane = Inr pane'" "pane_ok pane" "list_all history_sound (tabs pane)"
  shows "pane_ok pane' \<and> list_all history_sound (tabs pane') \<and> pane_id pane' = pane_id pane"
  using assms(1)
proof (cases rule: close_tab_in_cases)
  case (1 pos)
  then show ?thesis
    using assms(2) build_tab_sound [OF location_for_ok, of "default_view pane" new_id uuid_ok home]
    by (auto simp: pane_ok_def build_tab_def)
next
  case (2 pos)
  have d: "distinct (map tab_id (tabs pane))" using assms(2) by (simp add: pane_ok_def)
  note keys = remove_at_distinct [OF 2(1) d]
  have "pos - 1 < length (remove_at pos (tabs pane))"
    using 2(1,4) remove_at_nth(2) [OF 2(1)] by (cases "remove_at pos (tabs pane)") auto
  then have "tab_id (remove_at pos (tabs pane) ! (pos - 1)) \<in> tab_id ` set (remove_at pos (tabs pane))"
    by simp
  then have "active_tab_id pane' \<in> tab_id ` set (tabs pane')"
    using 2(2,5) keys(1) assms(2) by (cases "active_tab_id pane = t") (simp_all add: pane_ok_def)
  then show ?thesis
    using 2(4,5) keys assms(2,3) remove_at_set [of pos "tabs pane"]
    by (auto simp: pane_ok_def list_all_iff)
qed

lemma view_patch_columns:
  "columns (apply_view_patch v patch) = (case patch_columns patch of Some cs \<Rightarrow> cs | None \<Rightarrow> columns v)"
  by (simp add: apply_view_patch_def patched_def)


definition fresh_for :: "workspace \<Rightarrow> tab_id \<Rightarrow> bool" where
  "fresh_for w t \<longleftrightarrow> list_all (\<lambda>pane. t \<notin> tab_id ` set (tabs pane)) (panes w)"

lemma find_tab_mut_cases:
  assumes "find_tab_mut w p t f = Inr w'"
  obtains as pane bs ts tab us tab' where "panes w = as @ pane # bs" "pane_id pane = p"
    "tabs pane = ts @ tab # us" "tab_id tab = t" "f tab = Inr tab'"
    "w' = w\<lparr>panes := as @ pane\<lparr>tabs := ts @ tab' # us\<rparr> # bs\<rparr>"
  using assms by (auto simp: find_tab_mut_def find_pane_mut_Inr and_then_Inr update_first_Inr)

lemma find_tab_mut_sound:
  assumes "find_tab_mut w p t f = Inr w'" "workspace_sound w"
    and f: "\<And>tab tab'. f tab = Inr tab' \<Longrightarrow> tab_ok tab \<Longrightarrow> history_sound tab \<Longrightarrow>
      tab_id tab' = tab_id tab \<and> history_sound tab' \<and> (tab_ok tab' \<longleftrightarrow> Q)"
  shows "(workspace_ok w' \<longleftrightarrow> Q) \<and> (workspace_sound w' \<longleftrightarrow> Q)"
  using assms(1)
proof (cases rule: find_tab_mut_cases)
  case (1 as pane bs ts tab us tab')
  have pane: "pane_ok pane" "list_all history_sound (tabs pane)"
    using assms(2) 1(1) by (auto simp: workspace_sound_def workspace_ok_def histories_sound_def)
  have "tab_ok tab" "history_sound tab" using pane 1(3) by (auto simp: pane_ok_def)
  note tab = f [OF 1(5) this]
  let ?pane = "pane\<lparr>tabs := ts @ tab' # us\<rparr>"
  have "pane_ok ?pane \<longleftrightarrow> Q" using replace_tab_ok [OF 1(3) pane(1)] tab by auto
  moreover have "list_all history_sound (tabs ?pane)" using pane(2) tab 1(3) by auto
  ultimately show ?thesis
    using replace_pane_ok [OF 1(1), of ?pane] replace_pane_sound [OF 1(1) assms(2), of ?pane] assms(2) 1(6)
    by (auto simp: workspace_sound_def)
qed

lemma find_pane_mut_sound:
  assumes "find_pane_mut w p f = Inr w'" "workspace_sound w"
    and f: "\<And>pane pane'. f pane = Inr pane' \<Longrightarrow> pane \<in> set (panes w) \<Longrightarrow> pane_ok pane \<Longrightarrow> list_all history_sound (tabs pane) \<Longrightarrow>
      pane_id pane' = pane_id pane \<and> list_all history_sound (tabs pane') \<and> (pane_ok pane' \<longleftrightarrow> Q)"
  shows "(workspace_ok w' \<longleftrightarrow> Q) \<and> (workspace_sound w' \<longleftrightarrow> Q)"
proof -
  obtain as pane bs pane' where 1: "panes w = as @ pane # bs" "f pane = Inr pane'" "w' = w\<lparr>panes := as @ pane' # bs\<rparr>"
    using assms(1) by (auto simp: find_pane_mut_Inr)
  have "pane_ok pane" "list_all history_sound (tabs pane)"
    using assms(2) 1(1) by (auto simp: workspace_sound_def workspace_ok_def histories_sound_def)
  from f [OF 1(2) _ this] show ?thesis
    using replace_pane_ok [OF 1(1), of pane'] replace_pane_sound [OF 1(1) assms(2), of pane'] assms(2) 1
    by (auto simp: workspace_sound_def)
qed

lemma mutate_sound:
  assumes w: "workspace_sound w" "fresh_for w new_id" and m: "mutate uuid_ok home new_id w c = Inr w'"
  shows "(workspace_ok w' \<longleftrightarrow> payload_ok w c) \<and> (workspace_sound w' \<longleftrightarrow> payload_ok w c)"
proof (cases c)
  case (RenameWorkspace i n r)
  then show ?thesis using m w
    by (auto simp: workspace_sound_def workspace_ok_def histories_sound_def split: if_splits)
next
  case (SetActivePane i p r)
  then show ?thesis using m w find_pane_Inr [of w p]
    by (auto simp: workspace_sound_def workspace_ok_def histories_sound_def result_simps)
next
  case (AddTab i p loc r)
  show ?thesis using m unfolding AddTab mutate.simps payload_ok.simps Let_def
  proof (rule find_pane_mut_sound [OF _ w(1)], goal_cases)
    case (1 pane pane')
    then show ?case using w(2)
      by (auto simp: pane_ok_def fresh_for_def build_tab_def tab_ok_alt history_sound_def history_len_def list_all_iff)
  qed
next
  case (CloseTab i p t r)
  show ?thesis using m unfolding CloseTab mutate.simps payload_ok.simps close_tab_def
  proof (rule find_pane_mut_sound [OF _ w(1)], goal_cases)
    case (1 pane pane')
    then show ?case using close_tab_in_sound by blast
  qed
next
  case (ActivateTab i p t r)
  have "workspace_ok w' \<and> workspace_sound w'"
  proof -
    obtain as pane bs where 1: "panes w = as @ pane # bs" "pane_id pane = p" "t \<in> tab_id ` set (tabs pane)"
        "w' = w\<lparr>active_pane_id := p, panes := as @ pane\<lparr>active_tab_id := t\<rparr> # bs\<rparr>"
      using m by (auto simp: ActivateTab find_pane_mut_Inr list_ex_key split: if_splits)
    then show ?thesis using w(1)
      by (auto simp: workspace_sound_def workspace_ok_def histories_sound_def pane_ok_def)
  qed
  then show ?thesis by (simp add: ActivateTab)
next
  case (NavigateTab i p t loc mode r)
  then have loc: "loc = None \<longrightarrow> mode \<in> {Back, Forward}"
    using mutate_addressed [of w uuid_ok home new_id c] m w(1) by (auto simp: workspace_sound_def is_ok_iff)
  show ?thesis using m unfolding NavigateTab mutate.simps
  proof (rule find_tab_mut_sound [OF _ w(1)], goal_cases)
    case (1 tab tab')
    then show ?case
      using navigate_frame [OF 1(1)] navigate_bound [OF 1(1)] navigate_history_sound [OF 1(1)]
        navigate_location [OF 1(1)] loc
      by (auto simp: tab_ok_alt)
  qed
next
  case (UpdateView i p t patch r)
  show ?thesis using m unfolding UpdateView mutate.simps
  proof (rule find_tab_mut_sound [OF _ w(1)], goal_cases)
    case (1 tab tab')
    then show ?case
      by (auto simp: tab_ok_alt view_patch_columns history_sound_def history_len_def split: option.splits)
  qed
next
  case (UpdateLayout i l r)
  then show ?thesis using m w by (auto simp: workspace_sound_def workspace_ok_def histories_sound_def)
qed


lemma mutate_frame:
  "mutate uuid_ok home new_id w c = Inr w' \<Longrightarrow>
    ws_id w' = ws_id w \<and> revision w' = revision w \<and> created_at w' = created_at w
    \<and> pane_ids w' = pane_ids w"
proof (cases c)
  case (CloseTab i p t r)
  assume "mutate uuid_ok home new_id w c = Inr w'"
  moreover have "pane_id pane' = pane_id pane" if "close_tab_in uuid_ok home new_id v p t pane = Inr pane'" for v pane pane'
    using that by (cases rule: close_tab_in_cases) auto
  ultimately show ?thesis unfolding CloseTab by (auto simp: close_tab_def find_pane_mut_Inr)
qed (auto simp: find_tab_mut_def find_pane_mut_Inr result_simps Let_def split: if_splits)

lemma apply_Inr:
  "apply_command_to uuid_ok home new_id w c = Inr w' \<longleftrightarrow>
    mutate uuid_ok home new_id w c = Inr w' \<and> workspace_ok w'"
  by (auto simp: apply_command_to_def result_simps)

lemma default_workspace_is_sound:
  "fresh_left ids \<noteq> fresh_right ids \<Longrightarrow> workspace_sound (default_workspace uuid_ok ids now home second)"
proof -
  have view: "distinct (map column_id (columns default_directory_view))"
    by (simp add: default_directory_view_def)
  have "pane_ok (default_pane p t (location_for uuid_ok d)) \<and> list_all history_sound (tabs (default_pane p t (location_for uuid_ok d)))"
    for p t d
    using location_for_ok view
    by (auto simp: default_pane_def pane_ok_def Let_def build_tab_def tab_ok_alt history_sound_def history_len_def)
  moreover have "ratio_allowed (Finite (2 ^ 148))" by (simp add: SPLIT_RATIO_RANGE_def)
  moreover assume "fresh_left ids \<noteq> fresh_right ids"
  ultimately show ?thesis
    by (simp add: workspace_sound_def workspace_ok_def histories_sound_def layout_ok_def default_workspace_def Let_def)
      (simp add: default_pane_def Let_def)
qed

section \<open>The history as a timeline\<close>

definition timeline :: "tab_state \<Rightarrow> location list" where
  "timeline tab = hist_back (history tab) @ tab_location tab # rev (hist_forward (history tab))"

definition cursor :: "tab_state \<Rightarrow> nat" where
  "cursor tab = length (hist_back (history tab))"

definition history_ok :: "tab_state \<Rightarrow> bool" where
  "history_ok tab \<longleftrightarrow> distinct_adj (timeline tab) \<and> history_len tab \<le> MAX_NAVIGATION_HISTORY_LEN"

lemma distinct_adj_snoc2: "distinct_adj (xs @ [x, y]) \<longleftrightarrow> distinct_adj (xs @ [x]) \<and> x \<noteq> y"
  by (auto simp: distinct_adj_append_iff)

lemma history_ok_tops:
  assumes "history_ok tab"
  shows "hist_back (history tab) \<noteq> [] \<Longrightarrow> last (hist_back (history tab)) \<noteq> tab_location tab"
    "hist_forward (history tab) \<noteq> [] \<Longrightarrow> last (hist_forward (history tab)) \<noteq> tab_location tab"
  using assms by (auto simp: history_ok_def timeline_def distinct_adj_append_iff distinct_adj_Cons hd_rev)

lemma push_history_entry_fresh: "s = [] \<or> last s \<noteq> l \<Longrightarrow> push_history_entry s l = s @ [l]"
  by (auto simp: push_history_entry_def)

lemma rev_butlast_last: "xs \<noteq> [] \<Longrightarrow> last xs # rev (butlast xs) = rev xs"
  by (metis append_butlast_last_id rev.simps(2) rev_append rev_rev_ident append_Cons append_Nil)

text \<open>The bound drops whole entries from the old end of the back stack.\<close>

lemma enforce_history_bound_push:
  "enforce_history_bound \<lparr>hist_back = b, hist_forward = []\<rparr>
    = \<lparr>hist_back = drop (length b - MAX_NAVIGATION_HISTORY_LEN) b, hist_forward = []\<rparr>"
proof (induction b)
  case (Cons l b)
  show ?case
  proof (cases "length (l # b) \<le> MAX_NAVIGATION_HISTORY_LEN")
    case False
    then have "length (l # b) - MAX_NAVIGATION_HISTORY_LEN = Suc (length b - MAX_NAVIGATION_HISTORY_LEN)" by simp
    then show ?thesis using False Cons by (subst enforce_history_bound.simps) simp
  qed (simp add: enforce_history_bound_id)
qed (simp add: enforce_history_bound_id)

text \<open>What closing tab \<open>t\<close> does to its pane.\<close>

definition tab_closed :: "tab_state \<Rightarrow> tab_id \<Rightarrow> pane_state \<Rightarrow> pane_state \<Rightarrow> bool" where
  "tab_closed replacement t pane pane' \<longleftrightarrow>
    (\<exists>ts tab us. tabs pane = ts @ tab # us \<and> tab_id tab = t \<and> t \<notin> tab_id ` set ts
      \<and> (if ts @ us = []
         then pane' = pane\<lparr>tabs := [replacement], active_tab_id := tab_id replacement\<rparr>
         else pane' = pane\<lparr>tabs := ts @ us, active_tab_id :=
           (if active_tab_id pane \<noteq> t then active_tab_id pane
            else if ts = [] then tab_id (hd us) else tab_id (last ts))\<rparr>))"

lemma close_tab_in_split:
  assumes "close_tab_in uuid_ok home new_id w p t pane = Inr pane'"
  shows "tab_closed ((build_tab new_id (location_for uuid_ok home))\<lparr>tab_view := default_view pane\<rparr>) t pane pane'"
  using assms
proof (cases rule: close_tab_in_cases)
  case (1 pos)
  then have "take pos (tabs pane) = [] \<and> drop (Suc pos) (tabs pane) = []" by (simp add: remove_at_def)
  then have "tabs pane = [] @ tabs pane ! pos # []" using remove_at_nth(1) [OF 1(1)] by metis
  then show ?thesis unfolding tab_closed_def using 1(2,5)
    by (intro exI [of _ "[]"] exI [of _ "tabs pane ! pos"]) (auto simp: build_tab_def)
next
  case (2 pos)
  let ?ts = "take pos (tabs pane)" and ?us = "drop (Suc pos) (tabs pane)"
  have split: "tabs pane = ?ts @ tabs pane ! pos # ?us" using remove_at_nth(1) [OF 2(1)] .
  have ne: "?ts @ ?us \<noteq> []" using 2(4) by (simp only: remove_at_def) simp
  have nin: "t \<notin> tab_id ` set ?ts" using 2(3) by (fastforce simp: in_set_conv_nth)
  have next_tab: "(?ts @ ?us) ! (pos - 1) = (if ?ts = [] then hd ?us else last ?ts)"
    using 2(1) ne by (auto simp: hd_conv_nth nth_append last_conv_nth min_def)
  have pane': "pane' = pane\<lparr>tabs := ?ts @ ?us, active_tab_id :=
      (if active_tab_id pane \<noteq> t then active_tab_id pane
       else if ?ts = [] then tab_id (hd ?us) else tab_id (last ?ts))\<rparr>"
    unfolding 2(5) remove_at_def next_tab by simp
  show ?thesis unfolding tab_closed_def
    by (rule exI [of _ ?ts], rule exI [of _ "tabs pane ! pos"], rule exI [of _ ?us], intro conjI,
        rule split, rule 2(2), rule nin, simp only: ne if_False, rule pane')
qed

section \<open>Properties\<close>

text \<open>closing a tab removes exactly that tab. The other panes and the order of the other tabs do
  not change; closing the active tab activates its left neighbour, or the new first tab; closing
  the last tab of a pane leaves one fresh tab at the home directory, never an empty pane.\<close>

lemma close_tab_removes_one:
  assumes "close_tab uuid_ok home new_id w p t = Inr w'"
  shows "\<exists>as pane bs pane'. panes w = as @ pane # bs \<and> pane_id pane = p
    \<and> w' = w\<lparr>panes := as @ pane' # bs\<rparr>
    \<and> tab_closed ((build_tab new_id (location_for uuid_ok home))\<lparr>tab_view := default_view pane\<rparr>) t pane pane'"
proof -
  obtain as pane bs pane' where "panes w = as @ pane # bs" "pane_id pane = p"
    "close_tab_in uuid_ok home new_id (ws_id w) p t pane = Inr pane'" "w' = w\<lparr>panes := as @ pane' # bs\<rparr>"
    using assms by (auto simp: close_tab_def find_pane_mut_Inr)
  then show ?thesis using close_tab_in_split by blast
qed

lemma close_tab_gone:
  assumes "workspace_sound w" "fresh_for w new_id" "pane \<in> set (panes w)" "tab \<in> set (tabs pane)"
  shows "\<exists>w'. apply_command_to uuid_ok home new_id w (CloseTab i (pane_id pane) (tab_id tab) r) = Inr w'
    \<and> \<not> has_tab w' (pane_id pane) (tab_id tab)"
proof -
  let ?c = "CloseTab i (pane_id pane) (tab_id tab) r"
  have addr: "addressed w ?c" using assms(3,4) by (auto simp: has_tab_def)
  obtain w' where m: "mutate uuid_ok home new_id w ?c = Inr w'"
    using mutate_addressed [of w uuid_ok home new_id ?c] addr assms(1) by (auto simp: workspace_sound_def is_ok_iff)
  then have "workspace_ok w'" using mutate_sound [OF assms(1,2) m] by simp
  moreover have "\<not> has_tab w' (pane_id pane) (tab_id tab)"
  proof -
    obtain as pane0 bs pane' where ps: "panes w = as @ pane0 # bs" "pane_id pane0 = pane_id pane"
        "w' = w\<lparr>panes := as @ pane' # bs\<rparr>"
        "tab_closed ((build_tab new_id (location_for uuid_ok home))\<lparr>tab_view := default_view pane0\<rparr>) (tab_id tab) pane0 pane'"
      using close_tab_removes_one [of uuid_ok home new_id w "pane_id pane" "tab_id tab" w'] m by auto
    have ok: "distinct (map pane_id (panes w))" "distinct (map tab_id (tabs pane0))"
      using assms(1) ps(1) by (auto simp: workspace_sound_def workspace_ok_def pane_ok_def)
    have "new_id \<noteq> tab_id tab" using assms(2-4) by (auto simp: fresh_for_def list_all_iff)
    then have "tab_id tab \<notin> tab_id ` set (tabs pane')"
      using ps(4) ok(2) by (auto simp: tab_closed_def build_tab_def split: if_splits)
    moreover have "pane_id p \<noteq> pane_id pane" if "p \<in> set (as @ bs)" for p
      using ok(1) that ps(1,2) by (auto simp: image_iff)
    ultimately show ?thesis using ps(3) by (auto simp: has_tab_def)
  qed
  ultimately show ?thesis using m by (auto simp: apply_Inr)
qed

text \<open>C4: commands and validity. On a sound workspace (valid, with well-formed history entries) and
  with a new tab id that no tab uses, a command succeeds exactly when what it addresses exists and
  its own payload is acceptable; the result is again a sound workspace with the same id,
  creation time and revision. So the final re-validation rejects nothing but a bad payload, and
  no sequence of commands leads to an invalid workspace. Being pinned does not protect a tab: closing a
  pinned tab succeeds like closing any other and removes it, although the field is documented as protecting
  the tab from ordinary close actions.\<close>

theorem commands_preserve_validity:
  assumes "workspace_sound w" and "fresh_for w new_id"
  shows "(case apply_command_to uuid_ok home new_id w c of
      Inr w' \<Rightarrow> addressed w c \<and> payload_ok w c \<and> workspace_sound w'
        \<and> ws_id w' = ws_id w \<and> created_at w' = created_at w \<and> revision w' = revision w
    | Inl e \<Rightarrow> \<not> (addressed w c \<and> payload_ok w c))
    \<and> (pane \<in> set (panes w) \<and> tab \<in> set (tabs pane) \<and> pinned tab \<longrightarrow>
        (\<exists>w'. apply_command_to uuid_ok home new_id w (CloseTab i (pane_id pane) (tab_id tab) r) = Inr w'
          \<and> \<not> has_tab w' (pane_id pane) (tab_id tab)))"
proof (rule conjI, goal_cases)
  case 1
  show ?case
  proof (cases "apply_command_to uuid_ok home new_id w c")
    case (Inl e)
    have "\<not> is_ok (mutate uuid_ok home new_id w c) \<or> \<not> payload_ok w c"
      using Inl apply_Inr [of uuid_ok home new_id w c] mutate_sound [OF assms] by (auto simp: is_ok_iff)
    then show ?thesis using Inl mutate_addressed assms(1) by (auto simp: workspace_sound_def)
  next
    case (Inr w')
    then have m: "mutate uuid_ok home new_id w c = Inr w'" "workspace_ok w'" by (simp_all add: apply_Inr)
    then have "addressed w c"
      using mutate_addressed [of w uuid_ok home new_id c] assms(1) by (simp add: workspace_sound_def)
    then show ?thesis using Inr m mutate_sound [OF assms m(1)] mutate_frame [OF m(1)] by simp
  qed
next
  case 2
  show ?case using close_tab_gone [OF assms] by blast
qed

text \<open>Whether the current location repeats its neighbour on the timeline. \<open>Refresh\<close> at an explicit location can
  bring this about, since it replaces the location without touching the history.\<close>

definition repeats_next :: "tab_state \<Rightarrow> bool" where
  "repeats_next tab \<longleftrightarrow> cursor tab + 1 < length (timeline tab) \<and> timeline tab ! (cursor tab + 1) = timeline tab ! cursor tab"

definition repeats_previous :: "tab_state \<Rightarrow> bool" where
  "repeats_previous tab \<longleftrightarrow> 0 < cursor tab \<and> timeline tab ! (cursor tab - 1) = timeline tab ! cursor tab"

definition without_current :: "tab_state \<Rightarrow> location list" where
  "without_current tab = take (cursor tab) (timeline tab) @ drop (cursor tab + 1) (timeline tab)"

lemma timeline_parts:
  "repeats_next tab \<longleftrightarrow> hist_forward (history tab) \<noteq> [] \<and> last (hist_forward (history tab)) = tab_location tab"
  "repeats_previous tab \<longleftrightarrow> hist_back (history tab) \<noteq> [] \<and> last (hist_back (history tab)) = tab_location tab"
  "without_current tab = hist_back (history tab) @ rev (hist_forward (history tab))"
  "timeline tab ! cursor tab = tab_location tab"
proof -
  let ?b = "hist_back (history tab)" and ?f = "hist_forward (history tab)"
  show "repeats_next tab \<longleftrightarrow> ?f \<noteq> [] \<and> last ?f = tab_location tab"
    by (cases ?f rule: rev_cases) (auto simp: repeats_next_def timeline_def cursor_def nth_append)
  show "repeats_previous tab \<longleftrightarrow> ?b \<noteq> [] \<and> last ?b = tab_location tab"
    by (cases ?b rule: rev_cases) (auto simp: repeats_previous_def timeline_def cursor_def nth_append)
  show "without_current tab = ?b @ rev ?f" by (simp add: without_current_def timeline_def cursor_def)
  show "timeline tab ! cursor tab = tab_location tab" by (simp add: timeline_def cursor_def nth_append)
qed

lemma push_history_entry_length: "length (push_history_entry st l) \<le> length st + 1"
  by (simp add: push_history_entry_def)

lemma navigate_back_general:
  assumes "history_len tab \<le> MAX_NAVIGATION_HISTORY_LEN" "hist_back (history tab) = bs @ [b]"
  shows "navigate tab loc Back = Inr (tab\<lparr>tab_location := b,
    history := \<lparr>hist_back = bs, hist_forward = push_history_entry (hist_forward (history tab)) (tab_location tab)\<rparr>\<rparr>)"
  using assms push_history_entry_length [of "hist_forward (history tab)" "tab_location tab"]
  by (simp add: navigate_def Let_def history_len_def enforce_history_bound_id)

lemma navigate_forward_general:
  assumes "history_len tab \<le> MAX_NAVIGATION_HISTORY_LEN" "hist_forward (history tab) = fs @ [f]"
  shows "navigate tab loc Forward = Inr (tab\<lparr>tab_location := f,
    history := \<lparr>hist_back = push_history_entry (hist_back (history tab)) (tab_location tab), hist_forward = fs\<rparr>\<rparr>)"
  using assms push_history_entry_length [of "hist_back (history tab)" "tab_location tab"]
  by (simp add: navigate_def Let_def history_len_def enforce_history_bound_id)

text \<open>C36: navigation moves a cursor over a timeline. Read the back stack, the current location and
  the reversed forward stack as one list. On any tab whose history is within the bound that validation
  enforces, Back shows the previous entry and Forward the next one, both do nothing at the ends, and
  the list stays as it is, with one exception: when the current location repeats the entry on the side away from
  the move, as it may after a refresh at an explicit location, that repetition is dropped from the list. Nothing else is ever
  dropped or reordered.\<close>

theorem back_forward_move_cursor:
  assumes "history_len tab \<le> MAX_NAVIGATION_HISTORY_LEN"
  shows "\<exists>tab_b tab_f. navigate tab target Back = Inr tab_b \<and> navigate tab target Forward = Inr tab_f
    \<and> (if cursor tab = 0 then tab_b = tab
       else tab_location tab_b = timeline tab ! (cursor tab - 1) \<and> cursor tab_b = cursor tab - 1
         \<and> timeline tab_b = (if repeats_next tab then without_current tab else timeline tab))
    \<and> (if cursor tab + 1 = length (timeline tab) then tab_f = tab
       else tab_location tab_f = timeline tab ! (cursor tab + 1)
         \<and> cursor tab_f = (if repeats_previous tab then cursor tab else cursor tab + 1)
         \<and> timeline tab_f = (if repeats_previous tab then without_current tab else timeline tab))"
proof -
  let ?b = "hist_back (history tab)" and ?f = "hist_forward (history tab)"
  have "\<exists>tab_b. navigate tab target Back = Inr tab_b
    \<and> (if cursor tab = 0 then tab_b = tab
       else tab_location tab_b = timeline tab ! (cursor tab - 1) \<and> cursor tab_b = cursor tab - 1
         \<and> timeline tab_b = (if repeats_next tab then without_current tab else timeline tab))"
  proof (cases ?b rule: rev_cases)
    case Nil
    then show ?thesis by (simp add: navigate_def Let_def cursor_def)
  next
    case (snoc bs b)
    then show ?thesis unfolding navigate_back_general [OF assms snoc] timeline_parts
      by (auto simp: cursor_def timeline_def nth_append push_history_entry_def rev_butlast_last)
  qed
  moreover have "\<exists>tab_f. navigate tab target Forward = Inr tab_f
    \<and> (if cursor tab + 1 = length (timeline tab) then tab_f = tab
       else tab_location tab_f = timeline tab ! (cursor tab + 1)
         \<and> cursor tab_f = (if repeats_previous tab then cursor tab else cursor tab + 1)
         \<and> timeline tab_f = (if repeats_previous tab then without_current tab else timeline tab))"
  proof (cases ?f rule: rev_cases)
    case Nil
    then show ?thesis by (simp add: navigate_def Let_def cursor_def timeline_def)
  next
    case (snoc fs f)
    then show ?thesis unfolding navigate_forward_general [OF assms snoc] timeline_parts
      by (auto simp: cursor_def timeline_def nth_append push_history_entry_def)
  qed
  ultimately show ?thesis by blast
qed

text \<open>a push keeps the past. Visiting a new location cuts the timeline behind the cursor, appends
  the location, and drops entries only from the oldest end, keeping the last 101 of them; the
  history stays free of consecutive duplicates and within its bound.\<close>

lemma push_extends_timeline:
  assumes "history_ok tab" and "target \<noteq> tab_location tab"
  shows "\<exists>tab'. navigate tab (Some target) Push = Inr tab' \<and> tab_location tab' = target
    \<and> (let past = take (cursor tab + 1) (timeline tab) @ [target]
       in timeline tab' = drop (length past - (MAX_NAVIGATION_HISTORY_LEN + 1)) past)
    \<and> history_ok tab'"
proof -
  let ?b = "hist_back (history tab) @ [tab_location tab]"
  let ?tab = "tab\<lparr>tab_location := target, history := enforce_history_bound \<lparr>hist_back = ?b, hist_forward = []\<rparr>\<rparr>"
  have "push_history_entry (hist_back (history tab)) (tab_location tab) = ?b"
    using history_ok_tops(1) [OF assms(1)] by (intro push_history_entry_fresh) auto
  then have nav: "navigate tab (Some target) Push = Inr ?tab"
    using assms(2) by (simp add: navigate_def Let_def)
  have past: "timeline ?tab = drop (length ?b - MAX_NAVIGATION_HISTORY_LEN) (?b @ [target])"
    by (simp add: timeline_def enforce_history_bound_push MAX_NAVIGATION_HISTORY_LEN_def)
  have "distinct_adj (?b @ [target])"
    using assms by (auto simp: history_ok_def timeline_def distinct_adj_append_iff)
  then have "distinct_adj (timeline ?tab)"
    unfolding past by (metis append_take_drop_id distinct_adj_append_iff)
  then have "history_ok ?tab"
    using enforce_history_bound_le [of "\<lparr>hist_back = ?b, hist_forward = []\<rparr>"]
    by (simp add: history_ok_def history_len_def)
  then show ?thesis using nav past by (simp add: Let_def timeline_def cursor_def)
qed


text \<open>the default workspace is valid whenever its two panes got different ids, whatever the home
  directory and the secondary location are.\<close>

lemma default_workspace_sound:
  assumes "fresh_left ids \<noteq> fresh_right ids"
  shows "workspace_sound (default_workspace uuid_ok ids now home second) \<and>
    is_ok (validate (default_workspace uuid_ok ids now home second))"
  using default_workspace_is_sound [OF assms] validate_Inr by (auto simp: workspace_sound_def is_ok_iff)

section \<open>Witnesses\<close>

definition sample_ids :: fresh_ids where
  "sample_ids = \<lparr>fresh_workspace = 1, fresh_left = 2, fresh_right = 3, fresh_left_tab = 4, fresh_right_tab = 5\<rparr>"

definition sample_workspace :: workspace where
  "sample_workspace = default_workspace (\<lambda>_. False) sample_ids 0 ''/home/me'' None"

definition sample_tab :: tab_state where
  "sample_tab = (build_tab 7 (location_new ''local'' ''file:///b''))
    \<lparr>history := \<lparr>hist_back = [location_new ''local'' ''file:///a''], hist_forward = [location_new ''local'' ''file:///c'']\<rparr>\<rparr>"

text \<open>The sample workspace with every tab pinned.\<close>

definition pinned_workspace :: workspace where
  "pinned_workspace = sample_workspace\<lparr>panes := map (\<lambda>pane. pane\<lparr>tabs := map (\<lambda>tab. tab\<lparr>pinned := True\<rparr>) (tabs pane)\<rparr>) (panes sample_workspace)\<rparr>"

theorem commands_preserve_validity_witness:
  "(case apply_command_to (\<lambda>_. False) ''/'' 9 pinned_workspace (CloseTab 1 2 4 1) of
      Inr w' \<Rightarrow> addressed pinned_workspace (CloseTab 1 2 4 1) \<and> payload_ok pinned_workspace (CloseTab 1 2 4 1)
        \<and> workspace_sound w' \<and> ws_id w' = ws_id pinned_workspace
        \<and> created_at w' = created_at pinned_workspace \<and> revision w' = revision pinned_workspace
    | Inl e \<Rightarrow> \<not> (addressed pinned_workspace (CloseTab 1 2 4 1) \<and> payload_ok pinned_workspace (CloseTab 1 2 4 1)))
   \<and> pinned (hd (tabs (hd (panes pinned_workspace))))
   \<and> (\<exists>w'. apply_command_to (\<lambda>_. False) ''/'' 9 pinned_workspace
          (CloseTab 1 (pane_id (hd (panes pinned_workspace))) (tab_id (hd (tabs (hd (panes pinned_workspace))))) 1) = Inr w'
        \<and> \<not> has_tab w' (pane_id (hd (panes pinned_workspace))) (tab_id (hd (tabs (hd (panes pinned_workspace))))))"
proof -
  let ?pane = "hd (panes pinned_workspace)"
  have 1: "workspace_sound pinned_workspace" by code_simp
  have 2: "fresh_for pinned_workspace 9" by code_simp
  have "panes pinned_workspace \<noteq> []" "tabs ?pane \<noteq> []" "pinned (hd (tabs ?pane))" by code_simp+
  then have 3: "?pane \<in> set (panes pinned_workspace) \<and> hd (tabs ?pane) \<in> set (tabs ?pane) \<and> pinned (hd (tabs ?pane))" by simp
  show ?thesis
    using commands_preserve_validity [OF 1 2, where uuid_ok = "\<lambda>_. False" and home = "''/''" and c = "CloseTab 1 2 4 1"
        and pane = ?pane and tab = "hd (tabs ?pane)" and i = 1 and r = 1] 3 by blast
qed

theorem back_forward_move_cursor_witness:
  "\<exists>tab_b. navigate sample_tab None Back = Inr tab_b
    \<and> (if cursor sample_tab = 0 then tab_b = sample_tab else cursor tab_b = cursor sample_tab - 1)"
proof -
  have "history_len sample_tab \<le> MAX_NAVIGATION_HISTORY_LEN" by code_simp
  then show ?thesis using back_forward_move_cursor [of sample_tab None] by (metis (no_types, lifting))
qed

end
