(* ===== verification/Workspace_Repository.thy ===== *)
theory Workspace_Repository
  imports Workspace_Command "HOL-Library.AList"
begin

text \<open>
  The persistence interface of \<open>src/crates/fm-application/src/workspace/repository.rs\<close> and the
  in-memory repository of \<open>memory.rs\<close>. The two traits are one record of operations on a store of
  any type; what the service relies on is the locale \<open>workspace_repository\<close>, and the in-memory
  repository is shown to be an instance. Every operation returns the store too, because a
  repository may change it even when it only reads (the file-backed one moves corrupt files).
  The clock reading of \<open>Utc::now\<close> is an argument of \<open>save\<close>.
\<close>

section \<open>The interface\<close>

record workspace_summary =
  summary_id :: workspace_id
  summary_name :: string
  summary_updated_at :: timestamp
  summary_revision :: u64

definition summary_of :: "workspace \<Rightarrow> workspace_summary" where
  "summary_of w = \<lparr>summary_id = ws_id w, summary_name = ws_name w,
     summary_updated_at = updated_at w, summary_revision = revision w\<rparr>"

record 's repository =
  repo_list :: "'s \<Rightarrow> (workspace_error + workspace_summary list) \<times> 's"
  repo_load :: "'s \<Rightarrow> workspace_id \<Rightarrow> (workspace_error + workspace option) \<times> 's"
  repo_save :: "timestamp \<Rightarrow> 's \<Rightarrow> workspace \<Rightarrow> u64 option \<Rightarrow> (workspace_error + workspace) \<times> 's"
  repo_delete :: "'s \<Rightarrow> workspace_id \<Rightarrow> u64 option \<Rightarrow> (workspace_error + unit) \<times> 's"
  repo_last_active :: "'s \<Rightarrow> (workspace_error + workspace_id option) \<times> 's"
  repo_set_last_active :: "'s \<Rightarrow> workspace_id option \<Rightarrow> (workspace_error + unit) \<times> 's"

text \<open>The documented contract of \<open>save\<close>: which expected revisions it accepts, and what it stores.\<close>

fun revision_accepts :: "u64 option \<Rightarrow> workspace option \<Rightarrow> bool" where
  "revision_accepts None old \<longleftrightarrow> True"
| "revision_accepts (Some r) (Some old) \<longleftrightarrow> r = revision old"
| "revision_accepts (Some r) None \<longleftrightarrow> False"

fun persisted :: "timestamp \<Rightarrow> workspace \<Rightarrow> workspace option \<Rightarrow> workspace" where
  "persisted now w (Some old) = w\<lparr>created_at := created_at old, revision := revision old + 1, updated_at := now\<rparr>"
| "persisted now w None = w\<lparr>revision := 1, updated_at := now\<rparr>"

locale workspace_repository =
  fixes R :: "'s repository"
    and repo_inv :: "'s \<Rightarrow> bool"
    and stored :: "'s \<Rightarrow> workspace_id \<Rightarrow> workspace option"
    and active :: "'s \<Rightarrow> workspace_id option"
  assumes stored_key: "repo_inv s \<Longrightarrow> stored s i = Some w \<Longrightarrow> ws_id w = i"
    and list_keeps: "repo_inv s \<Longrightarrow> repo_list R s = (rl, s') \<Longrightarrow>
      repo_inv s' \<and> stored s' = stored s \<and> active s' = active s"
    and list_result: "repo_inv s \<Longrightarrow> repo_list R s = (Inr xs, s') \<Longrightarrow> set xs = summary_of ` ran (stored s)"
    and load_keeps: "repo_inv s \<Longrightarrow> repo_load R s i = (rd, s') \<Longrightarrow>
      repo_inv s' \<and> stored s' = stored s \<and> active s' = active s"
    and load_result: "repo_inv s \<Longrightarrow> repo_load R s i = (Inr old, s') \<Longrightarrow> old = stored s i"
    and save_result: "repo_inv s \<Longrightarrow> repo_save R now s w e = (Inr w', s') \<Longrightarrow>
      repo_inv s' \<and> revision_accepts e (stored s (ws_id w)) \<and> w' = persisted now w (stored s (ws_id w))
      \<and> stored s' = (stored s)(ws_id w \<mapsto> w') \<and> active s' = active s"
    and save_error: "repo_inv s \<Longrightarrow> repo_save R now s w e = (Inl err, s') \<Longrightarrow>
      repo_inv s' \<and> stored s' = stored s \<and> active s' = active s"
    and delete_result: "repo_inv s \<Longrightarrow> repo_delete R s i e = (Inr u, s') \<Longrightarrow>
      repo_inv s' \<and> stored s i \<noteq> None \<and> revision_accepts e (stored s i)
      \<and> stored s' = (stored s)(i := None) \<and> active s' = active s"
    and delete_error: "repo_inv s \<Longrightarrow> repo_delete R s i e = (Inl err, s') \<Longrightarrow>
      repo_inv s' \<and> stored s' = stored s \<and> active s' = active s"
    and last_active_keeps: "repo_inv s \<Longrightarrow> repo_last_active R s = (ra, s') \<Longrightarrow>
      repo_inv s' \<and> stored s' = stored s \<and> active s' = active s"
    and last_active_result: "repo_inv s \<Longrightarrow> repo_last_active R s = (Inr a, s') \<Longrightarrow> a = active s"
    and set_active_result: "repo_inv s \<Longrightarrow> repo_set_last_active R s a = (Inr u, s') \<Longrightarrow>
      repo_inv s' \<and> stored s' = stored s \<and> active s' = a"
    and set_active_error: "repo_inv s \<Longrightarrow> repo_set_last_active R s a = (Inl err, s') \<Longrightarrow>
      repo_inv s' \<and> stored s' = stored s \<and> active s' = active s"
begin

lemma save_keeps_key: "repo_inv s \<Longrightarrow> repo_save R now s w e = (Inr w', s') \<Longrightarrow> ws_id w' = ws_id w"
  by (drule (1) save_result, cases "stored s (ws_id w)") auto

lemma save_conflict:
  assumes "repo_inv s" "\<not> revision_accepts e (stored s (ws_id w))"
  shows "\<exists>err s'. repo_save R now s w e = (Inl err, s') \<and> stored s' = stored s"
proof (cases "repo_save R now s w e")
  case (Pair r s')
  show ?thesis
  proof (cases r)
    case (Inl err)
    then show ?thesis using save_error [OF assms(1)] Pair by simp
  next
    case (Inr w')
    then show ?thesis using save_result [OF assms(1)] assms(2) Pair by simp
  qed
qed

end

section \<open>The in-memory repository\<close>

text \<open>The hash map is an association list: its iteration order, which \<open>list\<close> shows, is one of the
  orders a hash map may use.\<close>

record in_memory_workspace_repository =
  workspaces :: "(workspace_id \<times> workspace) list"
  last_active :: "workspace_id option"

definition memory_new :: in_memory_workspace_repository where
  "memory_new = \<lparr>workspaces = [], last_active = None\<rparr>"

definition memory_list :: "in_memory_workspace_repository
    \<Rightarrow> (workspace_error + workspace_summary list) \<times> in_memory_workspace_repository" where
  "memory_list s = (Inr (map (\<lambda>(_, w). summary_of w) (workspaces s)), s)"

definition memory_load :: "in_memory_workspace_repository \<Rightarrow> workspace_id
    \<Rightarrow> (workspace_error + workspace option) \<times> in_memory_workspace_repository" where
  "memory_load s i = (Inr (map_of (workspaces s) i), s)"

definition memory_save :: "timestamp \<Rightarrow> in_memory_workspace_repository \<Rightarrow> workspace \<Rightarrow> u64 option
    \<Rightarrow> (workspace_error + workspace) \<times> in_memory_workspace_repository" where
  "memory_save now s w expected =
    (let insert = (\<lambda>p. (Inr p, s\<lparr>workspaces := AList.update (ws_id p) p (workspaces s)\<rparr>)) in
     case map_of (workspaces s) (ws_id w) of
       Some existing \<Rightarrow>
         (case expected of
            Some e \<Rightarrow>
              if e \<noteq> revision existing then (Inl (RevisionConflict (ws_id w) (Some e) (revision existing)), s)
              else insert (w\<lparr>created_at := created_at existing, revision := revision existing + 1, updated_at := now\<rparr>)
          | None \<Rightarrow> insert (w\<lparr>created_at := created_at existing, revision := revision existing + 1, updated_at := now\<rparr>))
     | None \<Rightarrow>
         (case expected of
            Some e \<Rightarrow> (Inl (RevisionConflict (ws_id w) (Some e) 0), s)
          | None \<Rightarrow> insert (w\<lparr>revision := 1, updated_at := now\<rparr>)))"

definition memory_delete :: "in_memory_workspace_repository \<Rightarrow> workspace_id \<Rightarrow> u64 option
    \<Rightarrow> (workspace_error + unit) \<times> in_memory_workspace_repository" where
  "memory_delete s i expected =
    (case map_of (workspaces s) i of
       Some existing \<Rightarrow>
         (case expected of
            Some e \<Rightarrow>
              if e \<noteq> revision existing then (Inl (RevisionConflict i (Some e) (revision existing)), s)
              else (Inr (), s\<lparr>workspaces := AList.delete i (workspaces s)\<rparr>)
          | None \<Rightarrow> (Inr (), s\<lparr>workspaces := AList.delete i (workspaces s)\<rparr>))
     | None \<Rightarrow> (Inl (NotFound i), s))"

definition memory_last_active :: "in_memory_workspace_repository
    \<Rightarrow> (workspace_error + workspace_id option) \<times> in_memory_workspace_repository" where
  "memory_last_active s = (Inr (last_active s), s)"

definition memory_set_last_active :: "in_memory_workspace_repository \<Rightarrow> workspace_id option
    \<Rightarrow> (workspace_error + unit) \<times> in_memory_workspace_repository" where
  "memory_set_last_active s i = (Inr (), s\<lparr>last_active := i\<rparr>)"

definition memory_repository :: "in_memory_workspace_repository repository" where
  "memory_repository = \<lparr>repo_list = memory_list, repo_load = memory_load, repo_save = memory_save,
     repo_delete = memory_delete, repo_last_active = memory_last_active,
     repo_set_last_active = memory_set_last_active\<rparr>"

definition memory_inv :: "in_memory_workspace_repository \<Rightarrow> bool" where
  "memory_inv s \<longleftrightarrow> distinct (map fst (workspaces s)) \<and> list_all (\<lambda>(i, w). ws_id w = i) (workspaces s)"

abbreviation memory_stored :: "in_memory_workspace_repository \<Rightarrow> workspace_id \<Rightarrow> workspace option" where
  "memory_stored s \<equiv> map_of (workspaces s)"

lemmas memory_defs = memory_list_def memory_load_def memory_save_def memory_delete_def
  memory_last_active_def memory_set_last_active_def

lemma update_subset: "set (AList.update k v al) \<subseteq> insert (k, v) (set al)"
  by (induction al) auto

lemma delete_subset: "set (AList.delete k al) \<subseteq> set al"
  by (auto simp: AList.delete_eq)

lemma memory_inv_update:
  "memory_inv s \<Longrightarrow> ws_id w = i \<Longrightarrow> memory_inv (s\<lparr>workspaces := AList.update i w (workspaces s)\<rparr>)"
  using distinct_update [of "workspaces s" i w] update_subset [of i w "workspaces s"]
  by (auto simp: memory_inv_def list_all_iff)

lemma memory_inv_delete: "memory_inv s \<Longrightarrow> memory_inv (s\<lparr>workspaces := AList.delete i (workspaces s)\<rparr>)"
  using distinct_delete [of "workspaces s" i] delete_subset [of i "workspaces s"]
  by (auto simp: memory_inv_def list_all_iff)

lemma memory_save_Inr:
  "memory_save now s w e = (Inr w', s') \<longleftrightarrow>
    revision_accepts e (memory_stored s (ws_id w)) \<and> w' = persisted now w (memory_stored s (ws_id w))
    \<and> s' = s\<lparr>workspaces := AList.update (ws_id w) w' (workspaces s)\<rparr>"
  by (cases e) (auto simp: memory_save_def Let_def split: option.splits if_splits)

lemma memory_save_Inl:
  "memory_save now s w e = (Inl err, s') \<Longrightarrow> s' = s"
  by (cases e) (auto simp: memory_save_def Let_def split: option.splits if_splits)

lemma memory_delete_Inr:
  "memory_delete s i e = (Inr u, s') \<longleftrightarrow>
    memory_stored s i \<noteq> None \<and> revision_accepts e (memory_stored s i)
    \<and> s' = s\<lparr>workspaces := AList.delete i (workspaces s)\<rparr>"
  by (cases e) (auto simp: memory_delete_def split: option.splits if_splits)

lemma memory_delete_Inl: "memory_delete s i e = (Inl err, s') \<Longrightarrow> s' = s"
  by (cases e) (auto simp: memory_delete_def split: option.splits if_splits)

lemma persisted_key: "ws_id (persisted now w old) = ws_id w"
  by (cases old) auto

interpretation memory: workspace_repository memory_repository memory_inv memory_stored last_active
proof (unfold_locales, goal_cases)
  case (1 s i w)
  then show ?case by (auto simp: memory_inv_def list_all_iff dest: map_of_SomeD)
next
  case (3 s xs s')
  then show ?case
    by (force simp: memory_repository_def memory_list_def memory_inv_def ran_distinct)
next
  case (6 s now w e w' s')
  then show ?case using memory_inv_update [of s w' "ws_id w"]
    by (auto simp: memory_repository_def memory_save_Inr update_conv' persisted_key)
next
  case (8 s i e u s')
  then show ?case using memory_inv_delete [of s i]
    by (auto simp: memory_repository_def memory_delete_Inr delete_conv')
qed (auto simp: memory_repository_def memory_list_def memory_load_def memory_last_active_def
    memory_set_last_active_def memory_inv_def dest: memory_save_Inl memory_delete_Inl)

end
