(* ===== verification/Workspace_Events.thy ===== *)
theory Workspace_Events
  imports Workspace_Command
begin

text \<open>
  The \<open>workspace.*\<close> events of \<open>src/crates/fm-application/src/workspace/events.rs\<close> and the payload
  types of \<open>src/crates/fm-events/src/lib.rs\<close> they carry.
\<close>

section \<open>Payloads\<close>

record location_payload =
  payload_provider_id :: string
  payload_uri :: string

datatype sort_direction_payload = AscendingPayload | DescendingPayload

record sort_descriptor_payload =
  payload_sort_column_id :: string
  payload_direction :: sort_direction_payload

record column_configuration_payload =
  payload_column_id :: string
  payload_width :: u32
  payload_visible :: bool

record persisted_filter_payload =
  payload_query :: string

record directory_view_configuration_payload =
  payload_sort :: "sort_descriptor_payload list"
  payload_columns :: "column_configuration_payload list"
  payload_show_hidden :: bool
  payload_folders_first :: bool
  payload_quick_filter :: "persisted_filter_payload option"

datatype split_direction_payload = HorizontalPayload | VerticalPayload

datatype workspace_layout_payload =
    PanePayload pane_id
  | SplitPayload split_direction_payload f32 workspace_layout_payload workspace_layout_payload

text \<open>The workspace variants of \<open>BackendEventPayload\<close>.\<close>

datatype workspace_event =
    WorkspaceCreated u64
  | WorkspaceRenamed u64 string
  | WorkspaceOpened u64
  | WorkspaceClosed u64
  | WorkspaceDeleted u64
  | WorkspaceLayoutChanged u64 workspace_layout_payload
  | WorkspaceActivePaneChanged u64 pane_id
  | WorkspaceTabAdded u64 pane_id tab_id location_payload
  | WorkspaceTabClosed u64 pane_id tab_id
  | WorkspaceTabActivated u64 pane_id tab_id
  | WorkspaceTabNavigated u64 pane_id tab_id location_payload
  | WorkspaceTabViewChanged u64 pane_id tab_id directory_view_configuration_payload

section \<open>Building events\<close>

definition workspace_created :: "workspace \<Rightarrow> workspace_event" where
  "workspace_created w = WorkspaceCreated (revision w)"

definition workspace_opened :: "workspace \<Rightarrow> workspace_event" where
  "workspace_opened w = WorkspaceOpened (revision w)"

definition workspace_closed :: "u64 \<Rightarrow> workspace_event" where
  "workspace_closed r = WorkspaceClosed r"

definition workspace_deleted :: "u64 \<Rightarrow> workspace_event" where
  "workspace_deleted r = WorkspaceDeleted r"

definition make_location_payload :: "location \<Rightarrow> location_payload" where
  "make_location_payload l = \<lparr>payload_provider_id = provider_id l, payload_uri = uri l\<rparr>"

definition make_sort_payload :: "sort_descriptor \<Rightarrow> sort_descriptor_payload" where
  "make_sort_payload s = \<lparr>payload_sort_column_id = sort_column_id s,
     payload_direction = (case direction s of Ascending \<Rightarrow> AscendingPayload | Descending \<Rightarrow> DescendingPayload)\<rparr>"

definition make_column_payload :: "column_configuration \<Rightarrow> column_configuration_payload" where
  "make_column_payload c = \<lparr>payload_column_id = column_id c, payload_width = width c, payload_visible = column_visible c\<rparr>"

definition make_filter_payload :: "persisted_filter \<Rightarrow> persisted_filter_payload" where
  "make_filter_payload f = \<lparr>payload_query = query f\<rparr>"

definition view_payload :: "directory_view_configuration \<Rightarrow> directory_view_configuration_payload" where
  "view_payload v = \<lparr>payload_sort = map make_sort_payload (sort_by v),
     payload_columns = map make_column_payload (columns v),
     payload_show_hidden = show_hidden v, payload_folders_first = folders_first v,
     payload_quick_filter = map_option make_filter_payload (quick_filter v)\<rparr>"

fun layout_payload :: "workspace_layout \<Rightarrow> workspace_layout_payload" where
  "layout_payload (Pane p) = PanePayload p"
| "layout_payload (Split axis ratio l r) =
    SplitPayload (case axis of Horizontal \<Rightarrow> HorizontalPayload | Vertical \<Rightarrow> VerticalPayload) ratio
      (layout_payload l) (layout_payload r)"

fun command_event :: "workspace_command \<Rightarrow> workspace \<Rightarrow> workspace_error + workspace_event" where
  "command_event (RenameWorkspace _ _ _) w = Inr (WorkspaceRenamed (revision w) (ws_name w))"
| "command_event (SetActivePane _ p _) w = Inr (WorkspaceActivePaneChanged (revision w) p)"
| "command_event (AddTab _ p _ _) w =
    and_then (find_pane w p) (\<lambda>pane. and_then (find_tab pane (ws_id w) (active_tab_id pane)) (\<lambda>tab.
      Inr (WorkspaceTabAdded (revision w) p (tab_id tab) (make_location_payload (tab_location tab)))))"
| "command_event (CloseTab _ p t _) w = Inr (WorkspaceTabClosed (revision w) p t)"
| "command_event (ActivateTab _ p t _) w = Inr (WorkspaceTabActivated (revision w) p t)"
| "command_event (NavigateTab _ p t _ _ _) w =
    and_then (find_pane w p) (\<lambda>pane. and_then (find_tab pane (ws_id w) t) (\<lambda>tab.
      Inr (WorkspaceTabNavigated (revision w) p t (make_location_payload (tab_location tab)))))"
| "command_event (UpdateView _ p t _ _) w =
    and_then (find_pane w p) (\<lambda>pane. and_then (find_tab pane (ws_id w) t) (\<lambda>tab.
      Inr (WorkspaceTabViewChanged (revision w) p t (view_payload (tab_view tab)))))"
| "command_event (UpdateLayout _ _ _) w = Inr (WorkspaceLayoutChanged (revision w) (layout_payload (layout w)))"

section \<open>Events after a successful command\<close>

lemma find_pane_found: "p \<in> set (pane_ids w) \<Longrightarrow> \<exists>pane\<in>set (panes w). pane_id pane = p \<and> find_pane w p = Inr pane"
proof -
  assume "p \<in> set (pane_ids w)"
  then obtain pane where "List.find (\<lambda>pane. pane_id pane = p) (panes w) = Some pane"
    by (cases "List.find (\<lambda>pane. pane_id pane = p) (panes w)") (auto simp: find_None_iff)
  from this find_split [OF this] show ?thesis by (auto simp: find_pane_def)
qed

lemma find_tab_found:
  "t \<in> tab_id ` set (tabs pane) \<Longrightarrow> \<exists>tab\<in>set (tabs pane). tab_id tab = t \<and> find_tab pane i t = Inr tab"
proof -
  assume "t \<in> tab_id ` set (tabs pane)"
  then obtain tab where "List.find (\<lambda>tab. tab_id tab = t) (tabs pane) = Some tab"
    by (cases "List.find (\<lambda>tab. tab_id tab = t) (tabs pane)") (auto simp: find_None_iff)
  from this find_split [OF this] show ?thesis by (auto simp: find_tab_def)
qed

lemma pane_found_unique:
  "workspace_ok w \<Longrightarrow> pane \<in> set (panes w) \<Longrightarrow> find_pane w (pane_id pane) = Inr pane"
  using find_distinct [of pane_id "panes w" "pane_id pane" pane] by (simp add: find_pane_def workspace_ok_def)

lemma mutate_tab_kept:
  assumes "find_tab_mut w p t f = Inr w'" "\<And>tab tab'. f tab = Inr tab' \<Longrightarrow> tab_id tab' = tab_id tab"
  shows "has_tab w' p t"
  using assms(1)
proof (cases rule: find_tab_mut_cases)
  case (1 as pane bs ts tab us tab')
  then show ?thesis using assms(2) [OF 1(5)] by (auto simp: has_tab_def)
qed

lemma tab_event_ok:
  assumes "workspace_ok w" "has_tab w p t"
  shows "\<exists>pane tab. find_pane w p = Inr pane \<and> find_tab pane i t = Inr tab"
  using assms pane_found_unique find_tab_found by (fastforce simp: has_tab_def)

text \<open>The event of a command that was applied can always be built: the pane and the tab it reads
  back exist in every valid result.\<close>

lemma command_event_total:
  assumes "apply_command_to uuid_ok home new_id w c = Inr w'"
  shows "\<exists>ev. command_event c (w'\<lparr>created_at := k, revision := r, updated_at := now\<rparr>) = Inr ev"
proof -
  let ?w = "w'\<lparr>created_at := k, revision := r, updated_at := now\<rparr>"
  have m: "mutate uuid_ok home new_id w c = Inr w'" and ok: "workspace_ok w'"
    using assms by (simp_all add: apply_Inr)
  have ok': "workspace_ok ?w" using ok by (simp add: workspace_ok_def)
  have event: "\<exists>ev. and_then (find_pane ?w p) (\<lambda>pane. and_then (find_tab pane (ws_id ?w) t) (\<lambda>tab. Inr (g tab))) = Inr ev"
    if "has_tab w' p t" for p t and g :: "tab_state \<Rightarrow> workspace_event"
  proof -
    have "has_tab ?w p t" using that by (simp add: has_tab_def)
    then show ?thesis using tab_event_ok [OF ok', of p t "ws_id ?w"] by auto
  qed
  show ?thesis
  proof (cases c)
    case (AddTab i p loc e)
    then have "\<exists>pane'\<in>set (panes ?w). pane_id pane' = p \<and> active_tab_id pane' \<in> tab_id ` set (tabs pane')"
      using m by (auto simp: find_pane_mut_Inr Let_def build_tab_def)
    then obtain pane' where pane': "pane' \<in> set (panes ?w)" "pane_id pane' = p" "active_tab_id pane' \<in> tab_id ` set (tabs pane')"
      by blast
    then show ?thesis
      using pane_found_unique [OF ok' pane'(1)] find_tab_found [OF pane'(3), of "ws_id ?w"] AddTab by auto
  next
    case (NavigateTab i p t loc mode e)
    then show ?thesis using m event mutate_tab_kept navigate_frame by simp
  next
    case (UpdateView i p t patch e)
    have "has_tab w' p t" using m unfolding UpdateView mutate.simps by (rule mutate_tab_kept) auto
    then show ?thesis using event by (simp add: UpdateView)
  qed simp_all
qed

end
