(* ===== verification/Workspace_Service.thy ===== *)
theory Workspace_Service
  imports Workspace_Repository Workspace_Events
begin

text \<open>
  \<open>WorkspaceService\<close> of \<open>src/crates/fm-application/src/workspace/service.rs\<close>, over any repository.
  An operation is a function of the service state (the store and the events handed to the
  publisher so far) that returns a result and the next state. The identifiers and the clock
  readings an operation draws are arguments. The client lemmas are proved once for every
  repository that keeps the contract, in the locale \<open>service_laws\<close>, and then instantiated with the
  in-memory repository.
\<close>

section \<open>Actions\<close>

record 's service_state =
  store :: 's
  published :: "(workspace_id \<times> workspace_event) list"

type_synonym ('s, 'a) action = "'s service_state \<Rightarrow> (workspace_error + 'a) \<times> 's service_state"

definition return_with :: "'a \<Rightarrow> ('s, 'a) action" where
  "return_with x st = (Inr x, st)"

definition lift_result :: "workspace_error + 'a \<Rightarrow> ('s, 'a) action" where
  "lift_result r st = (r, st)"

definition then_do :: "('s, 'a) action \<Rightarrow> ('a \<Rightarrow> ('s, 'b) action) \<Rightarrow> ('s, 'b) action" where
  "then_do m f st = (case m st of (Inl e, st') \<Rightarrow> (Inl e, st') | (Inr x, st') \<Rightarrow> f x st')"

text \<open>Running an operation for its result, error or not, without leaving on an error.\<close>

definition attempt :: "('s, 'a) action \<Rightarrow> ('s, workspace_error + 'a) action" where
  "attempt m st = (case m st of (r, st') \<Rightarrow> (Inr r, st'))"

definition on_store :: "('s \<Rightarrow> (workspace_error + 'a) \<times> 's) \<Rightarrow> ('s, 'a) action" where
  "on_store f st = (case f (store st) of (r, s') \<Rightarrow> (r, st\<lparr>store := s'\<rparr>))"

definition publish :: "workspace_id \<Rightarrow> workspace_event \<Rightarrow> ('s, unit) action" where
  "publish i ev st = (Inr (), st\<lparr>published := published st @ [(i, ev)]\<rparr>)"

section \<open>The service\<close>

record 's workspace_service =
  repository :: "'s repository"
  home_directory :: string
  secondary_location :: "string option"
  service_uuid_ok :: "string \<Rightarrow> bool"

definition names_match :: "string \<Rightarrow> string \<Rightarrow> bool" where
  "names_match a b \<longleftrightarrow> eq_ignore_ascii_case (trim a) (trim b)"

definition validate_or_error :: "workspace \<Rightarrow> workspace_error + unit" where
  "validate_or_error w = map_err Invalid (validate w)"

definition service_list :: "'s workspace_service \<Rightarrow> ('s, workspace_summary list) action" where
  "service_list svc = on_store (repo_list (repository svc))"

definition service_load :: "'s workspace_service \<Rightarrow> workspace_id \<Rightarrow> ('s, workspace) action" where
  "service_load svc i =
    then_do (on_store (\<lambda>s. repo_load (repository svc) s i)) (\<lambda>found.
    then_do (lift_result (ok_or (NotFound i) found)) (\<lambda>w.
    then_do (lift_result (validate_or_error w)) (\<lambda>_.
    return_with w)))"

definition ensure_name_available ::
  "'s workspace_service \<Rightarrow> string \<Rightarrow> workspace_id option \<Rightarrow> ('s, unit) action" where
  "ensure_name_available svc n excluding =
    then_do (on_store (repo_list (repository svc))) (\<lambda>summaries.
      lift_result
        (if list_ex (\<lambda>summary. Some (summary_id summary) \<noteq> excluding \<and> names_match (summary_name summary) n) summaries
         then Inl (DuplicateName n) else Inr ()))"

text \<open>The search for a free suffix is a loop with a 32-bit counter; a run that does not end is
  \<open>None\<close>.\<close>

partial_function (option) free_suffix :: "(string \<Rightarrow> bool) \<Rightarrow> string \<Rightarrow> u32 \<Rightarrow> string option" where
  "free_suffix taken base suffix =
    (let candidate = base @ '' '' @ show_nat (unat suffix)
     in if \<not> taken candidate then Some candidate else free_suffix taken base (suffix + 1))"

definition unique_name_in :: "workspace_summary list \<Rightarrow> string \<Rightarrow> string option" where
  "unique_name_in summaries base =
    (let taken = (\<lambda>candidate. list_ex (\<lambda>summary. names_match (summary_name summary) candidate) summaries)
     in if \<not> taken base then Some base else free_suffix taken base 2)"

text \<open>\<open>create\<close> returns \<open>None\<close> when the search for a name does not end.\<close>

definition create_named ::
  "'s workspace_service \<Rightarrow> timestamp \<Rightarrow> workspace \<Rightarrow> ('s, workspace) action" where
  "create_named svc now w =
    then_do (lift_result (validate_or_error w)) (\<lambda>_.
    then_do (on_store (\<lambda>s. repo_save (repository svc) now s w None)) (\<lambda>p.
    then_do (publish (ws_id p) (workspace_created p)) (\<lambda>_.
    return_with p)))"

definition service_create ::
  "'s workspace_service \<Rightarrow> fresh_ids \<Rightarrow> timestamp \<Rightarrow> string option \<Rightarrow> 's service_state
    \<Rightarrow> ((workspace_error + workspace) \<times> 's service_state) option" where
  "service_create svc ids now requested st =
    (let w = default_workspace (service_uuid_ok svc) ids now (home_directory svc) (secondary_location svc)
     in case requested of
          Some n \<Rightarrow> Some (then_do (ensure_name_available svc n None) (\<lambda>_. create_named svc now (w\<lparr>ws_name := n\<rparr>)) st)
        | None \<Rightarrow>
            (case on_store (repo_list (repository svc)) st of
               (Inl e, st') \<Rightarrow> Some (Inl e, st')
             | (Inr summaries, st') \<Rightarrow>
                 map_option (\<lambda>n. create_named svc now (w\<lparr>ws_name := n\<rparr>) st') (unique_name_in summaries (ws_name w))))"

definition select_created :: "'s workspace_service \<Rightarrow> workspace \<Rightarrow> ('s, workspace) action" where
  "select_created svc p =
    then_do (on_store (\<lambda>s. repo_set_last_active (repository svc) s (Some (ws_id p)))) (\<lambda>_.
    then_do (publish (ws_id p) (workspace_opened p)) (\<lambda>_.
    return_with p))"

definition create_default ::
  "'s workspace_service \<Rightarrow> fresh_ids \<Rightarrow> timestamp \<Rightarrow> 's service_state
    \<Rightarrow> ((workspace_error + workspace) \<times> 's service_state) option" where
  "create_default svc ids now st =
    map_option (\<lambda>res. case res of (Inl e, st') \<Rightarrow> (Inl e, st') | (Inr p, st') \<Rightarrow> select_created svc p st')
      (service_create svc ids now None st)"

definition service_delete ::
  "'s workspace_service \<Rightarrow> workspace_id \<Rightarrow> u64 option \<Rightarrow> ('s, unit) action" where
  "service_delete svc i expected =
    then_do (attempt (on_store (\<lambda>s. repo_load (repository svc) s i))) (\<lambda>found.
    let r = (case found of Inr (Some w) \<Rightarrow> revision w | _ \<Rightarrow> 0) in
    then_do (on_store (\<lambda>s. repo_delete (repository svc) s i expected)) (\<lambda>_.
    publish i (workspace_deleted r)))"

definition service_open :: "'s workspace_service \<Rightarrow> workspace_id \<Rightarrow> ('s, workspace) action" where
  "service_open svc i =
    then_do (on_store (repo_last_active (repository svc))) (\<lambda>previous.
    then_do (service_load svc i) (\<lambda>w.
    then_do (on_store (\<lambda>s. repo_set_last_active (repository svc) s (Some i))) (\<lambda>_.
    then_do
      (case previous of
         Some p \<Rightarrow> if p \<noteq> i then
             then_do (attempt (on_store (\<lambda>s. repo_load (repository svc) s p))) (\<lambda>found.
               case found of Inr (Some prev) \<Rightarrow> publish p (workspace_closed (revision prev)) | _ \<Rightarrow> return_with ())
           else return_with ()
       | None \<Rightarrow> return_with ()) (\<lambda>_.
    then_do (publish (ws_id w) (workspace_opened w)) (\<lambda>_.
    return_with w)))))"

fun is_rename :: "workspace_command \<Rightarrow> string option" where
  "is_rename (RenameWorkspace i n r) = Some n"
| "is_rename c = None"

definition apply_command ::
  "'s workspace_service \<Rightarrow> tab_id \<Rightarrow> timestamp \<Rightarrow> workspace_command \<Rightarrow> ('s, workspace) action" where
  "apply_command svc new_id now c =
    (let i = command_workspace_id c; expected = expected_revision c in
    then_do (service_load svc i) (\<lambda>w.
    if revision w \<noteq> expected then lift_result (Inl (RevisionConflict i (Some expected) (revision w))) else
    then_do (case is_rename c of Some n \<Rightarrow> ensure_name_available svc n (Some i) | None \<Rightarrow> return_with ()) (\<lambda>_.
    then_do (lift_result (apply_command_to (service_uuid_ok svc) (home_directory svc) new_id w c)) (\<lambda>w'.
    then_do (on_store (\<lambda>s. repo_save (repository svc) now s w' (Some expected))) (\<lambda>p.
    then_do (lift_result (command_event c p)) (\<lambda>ev.
    then_do (publish (ws_id p) ev) (\<lambda>_.
    return_with p)))))))"

definition service_start ::
  "'s workspace_service \<Rightarrow> fresh_ids \<Rightarrow> timestamp \<Rightarrow> workspace_id option \<Rightarrow> 's service_state
    \<Rightarrow> ((workspace_error + workspace) \<times> 's service_state) option" where
  "service_start svc ids now requested st =
    (case (case requested of Some i \<Rightarrow> return_with (Some i) st
           | None \<Rightarrow> on_store (repo_last_active (repository svc)) st) of
       (Inl e, st') \<Rightarrow> Some (Inl e, st')
     | (Inr None, st') \<Rightarrow> create_default svc ids now st'
     | (Inr (Some i), st') \<Rightarrow>
         (case service_load svc i st' of
            (Inr w, st'') \<Rightarrow> Some (select_created svc w st'')
          | (Inl (NotFound _), st'') \<Rightarrow> create_default svc ids now st''
          | (Inl (Corrupt _ _), st'') \<Rightarrow> create_default svc ids now st''
          | (Inl e, st'') \<Rightarrow> Some (Inl e, st'')))"

section \<open>Laws of the service\<close>

text \<open>What the service keeps true of the stored workspaces: each is sound, and no two have names
  that match.\<close>

definition store_ok :: "(workspace_id \<Rightarrow> workspace option) \<Rightarrow> bool" where
  "store_ok m \<longleftrightarrow> (\<forall>i w. m i = Some w \<longrightarrow> workspace_sound w)
    \<and> (\<forall>i j v w. m i = Some v \<longrightarrow> m j = Some w \<longrightarrow> i \<noteq> j \<longrightarrow> \<not> names_match (ws_name v) (ws_name w))"

lemma then_do_eq:
  "then_do m f st = (r, st') \<longleftrightarrow>
    (\<exists>e st1. m st = (Inl e, st1) \<and> r = Inl e \<and> st' = st1) \<or> (\<exists>x st1. m st = (Inr x, st1) \<and> f x st1 = (r, st'))"
  by (auto simp: then_do_def split: prod.splits sum.splits)

lemma then_do_run:
  "m st = (Inl e, st1) \<Longrightarrow> then_do m f st = (Inl e, st1)"
  "m st = (Inr x, st1) \<Longrightarrow> then_do m f st = f x st1"
  by (simp_all add: then_do_def)

lemma names_match_sym: "names_match a b \<longleftrightarrow> names_match b a"
  by (auto simp: names_match_def eq_ignore_ascii_case_def)

lemma names_match_refl: "names_match a a"
  by (simp add: names_match_def eq_ignore_ascii_case_def)

lemma mutate_name:
  "mutate uuid_ok home new_id w c = Inr w' \<Longrightarrow>
    ws_name w' = (case is_rename c of Some n \<Rightarrow> n | None \<Rightarrow> ws_name w)"
  by (cases c) (auto simp: close_tab_def find_tab_mut_def find_pane_mut_Inr result_simps split: if_splits)

lemma persisted_fields:
  "ws_id (persisted now w old) = ws_id w" "ws_name (persisted now w old) = ws_name w"
  "workspace_sound (persisted now w old) = workspace_sound w"
  by (cases old; simp add: workspace_sound_def workspace_ok_def histories_sound_def)+

lemma store_ok_insert:
  assumes "store_ok m" "workspace_sound p" "\<And>j w. m j = Some w \<Longrightarrow> j \<noteq> i \<Longrightarrow> \<not> names_match (ws_name w) (ws_name p)"
  shows "store_ok (m(i \<mapsto> p))"
  using assms names_match_sym by (auto simp: store_ok_def split: if_splits)

section \<open>The search for a free name\<close>

lemma ws_len_graphic: "32 < byte c \<Longrightarrow> byte c < 128 \<Longrightarrow> ws_len (c # s) = 0"
  by (cases "c # s" rule: ws_len.cases) (auto simp: in_range_def)

lemma rev_ws_len_graphic: "32 < byte c \<Longrightarrow> byte c < 128 \<Longrightarrow> rev_ws_len (c # s) = 0"
  by (cases "c # s" rule: rev_ws_len.cases) (auto simp: in_range_def)

lemma trim_graphic:
  assumes "s \<noteq> []" "32 < byte (hd s)" "byte (hd s) < 128" "32 < byte (last s)" "byte (last s) < 128"
  shows "trim s = s"
proof -
  have "ws_len s = 0" using assms ws_len_graphic [of "hd s" "tl s"] by simp
  then have "trim_start s = s" by (subst trim_start.simps) simp
  moreover have "rev_ws_len (rev s) = 0"
    using assms rev_ws_len_graphic [of "last s" "rev (butlast s)"]
    by (metis append_butlast_last_id rev_append rev_singleton_conv append_Cons append_Nil)
  ultimately show ?thesis by (simp add: trim_def) (subst trim_rev_end.simps, simp)
qed

lemma free_suffix_free: "free_suffix taken base k = Some n \<Longrightarrow> \<not> taken n"
  by (erule free_suffix.raw_induct [rotated, where P = "\<lambda>taken base k n. \<not> taken n"])
    (auto simp: Let_def split: if_splits)

lemma free_suffix_ends:
  "unat k + d < 2 ^ 32 \<Longrightarrow> \<not> taken (base @ '' '' @ show_nat (unat k + d)) \<Longrightarrow> \<exists>n. free_suffix taken base k = Some n"
proof (induction d arbitrary: k)
  case 0
  then show ?case by (subst free_suffix.simps) simp
next
  case (Suc d)
  have "unat (k + 1) = unat k + 1" using Suc.prems(1) by (simp add: unat_word_ariths)
  then have "\<exists>n. free_suffix taken base (k + 1) = Some n" using Suc by auto
  then show ?case by (subst free_suffix.simps) (simp add: Let_def)
qed

lemma default_candidate_trim: "trim (''Default '' @ show_nat k) = ''Default '' @ show_nat k"
proof (rule trim_graphic)
  have "last (show_nat k) \<in> set (show_nat k)" by simp
  then have "is_ascii_digit (last (show_nat k))" by (rule show_nat_digits)
  then show "32 < byte (last (''Default '' @ show_nat k))" "byte (last (''Default '' @ show_nat k)) < 128"
    by (auto simp: is_ascii_digit_def in_range_def)
qed (auto simp: byte_def)

lemma lower_digits: "map to_ascii_lowercase (show_nat k) = show_nat k"
proof (rule map_idI)
  fix c assume "c \<in> set (show_nat k)"
  then have "is_ascii_digit c" by (rule show_nat_digits)
  then show "to_ascii_lowercase c = c" by (auto simp: to_ascii_lowercase_def is_ascii_digit_def in_range_def)
qed

lemma default_name_ends:
  assumes "length summaries < 2 ^ 32 - 3"
  shows "\<exists>n. unique_name_in summaries ''Default'' = Some n"
proof -
  let ?taken = "\<lambda>c. list_ex (\<lambda>summary. names_match (summary_name summary) c) summaries"
  let ?cand = "\<lambda>k. ''Default '' @ show_nat k"
  let ?key = "\<lambda>s. map to_ascii_lowercase (trim s)"
  let ?K = "{2..length summaries + 2}"
  have "\<exists>k\<in>?K. \<not> ?taken (?cand k)"
  proof (rule ccontr)
    assume all: "\<not> ?thesis"
    have "?key (?cand k) \<in> (?key \<circ> summary_name) ` set summaries" if "k \<in> ?K" for k
    proof -
      have "?taken (?cand k)" using that all by blast
      then obtain x where "x \<in> set summaries" "?key (summary_name x) = ?key (?cand k)"
        by (auto simp only: list_ex_iff names_match_def eq_ignore_ascii_case_def)
      then show ?thesis by (metis comp_apply imageI)
    qed
    then have sub: "(\<lambda>k. ?key (?cand k)) ` ?K \<subseteq> (?key \<circ> summary_name) ` set summaries" by blast
    have "inj_on (\<lambda>k. ?key (?cand k)) ?K"
      unfolding default_candidate_trim by (rule inj_onI) (auto simp: lower_digits dest: show_nat_inj)
    then have "card ?K \<le> card ((?key \<circ> summary_name) ` set summaries)"
      using card_inj_on_le [OF _ sub] by simp
    also have "\<dots> \<le> length summaries" using card_image_le card_length le_trans by blast
    finally show False by simp
  qed
  then obtain k where "2 \<le> k" "k \<le> length summaries + 2" "\<not> ?taken (?cand k)" by auto
  moreover from this obtain d where "k = 2 + d" using le_Suc_ex by blast
  ultimately have "\<exists>n. free_suffix ?taken ''Default'' 2 = Some n"
    using assms free_suffix_ends [of 2 d ?taken "''Default''"] by simp
  then show ?thesis by (auto simp: unique_name_in_def Let_def)
qed

lemma unique_name_free:
  "unique_name_in summaries base = Some n \<Longrightarrow> summary \<in> set summaries \<Longrightarrow> \<not> names_match (summary_name summary) n"
  by (auto simp: unique_name_in_def Let_def list_ex_iff dest: free_suffix_free split: if_splits)

locale service_laws = workspace_repository R repo_inv stored active
  for R :: "'s repository" and repo_inv stored active +
  fixes svc :: "'s workspace_service"
  assumes svc_repository: "repository svc = R"
begin

definition unchanged :: "'s service_state \<Rightarrow> 's service_state \<Rightarrow> bool" where
  "unchanged st st' \<longleftrightarrow> repo_inv (store st') \<and> stored (store st') = stored (store st)
    \<and> active (store st') = active (store st) \<and> published st' = published st"

lemma unchanged_trans: "unchanged a b \<Longrightarrow> unchanged b c \<Longrightarrow> unchanged a c"
  by (simp add: unchanged_def)

lemma unchanged_refl: "repo_inv (store st) \<Longrightarrow> unchanged st st"
  by (simp add: unchanged_def)

lemma list_unchanged:
  "repo_inv (store st) \<Longrightarrow> on_store (repo_list R) st = (r, st') \<Longrightarrow>
    unchanged st st' \<and> (\<forall>xs. r = Inr xs \<longrightarrow> set xs = summary_of ` ran (stored (store st)))"
  using list_keeps list_result by (auto simp: on_store_def unchanged_def split: prod.splits)

lemma load_unchanged:
  "repo_inv (store st) \<Longrightarrow> on_store (\<lambda>s. repo_load R s i) st = (r, st') \<Longrightarrow>
    unchanged st st' \<and> (\<forall>found. r = Inr found \<longrightarrow> found = stored (store st) i)"
  using load_keeps load_result by (auto simp: on_store_def unchanged_def split: prod.splits)

lemma service_load_unchanged:
  assumes "repo_inv (store st)" "service_load svc i st = (r, st')"
  shows "unchanged st st' \<and> (\<forall>w. r = Inr w \<longrightarrow> stored (store st) i = Some w \<and> workspace_ok w)"
  using assms load_unchanged [of st i]
  by (auto simp: service_load_def svc_repository then_do_eq lift_result_def return_with_def
      validate_or_error_def result_simps)

lemma ensure_name_unchanged:
  assumes "repo_inv (store st)" "ensure_name_available svc n ex st = (r, st')"
  shows "unchanged st st' \<and> (r = Inr () \<longrightarrow>
    (\<forall>j w. stored (store st) j = Some w \<longrightarrow> Some j \<noteq> ex \<longrightarrow> \<not> names_match (ws_name w) n))"
proof -
  obtain l st1 where l: "on_store (repo_list R) st = (l, st1)" by fastforce
  note lu = list_unchanged [OF assms(1) l]
  show ?thesis
  proof (cases l)
    case (Inl e)
    then show ?thesis using assms(2) l lu by (auto simp: ensure_name_available_def svc_repository then_do_def)
  next
    case (Inr xs)
    have "summary_of w \<in> set xs \<and> ws_id w = j" if "stored (store st) j = Some w" for j w
      using that lu Inr stored_key [OF assms(1)] by (auto simp: ran_def)
    then show ?thesis using assms(2) l lu Inr
      by (fastforce simp: ensure_name_available_def svc_repository then_do_def lift_result_def list_ex_iff
          summary_of_def split: if_splits)
  qed
qed

lemma rename_check_unchanged:
  assumes "repo_inv (store st)"
    "(case is_rename c of Some n \<Rightarrow> ensure_name_available svc n (Some i) | None \<Rightarrow> return_with ()) st = (r, st')"
  shows "unchanged st st' \<and> (r = Inr () \<longrightarrow> (\<forall>n. is_rename c = Some n \<longrightarrow>
    (\<forall>j w. stored (store st) j = Some w \<longrightarrow> j \<noteq> i \<longrightarrow> \<not> names_match (ws_name w) n)))"
  using assms ensure_name_unchanged [OF assms(1), of _ "Some i" r st'] unchanged_refl [OF assms(1)]
  by (auto simp: return_with_def split: option.splits)

text \<open>The run of a command up to the save: either it stops with an error and nothing changed, or the
  command was applied to the stored workspace with the expected revision and the save runs next.\<close>

lemma apply_command_prefix:
  assumes "repo_inv (store st)" "apply_command svc new_id now c st = (r, st')"
  shows "(\<exists>e. r = Inl e \<and> unchanged st st') \<or>
    (\<exists>w w' st1. unchanged st st1 \<and> stored (store st) (command_workspace_id c) = Some w
      \<and> revision w = expected_revision c
      \<and> (\<forall>n. is_rename c = Some n \<longrightarrow> (\<forall>j v. stored (store st) j = Some v \<longrightarrow> j \<noteq> command_workspace_id c \<longrightarrow> \<not> names_match (ws_name v) n))
      \<and> apply_command_to (service_uuid_ok svc) (home_directory svc) new_id w c = Inr w'
      \<and> then_do (on_store (\<lambda>s. repo_save R now s w' (Some (expected_revision c)))) (\<lambda>p.
          then_do (lift_result (command_event c p)) (\<lambda>ev.
          then_do (publish (ws_id p) ev) (\<lambda>_. return_with p))) st1 = (r, st'))"
proof -
  let ?i = "command_workspace_id c"
  obtain l st1 where l: "service_load svc ?i st = (l, st1)" by fastforce
  note load = service_load_unchanged [OF assms(1) l]
  show ?thesis
  proof (cases l)
    case (Inl e)
    then show ?thesis using assms(2) l load by (auto simp: apply_command_def Let_def then_do_run)
  next
    case (Inr w)
    show ?thesis
    proof (cases "revision w = expected_revision c")
      case False
      then show ?thesis using assms(2) l load Inr by (auto simp: apply_command_def Let_def then_do_run lift_result_def)
    next
      case True
      have inv1: "repo_inv (store st1)" using load by (simp add: unchanged_def)
      obtain q st2 where q: "(case is_rename c of Some n \<Rightarrow> ensure_name_available svc n (Some ?i)
          | None \<Rightarrow> return_with ()) st1 = (q, st2)" by fastforce
      note ren = rename_check_unchanged [OF inv1 q]
      have un: "unchanged st st2" using load ren unchanged_trans by blast
      show ?thesis
      proof (cases q)
        case (Inl e)
        then show ?thesis using assms(2) l Inr True q un by (auto simp: apply_command_def Let_def then_do_run)
      next
        case q': (Inr u)
        show ?thesis
        proof (cases "apply_command_to (service_uuid_ok svc) (home_directory svc) new_id w c")
          case (Inl e)
          then show ?thesis using assms(2) l Inr True q q' un
            by (intro disjI1 exI [of _ e]) (simp add: apply_command_def Let_def then_do_run lift_result_def)
        next
          case app: (Inr w')
          then show ?thesis using assms(2) l Inr True q q' un load ren
            by (intro disjI2 exI [of _ w] exI [of _ w'] exI [of _ st2])
              (auto simp: apply_command_def Let_def then_do_run(2) lift_result_def svc_repository unchanged_def)
        qed
      qed
    qed
  qed
qed

lemma save_step:
  assumes "repo_inv (store st)" "on_store (\<lambda>s. repo_save R now s w e) st = (r, st')"
  shows "(\<forall>err. r = Inl err \<longrightarrow> unchanged st st') \<and> (\<forall>p. r = Inr p \<longrightarrow>
    repo_inv (store st') \<and> revision_accepts e (stored (store st) (ws_id w)) \<and> p = persisted now w (stored (store st) (ws_id w))
    \<and> stored (store st') = (stored (store st))(ws_id w \<mapsto> p) \<and> active (store st') = active (store st)
    \<and> published st' = published st)"
proof -
  obtain s' where s': "repo_save R now (store st) w e = (r, s')" "st' = st\<lparr>store := s'\<rparr>"
    using assms(2) by (auto simp: on_store_def split: prod.splits)
  show ?thesis
  proof (cases r)
    case (Inl err)
    then show ?thesis using save_error [OF assms(1), of now w e] s' by (simp add: unchanged_def)
  next
    case (Inr p)
    then show ?thesis using save_result [OF assms(1), of now w e] s' by simp
  qed
qed

lemma apply_command_ok:
  assumes "repo_inv (store st)" "store_ok (stored (store st))"
    and fresh: "\<And>w. stored (store st) (command_workspace_id c) = Some w \<Longrightarrow> fresh_for w new_id"
    and run: "apply_command svc new_id now c st = (Inr p, st')"
  shows "\<exists>w w' ev. stored (store st) (command_workspace_id c) = Some w \<and> revision w = expected_revision c
    \<and> apply_command_to (service_uuid_ok svc) (home_directory svc) new_id w c = Inr w'
    \<and> p = persisted now w' (Some w) \<and> command_event c p = Inr ev
    \<and> stored (store st') = (stored (store st))(command_workspace_id c \<mapsto> p)
    \<and> active (store st') = active (store st) \<and> published st' = published st @ [(command_workspace_id c, ev)]
    \<and> repo_inv (store st') \<and> store_ok (stored (store st'))"
proof -
  let ?i = "command_workspace_id c"
  obtain w w' st1 where un: "unchanged st st1" and w: "stored (store st) ?i = Some w" "revision w = expected_revision c"
    and names: "\<And>n j v. is_rename c = Some n \<Longrightarrow> stored (store st) j = Some v \<Longrightarrow> j \<noteq> ?i \<Longrightarrow> \<not> names_match (ws_name v) n"
    and app: "apply_command_to (service_uuid_ok svc) (home_directory svc) new_id w c = Inr w'"
    and save: "then_do (on_store (\<lambda>s. repo_save R now s w' (Some (expected_revision c)))) (\<lambda>p.
          then_do (lift_result (command_event c p)) (\<lambda>ev.
          then_do (publish (ws_id p) ev) (\<lambda>_. return_with p))) st1 = (Inr p, st')"
    using apply_command_prefix [OF assms(1) run] by blast
  have sound: "workspace_sound w" using assms(2) w(1) by (auto simp: store_ok_def)
  have m: "mutate (service_uuid_ok svc) (home_directory svc) new_id w c = Inr w'" "workspace_ok w'"
    using app by (simp_all add: apply_Inr)
  have wid: "ws_id w' = ?i" using mutate_frame [OF m(1)] stored_key [OF assms(1) w(1)] by simp
  have sound': "workspace_sound w'"
    using mutate_sound [OF sound fresh [OF w(1)] m(1)] m(2) by simp
  obtain ev st2 where s2: "on_store (\<lambda>s. repo_save R now s w' (Some (expected_revision c))) st1 = (Inr p, st2)"
      and ev: "command_event c p = Inr ev" and st': "st' = st2\<lparr>published := published st2 @ [(ws_id p, ev)]\<rparr>"
    using save by (auto simp: then_do_eq lift_result_def publish_def return_with_def)
  have inv1: "repo_inv (store st1)" using un by (simp add: unchanged_def)
  from save_step [OF inv1 s2] have res: "repo_inv (store st2)" "p = persisted now w' (Some w)"
      "stored (store st2) = (stored (store st))(?i \<mapsto> p)" "active (store st2) = active (store st)"
      "published st2 = published st"
    using un w(1) by (auto simp: unchanged_def wid)
  have "\<not> names_match (ws_name v) (ws_name p)" if "stored (store st) j = Some v" "j \<noteq> ?i" for j v
    using that names [of _ j v] mutate_name [OF m(1)] assms(2) w(1)
    by (cases "is_rename c") (auto simp: res(2) store_ok_def)
  then have "store_ok (stored (store st2))"
    unfolding res(3) using assms(2) sound' by (intro store_ok_insert) (auto simp: res(2) persisted_fields simp del: persisted.simps)
  then show ?thesis
    using w app res ev st' wid by (intro exI [of _ w] exI [of _ w'] exI [of _ ev]) (simp add: persisted_fields)
qed

lemma apply_command_err:
  assumes "repo_inv (store st)" "apply_command svc new_id now c st = (Inl e, st')"
  shows "unchanged st st'"
  using apply_command_prefix [OF assms]
proof (elim disjE exE conjE)
  fix w w' st1
  assume un: "unchanged st st1" and w: "stored (store st) (command_workspace_id c) = Some w"
    and app: "apply_command_to (service_uuid_ok svc) (home_directory svc) new_id w c = Inr w'"
    and save: "then_do (on_store (\<lambda>s. repo_save R now s w' (Some (expected_revision c)))) (\<lambda>p.
          then_do (lift_result (command_event c p)) (\<lambda>ev.
          then_do (publish (ws_id p) ev) (\<lambda>_. return_with p))) st1 = (Inl e, st')"
  have inv1: "repo_inv (store st1)" using un by (simp add: unchanged_def)
  have wid: "ws_id w' = command_workspace_id c"
    using mutate_frame [of "service_uuid_ok svc" "home_directory svc" new_id w c w'] app stored_key [OF assms(1) w]
    by (simp add: apply_Inr)
  obtain r st2 where s2: "on_store (\<lambda>s. repo_save R now s w' (Some (expected_revision c))) st1 = (r, st2)" by fastforce
  show ?thesis
  proof (cases r)
    case (Inl err)
    then show ?thesis using save s2 save_step [OF inv1 s2] un unchanged_trans by (auto simp: then_do_run)
  next
    case (Inr p)
    then have "p = persisted now w' (Some w)" using save_step [OF inv1 s2] un w wid by (auto simp: unchanged_def)
    then obtain ev where "command_event c p = Inr ev"
      using command_event_total [OF app, where k = "created_at w" and r = "revision w + 1" and now = now] by auto
    then show ?thesis using save s2 Inr by (simp add: then_do_run lift_result_def publish_def return_with_def then_do_def)
  qed
qed simp

lemma create_named_step:
  assumes "repo_inv (store st)" "create_named svc now w st = (r, st')"
  shows "(\<forall>e. r = Inl e \<longrightarrow> unchanged st st') \<and> (\<forall>p. r = Inr p \<longrightarrow> workspace_ok w
    \<and> repo_inv (store st') \<and> p = persisted now w (stored (store st) (ws_id w))
    \<and> stored (store st') = (stored (store st))(ws_id w \<mapsto> p) \<and> active (store st') = active (store st)
    \<and> published st' = published st @ [(ws_id p, workspace_created p)])"
proof (cases "workspace_ok w")
  case False
  then obtain es where "validate w = Inl es" using validate_Inr [of w "()"] by (cases "validate w") auto
  then show ?thesis using assms unchanged_refl
    by (auto simp: create_named_def validate_or_error_def lift_result_def then_do_def)
next
  case True
  obtain q st1 where q: "on_store (\<lambda>s. repo_save R now s w None) st = (q, st1)" by fastforce
  have "validate w = Inr ()" using True by (simp add: validate_Inr)
  then have run: "then_do (on_store (\<lambda>s. repo_save R now s w None)) (\<lambda>p.
      then_do (publish (ws_id p) (workspace_created p)) (\<lambda>_. return_with p)) st = (r, st')"
    using assms(2) by (simp add: create_named_def validate_or_error_def lift_result_def then_do_def svc_repository)
  note save = save_step [OF assms(1) q]
  show ?thesis
  proof (cases q)
    case (Inl e)
    then show ?thesis using run q save by (auto simp: then_do_run)
  next
    case (Inr p)
    then have "r = Inr p" "st' = st1\<lparr>published := published st1 @ [(ws_id p, workspace_created p)]\<rparr>"
      using run q by (auto simp: then_do_run publish_def return_with_def then_do_def)
    then show ?thesis using save Inr True by simp
  qed
qed

lemma service_create_ok:
  assumes "repo_inv (store st)" "store_ok (stored (store st))" "fresh_left ids \<noteq> fresh_right ids"
    "stored (store st) (fresh_workspace ids) = None"
    and run: "service_create svc ids now requested st = Some (Inr p, st')"
  shows "ws_id p = fresh_workspace ids \<and> revision p = 1 \<and> (\<forall>n. requested = Some n \<longrightarrow> ws_name p = n)
    \<and> (\<forall>j w. stored (store st) j = Some w \<longrightarrow> \<not> names_match (ws_name w) (ws_name p))
    \<and> stored (store st') = (stored (store st))(ws_id p \<mapsto> p) \<and> active (store st') = active (store st)
    \<and> published st' = published st @ [(ws_id p, workspace_created p)]
    \<and> repo_inv (store st') \<and> store_ok (stored (store st'))"
proof -
  let ?w = "default_workspace (service_uuid_ok svc) ids now (home_directory svc) (secondary_location svc)"
  obtain n st1 where st1: "unchanged st st1" "create_named svc now (?w\<lparr>ws_name := n\<rparr>) st1 = (Inr p, st')"
    and n: "\<And>m. requested = Some m \<Longrightarrow> n = m" "\<And>j w. stored (store st) j = Some w \<Longrightarrow> \<not> names_match (ws_name w) n"
  proof (cases requested)
    case (Some m)
    obtain q st1 where q: "ensure_name_available svc m None st = (q, st1)" by fastforce
    note en = ensure_name_unchanged [OF assms(1) q]
    show thesis
    proof (cases q)
      case (Inl e)
      then show thesis using run Some q by (simp add: service_create_def Let_def then_do_run)
    next
      case (Inr u)
      have "create_named svc now (?w\<lparr>ws_name := m\<rparr>) st1 = (Inr p, st')"
        using run Some q Inr by (simp add: service_create_def Let_def then_do_run)
      moreover have "unchanged st st1" "\<And>j w. stored (store st) j = Some w \<Longrightarrow> \<not> names_match (ws_name w) m"
        using en Inr by auto
      ultimately show thesis using Some by (intro that [of st1 m]) simp_all
    qed
  next
    case None
    obtain l st1 where l: "on_store (repo_list R) st = (l, st1)" by fastforce
    note lu = list_unchanged [OF assms(1) l]
    show thesis
    proof (cases l)
      case (Inl e)
      then show thesis using run None l by (simp add: service_create_def Let_def svc_repository)
    next
      case (Inr xs)
      then obtain m where m: "unique_name_in xs (ws_name ?w) = Some m" "create_named svc now (?w\<lparr>ws_name := m\<rparr>) st1 = (Inr p, st')"
        using run None l by (auto simp: service_create_def Let_def svc_repository)
      have "\<not> names_match (ws_name w) m" if "stored (store st) j = Some w" for j w
      proof -
        have "summary_of w \<in> set xs" using that lu Inr by (auto simp: ran_def)
        then show ?thesis using unique_name_free [OF m(1)] by (fastforce simp: summary_of_def)
      qed
      then show thesis using m(2) lu None by (intro that [of st1 m]) auto
    qed
  qed
  have inv1: "repo_inv (store st1)" using st1(1) by (simp add: unchanged_def)
  have wid: "ws_id ?w = fresh_workspace ids" by (simp add: default_workspace_def Let_def)
  note c = create_named_step [OF inv1 st1(2)]
  have p: "p = persisted now (?w\<lparr>ws_name := n\<rparr>) None"
    using c st1(1) assms(4) wid by (auto simp: unchanged_def)
  have "workspace_sound (?w\<lparr>ws_name := n\<rparr>)"
    using default_workspace_is_sound [OF assms(3)] by (simp add: workspace_sound_def workspace_ok_def histories_sound_def)
  then have "workspace_sound p" unfolding p persisted_fields(3) .
  moreover have "ws_name p = n" "ws_id p = fresh_workspace ids" "revision p = 1"
    using wid by (simp_all add: p)
  moreover have "store_ok ((stored (store st))(fresh_workspace ids \<mapsto> p))"
    using assms(2) calculation n(2) by (intro store_ok_insert) auto
  moreover have "stored (store st') = (stored (store st))(ws_id p \<mapsto> p)" "active (store st') = active (store st)"
    "published st' = published st @ [(ws_id p, workspace_created p)]" "repo_inv (store st')"
    using c st1(1) wid calculation(3) by (simp_all add: unchanged_def)
  ultimately show ?thesis using n by simp
qed

lemma select_created_ok:
  assumes "repo_inv (store st)" "select_created svc w st = (Inr w', st')"
  shows "w' = w \<and> repo_inv (store st') \<and> stored (store st') = stored (store st)
    \<and> active (store st') = Some (ws_id w) \<and> published st' = published st @ [(ws_id w, workspace_opened w)]"
proof -
  obtain q s1 where q: "repo_set_last_active R (store st) (Some (ws_id w)) = (q, s1)" by fastforce
  then have "\<exists>u. q = Inr u" using assms(2)
    by (cases q) (auto simp: select_created_def svc_repository then_do_def on_store_def)
  then show ?thesis using assms q set_active_result [OF assms(1)]
    by (auto simp: select_created_def svc_repository then_do_def on_store_def publish_def return_with_def)
qed

lemma create_default_ok:
  assumes "repo_inv (store st)" "store_ok (stored (store st))" "fresh_left ids \<noteq> fresh_right ids"
    "stored (store st) (fresh_workspace ids) = None"
    and run: "create_default svc ids now st = Some (Inr w, st')"
  shows "stored (store st') = (stored (store st))(ws_id w \<mapsto> w) \<and> active (store st') = Some (ws_id w)
    \<and> published st' = published st @ [(ws_id w, workspace_created w), (ws_id w, workspace_opened w)]
    \<and> repo_inv (store st') \<and> store_ok (stored (store st'))"
proof -
  obtain r st1 where r: "service_create svc ids now None st = Some (r, st1)"
    using run by (auto simp: create_default_def)
  then obtain p where c: "service_create svc ids now None st = Some (Inr p, st1)"
      and sel: "select_created svc p st1 = (Inr w, st')"
    using run by (cases r) (auto simp: create_default_def)
  note ok = service_create_ok [OF assms(1-4) c]
  show ?thesis using ok select_created_ok [OF _ sel] by auto
qed

lemma service_start_ok:
  assumes "repo_inv (store st)" "store_ok (stored (store st))" "fresh_left ids \<noteq> fresh_right ids"
    "stored (store st) (fresh_workspace ids) = None"
    and run: "service_start svc ids now requested st = Some (Inr w, st')"
  shows "stored (store st') (ws_id w) = Some w \<and> active (store st') = Some (ws_id w)
    \<and> published st' \<in> {published st @ [(ws_id w, workspace_opened w)],
        published st @ [(ws_id w, workspace_created w), (ws_id w, workspace_opened w)]}
    \<and> repo_inv (store st') \<and> store_ok (stored (store st'))"
proof -
  obtain q st1 where q: "(case requested of Some i \<Rightarrow> return_with (Some i) st
      | None \<Rightarrow> on_store (repo_last_active R) st) = (q, st1)" by fastforce
  have un: "unchanged st st1"
    using q last_active_keeps [OF assms(1)] assms(1)
    by (auto simp: return_with_def on_store_def unchanged_def split: option.splits prod.splits)
  then have inv1: "repo_inv (store st1)" by (simp add: unchanged_def)
  have default: ?thesis if "create_default svc ids now st2 = Some (Inr w, st')" "unchanged st st2" for st2
    using create_default_ok [OF _ _ assms(3) _ that(1)] that(2) assms(2,4) by (auto simp: unchanged_def)
  have run': "(case (q, st1) of (Inl e, st') \<Rightarrow> Some (Inl e, st')
     | (Inr None, st') \<Rightarrow> create_default svc ids now st'
     | (Inr (Some i), st') \<Rightarrow>
         (case service_load svc i st' of
            (Inr w, st'') \<Rightarrow> Some (select_created svc w st'')
          | (Inl (NotFound _), st'') \<Rightarrow> create_default svc ids now st''
          | (Inl (Corrupt _ _), st'') \<Rightarrow> create_default svc ids now st''
          | (Inl e, st'') \<Rightarrow> Some (Inl e, st''))) = Some (Inr w, st')"
    using run unfolding service_start_def svc_repository q .
  show ?thesis
  proof (cases q)
    case (Inl e)
    then show ?thesis using run' by simp
  next
    case (Inr sel)
    show ?thesis
    proof (cases sel)
      case None
      then show ?thesis using run' Inr default [OF _ un] by simp
    next
      case (Some i)
      obtain l st2 where l: "service_load svc i st1 = (l, st2)" by fastforce
      note load = service_load_unchanged [OF inv1 l]
      then have un2: "unchanged st st2" using un unchanged_trans by blast
      show ?thesis
      proof (cases l)
        case e: (Inl e)
        then show ?thesis using run' Inr Some l default [OF _ un2] by (cases e) simp_all
      next
        case w0: (Inr w0)
        then have sel: "select_created svc w0 st2 = (Inr w, st')" using run' Inr Some l by simp
        have "repo_inv (store st2)" using load by (simp add: unchanged_def)
        note s = select_created_ok [OF this sel]
        have "stored (store st) i = Some w0" using load un w0 by (simp add: unchanged_def)
        then show ?thesis using s un2 assms(2) stored_key [OF assms(1)] by (auto simp: unchanged_def)
      qed
    qed
  qed
qed

end

section \<open>The service over the in-memory repository\<close>

definition memory_service ::
  "string \<Rightarrow> string option \<Rightarrow> (string \<Rightarrow> bool) \<Rightarrow> in_memory_workspace_repository workspace_service" where
  "memory_service home second uuid_ok = \<lparr>repository = memory_repository, home_directory = home,
     secondary_location = second, service_uuid_ok = uuid_ok\<rparr>"

interpretation memory_svc: service_laws memory_repository memory_inv memory_stored last_active
    "memory_service home second uuid_ok" for home second uuid_ok
  by unfold_locales (simp add: memory_service_def)

lemma memory_service_fields [simp]:
  "repository (memory_service home second uuid_ok) = memory_repository"
  "home_directory (memory_service home second uuid_ok) = home"
  "service_uuid_ok (memory_service home second uuid_ok) = uuid_ok"
  by (simp_all add: memory_service_def)

lemma memory_load_run:
  "memory_stored (store st) i = Some w \<Longrightarrow> workspace_ok w \<Longrightarrow>
    service_load (memory_service home second uuid_ok) i st = (Inr w, st)"
  "memory_stored (store st) i = None \<Longrightarrow>
    service_load (memory_service home second uuid_ok) i st = (Inl (NotFound i), st)"
  using validate_Inr [of w "()"]
  by (simp_all add: service_load_def memory_repository_def memory_load_def on_store_def then_do_def
      lift_result_def return_with_def validate_or_error_def)

lemma memory_list_run:
  "on_store (repo_list memory_repository) st = (Inr (map (\<lambda>(_, w). summary_of w) (workspaces (store st))), st)"
  by (simp add: on_store_def memory_repository_def memory_list_def)

definition service_ok :: "in_memory_workspace_repository service_state \<Rightarrow> bool" where
  "service_ok st \<longleftrightarrow> memory_inv (store st) \<and> store_ok (memory_stored (store st))"

lemma memory_create_named_succeeds:
  assumes "workspace_ok w"
  shows "\<exists>p st'. create_named (memory_service home second uuid_ok) now w st = (Inr p, st')"
proof -
  have "validate w = Inr ()" using assms by (simp add: validate_Inr)
  then show ?thesis
    by (cases "memory_stored (store st) (ws_id w)")
      (auto simp: create_named_def validate_or_error_def lift_result_def then_do_def on_store_def memory_repository_def
        memory_save_def Let_def publish_def return_with_def)
qed

lemma memory_create_succeeds:
  assumes "length (workspaces (store st)) < 2 ^ 32 - 3" "fresh_left ids \<noteq> fresh_right ids"
  shows "\<exists>p st'. service_create (memory_service home second uuid_ok) ids now None st = Some (Inr p, st')"
proof -
  let ?w = "default_workspace uuid_ok ids now home (secondary_location (memory_service home second uuid_ok))"
  let ?xs = "map (\<lambda>(_, w). summary_of w) (workspaces (store st))"
  have "ws_name ?w = ''Default''" by (simp add: default_workspace_def Let_def)
  then obtain n where n: "unique_name_in ?xs (ws_name ?w) = Some n"
    using default_name_ends [of ?xs] assms(1) by auto
  have "workspace_ok (?w\<lparr>ws_name := n\<rparr>)"
    using default_workspace_is_sound [OF assms(2)] by (simp add: workspace_sound_def workspace_ok_def)
  from memory_create_named_succeeds [OF this, of home second uuid_ok now st]
  show ?thesis using n by (simp add: service_create_def Let_def memory_list_run del: map_map)
qed

lemma memory_select_succeeds:
  "\<exists>st'. select_created (memory_service home second uuid_ok) w st = (Inr w, st')"
  by (simp add: select_created_def then_do_def on_store_def memory_repository_def memory_set_last_active_def
      publish_def return_with_def)

lemma memory_create_default_succeeds:
  assumes "length (workspaces (store st)) < 2 ^ 32 - 3" "fresh_left ids \<noteq> fresh_right ids"
  shows "\<exists>p st'. create_default (memory_service home second uuid_ok) ids now st = Some (Inr p, st')"
proof -
  obtain p st1 where "service_create (memory_service home second uuid_ok) ids now None st = Some (Inr p, st1)"
    using memory_create_succeeds [OF assms] by blast
  then show ?thesis using memory_select_succeeds [of home second uuid_ok p st1] by (auto simp: create_default_def)
qed

lemma memory_start_succeeds:
  assumes "service_ok st" "length (workspaces (store st)) < 2 ^ 32 - 3" "fresh_left ids \<noteq> fresh_right ids"
  shows "\<exists>w st'. service_start (memory_service home second uuid_ok) ids now requested st = Some (Inr w, st')"
proof -
  let ?svc = "memory_service home second uuid_ok"
  note default = memory_create_default_succeeds [OF assms(2,3), of home second uuid_ok now]
  have load: "\<exists>w st'. (case service_load ?svc i st of
            (Inr w, st'') \<Rightarrow> Some (select_created ?svc w st'')
          | (Inl (NotFound _), st'') \<Rightarrow> create_default ?svc ids now st''
          | (Inl (Corrupt _ _), st'') \<Rightarrow> create_default ?svc ids now st''
          | (Inl e, st'') \<Rightarrow> Some (Inl e, st'')) = Some (Inr w, st')" for i
  proof (cases "memory_stored (store st) i")
    case None
    then show ?thesis using default by (simp add: memory_load_run)
  next
    case (Some w)
    then have "workspace_ok w" using assms(1) by (auto simp: service_ok_def store_ok_def workspace_sound_def)
    then show ?thesis using Some memory_select_succeeds [of home second uuid_ok w st] by (auto simp: memory_load_run)
  qed
  have "on_store (repo_last_active memory_repository) st = (Inr (last_active (store st)), st)"
    by (simp add: on_store_def memory_repository_def memory_last_active_def)
  then show ?thesis using load default
    by (auto simp: service_start_def return_with_def split: option.splits)
qed

section \<open>Properties\<close>

text \<open>C5: a command is atomic and revision-checked. On a consistent store, an error leaves the stored
  workspaces and the published events as they were; a success happens only when the caller named
  the stored revision, replaces exactly that workspace by the result of the command with the
  revision one higher, publishes exactly one event describing the stored result, and keeps
  every stored workspace valid and every name unique.\<close>

theorem apply_command_atomic:
  assumes "service_ok st"
    and "\<forall>w. memory_stored (store st) (command_workspace_id c) = Some w \<longrightarrow> fresh_for w new_id"
  shows "case apply_command (memory_service home second uuid_ok) new_id now c st of
      (Inl e, st') \<Rightarrow> memory_stored (store st') = memory_stored (store st) \<and> published st' = published st
    | (Inr p, st') \<Rightarrow> \<exists>w w' ev. memory_stored (store st) (command_workspace_id c) = Some w
        \<and> revision w = expected_revision c
        \<and> apply_command_to uuid_ok home new_id w c = Inr w'
        \<and> p = w'\<lparr>created_at := created_at w, revision := revision w + 1, updated_at := now\<rparr>
        \<and> memory_stored (store st') = (memory_stored (store st))(command_workspace_id c \<mapsto> p)
        \<and> command_event c p = Inr ev \<and> published st' = published st @ [(command_workspace_id c, ev)]
        \<and> service_ok st'"
proof (cases "apply_command (memory_service home second uuid_ok) new_id now c st")
  case (Pair r st')
  have inv: "memory_inv (store st)" "store_ok (memory_stored (store st))"
    using assms(1) by (simp_all add: service_ok_def)
  show ?thesis
  proof (cases r)
    case (Inl e)
    then show ?thesis using memory_svc.apply_command_err [OF inv(1)] Pair
      by (simp add: memory_svc.unchanged_def)
  next
    case (Inr p)
    obtain w w' ev where "memory_stored (store st) (command_workspace_id c) = Some w"
        "revision w = expected_revision c" "apply_command_to uuid_ok home new_id w c = Inr w'"
        "p = persisted now w' (Some w)" "command_event c p = Inr ev"
        "memory_stored (store st') = (memory_stored (store st))(command_workspace_id c \<mapsto> p)"
        "published st' = published st @ [(command_workspace_id c, ev)]" "service_ok st'"
      using memory_svc.apply_command_ok [OF inv _ Pair [unfolded Inr]] assms(2) by (auto simp: service_ok_def)
    then show ?thesis using Pair Inr by auto
  qed
qed

text \<open>no lost update. After a command succeeded, a second command that names the same workspace
  and the same expected revision is rejected with a revision conflict and changes nothing.\<close>

lemma stale_command_rejected:
  assumes "service_ok st"
    and "\<forall>w. memory_stored (store st) (command_workspace_id c) = Some w \<longrightarrow> fresh_for w new_id"
    and "apply_command (memory_service home second uuid_ok) new_id now c st = (Inr p, st')"
    and "command_workspace_id d = command_workspace_id c" and "expected_revision d = expected_revision c"
  shows "apply_command (memory_service home second uuid_ok) new_id' now' d st'
    = (Inl (RevisionConflict (command_workspace_id c) (Some (expected_revision c)) (expected_revision c + 1)), st')"
proof -
  have inv: "memory_inv (store st)" "store_ok (memory_stored (store st))"
    using assms(1) by (simp_all add: service_ok_def)
  obtain w w' where "revision w = expected_revision c" "p = persisted now w' (Some w)"
      "memory_stored (store st') = (memory_stored (store st))(command_workspace_id c \<mapsto> p)"
      "store_ok (memory_stored (store st'))"
    using memory_svc.apply_command_ok [OF inv _ assms(3)] assms(2) by blast
  then have p: "memory_stored (store st') (command_workspace_id c) = Some p" "revision p = expected_revision c + 1"
      and "store_ok (memory_stored (store st'))"
    by simp_all
  then have "workspace_ok p" unfolding store_ok_def workspace_sound_def by blast
  note p = p this
  have "expected_revision c + 1 \<noteq> expected_revision c" by simp
  then show ?thesis
    using p assms(4,5)
    by (simp add: apply_command_def Let_def then_do_run(2) [OF memory_load_run(1)] lift_result_def)
qed

text \<open>creating a workspace with the default name always succeeds: the search for a free name ends,
  the new workspace is stored under its id with revision 1, its name matches no other (ignoring
  case and surrounding space), and one created event is published.\<close>

lemma create_default_name_free:
  assumes "service_ok st" and "length (workspaces (store st)) < 2 ^ 32 - 3"
    and "fresh_left ids \<noteq> fresh_right ids" and "memory_stored (store st) (fresh_workspace ids) = None"
  shows "\<exists>p st'. service_create (memory_service home second uuid_ok) ids now None st = Some (Inr p, st')
    \<and> ws_id p = fresh_workspace ids \<and> revision p = 1
    \<and> (\<forall>j w. memory_stored (store st) j = Some w \<longrightarrow> \<not> names_match (ws_name w) (ws_name p))
    \<and> memory_stored (store st') = (memory_stored (store st))(ws_id p \<mapsto> p)
    \<and> published st' = published st @ [(ws_id p, WorkspaceCreated 1)] \<and> service_ok st'"
proof -
  obtain p st' where c: "service_create (memory_service home second uuid_ok) ids now None st = Some (Inr p, st')"
    using memory_create_succeeds [OF assms(2,3)] by blast
  have inv: "memory_inv (store st)" "store_ok (memory_stored (store st))"
    using assms(1) by (simp_all add: service_ok_def)
  show ?thesis
    using memory_svc.service_create_ok [OF inv assms(3,4) c] c by (auto simp: service_ok_def workspace_created_def)
qed

text \<open>C33: startup always ends with a valid, selected workspace. Whatever workspace is requested or was
  last active, existing or not, start returns a stored valid workspace, records it as the last
  active one, and publishes the opened event for it exactly once, as the last event.\<close>

theorem start_selects_valid_workspace:
  assumes "service_ok st" and "length (workspaces (store st)) < 2 ^ 32 - 3"
    and "fresh_left ids \<noteq> fresh_right ids" and "memory_stored (store st) (fresh_workspace ids) = None"
  shows "\<exists>w st'. service_start (memory_service home second uuid_ok) ids now requested st = Some (Inr w, st')
    \<and> memory_stored (store st') (ws_id w) = Some w \<and> is_ok (validate w)
    \<and> last_active (store st') = Some (ws_id w)
    \<and> published st' \<in> {published st @ [(ws_id w, workspace_opened w)],
        published st @ [(ws_id w, workspace_created w), (ws_id w, workspace_opened w)]}
    \<and> service_ok st'"
proof -
  obtain w st' where s: "service_start (memory_service home second uuid_ok) ids now requested st = Some (Inr w, st')"
    using memory_start_succeeds [OF assms(1-3)] by blast
  have inv: "memory_inv (store st)" "store_ok (memory_stored (store st))"
    using assms(1) by (simp_all add: service_ok_def)
  note ok = memory_svc.service_start_ok [OF inv assms(3,4) s]
  then have "workspace_ok w" by (auto simp: store_ok_def workspace_sound_def)
  then have "is_ok (validate w)" by (simp add: is_ok_iff validate_Inr)
  then show ?thesis using s ok by (auto simp: service_ok_def)
qed

section \<open>Witnesses for the service\<close>

definition sample_state :: "in_memory_workspace_repository service_state" where
  "sample_state = \<lparr>store = \<lparr>workspaces = [(1, sample_workspace)], last_active = Some 1\<rparr>, published = []\<rparr>"

definition sample_ids2 :: fresh_ids where
  "sample_ids2 = \<lparr>fresh_workspace = 11, fresh_left = 12, fresh_right = 13, fresh_left_tab = 14, fresh_right_tab = 15\<rparr>"

lemma sample_sound: "workspace_sound sample_workspace"
  by code_simp

lemma sample_state_ok: "service_ok sample_state"
proof -
  have "ws_id sample_workspace = 1" by code_simp
  then show ?thesis using sample_sound by (auto simp: service_ok_def sample_state_def memory_inv_def store_ok_def)
qed

lemma sample_fresh:
  "\<forall>w. memory_stored (store sample_state) (command_workspace_id (CloseTab 1 2 4 1)) = Some w \<longrightarrow> fresh_for w 9"
proof -
  have "fresh_for sample_workspace 9" by code_simp
  then show ?thesis by (simp add: sample_state_def)
qed

theorem apply_command_atomic_witness:
  "case apply_command (memory_service ''/'' None (\<lambda>_. False)) 9 5 (CloseTab 1 2 4 1) sample_state of
      (Inl e, st') \<Rightarrow> memory_stored (store st') = memory_stored (store sample_state) \<and> published st' = published sample_state
    | (Inr p, st') \<Rightarrow> \<exists>w w' ev. memory_stored (store sample_state) (command_workspace_id (CloseTab 1 2 4 1)) = Some w
        \<and> revision w = expected_revision (CloseTab 1 2 4 1)
        \<and> apply_command_to (\<lambda>_. False) ''/'' 9 w (CloseTab 1 2 4 1) = Inr w'
        \<and> p = w'\<lparr>created_at := created_at w, revision := revision w + 1, updated_at := 5\<rparr>
        \<and> memory_stored (store st') = (memory_stored (store sample_state))(command_workspace_id (CloseTab 1 2 4 1) \<mapsto> p)
        \<and> command_event (CloseTab 1 2 4 1) p = Inr ev
        \<and> published st' = published sample_state @ [(command_workspace_id (CloseTab 1 2 4 1), ev)]
        \<and> service_ok st'"
  by (rule apply_command_atomic [OF sample_state_ok sample_fresh])

theorem start_selects_valid_workspace_witness:
  "\<exists>w st'. service_start (memory_service ''/'' None (\<lambda>_. False)) sample_ids2 7 (Some 42) sample_state = Some (Inr w, st')
    \<and> memory_stored (store st') (ws_id w) = Some w \<and> is_ok (validate w)
    \<and> last_active (store st') = Some (ws_id w)
    \<and> published st' \<in> {published sample_state @ [(ws_id w, workspace_opened w)],
        published sample_state @ [(ws_id w, workspace_created w), (ws_id w, workspace_opened w)]}
    \<and> service_ok st'"
  by (rule start_selects_valid_workspace [OF sample_state_ok]) (simp_all add: sample_state_def sample_ids2_def)

end
