(* ===== verification/Operations.thy ===== *)
theory Operations
  imports Location_Laws
begin

text \<open>
  The operation model of \<open>src/crates/fm-operations\<close>: the lifecycle state machine and its data
  (\<open>model.rs\<close>), the duplicate names of \<open>naming.rs\<close> and the path safety checks of \<open>safety.rs\<close>.
  The Unicode lower-casing of \<open>str::to_lowercase\<close>, which rests on the Unicode tables, is the argument
  \<open>to_lowercase\<close>. A normalised path is the list of its components; \<open>PathBuf\<close> compares paths by
  components too.
\<close>

type_synonym op_id = nat
type_synonym op_time = int

section \<open>Data\<close>

datatype operation_state =
    Queued | Planning | Running | Paused | WaitingForConflictResolution | Cancelling
  | Cancelled | Completed | CompletedWithWarnings | Failed | Interrupted

datatype operation_kind =
    CreateArchive | MoveToArchive | CreateDirectory | CreateFile | Rename | Copy | Move
  | Duplicate | Trash | Delete

datatype conflict_policy = Ask | SkipPolicy | OverwritePolicy | RenameNewPolicy | KeepNewer

datatype conflict_resolution = Skip | Overwrite | RenameNew

datatype entry_kind = File | Directory | Symlink

record entry_ref =
  entry_id :: nat
  entry_location :: location

record operation_entry_error =
  error_entry :: entry_ref
  error_message :: string

record operation_progress =
  completed_items :: u64
  total_items :: "u64 option"
  completed_bytes :: u64
  total_bytes :: "u64 option"
  current_entry :: "entry_ref option"
  bytes_per_second :: "u64 option"

definition progress_default :: operation_progress where
  "progress_default = \<lparr>completed_items = 0, total_items = None, completed_bytes = 0,
     total_bytes = None, current_entry = None, bytes_per_second = None\<rparr>"

record conflict_entry =
  conflict_name :: string
  conflict_kind :: entry_kind
  conflict_size :: "u64 option"
  conflict_modified_at :: "op_time option"

record operation_conflict =
  conflict_id :: string
  conflict_source :: conflict_entry
  conflict_destination :: conflict_entry

record operation =
  op_id :: op_id
  op_kind :: operation_kind
  op_state :: operation_state
  op_sources :: "entry_ref list"
  op_destination :: "location option"
  op_progress :: operation_progress
  op_conflict_policy :: conflict_policy
  op_created_at :: op_time
  op_started_at :: "op_time option"
  op_completed_at :: "op_time option"
  op_errors :: "operation_entry_error list"

record transition_error =
  err_from :: operation_state
  err_to :: operation_state

section \<open>Lifecycle\<close>

definition operation_new ::
  "op_id \<Rightarrow> op_time \<Rightarrow> operation_kind \<Rightarrow> entry_ref list \<Rightarrow> location option \<Rightarrow> conflict_policy \<Rightarrow> operation" where
  "operation_new new_id now kind sources destination policy = \<lparr>op_id = new_id, op_kind = kind,
     op_state = Queued, op_sources = sources, op_destination = destination,
     op_progress = progress_default, op_conflict_policy = policy, op_created_at = now,
     op_started_at = None, op_completed_at = None, op_errors = []\<rparr>"

fun can_transition_to :: "operation_state \<Rightarrow> operation_state \<Rightarrow> bool" where
  "can_transition_to Queued to \<longleftrightarrow> to \<in> {Planning, Cancelling, Failed}"
| "can_transition_to Planning to \<longleftrightarrow> to \<in> {Running, WaitingForConflictResolution, Cancelling, Failed}"
| "can_transition_to Running to \<longleftrightarrow>
    to \<in> {Paused, WaitingForConflictResolution, Cancelling, Completed, CompletedWithWarnings, Failed}"
| "can_transition_to Paused to \<longleftrightarrow> to \<in> {Running, Cancelling, Failed}"
| "can_transition_to WaitingForConflictResolution to \<longleftrightarrow> to \<in> {Running, Cancelling, Failed}"
| "can_transition_to Cancelling to \<longleftrightarrow> to \<in> {Cancelled, Failed}"
| "can_transition_to _ to \<longleftrightarrow> False"

definition is_terminal :: "operation_state \<Rightarrow> bool" where
  "is_terminal s \<longleftrightarrow> s \<in> {Cancelled, Completed, CompletedWithWarnings, Failed, Interrupted}"

definition transition :: "op_time \<Rightarrow> operation \<Rightarrow> operation_state \<Rightarrow> transition_error + operation" where
  "transition now op to =
    (if \<not> can_transition_to (op_state op) to then Inl \<lparr>err_from = op_state op, err_to = to\<rparr>
     else let op1 = op\<lparr>op_state := to\<rparr>;
              op2 = (if to = Planning \<and> op_started_at op1 = None then op1\<lparr>op_started_at := Some now\<rparr> else op1)
          in Inr (if is_terminal to then op2\<lparr>op_completed_at := Some now\<rparr> else op2))"

section \<open>Duplicate names\<close>

text \<open>The split point is the first dot that is not the first character.\<close>

fun split_extension :: "string \<Rightarrow> string \<times> string" where
  "split_extension [] = ([], [])"
| "split_extension (c # rest) = (c # takeWhile (\<lambda>x. x \<noteq> CHR ''.'') rest, dropWhile (\<lambda>x. x \<noteq> CHR ''.'') rest)"

definition duplicate_name :: "string \<Rightarrow> u32 \<Rightarrow> string" where
  "duplicate_name n copy_index =
    (let (stem, extension) = split_extension n;
         suffix = (if copy_index \<le> 1 then '' copy'' else '' copy '' @ show_nat (unat copy_index))
     in stem @ suffix @ extension)"

section \<open>Safety checks\<close>

datatype entry_type = FileType | DirectoryType | SymlinkType

datatype safety_error =
    SameEntry | DestinationInsideSource | CaseOnlyDifference | SymlinkCycle | EntryTypeMismatch
  | IncomparableLocations

text \<open>\<open>PathBuf::pop\<close>: the last component goes, but never the root.\<close>

definition path_pop :: "component list \<Rightarrow> component list" where
  "path_pop cs = (if cs = [] \<or> last cs = RootDir then cs else butlast cs)"

fun normalize_components :: "component list \<Rightarrow> component list \<Rightarrow> component list" where
  "normalize_components acc [] = acc"
| "normalize_components acc (CurDir # cs) = normalize_components acc cs"
| "normalize_components acc (ParentDir # cs) = normalize_components (path_pop acc) cs"
| "normalize_components acc (RootDir # cs) = normalize_components [RootDir] cs"
| "normalize_components acc (Normal n # cs) = normalize_components (acc @ [Normal n]) cs"

definition comparable_path :: "location \<Rightarrow> safety_error + string" where
  "comparable_path l =
    (if provider_id l = ''archive'' then ok_or IncomparableLocations (strip_prefix ''archive://'' (uri l))
     else if provider_id l = ''sftp'' then ok_or IncomparableLocations (strip_prefix ''sftp://'' (uri l))
     else if provider_id l = ''ftp'' then
       ok_or IncomparableLocations
         (case strip_prefix ''ftps://'' (uri l) of
            Some rest \<Rightarrow> Some (''ftps/'' @ rest)
          | None \<Rightarrow> map_option (\<lambda>rest. ''ftp/'' @ rest) (strip_prefix ''ftp://'' (uri l)))
     else if provider_id l = ''webdav'' then ok_or IncomparableLocations (strip_prefix ''webdav://'' (uri l))
     else map_err (\<lambda>_. IncomparableLocations) (to_native_path l))"

definition normalized_path :: "location \<Rightarrow> safety_error + component list" where
  "normalized_path l = and_then (comparable_path l) (\<lambda>path. Inr (normalize_components [] (path_components path)))"

fun component_name :: "component \<Rightarrow> string" where
  "component_name (Normal n) = n"
| "component_name CurDir = ''.''"
| "component_name ParentDir = ''..''"
| "component_name RootDir = ''''"

definition path_string :: "component list \<Rightarrow> string" where
  "path_string cs =
    (case cs of RootDir # rest \<Rightarrow> ''/'' @ join_with ''/'' (map component_name rest)
     | _ \<Rightarrow> join_with ''/'' (map component_name cs))"

definition validate_paths ::
  "(string \<Rightarrow> string) \<Rightarrow> location \<Rightarrow> location \<Rightarrow> bool \<Rightarrow> safety_error + unit" where
  "validate_paths to_lowercase source destination case_sensitive =
    (if provider_id source \<noteq> provider_id destination then Inl IncomparableLocations
     else and_then (normalized_path source) (\<lambda>s.
       and_then (normalized_path destination) (\<lambda>d.
         if s = d then Inl SameEntry
         else if \<not> case_sensitive \<and>
           to_lowercase (from_utf8_lossy (path_string s)) = to_lowercase (from_utf8_lossy (path_string d))
         then Inl CaseOnlyDifference
         else if take (length s) d = s then Inl DestinationInsideSource
         else Inr ())))"

definition validate_replacement :: "entry_type \<Rightarrow> entry_type \<Rightarrow> safety_error + unit" where
  "validate_replacement source destination =
    (if source = DirectoryType \<and> destination \<in> {FileType, SymlinkType}
        \<or> source \<in> {FileType, SymlinkType} \<and> destination = DirectoryType
     then Inl EntryTypeMismatch else Inr ())"

record cycle_detector =
  visited :: "(u64 \<times> 128 word) list"

definition observe :: "cycle_detector \<Rightarrow> u64 \<Rightarrow> 128 word \<Rightarrow> (safety_error + unit) \<times> cycle_detector" where
  "observe d filesystem file_id =
    (if (filesystem, file_id) \<in> set (visited d) then (Inl SymlinkCycle, d)
     else (Inr (), d\<lparr>visited := (filesystem, file_id) # visited d\<rparr>))"

section \<open>Lifecycle lemmas\<close>

inductive op_reach :: "operation \<Rightarrow> operation \<Rightarrow> bool" where
  here: "op_reach op op"
| step: "op_reach op a \<Longrightarrow> transition now a s = Inr b \<Longrightarrow> op_reach op b"

lemma transition_Inr:
  "transition now op to = Inr op' \<longleftrightarrow> can_transition_to (op_state op) to \<and>
    op' = op\<lparr>op_state := to,
      op_started_at := (if to = Planning \<and> op_started_at op = None then Some now else op_started_at op),
      op_completed_at := (if is_terminal to then Some now else op_completed_at op)\<rparr>"
  by (auto simp: transition_def Let_def is_terminal_def)

lemma terminal_stuck: "is_terminal s \<longleftrightarrow> (\<forall>t. \<not> can_transition_to s t)"
  by (cases s) (auto simp: is_terminal_def intro: exI [of _ Failed])

lemma nonterminal_can_fail: "\<not> is_terminal s \<Longrightarrow> can_transition_to s Failed"
  by (cases s) (auto simp: is_terminal_def)

definition lifecycle_ok :: "operation \<Rightarrow> bool" where
  "lifecycle_ok op \<longleftrightarrow> op_state op \<noteq> Interrupted
    \<and> (is_terminal (op_state op) \<longleftrightarrow> op_completed_at op \<noteq> None)
    \<and> (op_state op \<in> {Planning, Running, Paused, WaitingForConflictResolution, Completed, CompletedWithWarnings}
       \<longrightarrow> op_started_at op \<noteq> None)"

lemma lifecycle_ok_transition:
  assumes "lifecycle_ok op" "transition now op to = Inr op'"
  shows "lifecycle_ok op'"
  using assms by (cases "op_state op") (auto simp: lifecycle_ok_def transition_Inr is_terminal_def)

section \<open>Name and path lemmas\<close>

lemma split_extension_append: "split_extension n = (stem, ext) \<Longrightarrow> n = stem @ ext"
  by (cases n) auto

text \<open>
  Where a path leads, read off its text: the names of its pieces, with empty and \<open>.\<close> pieces left
  out and every \<open>..\<close> cancelling the name before it, if there is one.
\<close>

fun resolve_dots :: "string list \<Rightarrow> string list \<Rightarrow> string list" where
  "resolve_dots acc [] = acc"
| "resolve_dots acc (s # ss) =
    (if s = [] \<or> s = ''.'' then resolve_dots acc ss
     else if s = ''..'' then resolve_dots (butlast acc) ss
     else resolve_dots (acc @ [s]) ss)"

definition resolved_path :: "string \<Rightarrow> component list" where
  "resolved_path p = (if starts_with ''/'' p then [RootDir] else []) @ map Normal (resolve_dots [] (split_on slash p))"

definition resolved_place :: "location \<Rightarrow> component list option" where
  "resolved_place l = (case comparable_path l of Inl e \<Rightarrow> None | Inr p \<Rightarrow> Some (resolved_path p))"

lemma path_pop_normals:
  "base \<in> {[], [RootDir]} \<Longrightarrow> path_pop (base @ map Normal acc) = base @ map Normal (butlast acc)"
  by (auto simp: path_pop_def last_map map_butlast butlast_append)

lemma normalize_pieces:
  "base \<in> {[], [RootDir]} \<Longrightarrow> normalize_components (base @ map Normal acc) (concat (map path_piece ss))
    = base @ map Normal (resolve_dots acc ss)"
proof (induction ss arbitrary: acc)
  case (Cons s ss)
  show ?case
    using Cons.IH [OF Cons.prems, of acc] Cons.IH [OF Cons.prems, of "butlast acc"]
      Cons.IH [OF Cons.prems, of "acc @ [s]"] path_pop_normals [OF Cons.prems, of acc]
    by auto
qed simp

lemma normalize_path_components: "normalize_components [] (path_components p) = resolved_path p"
  using normalize_pieces [of "[]" "[]" "split_on slash p"] normalize_pieces [of "[RootDir]" "[]" "split_on slash p"]
  by (auto simp: path_components_def resolved_path_def Let_def)

lemma normalized_path_resolved: "normalized_path l = ok_or IncomparableLocations (resolved_place l)"
proof (cases "comparable_path l")
  case (Inl e)
  then have "e = IncomparableLocations"
    by (cases "to_native_path l") (auto simp: comparable_path_def result_simps split: if_splits)
  then show ?thesis using Inl by (simp add: normalized_path_def resolved_place_def)
next
  case (Inr p)
  then show ?thesis by (simp add: normalized_path_def resolved_place_def normalize_path_components)
qed

lemma check_segment_no_slash: "check_segment b s = Inr () \<Longrightarrow> slash \<notin> set s"
  by (auto simp: check_segment_def result_simps split: if_splits)

lemma resolved_path_segments:
  assumes "\<forall>s\<in>set ss. slash \<notin> set s"
  shows "resolved_path (''/'' @ join_with ''/'' ss) = RootDir # map Normal (resolve_dots [] ss)"
proof (cases "ss = []")
  case False
  then have "split_on slash (''/'' @ join_with ''/'' ss) = [] # ss" using split_on_join [of ss slash] assms by simp
  then show ?thesis by (simp add: resolved_path_def)
qed (simp add: resolved_path_def)

lemma resolved_local:
  assumes "provider_id l = ''local''" "location_path uuid_ok l = Inr ([], ss)"
  shows "resolved_place l = (if is_ok (to_native_path l) then Some (RootDir # map Normal (resolve_dots [] ss)) else None)"
proof (cases "is_ok (to_native_path l)")
  case True
  have p: "file_parse (uri l) = Inr \<lparr>authority = [], segments = ss\<rparr>"
    using assms by (auto simp: location_path_def result_simps)
  with True have path: "to_native_path l = Inr (foldl path_push ''/'' ss)"
    and valid: "file_validate_segments \<lparr>authority = [], segments = ss\<rparr> = Inr ()"
    by (auto simp: to_native_path_def location_to_native_path_def is_ok_iff result_simps)
  have "\<forall>s\<in>set ss. slash \<notin> set s" "\<forall>s\<in>set ss. s \<noteq> []"
    using valid file_parse_Inr [OF p] check_segment_no_slash
    by (fastforce simp: file_validate_segments_def for_each_Inr list_all_iff)+
  then show ?thesis
    using True path assms(1) foldl_path_push_root [of ss] resolved_path_segments [of ss]
    by (simp add: resolved_place_def comparable_path_def)
next
  case False
  then show ?thesis using assms(1) by (cases "to_native_path l") (simp_all add: resolved_place_def comparable_path_def)
qed

lemma take_prefix_iff: "take (length s) d = s \<longleftrightarrow> (\<exists>rest. d = s @ rest)"
  by (metis append_eq_conv_conj append_take_drop_id)

lemma validate_paths_resolved:
  "validate_paths to_lowercase source destination case_sensitive =
      (if provider_id source \<noteq> provider_id destination then Inl IncomparableLocations
       else case (resolved_place source, resolved_place destination) of
         (Some s, Some d) \<Rightarrow>
           if s = d then Inl SameEntry
           else if \<not> case_sensitive
             \<and> to_lowercase (from_utf8_lossy (path_string s)) = to_lowercase (from_utf8_lossy (path_string d))
           then Inl CaseOnlyDifference
           else if \<exists>rest. d = s @ rest then Inl DestinationInsideSource
           else Inr ()
       | _ \<Rightarrow> Inl IncomparableLocations)"
  by (simp add: validate_paths_def normalized_path_resolved take_prefix_iff split: option.split)

section \<open>Properties\<close>

text \<open>the operation lifecycle. Whatever transitions are attempted on a new operation, it is finished
  exactly when it has a completion time, work states have a start time, a finished operation
  accepts no transition at all, and an unfinished one can always be failed.\<close>

lemma lifecycle_invariant:
  assumes "op_reach (operation_new i t kind sources destination policy) op"
  shows "lifecycle_ok op
    \<and> (if is_terminal (op_state op) then \<forall>now s. \<not> is_ok (transition now op s)
       else \<forall>now. is_ok (transition now op Failed))"
proof -
  have "lifecycle_ok op" using assms
  proof (induction "operation_new i t kind sources destination policy" op)
    case here
    then show ?case by (simp add: lifecycle_ok_def operation_new_def is_terminal_def)
  next
    case (step a now s b)
    then show ?case using lifecycle_ok_transition by blast
  qed
  moreover have "\<not> is_ok (transition now op s)" if "is_terminal (op_state op)" for now s
    using that terminal_stuck by (auto simp: is_ok_iff transition_Inr)
  moreover have "is_ok (transition now op Failed)" if "\<not> is_terminal (op_state op)" for now
    using nonterminal_can_fail [OF that] by (auto simp: is_ok_iff transition_Inr)
  ultimately show ?thesis by simp
qed

text \<open>duplicate names never collide. For copy indices from one on, different indices give different
  names, no duplicate has the original's name, and the name is the original with the suffix put
  in front of the extension.\<close>

lemma duplicate_name_distinct:
  assumes "1 \<le> i" and "1 \<le> j"
  shows "(duplicate_name n i = duplicate_name n j \<longleftrightarrow> i = j) \<and> duplicate_name n i \<noteq> n
    \<and> (\<exists>stem extension suffix. n = stem @ extension \<and> duplicate_name n i = stem @ '' copy'' @ suffix @ extension)"
proof -
  obtain stem ext where n: "split_extension n = (stem, ext)" by fastforce
  define suffix where "suffix = (\<lambda>k::u32. if k \<le> 1 then [] else CHR '' '' # show_nat (unat k))"
  have dup: "duplicate_name n k = stem @ '' copy'' @ suffix k @ ext" for k
    by (simp add: duplicate_name_def n suffix_def)
  have one: "k \<le> 1 \<longleftrightarrow> k = 1" if "1 \<le> k" for k :: u32 using that by auto
  have inj: "suffix i = suffix j \<longleftrightarrow> i = j"
    using assms one show_nat_inj [of "unat i" "unat j"] word_unat_eq_iff [of i j]
    by (auto simp: suffix_def split: if_splits)
  have "length (stem @ '' copy'' @ suffix i @ ext) \<noteq> length (stem @ ext)" by simp
  then have "stem @ '' copy'' @ suffix i @ ext \<noteq> stem @ ext" by metis
  then show ?thesis using dup inj split_extension_append [OF n] by auto
qed

lemma nesting_check_is_case_sensitive:
  "validate_paths (map to_ascii_lowercase)
     (location_new ''local'' ''file:///Photos'') (location_new ''local'' ''file:///photos/2024'') False = Inr ()"
  by code_simp

text \<open>two different connections can be taken for the same entry. The check resolves a parent segment
  right after the connection id by dropping the id, so two accepted locations on different
  connections compare as one entry.\<close>

lemma parent_segment_drops_connection:
  "is_ok (location_parse (\<lambda>s. s \<in> {''c1'', ''c2''}) ''sftp://c1/../x'')
    \<and> is_ok (location_parse (\<lambda>s. s \<in> {''c1'', ''c2''}) ''sftp://c2/../x'')
    \<and> validate_paths to_lowercase (location_new ''sftp'' ''sftp://c1/../x'') (location_new ''sftp'' ''sftp://c2/../x'') True
      = Inl SameEntry"
proof -
  have "normalized_path (location_new ''sftp'' ''sftp://c1/../x'') = Inr [Normal ''x'']"
    "normalized_path (location_new ''sftp'' ''sftp://c2/../x'') = Inr [Normal ''x'']" by code_simp+
  moreover have "is_ok (location_parse (\<lambda>s. s \<in> {''c1'', ''c2''}) ''sftp://c1/../x'')"
    "is_ok (location_parse (\<lambda>s. s \<in> {''c1'', ''c2''}) ''sftp://c2/../x'')" by code_simp+
  ultimately show ?thesis by (simp add: validate_paths_def location_new_def)
qed

text \<open>C34: what the path check decides, for every provider. Two locations of one provider whose paths
  can be read are refused as the same entry exactly when their paths resolve, dot segments included,
  to the same place; as differing in case only when case does not matter and they fold to the same
  text; as nested when the destination resolves to something below the source; and accepted
  otherwise. For a local location the place compared is the chain of its decoded segments with the
  dots resolved. The nesting test compares exact spelling whatever \<open>case_sensitive\<close> says: without
  case sensitivity a destination below the source in another case is accepted. For a remote location
  the connection id is an ordinary first name, so that a parent segment after it drops it and two
  connections compare as one entry.\<close>

theorem validate_paths_exact:
  assumes "provider_id l = ''local''" and "location_path uuid_ok l = Inr ([], ss)"
  shows "validate_paths to_lowercase source destination case_sensitive =
      (if provider_id source \<noteq> provider_id destination then Inl IncomparableLocations
       else case (resolved_place source, resolved_place destination) of
         (Some s, Some d) \<Rightarrow>
           if s = d then Inl SameEntry
           else if \<not> case_sensitive
             \<and> to_lowercase (from_utf8_lossy (path_string s)) = to_lowercase (from_utf8_lossy (path_string d))
           then Inl CaseOnlyDifference
           else if \<exists>rest. d = s @ rest then Inl DestinationInsideSource
           else Inr ()
       | _ \<Rightarrow> Inl IncomparableLocations)
    \<and> resolved_place l = (if is_ok (to_native_path l) then Some (RootDir # map Normal (resolve_dots [] ss)) else None)
    \<and> validate_paths (map to_ascii_lowercase)
        (location_new ''local'' ''file:///Photos'') (location_new ''local'' ''file:///photos/2024'') False = Inr ()
    \<and> validate_paths to_lowercase
        (location_new ''sftp'' ''sftp://c1/../x'') (location_new ''sftp'' ''sftp://c2/../x'') True = Inl SameEntry"
  by (intro conjI validate_paths_resolved resolved_local [OF assms] nesting_check_is_case_sensitive
      parent_segment_drops_connection [THEN conjunct2, THEN conjunct2])

text \<open>At a destination below the source behind a detour, and at one beside it.\<close>

theorem validate_paths_exact_witness:
  "resolved_place (location_new ''local'' ''file:///a/b/../c/d'') = Some [RootDir, Normal ''a'', Normal ''c'', Normal ''d'']
    \<and> validate_paths (\<lambda>s. s) (location_new ''local'' ''file:///a/c'') (location_new ''local'' ''file:///a/b/../c/d'') True
      = Inl DestinationInsideSource
    \<and> validate_paths (\<lambda>s. s) (location_new ''local'' ''file:///a/cd'') (location_new ''local'' ''file:///a/b/../c/d'') True
      = Inr ()"
proof -
  have local: "provider_id (location_new ''local'' ''file:///a/b/../c/d'') = ''local''"
    "location_path (\<lambda>_. False) (location_new ''local'' ''file:///a/b/../c/d'') = Inr ([], [''a'', ''b'', ''..'', ''c'', ''d''])"
    by code_simp+
  have ok: "is_ok (to_native_path (location_new ''local'' ''file:///a/b/../c/d''))" by code_simp
  have other: "resolved_place (location_new ''local'' ''file:///a/c'') = Some [RootDir, Normal ''a'', Normal ''c'']"
    "resolved_place (location_new ''local'' ''file:///a/cd'') = Some [RootDir, Normal ''a'', Normal ''cd'']" by code_simp+
  note check = validate_paths_exact [OF local, where to_lowercase = "\<lambda>s. s"
      and destination = "location_new ''local'' ''file:///a/b/../c/d''" and case_sensitive = True]
  have here: "resolved_place (location_new ''local'' ''file:///a/b/../c/d'') = Some [RootDir, Normal ''a'', Normal ''c'', Normal ''d'']"
    using check [THEN conjunct2, THEN conjunct1] ok by simp
  have same: "provider_id (location_new p u) = p" for p u by (simp add: location_new_def)
  have "validate_paths (\<lambda>s. s) (location_new ''local'' ''file:///a/c'') (location_new ''local'' ''file:///a/b/../c/d'') True
      = Inl DestinationInsideSource"
    by (simp add: check [where source = "location_new ''local'' ''file:///a/c''", THEN conjunct1] here other same)
  moreover have "validate_paths (\<lambda>s. s) (location_new ''local'' ''file:///a/cd'') (location_new ''local'' ''file:///a/b/../c/d'') True
      = Inr ()"
    by (simp add: check [where source = "location_new ''local'' ''file:///a/cd''", THEN conjunct1] here other same)
  ultimately show ?thesis using here by blast
qed

end
