(* ===== verification/Scheduler.thy ===== *)
theory Scheduler
  imports Operations Workspace_Events "HOL-Library.AList"
begin

text \<open>
  The operation scheduler of \<open>src/crates/fm-operations/src/scheduler.rs\<close>. The task spawned for a job
  is a worker with a program counter; one step of it is one access to state it shares with the
  callers (a lock, a flag, a notification) or the arrival of one executor result, so that steps of
  workers and of callers interleave as the code allows. What the executor returns, and when the
  progress publisher emits, are inputs. A waiting worker may look again at any time; the
  code wakes it after every call that can unblock it. The semaphore is never closed.
  \<open>Scheduler::cancel\<close> sets the token and then changes the state, which are two steps; the other calls
  take effect in one.
\<close>

section \<open>Plans, results, errors\<close>

record plan_item =
  item_entry :: entry_ref
  item_bytes :: u64

record operation_plan =
  plan_items :: "plan_item list"
  plan_total_items :: "u64 option"
  plan_total_bytes :: "u64 option"

fun sum_bytes :: "u64 \<Rightarrow> plan_item list \<Rightarrow> u64 option" where
  "sum_bytes so_far [] = Some so_far"
| "sum_bytes so_far (item # items) =
    (case checked_add so_far (item_bytes item) of Some t \<Rightarrow> sum_bytes t items | None \<Rightarrow> None)"

definition operation_plan_new :: "plan_item list \<Rightarrow> operation_plan" where
  "operation_plan_new items = \<lparr>plan_items = items,
     plan_total_items = (if int (length items) < 2 ^ 64 then Some (of_nat (length items)) else None),
     plan_total_bytes = sum_bytes 0 items\<rparr>"

datatype execution_outcome = OutcomeCompleted | OutcomeSkipped

text \<open>Errors of providers (\<open>fm-vfs/src/error.rs\<close>) and their display texts. A capability is kept as
  its debug text.\<close>

datatype vfs_error =
    VfsNotFound string
  | VfsPermissionDenied string
  | VfsLocked string
  | VfsAlreadyExists string
  | VfsEmptyName
  | VfsInvalidNameCharacters
  | VfsReservedName
  | VfsPathTraversalName
  | VfsNotADirectory string
  | VfsIsADirectory string
  | VfsUnsupportedCapability string
  | VfsUnsafeArchiveEntry
  | VfsArchiveResourceLimit string
  | VfsCredentialRequired
  | VfsInvalidCredential
  | VfsCancelled
  | VfsIo string
  | VfsInvalidLocation string
  | VfsUnknownProvider string

fun vfs_error_text :: "vfs_error \<Rightarrow> string" where
  "vfs_error_text (VfsNotFound l) = ''location not found: '' @ l"
| "vfs_error_text (VfsPermissionDenied l) = ''permission denied: '' @ l"
| "vfs_error_text (VfsLocked l) = ''file is in use by another program: '' @ l"
| "vfs_error_text (VfsAlreadyExists l) = ''location already exists: '' @ l"
| "vfs_error_text VfsEmptyName = ''directory name is empty''"
| "vfs_error_text VfsInvalidNameCharacters = ''directory name contains invalid characters''"
| "vfs_error_text VfsReservedName = ''directory name is reserved''"
| "vfs_error_text VfsPathTraversalName = ''directory name must be one path component''"
| "vfs_error_text (VfsNotADirectory l) = ''location is not a directory: '' @ l"
| "vfs_error_text (VfsIsADirectory l) = ''location is a directory: '' @ l"
| "vfs_error_text (VfsUnsupportedCapability c) = ''provider does not support capability '' @ c"
| "vfs_error_text VfsUnsafeArchiveEntry = ''archive contains an unsafe entry path''"
| "vfs_error_text (VfsArchiveResourceLimit k) = ''archive resource limit exceeded: '' @ k"
| "vfs_error_text VfsCredentialRequired = ''archive credential required''"
| "vfs_error_text VfsInvalidCredential = ''archive credential is invalid''"
| "vfs_error_text VfsCancelled = ''operation cancelled''"
| "vfs_error_text (VfsIo m) = ''provider I/O failed: '' @ m"
| "vfs_error_text (VfsInvalidLocation l) = ''invalid location: '' @ l"
| "vfs_error_text (VfsUnknownProvider p) = ''unknown provider: '' @ p"

datatype execution_error =
    NotImplemented
  | ExecFailed string
  | Provider vfs_error
  | Warning entry_ref string
  | Conflict operation_conflict

datatype scheduler_error =
    UnknownOperation op_id
  | Transition transition_error
  | Execution execution_error

fun state_debug :: "operation_state \<Rightarrow> string" where
  "state_debug Queued = ''Queued''"
| "state_debug Planning = ''Planning''"
| "state_debug Running = ''Running''"
| "state_debug Paused = ''Paused''"
| "state_debug WaitingForConflictResolution = ''WaitingForConflictResolution''"
| "state_debug Cancelling = ''Cancelling''"
| "state_debug Cancelled = ''Cancelled''"
| "state_debug Completed = ''Completed''"
| "state_debug CompletedWithWarnings = ''CompletedWithWarnings''"
| "state_debug Failed = ''Failed''"
| "state_debug Interrupted = ''Interrupted''"

fun execution_error_text :: "execution_error \<Rightarrow> string" where
  "execution_error_text NotImplemented = ''operation kind is not implemented''"
| "execution_error_text (ExecFailed s) = ''operation execution failed: '' @ s"
| "execution_error_text (Provider e) = vfs_error_text e"
| "execution_error_text (Warning entry s) = s"
| "execution_error_text (Conflict c) = ''operation item has a destination conflict''"

fun scheduler_error_text :: "scheduler_error \<Rightarrow> string" where
  "scheduler_error_text (UnknownOperation i) = ''unknown operation '' @ show_nat i"
| "scheduler_error_text (Transition e) =
    ''illegal operation state transition from '' @ state_debug (err_from e) @ '' to '' @ state_debug (err_to e)"
| "scheduler_error_text (Execution e) = execution_error_text e"

section \<open>Events\<close>

record entry_ref_payload =
  payload_entry_id :: nat
  payload_entry_location :: location_payload

record operation_progress_details =
  payload_completed_items :: u64
  payload_total_items :: "u64 option"
  payload_completed_bytes :: u64
  payload_total_bytes :: "u64 option"
  payload_current_entry :: "entry_ref_payload option"
  payload_bytes_per_second :: "u64 option"

text \<open>The payload enumerations for kinds, states, policies and entry kinds mirror the domain
  enumerations constructor by constructor, so the domain types stand for them.\<close>

record operation_payload =
  payload_op_id :: op_id
  payload_kind :: operation_kind
  payload_state :: operation_state
  payload_sources :: "entry_ref_payload list"
  payload_destination :: "location_payload option"
  payload_progress :: operation_progress_details
  payload_conflict_policy :: conflict_policy
  payload_created_at :: op_time
  payload_started_at :: "op_time option"
  payload_completed_at :: "op_time option"

record operation_conflict_payload =
  payload_conflict_operation :: op_id
  payload_conflict_id :: string
  payload_conflict_message :: string
  payload_conflict_source :: conflict_entry
  payload_conflict_destination :: conflict_entry

datatype operation_event =
    OperationCreated operation_payload
  | OperationStateChanged op_id operation_state
  | OperationProgressed op_id operation_progress_details
  | OperationConflicted operation_conflict_payload
  | OperationCompleted operation_payload
  | OperationFailed op_id string string

definition entry_payload :: "entry_ref \<Rightarrow> entry_ref_payload" where
  "entry_payload e = \<lparr>payload_entry_id = entry_id e, payload_entry_location = make_location_payload (entry_location e)\<rparr>"

definition progress_payload :: "operation_progress \<Rightarrow> operation_progress_details" where
  "progress_payload p = \<lparr>payload_completed_items = completed_items p, payload_total_items = total_items p,
     payload_completed_bytes = completed_bytes p, payload_total_bytes = total_bytes p,
     payload_current_entry = map_option entry_payload (current_entry p),
     payload_bytes_per_second = bytes_per_second p\<rparr>"

definition make_operation_payload :: "operation \<Rightarrow> operation_payload" where
  "make_operation_payload op = \<lparr>payload_op_id = op_id op, payload_kind = op_kind op, payload_state = op_state op,
     payload_sources = map entry_payload (op_sources op),
     payload_destination = map_option make_location_payload (op_destination op),
     payload_progress = progress_payload (op_progress op), payload_conflict_policy = op_conflict_policy op,
     payload_created_at = op_created_at op, payload_started_at = op_started_at op,
     payload_completed_at = op_completed_at op\<rparr>"

definition publish_conflict :: "op_id \<Rightarrow> operation_conflict \<Rightarrow> operation_event" where
  "publish_conflict i c = OperationConflicted \<lparr>payload_conflict_operation = i, payload_conflict_id = conflict_id c,
     payload_conflict_message = conflict_name (conflict_destination c) @ '' already exists'',
     payload_conflict_source = conflict_source c, payload_conflict_destination = conflict_destination c\<rparr>"

definition publish_progress :: "operation \<Rightarrow> operation_event" where
  "publish_progress op = OperationProgressed (op_id op) (progress_payload (op_progress op))"

definition transition_and_publish ::
  "op_time \<Rightarrow> operation \<Rightarrow> operation_state \<Rightarrow> scheduler_error + (operation \<times> operation_event list)" where
  "transition_and_publish now op to =
    and_then (map_err Transition (transition now op to))
      (\<lambda>op'. Inr (op', [OperationStateChanged (op_id op') to]))"

section \<open>Jobs and workers\<close>

record pending_conflict =
  pending_of :: operation_conflict
  decision :: "conflict_resolution option"

type_synonym deferred_item = "plan_item \<times> operation_conflict"

text \<open>Where a worker goes on after \<open>wait_while_blocked\<close>, and after \<open>register_conflict\<close>.\<close>

datatype resume_point =
    AfterConfirm "plan_item list"
  | AtItem plan_item "plan_item list" "deferred_item list"
  | AtFinish

datatype register_return =
    RetItem "plan_item list" "deferred_item list"
  | RetDecide plan_item operation_conflict "deferred_item list"
  | RetRetry plan_item operation_conflict "deferred_item list"

datatype worker_pc =
    Acquire
  | StartCheck
  | EnterPlanning
  | AwaitPlan
  | PlannedCheck operation_plan
  | Begin operation_plan
  | WaitState resume_point
  | WaitPending resume_point
  | WaitCheck resume_point
  | NextItem "plan_item list" "deferred_item list"
  | ReadApplyToAll plan_item "plan_item list" "deferred_item list"
  | AwaitExecute plan_item "plan_item list" "deferred_item list" "conflict_resolution option"
  | Executed plan_item "plan_item list" "deferred_item list" "execution_error + execution_outcome"
  | PushWarning plan_item "plan_item list" "deferred_item list" entry_ref string
  | Conflicted plan_item "plan_item list" "deferred_item list" operation_conflict
  | Account plan_item "plan_item list" "deferred_item list" u64
  | ItemDone "plan_item list" "deferred_item list"
  | RegisterPending operation_conflict register_return
  | RegisterState operation_conflict register_return
  | NextDeferred "deferred_item list"
  | Resolve plan_item operation_conflict "deferred_item list"
  | CheckPending plan_item operation_conflict "deferred_item list"
  | AwaitDecision plan_item operation_conflict "deferred_item list"
  | TakeDecision plan_item operation_conflict "deferred_item list" conflict_resolution
  | Decided plan_item operation_conflict "deferred_item list" conflict_resolution
  | ResolvedCheck plan_item operation_conflict "deferred_item list" conflict_resolution
  | AwaitRetry plan_item operation_conflict "deferred_item list" conflict_resolution
  | AccountDeferred plan_item "deferred_item list" execution_outcome
  | AwaitFinish
  | Complete
  | AwaitCleanup bool
  | CancelState bool
  | Handler scheduler_error
  | HandlerCleanup scheduler_error
  | FailJob string
  | Done

record job =
  job_operation :: operation
  job_cancelled :: bool
  job_paused :: bool
  job_pending :: "pending_conflict option"
  job_apply_to_all :: "conflict_resolution option"
  job_confirm :: bool
  job_pc :: worker_pc

text \<open>What a worker step receives from outside: an executor result, or the rate the progress publisher
  emits (if it emits).\<close>

datatype worker_input =
    NoInput
  | PlanResult "execution_error + operation_plan"
  | ExecuteResult "execution_error + execution_outcome"
  | RecordResult "u64 option option"
  | FinishResult "execution_error + unit"
  | CleanupResult "execution_error + unit"

type_synonym worker_effect = "job \<times> operation_event list \<times> operation list"

definition goto :: "job \<Rightarrow> worker_pc \<Rightarrow> worker_effect option" where
  "goto j pc = Some (j\<lparr>job_pc := pc\<rparr>, [], [])"

text \<open>A transition under the operation lock: on success continue, on an illegal transition the job
  function returns the error and the spawned task's handler takes over.\<close>

definition shift ::
  "op_time \<Rightarrow> job \<Rightarrow> operation_state \<Rightarrow> worker_pc \<Rightarrow> (scheduler_error \<Rightarrow> worker_pc) \<Rightarrow> worker_effect option" where
  "shift now j to ok err =
    (case transition_and_publish now (job_operation j) to of
       Inr (op, evs) \<Rightarrow> Some (j\<lparr>job_operation := op, job_pc := ok\<rparr>, evs, [])
     | Inl e \<Rightarrow> Some (j\<lparr>job_pc := err e\<rparr>, [], []))"

definition account :: "plan_item \<Rightarrow> u64 \<Rightarrow> operation \<Rightarrow> operation" where
  "account item bytes op = op\<lparr>op_progress := (op_progress op)
     \<lparr>completed_items := saturating_add (completed_items (op_progress op)) 1,
      completed_bytes := saturating_add (completed_bytes (op_progress op)) bytes,
      current_entry := Some (item_entry item)\<rparr>\<rparr>"

definition after_error :: "bool \<Rightarrow> scheduler_error \<Rightarrow> worker_pc" where
  "after_error in_handler e = (if in_handler then FailJob (scheduler_error_text e) else Handler e)"

fun resume_pc :: "resume_point \<Rightarrow> worker_pc" where
  "resume_pc (AfterConfirm items) = NextItem items []"
| "resume_pc (AtItem item rest deferred) = ReadApplyToAll item rest deferred"
| "resume_pc AtFinish = AwaitFinish"

fun return_pc :: "register_return \<Rightarrow> worker_pc" where
  "return_pc (RetItem rest deferred) = NextItem rest deferred"
| "return_pc (RetDecide item known q) = AwaitDecision item known q"
| "return_pc (RetRetry item known q) = Resolve item known q"

fun executed_pc ::
  "plan_item \<Rightarrow> plan_item list \<Rightarrow> deferred_item list \<Rightarrow> execution_error + execution_outcome \<Rightarrow> worker_pc" where
  "executed_pc item rest deferred (Inr OutcomeCompleted) = Account item rest deferred (item_bytes item)"
| "executed_pc item rest deferred (Inr OutcomeSkipped) = Account item rest deferred 0"
| "executed_pc item rest deferred (Inl (Warning entry msg)) = PushWarning item rest deferred entry msg"
| "executed_pc item rest deferred (Inl (Conflict c)) = Conflicted item rest deferred c"
| "executed_pc item rest deferred (Inl e) = Handler (Execution e)"

definition fail_job :: "op_time \<Rightarrow> operation \<Rightarrow> string \<Rightarrow> operation \<times> operation_event list" where
  "fail_job now op message =
    (let (op', evs) =
       (if is_terminal (op_state op) then (op, [])
        else if op_state op = Cancelling then
          (case transition now op Failed of Inr op' \<Rightarrow> (op', []) | Inl _ \<Rightarrow> (op, []))
        else (case transition_and_publish now op Failed of Inr (op', evs) \<Rightarrow> (op', evs) | Inl _ \<Rightarrow> (op, [])))
     in (op', evs @ [OperationFailed (op_id op') ''operationFailed'' message]))"

text \<open>The parts of \<open>run_job\<close> and the functions it calls.\<close>

definition begin_items :: "op_time \<Rightarrow> job \<Rightarrow> operation_plan \<Rightarrow> worker_effect option" where
  "begin_items now j plan =
    (let op = job_operation j;
         op1 = op\<lparr>op_progress := (op_progress op)\<lparr>total_items := plan_total_items plan, total_bytes := plan_total_bytes plan\<rparr>\<rparr>;
         to = (if job_confirm j then WaitingForConflictResolution else Running);
         pc = (if job_confirm j then WaitState (AfterConfirm (plan_items plan)) else NextItem (plan_items plan) [])
     in map_option (\<lambda>(j', evs, obs). (j', publish_progress op1 # evs, obs))
          (shift now (j\<lparr>job_operation := op1\<rparr>) to pc Handler))"

text \<open>\<open>wait_while_blocked\<close> reads the state and then the pending conflict.\<close>

definition wait_while_blocked :: "job \<Rightarrow> resume_point \<Rightarrow> worker_effect option" where
  "wait_while_blocked j k =
    (if op_state (job_operation j) = Paused then None
     else if op_state (job_operation j) = WaitingForConflictResolution then goto j (WaitPending k)
     else goto j (WaitCheck k))"

definition record_item ::
  "worker_input \<Rightarrow> job \<Rightarrow> plan_item \<Rightarrow> plan_item list \<Rightarrow> deferred_item list \<Rightarrow> u64 \<Rightarrow> worker_effect option" where
  "record_item input j item rest deferred bytes =
    (case input of
       RecordResult None \<Rightarrow> goto (j\<lparr>job_operation := account item bytes (job_operation j)\<rparr>) (ItemDone rest deferred)
     | RecordResult (Some rate) \<Rightarrow>
         (let op1 = account item bytes (job_operation j);
              op2 = op1\<lparr>op_progress := (op_progress op1)\<lparr>bytes_per_second := rate\<rparr>\<rparr>
          in Some (j\<lparr>job_operation := op2, job_pc := ItemDone rest deferred\<rparr>, [publish_progress op2], []))
     | _ \<Rightarrow> None)"

definition register_conflict :: "op_time \<Rightarrow> job \<Rightarrow> operation_conflict \<Rightarrow> register_return \<Rightarrow> worker_effect option" where
  "register_conflict now j c ret =
    (case transition_and_publish now (job_operation j) WaitingForConflictResolution of
       Inr (op', evs) \<Rightarrow>
         Some (j\<lparr>job_operation := op', job_pc := return_pc ret\<rparr>, evs @ [publish_conflict (op_id op') c], [])
     | Inl e \<Rightarrow> goto j (Handler e))"

definition wait_for_conflict_decision ::
  "job \<Rightarrow> plan_item \<Rightarrow> operation_conflict \<Rightarrow> deferred_item list \<Rightarrow> worker_effect option" where
  "wait_for_conflict_decision j item known q =
    (case Option.bind (job_pending j) decision of
       Some d \<Rightarrow> goto j (TakeDecision item known q d)
     | None \<Rightarrow> if job_cancelled j then goto j (ResolvedCheck item known q Skip) else None)"

definition retry_deferred ::
  "worker_input \<Rightarrow> job \<Rightarrow> plan_item \<Rightarrow> operation_conflict \<Rightarrow> deferred_item list \<Rightarrow> worker_effect option" where
  "retry_deferred input j item known q =
    (case input of
       ExecuteResult (Inr outcome) \<Rightarrow> goto j (AccountDeferred item q outcome)
     | ExecuteResult (Inl (Conflict c)) \<Rightarrow> goto j (RegisterPending c (RetRetry item known q))
     | ExecuteResult (Inl e) \<Rightarrow> goto j (Handler (Execution e))
     | _ \<Rightarrow> None)"

definition complete_job :: "op_time \<Rightarrow> job \<Rightarrow> worker_effect option" where
  "complete_job now j =
    map_option (\<lambda>(j', evs, obs).
        (j', if job_pc j' = Done then evs @ [OperationCompleted (make_operation_payload (job_operation j'))] else evs, obs))
      (shift now j (if op_errors (job_operation j) = [] then Completed else CompletedWithWarnings) Done Handler)"

text \<open>The end of \<open>finish_cancelled\<close>, after the executor's cleanup.\<close>

definition finish_cancelled :: "op_time \<Rightarrow> job \<Rightarrow> bool \<Rightarrow> worker_effect option" where
  "finish_cancelled now j in_handler =
    (case (if op_state (job_operation j) \<noteq> Cancelling then transition_and_publish now (job_operation j) Cancelling
           else Inr (job_operation j, [])) of
       Inr (op1, evs1) \<Rightarrow>
         map_option (\<lambda>(j', evs, obs). (j', evs1 @ evs, obs))
           (shift now (j\<lparr>job_operation := op1\<rparr>) Cancelled Done (after_error in_handler))
     | Inl e \<Rightarrow> goto j (after_error in_handler e))"

fun worker_step :: "op_time \<Rightarrow> worker_input \<Rightarrow> job \<Rightarrow> worker_effect option" where
  "worker_step now input j =
    (let op = job_operation j in
     case job_pc j of
       Acquire \<Rightarrow> None
     | StartCheck \<Rightarrow> goto j (if job_cancelled j then AwaitCleanup False else EnterPlanning)
     | EnterPlanning \<Rightarrow> shift now j Planning AwaitPlan Handler
     | AwaitPlan \<Rightarrow>
         (case input of
            PlanResult (Inr plan) \<Rightarrow> goto j (PlannedCheck plan)
          | PlanResult (Inl e) \<Rightarrow> goto j (Handler (Execution e))
          | _ \<Rightarrow> None)
     | PlannedCheck plan \<Rightarrow> goto j (if job_cancelled j then AwaitCleanup False else Begin plan)
     | Begin plan \<Rightarrow> begin_items now j plan
     | WaitState k \<Rightarrow> wait_while_blocked j k
     | WaitPending k \<Rightarrow> goto j (if job_pending j \<noteq> None then WaitCheck k else WaitState k)
     | WaitCheck k \<Rightarrow> goto j (if job_cancelled j then AwaitCleanup False else resume_pc k)
     | NextItem items deferred \<Rightarrow>
         (case items of
            [] \<Rightarrow> goto j (NextDeferred deferred)
          | item # rest \<Rightarrow> goto j (WaitState (AtItem item rest deferred)))
     | ReadApplyToAll item rest deferred \<Rightarrow> goto j (AwaitExecute item rest deferred (job_apply_to_all j))
     | AwaitExecute item rest deferred res \<Rightarrow>
         (case input of ExecuteResult r \<Rightarrow> goto j (Executed item rest deferred r) | _ \<Rightarrow> None)
     | Executed item rest deferred r \<Rightarrow>
         goto j (if job_cancelled j \<and> \<not> is_ok r then AwaitCleanup False else executed_pc item rest deferred r)
     | PushWarning item rest deferred entry msg \<Rightarrow>
         goto (j\<lparr>job_operation := op\<lparr>op_errors := op_errors op @ [\<lparr>error_entry = entry, error_message = msg\<rparr>]\<rparr>\<rparr>)
           (Account item rest deferred 0)
     | Conflicted item rest deferred c \<Rightarrow>
         goto j (if job_pending j = None then RegisterPending c (RetItem rest (deferred @ [(item, c)]))
                 else NextItem rest (deferred @ [(item, c)]))
     | Account item rest deferred bytes \<Rightarrow> record_item input j item rest deferred bytes
     | ItemDone rest deferred \<Rightarrow> goto j (if job_cancelled j then AwaitCleanup False else NextItem rest deferred)
     | RegisterPending c ret \<Rightarrow> goto (j\<lparr>job_pending := Some \<lparr>pending_of = c, decision = None\<rparr>\<rparr>) (RegisterState c ret)
     | RegisterState c ret \<Rightarrow> register_conflict now j c ret
     | NextDeferred q \<Rightarrow>
         (case q of [] \<Rightarrow> goto j (WaitState AtFinish) | (item, known) # q' \<Rightarrow> goto j (Resolve item known q'))
     | Resolve item known q \<Rightarrow>
         (case job_apply_to_all j of
            Some r \<Rightarrow> goto j (ResolvedCheck item known q r)
          | None \<Rightarrow> goto j (CheckPending item known q))
     | CheckPending item known q \<Rightarrow>
         goto j (if job_pending j = None then RegisterPending known (RetDecide item known q) else AwaitDecision item known q)
     | AwaitDecision item known q \<Rightarrow> wait_for_conflict_decision j item known q
     | TakeDecision item known q d \<Rightarrow> goto (j\<lparr>job_pending := None\<rparr>) (Decided item known q d)
     | Decided item known q d \<Rightarrow> shift now j Running (ResolvedCheck item known q d) Handler
     | ResolvedCheck item known q r \<Rightarrow>
         goto j (if job_cancelled j then AwaitCleanup False else AwaitRetry item known q r)
     | AwaitRetry item known q r \<Rightarrow> retry_deferred input j item known q
     | AccountDeferred item q outcome \<Rightarrow>
         goto (j\<lparr>job_operation := account item (if outcome = OutcomeCompleted then item_bytes item else 0) op\<rparr>) (NextDeferred q)
     | AwaitFinish \<Rightarrow>
         (case input of
            FinishResult (Inr u) \<Rightarrow> goto j Complete
          | FinishResult (Inl e) \<Rightarrow> goto j (Handler (Execution e))
          | _ \<Rightarrow> None)
     | Complete \<Rightarrow> complete_job now j
     | AwaitCleanup in_handler \<Rightarrow>
         (case input of
            CleanupResult (Inr u) \<Rightarrow> goto j (CancelState in_handler)
          | CleanupResult (Inl e) \<Rightarrow> goto j (after_error in_handler (Execution e))
          | _ \<Rightarrow> None)
     | CancelState in_handler \<Rightarrow> finish_cancelled now j in_handler
     | Handler e \<Rightarrow> goto j (if job_cancelled j then AwaitCleanup True else HandlerCleanup e)
     | HandlerCleanup e \<Rightarrow>
         (case input of CleanupResult r \<Rightarrow> goto j (FailJob (scheduler_error_text e)) | _ \<Rightarrow> None)
     | FailJob message \<Rightarrow>
         (let (op', evs) = fail_job now op message
          in Some (j\<lparr>job_operation := op', job_pc := Done\<rparr>, evs, [op']))
     | Done \<Rightarrow> None)"

declare worker_step.simps [simp del]

section \<open>The scheduler\<close>

record scheduler =
  jobs :: "(op_id \<times> job) list"
  free_permits :: nat
  sched_events :: "operation_event list"
  observed :: "operation list"
  pending_cancel :: "op_id option"

definition scheduler_new :: "16 word \<Rightarrow> scheduler" where
  "scheduler_new operation_concurrency = \<lparr>jobs = [], free_permits = max (unat operation_concurrency) 1,
     sched_events = [], observed = [], pending_cancel = None\<rparr>"

definition new_job :: "operation \<Rightarrow> bool \<Rightarrow> job" where
  "new_job op confirm = \<lparr>job_operation = op, job_cancelled = False, job_paused = False, job_pending = None,
     job_apply_to_all = None, job_confirm = confirm, job_pc = Acquire\<rparr>"

definition submit :: "scheduler \<Rightarrow> operation \<Rightarrow> bool \<Rightarrow> (scheduler_error + op_id) \<times> scheduler" where
  "submit s op confirm = (Inr (op_id op),
     s\<lparr>jobs := AList.update (op_id op) (new_job op confirm) (jobs s),
       sched_events := sched_events s @ [OperationCreated (make_operation_payload op)],
       observed := observed s @ [op]\<rparr>)"

definition find_job :: "scheduler \<Rightarrow> op_id \<Rightarrow> scheduler_error + job" where
  "find_job s i = ok_or (UnknownOperation i) (map_of (jobs s) i)"

definition put_job :: "scheduler \<Rightarrow> op_id \<Rightarrow> job \<Rightarrow> operation_event list \<Rightarrow> scheduler" where
  "put_job s i j evs = s\<lparr>jobs := AList.update i j (jobs s), sched_events := sched_events s @ evs\<rparr>"

definition get_operation :: "scheduler \<Rightarrow> op_id \<Rightarrow> scheduler_error + operation" where
  "get_operation s i = and_then (find_job s i) (\<lambda>j. Inr (job_operation j))"

definition list_operations :: "scheduler \<Rightarrow> operation list" where
  "list_operations s = sort_key (\<lambda>op. - op_created_at op) (map (\<lambda>(_, j). job_operation j) (jobs s))"

text \<open>A caller's transition under the operation lock, followed by a change of the job's other fields.\<close>

definition transition_job ::
  "op_time \<Rightarrow> scheduler \<Rightarrow> op_id \<Rightarrow> operation_state \<Rightarrow> (job \<Rightarrow> job) \<Rightarrow> (scheduler_error + unit) \<times> scheduler" where
  "transition_job now s i to f =
    (case find_job s i of
       Inl e \<Rightarrow> (Inl e, s)
     | Inr j \<Rightarrow>
         (case transition_and_publish now (job_operation j) to of
            Inl e \<Rightarrow> (Inl e, s)
          | Inr (op, evs) \<Rightarrow> (Inr (), put_job s i (f (j\<lparr>job_operation := op\<rparr>)) evs)))"

definition pause :: "op_time \<Rightarrow> scheduler \<Rightarrow> op_id \<Rightarrow> (scheduler_error + unit) \<times> scheduler" where
  "pause now s i = transition_job now s i Paused (\<lambda>j. j\<lparr>job_paused := True\<rparr>)"

definition resume :: "op_time \<Rightarrow> scheduler \<Rightarrow> op_id \<Rightarrow> (scheduler_error + unit) \<times> scheduler" where
  "resume now s i = transition_job now s i Running (\<lambda>j. j\<lparr>job_paused := False\<rparr>)"

definition confirm :: "op_time \<Rightarrow> scheduler \<Rightarrow> op_id \<Rightarrow> (scheduler_error + unit) \<times> scheduler" where
  "confirm now s i = transition_job now s i Running (\<lambda>j. j)"

definition resolve_conflict ::
  "scheduler \<Rightarrow> op_id \<Rightarrow> conflict_resolution \<Rightarrow> bool \<Rightarrow> (scheduler_error + unit) \<times> scheduler" where
  "resolve_conflict s i resolution apply_to_all =
    (case find_job s i of
       Inl e \<Rightarrow> (Inl e, s)
     | Inr j \<Rightarrow>
         (case job_pending j of
            None \<Rightarrow> (Inl (Execution (ExecFailed ''operation has no pending conflict'')), s)
          | Some p \<Rightarrow>
              (Inr (), put_job s i (j\<lparr>job_pending := Some (p\<lparr>decision := Some resolution\<rparr>),
                 job_apply_to_all := (if apply_to_all then Some resolution else job_apply_to_all j)\<rparr>) [])))"

definition republish_pending_conflicts :: "scheduler \<Rightarrow> scheduler" where
  "republish_pending_conflicts s = s\<lparr>sched_events := sched_events s @
     concat (map (\<lambda>(_, j). case job_pending j of
       Some p \<Rightarrow> [publish_conflict (op_id (job_operation j)) (pending_of p)] | None \<Rightarrow> []) (jobs s))\<rparr>"

text \<open>The two halves of \<open>cancel\<close>; the call holds the job table lock from the first to the second.\<close>

definition cancel_token :: "scheduler \<Rightarrow> op_id \<Rightarrow> (scheduler_error + unit) \<times> scheduler" where
  "cancel_token s i =
    (case find_job s i of
       Inl e \<Rightarrow> (Inl e, s)
     | Inr j \<Rightarrow> (Inr (), (put_job s i (j\<lparr>job_cancelled := True, job_paused := False\<rparr>) [])\<lparr>pending_cancel := Some i\<rparr>))"

definition cancel_state :: "op_time \<Rightarrow> scheduler \<Rightarrow> op_id \<Rightarrow> (scheduler_error + unit) \<times> scheduler" where
  "cancel_state now s i =
    (case find_job s i of
       Inl e \<Rightarrow> (Inl e, s)
     | Inr j \<Rightarrow>
         if \<not> is_terminal (op_state (job_operation j)) \<and> op_state (job_operation j) \<noteq> Cancelling
         then (case transition_job now s i Cancelling (\<lambda>j. j) of (r, s') \<Rightarrow> (r, s'\<lparr>pending_cancel := None\<rparr>))
         else (Inr (), s\<lparr>pending_cancel := None\<rparr>))"

section \<open>Runs\<close>

text \<open>The permit is taken first and dropped when the job function returns, before the spawned task's
  handler runs.\<close>

fun holds_permit :: "worker_pc \<Rightarrow> bool" where
  "holds_permit Acquire = False"
| "holds_permit (Handler e) = False"
| "holds_permit (HandlerCleanup e) = False"
| "holds_permit (AwaitCleanup in_handler) = (\<not> in_handler)"
| "holds_permit (CancelState in_handler) = (\<not> in_handler)"
| "holds_permit (FailJob m) = False"
| "holds_permit Done = False"
| "holds_permit _ = True"

datatype scheduler_action =
    Submit operation bool
  | Grant op_id
  | Work op_id op_time worker_input
  | CallPause op_id op_time
  | CallResume op_id op_time
  | CallConfirm op_id op_time
  | CallResolve op_id conflict_resolution bool
  | CallRepublish
  | CancelToken op_id
  | CancelTransition op_time

definition fresh_operation :: "operation \<Rightarrow> bool" where
  "fresh_operation op \<longleftrightarrow> op = operation_new (op_id op) (op_created_at op) (op_kind op) (op_sources op)
     (op_destination op) (op_conflict_policy op)"

text \<open>Executors build their plans with \<open>OperationPlan::new\<close>.\<close>

fun plan_input_ok :: "worker_input \<Rightarrow> bool" where
  "plan_input_ok (PlanResult (Inr plan)) \<longleftrightarrow> plan = operation_plan_new (plan_items plan) \<and> int (length (plan_items plan)) < 2 ^ 64"
| "plan_input_ok _ \<longleftrightarrow> True"

fun scheduler_act :: "scheduler_action \<Rightarrow> scheduler \<Rightarrow> scheduler option" where
  "scheduler_act (Submit op c) s =
    (if pending_cancel s = None \<and> fresh_operation op \<and> map_of (jobs s) (op_id op) = None
     then Some (snd (submit s op c)) else None)"
| "scheduler_act (Grant i) s =
    (case map_of (jobs s) i of
       Some j \<Rightarrow> if job_pc j = Acquire \<and> 0 < free_permits s
         then Some ((put_job s i (j\<lparr>job_pc := StartCheck\<rparr>) [])\<lparr>free_permits := free_permits s - 1\<rparr>) else None
     | None \<Rightarrow> None)"
| "scheduler_act (Work i now input) s =
    (case map_of (jobs s) i of
       Some j \<Rightarrow> if \<not> plan_input_ok input then None else
         map_option (\<lambda>(j', evs, obs). (put_job s i j' evs)
           \<lparr>free_permits := free_permits s + (if holds_permit (job_pc j) \<and> \<not> holds_permit (job_pc j') then 1 else 0),
            observed := observed s @ obs\<rparr>) (worker_step now input j)
     | None \<Rightarrow> None)"
| "scheduler_act (CallPause i now) s = (if pending_cancel s = None then Some (snd (pause now s i)) else None)"
| "scheduler_act (CallResume i now) s = (if pending_cancel s = None then Some (snd (resume now s i)) else None)"
| "scheduler_act (CallConfirm i now) s = (if pending_cancel s = None then Some (snd (confirm now s i)) else None)"
| "scheduler_act (CallResolve i r all) s =
    (if pending_cancel s = None then Some (snd (resolve_conflict s i r all)) else None)"
| "scheduler_act CallRepublish s = (if pending_cancel s = None then Some (republish_pending_conflicts s) else None)"
| "scheduler_act (CancelToken i) s = (if pending_cancel s = None then Some (snd (cancel_token s i)) else None)"
| "scheduler_act (CancelTransition now) s =
    (case pending_cancel s of Some i \<Rightarrow> Some (snd (cancel_state now s i)) | None \<Rightarrow> None)"

fun play :: "scheduler_action list \<Rightarrow> scheduler \<Rightarrow> scheduler option" where
  "play [] s = Some s"
| "play (a # as) s = Option.bind (scheduler_act a s) (play as)"

inductive reachable :: "16 word \<Rightarrow> scheduler \<Rightarrow> bool" for c where
  start: "reachable c (scheduler_new c)"
| act: "reachable c s \<Longrightarrow> scheduler_act a s = Some s' \<Longrightarrow> reachable c s'"

end
