(* ===== verification/Scheduler_Laws.thy ===== *)
theory Scheduler_Laws
  imports Scheduler
begin

text \<open>
  What the scheduler guarantees: an invariant of every reachable state, under every interleaving of
  workers and callers and every answer of the executor, and from it the properties of the job table,
  of the published events and of cancellation.
\<close>

section \<open>Transitions as conditional updates\<close>

definition moved :: "op_time \<Rightarrow> operation \<Rightarrow> operation_state \<Rightarrow> operation" where
  "moved now op to = op\<lparr>op_state := to,
      op_started_at := (if to = Planning \<and> op_started_at op = None then Some now else op_started_at op),
      op_completed_at := (if is_terminal to then Some now else op_completed_at op)\<rparr>"

lemma transition_eq:
  "transition now op to = (if can_transition_to (op_state op) to then Inr (moved now op to)
     else Inl \<lparr>err_from = op_state op, err_to = to\<rparr>)"
  by (simp add: transition_def moved_def Let_def)

lemma transition_and_publish_eq:
  "transition_and_publish now op to = (if can_transition_to (op_state op) to
     then Inr (moved now op to, [OperationStateChanged (op_id op) to])
     else Inl (Transition \<lparr>err_from = op_state op, err_to = to\<rparr>))"
  by (simp add: transition_and_publish_def transition_eq moved_def)

lemma shift_eq:
  "shift now j to ok err = (if can_transition_to (op_state (job_operation j)) to
     then Some (j\<lparr>job_operation := moved now (job_operation j) to, job_pc := ok\<rparr>,
       [OperationStateChanged (op_id (job_operation j)) to], [])
     else Some (j\<lparr>job_pc := err (Transition \<lparr>err_from = op_state (job_operation j), err_to = to\<rparr>)\<rparr>, [], []))"
  by (simp add: shift_def transition_and_publish_eq)

lemma moved_simps [simp]:
  "op_state (moved now op to) = to" "op_id (moved now op to) = op_id op"
  "op_progress (moved now op to) = op_progress op" "op_errors (moved now op to) = op_errors op"
  by (simp_all add: moved_def)

lemma moved_lifecycle: "lifecycle_ok op \<Longrightarrow> can_transition_to (op_state op) to \<Longrightarrow> lifecycle_ok (moved now op to)"
  using lifecycle_ok_transition [of op now to] by (simp add: transition_eq)

lemma account_simps [simp]:
  "op_state (account item b op) = op_state op" "op_id (account item b op) = op_id op"
  "op_errors (account item b op) = op_errors op"
  "completed_items (op_progress (account item b op)) = saturating_add (completed_items (op_progress op)) 1"
  "total_items (op_progress (account item b op)) = total_items (op_progress op)"
  "lifecycle_ok (account item b op) = lifecycle_ok op"
  by (simp_all add: account_def lifecycle_ok_def)

lemma lifecycle_ok_progress [simp]:
  "lifecycle_ok (op\<lparr>op_progress := p\<rparr>) = lifecycle_ok op" "lifecycle_ok (op\<lparr>op_errors := es\<rparr>) = lifecycle_ok op"
  by (simp_all add: lifecycle_ok_def)

section \<open>What a worker has left to do\<close>

fun early :: "worker_pc \<Rightarrow> bool" where
  "early Acquire = True" | "early StartCheck = True" | "early EnterPlanning = True" | "early AwaitPlan = True"
| "early (PlannedCheck plan) = True" | "early (Begin plan) = True" | "early _ = False"

fun resume_left :: "resume_point \<Rightarrow> nat" where
  "resume_left (AfterConfirm items) = length items"
| "resume_left (AtItem item rest deferred) = Suc (length rest + length deferred)"
| "resume_left AtFinish = 0"

fun return_left :: "register_return \<Rightarrow> nat" where
  "return_left (RetItem rest deferred) = length rest + length deferred"
| "return_left (RetDecide item known q) = Suc (length q)"
| "return_left (RetRetry item known q) = Suc (length q)"

fun left_to_do :: "worker_pc \<Rightarrow> nat option" where
  "left_to_do (WaitState k) = Some (resume_left k)"
| "left_to_do (WaitPending k) = Some (resume_left k)"
| "left_to_do (WaitCheck k) = Some (resume_left k)"
| "left_to_do (NextItem items deferred) = Some (length items + length deferred)"
| "left_to_do (ReadApplyToAll item rest deferred) = Some (Suc (length rest + length deferred))"
| "left_to_do (AwaitExecute item rest deferred r) = Some (Suc (length rest + length deferred))"
| "left_to_do (Executed item rest deferred r) = Some (Suc (length rest + length deferred))"
| "left_to_do (PushWarning item rest deferred e m) = Some (Suc (length rest + length deferred))"
| "left_to_do (Conflicted item rest deferred c) = Some (Suc (length rest + length deferred))"
| "left_to_do (Account item rest deferred b) = Some (Suc (length rest + length deferred))"
| "left_to_do (ItemDone rest deferred) = Some (length rest + length deferred)"
| "left_to_do (RegisterPending c ret) = Some (return_left ret)"
| "left_to_do (RegisterState c ret) = Some (return_left ret)"
| "left_to_do (NextDeferred q) = Some (length q)"
| "left_to_do (Resolve item known q) = Some (Suc (length q))"
| "left_to_do (CheckPending item known q) = Some (Suc (length q))"
| "left_to_do (AwaitDecision item known q) = Some (Suc (length q))"
| "left_to_do (TakeDecision item known q d) = Some (Suc (length q))"
| "left_to_do (Decided item known q d) = Some (Suc (length q))"
| "left_to_do (ResolvedCheck item known q d) = Some (Suc (length q))"
| "left_to_do (AwaitRetry item known q d) = Some (Suc (length q))"
| "left_to_do (AccountDeferred item q out) = Some (Suc (length q))"
| "left_to_do AwaitFinish = Some 0"
| "left_to_do Complete = Some 0"
| "left_to_do _ = None"

fun plan_of :: "worker_pc \<Rightarrow> operation_plan option" where
  "plan_of (PlannedCheck plan) = Some plan" | "plan_of (Begin plan) = Some plan" | "plan_of _ = None"

definition counted :: "job \<Rightarrow> bool" where
  "counted j \<longleftrightarrow> (let p = op_progress (job_operation j) in
    (early (job_pc j) \<longrightarrow> completed_items p = 0)
    \<and> (\<forall>plan. plan_of (job_pc j) = Some plan \<longrightarrow> plan_input_ok (PlanResult (Inr plan)))
    \<and> (\<forall>n. left_to_do (job_pc j) = Some n \<longrightarrow>
        (\<exists>t. total_items p = Some t \<and> unat (completed_items p) + n = unat t))
    \<and> (op_state (job_operation j) \<in> {Completed, CompletedWithWarnings} \<longrightarrow> total_items p = Some (completed_items p)))"

definition job_inv :: "op_id \<Rightarrow> job \<Rightarrow> bool" where
  "job_inv i j \<longleftrightarrow> op_id (job_operation j) = i \<and> lifecycle_ok (job_operation j)
    \<and> (is_terminal (op_state (job_operation j)) \<longleftrightarrow> job_pc j = Done) \<and> counted j"

lemma left_after: "left_to_do (resume_pc k) = Some (resume_left k)" "left_to_do (return_pc r) = Some (return_left r)"
  by (cases k; simp) (cases r; simp)

lemma resume_pc_simps [simp]: "early (resume_pc k) = False" "plan_of (resume_pc k) = None" "resume_pc k \<noteq> Done"
  by (cases k; simp)+

lemma return_pc_simps [simp]: "early (return_pc r) = False" "plan_of (return_pc r) = None" "return_pc r \<noteq> Done"
  by (cases r; simp)+

lemma executed_cases:
  "left_to_do (executed_pc item rest deferred r) \<in> {None, Some (Suc (length rest + length deferred))}"
  "early (executed_pc item rest deferred r) = False" "plan_of (executed_pc item rest deferred r) = None"
  "executed_pc item rest deferred r \<noteq> Done"
  by (cases "(item, rest, deferred, r)" rule: executed_pc.cases; simp)+

lemma after_error_simps [simp]:
  "early (after_error h e) = False" "plan_of (after_error h e) = None" "after_error h e \<noteq> Done"
  "left_to_do (after_error h e) = None"
  by (simp_all add: after_error_def)

lemma saturating_add_one: fixes a b :: u64 shows "unat a + Suc n = unat b \<Longrightarrow> unat (saturating_add a 1) + n = unat b"
proof -
  assume sum: "unat a + Suc n = unat b"
  have "unat b < 2 ^ LENGTH(64)" by (rule unsigned_less)
  then show ?thesis using sum by (simp add: unat_saturating_add min_def)
qed


lemma plan_total: "plan_input_ok (PlanResult (Inr plan)) \<Longrightarrow>
    \<exists>t. plan_total_items plan = Some t \<and> unat t = length (plan_items plan)"
proof -
  assume ok: "plan_input_ok (PlanResult (Inr plan))"
  then have "plan_total_items plan = Some (of_nat (length (plan_items plan)))"
  proof -
    have "plan_total_items plan = plan_total_items (operation_plan_new (plan_items plan))"
      using ok unfolding plan_input_ok.simps by (metis (no_types))
    then show ?thesis using ok by (simp only: operation_plan_new_def operation_plan.select_convs plan_input_ok.simps if_True)
  qed
  moreover have "unat (of_nat (length (plan_items plan)) :: u64) = length (plan_items plan)"
    using ok by (simp add: unat_of_nat)
  ultimately show ?thesis by blast
qed

lemmas worker_defs = worker_step.simps begin_items_def wait_while_blocked_def record_item_def register_conflict_def
  wait_for_conflict_decision_def retry_deferred_def complete_job_def finish_cancelled_def goto_def shift_eq transition_and_publish_eq transition_eq fail_job_def
  Let_def account_simps

lemma worker_step_inv_ids:
  assumes "worker_step now input j = Some (j', evs, obs)"
  shows "op_id (job_operation j') = op_id (job_operation j)"
  using assms
  by (cases "job_pc j")
    (auto simp: worker_defs split: if_splits worker_input.splits sum.splits execution_error.splits option.splits list.splits)

lemma worker_step_lifecycle:
  assumes "worker_step now input j = Some (j', evs, obs)" "lifecycle_ok (job_operation j)"
  shows "lifecycle_ok (job_operation j')"
  using assms moved_lifecycle nonterminal_can_fail
  by (cases "job_pc j")
    (auto simp: worker_defs split: if_splits worker_input.splits sum.splits execution_error.splits option.splits list.splits)


lemma is_terminal_simps:
  "is_terminal Queued = False" "is_terminal Planning = False" "is_terminal Running = False" "is_terminal Paused = False"
  "is_terminal WaitingForConflictResolution = False" "is_terminal Cancelling = False" "is_terminal Cancelled = True"
  "is_terminal Completed = True" "is_terminal CompletedWithWarnings = True" "is_terminal Failed = True"
  by (simp_all add: is_terminal_def)

lemma worker_step_done:
  assumes "worker_step now input j = Some (j', evs, obs)"
    "is_terminal (op_state (job_operation j)) \<longleftrightarrow> job_pc j = Done"
  shows "is_terminal (op_state (job_operation j')) \<longleftrightarrow> job_pc j' = Done"
  using assms nonterminal_can_fail executed_cases(4)
  by (cases "job_pc j")
    (auto simp: worker_defs is_terminal_simps split: if_splits worker_input.splits sum.splits execution_error.splits option.splits list.splits)

lemma worker_step_counted:
  assumes "worker_step now input j = Some (j', evs, obs)" "plan_input_ok input" "counted j"
    "is_terminal (op_state (job_operation j)) \<longleftrightarrow> job_pc j = Done"
  shows "counted j'"
proof (cases "job_pc j")
  case (Begin plan)
  then obtain t where "plan_total_items plan = Some t" "unat t = length (plan_items plan)"
    using assms(3) plan_total [of plan] by (auto simp: counted_def Let_def simp del: plan_input_ok.simps)
  then show ?thesis using Begin assms
    by (auto simp: worker_defs counted_def is_terminal_def split: if_splits)
next
  case (Executed item rest deferred r)
  then show ?thesis using assms executed_cases [of item rest deferred r]
    by (auto simp: worker_defs counted_def is_terminal_def split: if_splits)
next
  case (Account item rest deferred b)
  then show ?thesis using assms saturating_add_one
    by (auto simp: worker_defs counted_def is_terminal_def split: if_splits worker_input.splits option.splits)
next
  case (AccountDeferred item q out)
  then show ?thesis using assms saturating_add_one
    by (auto simp: worker_defs counted_def is_terminal_def split: if_splits)
next
  case (FailJob m)
  then show ?thesis using assms nonterminal_can_fail
    by (auto simp: worker_defs counted_def is_terminal_def split: if_splits)
next
  case Complete
  then show ?thesis using assms
    by (auto simp: worker_defs counted_def is_terminal_def word_unat_eq_iff split: if_splits)
qed (use assms in \<open>auto simp: worker_defs counted_def left_after is_terminal_def
    split: if_splits worker_input.splits sum.splits execution_error.splits option.splits list.splits\<close>)


section \<open>Published transitions\<close>

fun changes :: "op_id \<Rightarrow> operation_event list \<Rightarrow> operation_state list" where
  "changes i [] = []"
| "changes i (OperationStateChanged k s # evs) = (if k = i then s # changes i evs else changes i evs)"
| "changes i (_ # evs) = changes i evs"

fun legal_path :: "operation_state \<Rightarrow> operation_state list \<Rightarrow> bool" where
  "legal_path s [] \<longleftrightarrow> True"
| "legal_path s (t # ts) \<longleftrightarrow> can_transition_to s t \<and> legal_path t ts"

lemma changes_append [simp]: "changes i (xs @ ys) = changes i xs @ changes i ys"
  by (induction i xs rule: changes.induct) auto

lemma legal_path_append: "legal_path s (xs @ ys) \<longleftrightarrow> legal_path s xs \<and> legal_path (last (s # xs)) ys"
  by (induction xs arbitrary: s) auto

lemma publish_changes [simp]: "changes i [publish_progress op] = []" "changes i (publish_progress op # evs) = changes i evs"
  "changes i [publish_conflict k c] = []"
  by (simp_all add: publish_progress_def publish_conflict_def)

text \<open>What a step of one job publishes about it: a legal path from its state to its next state, except
  that failing a cancelling job is not announced as a state change.\<close>

definition announces :: "job \<Rightarrow> operation_event list \<Rightarrow> job \<Rightarrow> bool" where
  "announces j evs j' \<longleftrightarrow> (let i = op_id (job_operation j); s = op_state (job_operation j); t = op_state (job_operation j') in
    (\<forall>k. k \<noteq> i \<longrightarrow> changes k evs = []) \<and> legal_path s (changes i evs)
    \<and> (last (s # changes i evs) = t \<or> last (s # changes i evs) = Cancelling \<and> t = Failed))"

lemma worker_step_announces:
  assumes "worker_step now input j = Some (j', evs, obs)"
    "is_terminal (op_state (job_operation j)) \<longleftrightarrow> job_pc j = Done"
  shows "announces j evs j'"
proof (cases "job_pc j")
  case (FailJob m)
  then show ?thesis using assms nonterminal_can_fail [of "op_state (job_operation j)"]
    by (auto simp: worker_defs announces_def split: if_splits)
next
  case (CancelState h)
  then show ?thesis using assms(1) by (auto simp: worker_defs announces_def split: if_splits)
qed (use assms(1) in \<open>auto simp: worker_defs announces_def
    split: if_splits worker_input.splits sum.splits execution_error.splits option.splits list.splits\<close>)

lemma worker_step_permit:
  assumes "worker_step now input j = Some (j', evs, obs)" "holds_permit (job_pc j')"
  shows "holds_permit (job_pc j)"
  using assms
  by (cases "job_pc j")
    (auto simp: worker_defs after_error_def split: if_splits worker_input.splits sum.splits execution_error.splits option.splits list.splits)

lemma worker_step_observed:
  assumes "worker_step now input j = Some (j', evs, obs)"
    "is_terminal (op_state (job_operation j)) \<longleftrightarrow> job_pc j = Done"
  shows "obs = [] \<or> (\<exists>op. obs = [op] \<and> op_state op = Failed)"
proof (cases "\<exists>m. job_pc j = FailJob m")
  case True
  then show ?thesis using assms nonterminal_can_fail [of "op_state (job_operation j)"]
    by (auto simp: worker_defs split: if_splits)
next
  case False
  then show ?thesis using assms(1)
    by (cases "job_pc j")
      (auto simp: worker_defs split: if_splits worker_input.splits sum.splits execution_error.splits option.splits list.splits)
qed

section \<open>The invariant of the scheduler\<close>

definition running :: "(op_id \<times> job) list \<Rightarrow> nat" where
  "running js = length (filter (\<lambda>(i, j). holds_permit (job_pc j)) js)"

definition announced :: "operation_event list \<Rightarrow> op_id \<Rightarrow> job option \<Rightarrow> bool" where
  "announced evs i found \<longleftrightarrow> legal_path Queued (changes i evs) \<and>
    (case found of
       None \<Rightarrow> changes i evs = []
     | Some j \<Rightarrow> (let v = last (Queued # changes i evs); t = op_state (job_operation j)
                  in v = t \<or> v = Cancelling \<and> t = Failed))"

definition scheduler_inv :: "16 word \<Rightarrow> scheduler \<Rightarrow> bool" where
  "scheduler_inv c s \<longleftrightarrow> (\<forall>i j. map_of (jobs s) i = Some j \<longrightarrow> job_inv i j)
    \<and> free_permits s + running (jobs s) = max (unat c) 1
    \<and> (\<forall>op\<in>set (observed s). op_state op \<in> {Queued, Failed})
    \<and> (\<forall>i. announced (sched_events s) i (map_of (jobs s) i))"

lemma running_update:
  "map_of js i = Some j \<Longrightarrow>
    running (AList.update i j' js) + (if holds_permit (job_pc j) then 1 else 0)
    = running js + (if holds_permit (job_pc j') then 1 else 0)"
  by (induction js) (auto simp: running_def split: if_splits)

lemma running_insert:
  "map_of js i = None \<Longrightarrow> running (AList.update i j' js) = running js + (if holds_permit (job_pc j') then 1 else 0)"
  by (induction js) (auto simp: running_def split: if_splits)

lemma announced_step:
  assumes "announced evs i (Some j)" "announces j new j'" "op_id (job_operation j) = i"
  shows "announced (evs @ new) i (Some j')"
proof -
  let ?s = "op_state (job_operation j)" and ?v = "last (Queued # changes i evs)"
  have v: "?v = ?s \<or> ?v = Cancelling \<and> ?s = Failed" "legal_path Queued (changes i evs)"
    using assms(1) by (auto simp: announced_def Let_def)
  have n: "legal_path ?s (changes i new)"
    "last (?s # changes i new) = op_state (job_operation j')
      \<or> last (?s # changes i new) = Cancelling \<and> op_state (job_operation j') = Failed"
    using assms(2,3) by (auto simp: announces_def Let_def)
  show ?thesis
  proof (cases "?v = ?s")
    case True
    then show ?thesis using v n by (auto simp: announced_def Let_def legal_path_append last_append)
  next
    case False
    then have "changes i new = []" using v n(1) by (cases "changes i new") auto
    then show ?thesis using v n False by (auto simp: announced_def Let_def)
  qed
qed

lemma announced_other: "announced evs k found \<Longrightarrow> changes k new = [] \<Longrightarrow> announced (evs @ new) k found"
  by (cases found) (simp_all add: announced_def)

lemma put_job_inv:
  assumes inv: "scheduler_inv c s" and j: "map_of (jobs s) i = Some j" and j': "job_inv i j'"
    and evs: "announces j evs j'"
    and s': "jobs s' = AList.update i j' (jobs s)" "sched_events s' = sched_events s @ evs" "observed s' = observed s @ obs"
    and obs: "\<forall>op\<in>set obs. op_state op \<in> {Queued, Failed}"
    and free: "free_permits s' + (if holds_permit (job_pc j') then 1 else 0)
      = free_permits s + (if holds_permit (job_pc j) then 1 else 0)"
  shows "scheduler_inv c s'"
proof -
  have jinv: "job_inv i j" using inv j by (auto simp: scheduler_inv_def)
  have ann: "announced (sched_events s') k (map_of (jobs s') k)" for k
  proof (cases "k = i")
    case True
    have "announced (sched_events s) i (Some j)" using inv j unfolding scheduler_inv_def by metis
    then have "announced (sched_events s @ evs) i (Some j')"
      using announced_step [OF _ evs] jinv by (simp add: job_inv_def)
    then show ?thesis using True by (simp add: s' update_conv')
  next
    case False
    then have "changes k evs = []" using evs jinv by (auto simp: announces_def Let_def job_inv_def)
    then show ?thesis using inv False announced_other by (auto simp: s' update_conv' scheduler_inv_def)
  qed
  have "free_permits s' + running (jobs s') = max (unat c) 1"
    using inv free running_update [OF j, of j'] by (auto simp: scheduler_inv_def s' split: if_splits)
  then show ?thesis using inv ann j' obs by (auto simp: scheduler_inv_def s' update_conv')
qed


lemma job_inv_moved:
  assumes "job_inv i j" "can_transition_to (op_state (job_operation j)) to" "\<not> is_terminal to"
    "job_operation j' = moved now (job_operation j) to" "job_pc j' = job_pc j"
  shows "job_inv i j'"
proof -
  have "\<not> is_terminal (op_state (job_operation j))" using assms(2) terminal_stuck by blast
  then have "job_pc j \<noteq> Done" using assms(1) by (simp add: job_inv_def)
  then show ?thesis using assms moved_lifecycle by (auto simp: job_inv_def counted_def Let_def is_terminal_def)
qed

lemma job_inv_same:
  "job_inv i j \<Longrightarrow> job_operation j' = job_operation j \<Longrightarrow> job_pc j' = job_pc j \<Longrightarrow> job_inv i j'"
  by (simp add: job_inv_def counted_def)

lemma announces_same: "job_operation j' = job_operation j \<Longrightarrow> announces j [] j'"
  by (simp add: announces_def)

lemma announces_moved:
  "can_transition_to (op_state (job_operation j)) to \<Longrightarrow> job_operation j' = moved now (job_operation j) to \<Longrightarrow>
    announces j [OperationStateChanged (op_id (job_operation j)) to] j'"
  by (simp add: announces_def Let_def)

lemma inv_job: "scheduler_inv c s \<Longrightarrow> map_of (jobs s) i = Some j \<Longrightarrow> job_inv i j"
  by (simp add: scheduler_inv_def)

lemma inv_pending_cancel: "scheduler_inv c (s\<lparr>pending_cancel := p\<rparr>) = scheduler_inv c s"
  by (simp add: scheduler_inv_def)

lemma transition_job_inv:
  assumes inv: "scheduler_inv c s" and to: "\<not> is_terminal to"
    and f: "\<And>j. job_operation (f j) = job_operation j \<and> job_pc (f j) = job_pc j"
  shows "scheduler_inv c (snd (transition_job now s i to f))"
proof (cases "map_of (jobs s) i")
  case None
  then show ?thesis using inv by (simp add: transition_job_def find_job_def)
next
  case (Some j)
  show ?thesis
  proof (cases "can_transition_to (op_state (job_operation j)) to")
    case False
    then show ?thesis using inv Some by (simp add: transition_job_def find_job_def transition_and_publish_eq)
  next
    case True
    let ?j = "f (j\<lparr>job_operation := moved now (job_operation j) to\<rparr>)"
    have f': "job_operation ?j = moved now (job_operation j) to" "job_pc ?j = job_pc j" using f by simp_all
    have "scheduler_inv c (put_job s i ?j [OperationStateChanged (op_id (job_operation j)) to])"
      by (rule put_job_inv [OF inv Some job_inv_moved [OF inv_job [OF inv Some] True to f'] announces_moved [OF True f'(1)],
            where obs = "[]"]) (simp_all add: put_job_def f'(2))
    then show ?thesis using True Some by (simp add: transition_job_def find_job_def transition_and_publish_eq)
  qed
qed

lemma same_job_inv:
  assumes "scheduler_inv c s" "map_of (jobs s) i = Some j" "job_operation j' = job_operation j" "job_pc j' = job_pc j"
  shows "scheduler_inv c (put_job s i j' [])"
  by (rule put_job_inv [OF assms(1,2) job_inv_same [OF inv_job [OF assms(1,2)] assms(3,4)] announces_same [OF assms(3)],
        where obs = "[]"]) (simp_all add: put_job_def assms(4))

lemma republish_changes:
  "changes i (concat (map (\<lambda>(_, j). case job_pending j of
     Some p \<Rightarrow> [publish_conflict (op_id (job_operation j)) (pending_of p)] | None \<Rightarrow> []) js)) = []"
  by (induction js) (auto split: option.splits)

lemma republish_inv: "scheduler_inv c s \<Longrightarrow> scheduler_inv c (republish_pending_conflicts s)"
proof -
  assume inv: "scheduler_inv c s"
  define new where "new = concat (map (\<lambda>(_, j). case job_pending j of
     Some p \<Rightarrow> [publish_conflict (op_id (job_operation j)) (pending_of p)] | None \<Rightarrow> []) (jobs s))"
  have "changes k new = []" for k unfolding new_def by (rule republish_changes)
  then have "announced (sched_events s @ new) k (map_of (jobs s) k)" for k
    using inv by (simp add: scheduler_inv_def announced_other)
  then show ?thesis using inv by (simp add: republish_pending_conflicts_def scheduler_inv_def flip: new_def)
qed

lemma submit_inv:
  assumes "scheduler_inv c s" "fresh_operation op" "map_of (jobs s) (op_id op) = None"
  shows "scheduler_inv c (snd (submit s op cf))"
proof -
  have new: "op_state op = Queued" "op_progress op = progress_default" "op_completed_at op = None" "op_errors op = []"
    using assms(2) unfolding fresh_operation_def by (metis operation_new_def operation.select_convs)+
  have "job_inv (op_id op) (new_job op cf)"
    using new by (simp add: job_inv_def new_job_def lifecycle_ok_def is_terminal_def counted_def progress_default_def)
  moreover have "announced (sched_events (snd (submit s op cf))) k (map_of (jobs (snd (submit s op cf))) k)" for k
  proof (cases "k = op_id op")
    case True
    have "announced (sched_events s) (op_id op) None" using assms(1,3) unfolding scheduler_inv_def by metis
    then show ?thesis using True new by (simp add: submit_def update_conv' announced_def new_job_def)
  next
    case False
    then have "map_of (jobs (snd (submit s op cf))) k = map_of (jobs s) k" by (simp add: submit_def update_conv')
    moreover have "announced (sched_events s) k (map_of (jobs s) k)" using assms(1) by (simp add: scheduler_inv_def)
    ultimately show ?thesis by (simp add: submit_def announced_other)
  qed
  moreover have "free_permits s + running (jobs s) = max (unat c) 1" using assms(1) by (simp add: scheduler_inv_def)
  ultimately show ?thesis using assms new running_insert [OF assms(3), of "new_job op cf"]
    unfolding scheduler_inv_def by (auto simp: submit_def update_conv' new_job_def)
qed

lemma resolve_conflict_inv: "scheduler_inv c s \<Longrightarrow> scheduler_inv c (snd (resolve_conflict s i r all))"
proof (cases "map_of (jobs s) i")
  case (Some j)
  assume "scheduler_inv c s"
  then show ?thesis using Some same_job_inv [OF _ Some]
    by (cases "job_pending j") (simp_all add: resolve_conflict_def find_job_def)
qed (simp add: resolve_conflict_def find_job_def)

lemma cancel_token_inv: "scheduler_inv c s \<Longrightarrow> scheduler_inv c (snd (cancel_token s i))"
proof (cases "map_of (jobs s) i")
  case (Some j)
  assume "scheduler_inv c s"
  then show ?thesis using Some same_job_inv [OF _ Some]
    by (simp add: cancel_token_def find_job_def inv_pending_cancel)
qed (simp add: cancel_token_def find_job_def)

lemma cancel_state_inv: "scheduler_inv c s \<Longrightarrow> scheduler_inv c (snd (cancel_state now s i))"
proof (cases "map_of (jobs s) i")
  case (Some j)
  assume "scheduler_inv c s"
  then show ?thesis using Some transition_job_inv [of c s Cancelling "\<lambda>j. j" now i]
    by (simp add: cancel_state_def find_job_def inv_pending_cancel is_terminal_def split_beta)
qed (simp add: cancel_state_def find_job_def)

lemma scheduler_act_inv:
  assumes "scheduler_inv c s" "scheduler_act a s = Some s'"
  shows "scheduler_inv c s'"
proof (cases a)
  case (Submit op cf)
  then show ?thesis using assms submit_inv by (auto split: if_splits)
next
  case (Grant i)
  then obtain j where j: "map_of (jobs s) i = Some j" "job_pc j = Acquire" "0 < free_permits s"
      "s' = (put_job s i (j\<lparr>job_pc := StartCheck\<rparr>) [])\<lparr>free_permits := free_permits s - 1\<rparr>"
    using assms(2) by (auto split: option.splits if_splits)
  have "job_inv i (j\<lparr>job_pc := StartCheck\<rparr>)"
    using inv_job [OF assms(1) j(1)] j(2) by (auto simp: job_inv_def counted_def Let_def)
  from put_job_inv [OF assms(1) j(1) this announces_same, of s' "[]"] show ?thesis
    using j by (simp add: put_job_def)
next
  case (Work i now input)
  then obtain j j' evs obs where j: "map_of (jobs s) i = Some j" "plan_input_ok input"
      "worker_step now input j = Some (j', evs, obs)"
      "s' = (put_job s i j' evs)\<lparr>free_permits := free_permits s + (if holds_permit (job_pc j) \<and> \<not> holds_permit (job_pc j') then 1 else 0),
        observed := observed s @ obs\<rparr>"
    using assms(2) by (auto split: option.splits if_splits)
  have inv: "job_inv i j" using inv_job [OF assms(1) j(1)] .
  then have t: "is_terminal (op_state (job_operation j)) \<longleftrightarrow> job_pc j = Done" by (simp add: job_inv_def)
  have "job_inv i j'"
    using inv worker_step_inv_ids [OF j(3)] worker_step_lifecycle [OF j(3)] worker_step_done [OF j(3) t]
      worker_step_counted [OF j(3,2) _ t] by (simp add: job_inv_def)
  moreover have "holds_permit (job_pc j') \<Longrightarrow> holds_permit (job_pc j)"
    using worker_step_permit [OF j(3)] .
  moreover have "\<forall>op\<in>set obs. op_state op \<in> {Queued, Failed}" using worker_step_observed [OF j(3) t] by auto
  ultimately show ?thesis
    using put_job_inv [OF assms(1) j(1) _ worker_step_announces [OF j(3) t], of s' obs] j(4)
    by (simp add: put_job_def)
next
  case (CallResolve i r all)
  then show ?thesis using assms resolve_conflict_inv by (auto split: if_splits)
next
  case CallRepublish
  then show ?thesis using assms republish_inv by (auto split: if_splits)
next
  case (CancelToken i)
  then show ?thesis using assms cancel_token_inv by (auto split: if_splits)
next
  case (CancelTransition now)
  then show ?thesis using assms cancel_state_inv by (auto split: option.splits)
qed (use assms in \<open>auto simp: pause_def resume_def confirm_def is_terminal_def
    intro!: transition_job_inv split: if_splits\<close>)


lemma reachable_inv: "reachable c s \<Longrightarrow> scheduler_inv c s"
proof (induction rule: reachable.induct)
  case start
  then show ?case by (simp add: scheduler_inv_def scheduler_new_def running_def announced_def)
next
  case (act s a s')
  then show ?case using scheduler_act_inv by blast
qed

lemma play_reachable: "reachable c s \<Longrightarrow> play as s = Some s' \<Longrightarrow> reachable c s'"
proof (induction as arbitrary: s)
  case (Cons a as)
  then obtain s1 where "scheduler_act a s = Some s1" "play as s1 = Some s'" by (auto simp: bind_eq_Some_conv)
  then show ?case using Cons reachable.act by blast
qed simp

section \<open>Cancellation\<close>

text \<open>How far a cancelled worker is from its end, in steps of its own.\<close>

fun cancel_rank :: "worker_pc \<Rightarrow> nat" where
  "cancel_rank Done = 0"
| "cancel_rank (FailJob m) = 1"
| "cancel_rank (CancelState h) = (if h then 2 else 5)"
| "cancel_rank (HandlerCleanup e) = 2"
| "cancel_rank (AwaitCleanup h) = (if h then 3 else 6)"
| "cancel_rank (Handler e) = 4"
| "cancel_rank StartCheck = 7"
| "cancel_rank (PlannedCheck plan) = 7"
| "cancel_rank (WaitCheck k) = 7"
| "cancel_rank (ItemDone rest deferred) = 7"
| "cancel_rank (ResolvedCheck item known q r) = 7"
| "cancel_rank EnterPlanning = 8"
| "cancel_rank AwaitPlan = 8"
| "cancel_rank (Begin plan) = 8"
| "cancel_rank (WaitState k) = 8"
| "cancel_rank (Account item rest deferred b) = 8"
| "cancel_rank (RegisterState c ret) = 8"
| "cancel_rank (Decided item known q d) = 8"
| "cancel_rank Complete = 8"
| "cancel_rank (PushWarning item rest deferred e m) = 9"
| "cancel_rank (RegisterPending c ret) = 9"
| "cancel_rank (TakeDecision item known q d) = 9"
| "cancel_rank (AwaitDecision item known q) = 10"
| "cancel_rank AwaitFinish = 9"
| "cancel_rank (WaitPending k) = 10"
| "cancel_rank (Executed item rest deferred r) = 10"
| "cancel_rank (AwaitExecute item rest deferred r) = 11"
| "cancel_rank (CheckPending item known q) = 11"
| "cancel_rank (ReadApplyToAll item rest deferred) = 12"
| "cancel_rank (Resolve item known q) = 12"
| "cancel_rank (NextDeferred q) = 13"
| "cancel_rank (NextItem items deferred) = 14"
| "cancel_rank (AccountDeferred item q out) = 14"
| "cancel_rank (Conflicted item rest deferred c) = 15"
| "cancel_rank (AwaitRetry item known q r) = 15"
| "cancel_rank Acquire = 16"

definition cancelling :: "job \<Rightarrow> bool" where
  "cancelling j \<longleftrightarrow> job_cancelled j \<and> (job_pc j = Done \<or> op_state (job_operation j) = Cancelling)"

lemma cancelling_step:
  assumes "cancelling j" "worker_step now input j = Some (j', evs, obs)"
  shows "cancelling j' \<and> cancel_rank (job_pc j') < cancel_rank (job_pc j)"
proof (cases "job_pc j")
  case (Executed item rest deferred r)
  then show ?thesis using assms
    by (cases "(item, rest, deferred, r)" rule: executed_pc.cases)
      (auto simp: worker_defs cancelling_def split: if_splits)
qed (use assms in \<open>auto simp: worker_defs cancelling_def after_error_def is_terminal_def
    split: if_splits worker_input.splits sum.splits execution_error.splits option.splits list.splits\<close>)

lemma cancelling_enabled:
  assumes "cancelling j" "job_pc j \<notin> {Done, Acquire}"
  shows "\<exists>input j' evs obs. worker_step now input j = Some (j', evs, obs)"
proof -
  have "worker_step now NoInput j \<noteq> None \<or> worker_step now (PlanResult (Inl NotImplemented)) j \<noteq> None
    \<or> worker_step now (ExecuteResult (Inr OutcomeSkipped)) j \<noteq> None \<or> worker_step now (RecordResult None) j \<noteq> None
    \<or> worker_step now (FinishResult (Inr ())) j \<noteq> None \<or> worker_step now (CleanupResult (Inr ())) j \<noteq> None"
    using assms
    by (cases "job_pc j") (auto simp: worker_defs cancelling_def split: list.splits option.splits)
  then show ?thesis by auto
qed

fun worker_run :: "(op_time \<times> worker_input) list \<Rightarrow> job \<Rightarrow> job option" where
  "worker_run [] j = Some j"
| "worker_run ((now, input) # inputs) j =
    (case worker_step now input j of Some (j', evs, obs) \<Rightarrow> worker_run inputs j' | None \<Rightarrow> None)"

lemma cancelling_run:
  "cancelling j \<Longrightarrow> worker_run inputs j = Some j' \<Longrightarrow>
    cancelling j' \<and> length inputs + cancel_rank (job_pc j') \<le> cancel_rank (job_pc j)"
proof (induction inputs arbitrary: j)
  case (Cons x inputs)
  obtain now input where x: "x = (now, input)" by fastforce
  then obtain j1 evs obs where s: "worker_step now input j = Some (j1, evs, obs)" "worker_run inputs j1 = Some j'"
    using Cons.prems(2) by (auto split: option.splits)
  then show ?case using cancelling_step [OF Cons.prems(1) s(1)] Cons.IH [of j1] by auto
qed simp

lemma cancel_rank_bound: "pc \<noteq> Acquire \<Longrightarrow> cancel_rank pc \<le> 15"
  by (cases pc) auto

section \<open>Sample runs\<close>

definition sample_item :: "nat \<Rightarrow> plan_item" where
  "sample_item k = \<lparr>item_entry = \<lparr>entry_id = k, entry_location = location_new ''local'' ''file:///a''\<rparr>, item_bytes = 10\<rparr>"

definition sample_conflict :: operation_conflict where
  "sample_conflict = \<lparr>conflict_id = ''c'',
     conflict_source = \<lparr>conflict_name = ''a'', conflict_kind = File, conflict_size = None, conflict_modified_at = None\<rparr>,
     conflict_destination = \<lparr>conflict_name = ''a'', conflict_kind = File, conflict_size = None, conflict_modified_at = None\<rparr>\<rparr>"

definition sample_op :: operation where
  "sample_op = operation_new 1 0 Copy [] None Ask"

definition steps :: "nat \<Rightarrow> scheduler_action list" where
  "steps n = replicate n (Work 1 0 NoInput)"

text \<open>Up to the executor call for the first of \<open>n\<close> items.\<close>

definition to_first_item :: "nat \<Rightarrow> scheduler_action list" where
  "to_first_item n = [Submit sample_op False, Grant 1] @ steps 2
    @ [Work 1 0 (PlanResult (Inr (operation_plan_new (map sample_item [0..<n]))))] @ steps 6"

text \<open>The first of two items conflicts; the user resolves it for all items at once while the second is
  still to be copied; both items are then copied, and finalization succeeds.\<close>

definition apply_to_all_run :: "scheduler_action list" where
  "apply_to_all_run = to_first_item 2 @ [Work 1 0 (ExecuteResult (Inl (Conflict sample_conflict)))] @ steps 4
    @ [CallResolve 1 Overwrite True] @ steps 5 @ [Work 1 0 (ExecuteResult (Inr OutcomeCompleted))] @ steps 1
    @ [Work 1 0 (RecordResult None)] @ steps 5 @ [Work 1 0 (ExecuteResult (Inr OutcomeCompleted))] @ steps 5
    @ [Work 1 0 (FinishResult (Inr ()))] @ steps 2 @ [Work 1 0 (CleanupResult (Inr ()))] @ steps 1"

text \<open>One item, copied; the user pauses the operation while the executor finalizes.\<close>

definition pause_in_finish_run :: "scheduler_action list" where
  "pause_in_finish_run = to_first_item 1 @ [Work 1 0 (ExecuteResult (Inr OutcomeCompleted))] @ steps 1
    @ [Work 1 0 (RecordResult None)] @ steps 5 @ [CallPause 1 0]
    @ [Work 1 0 (FinishResult (Inr ()))] @ steps 2 @ [Work 1 0 (CleanupResult (Inr ()))] @ steps 1"

definition final_job :: "scheduler_action list \<Rightarrow> job option" where
  "final_job as = Option.bind (play as (scheduler_new 1)) (\<lambda>s. map_of (jobs s) 1)"

text \<open>The same without the pause.\<close>

definition completing_run :: "scheduler_action list" where
  "completing_run = to_first_item 1 @ [Work 1 0 (ExecuteResult (Inr OutcomeCompleted))] @ steps 1
    @ [Work 1 0 (RecordResult None)] @ steps 5 @ [Work 1 0 (FinishResult (Inr ()))] @ steps 1"

text \<open>An operation that is cancelled while its first item is executed.\<close>

definition cancel_run :: "scheduler_action list" where
  "cancel_run = to_first_item 1 @ [CancelToken 1, CancelTransition 0]"

lemma final_job_reachable:
  assumes "final_job as = Some j"
  obtains s where "reachable 1 s" and "map_of (jobs s) 1 = Some j" and "play as (scheduler_new 1) = Some s"
  using assms play_reachable [OF reachable.start, of as] by (auto simp: final_job_def bind_eq_Some_conv)

text \<open>The part of a job the sample runs are read for.\<close>

definition outcome_of :: "scheduler_action list \<Rightarrow> (worker_pc \<times> operation_state \<times> u64 \<times> u64 option \<times> bool) option" where
  "outcome_of as = map_option (\<lambda>j. (job_pc j, op_state (job_operation j), completed_items (op_progress (job_operation j)),
     total_items (op_progress (job_operation j)), job_cancelled j \<or> op_errors (job_operation j) \<noteq> [])) (final_job as)"

lemma completing_run_outcome: "outcome_of completing_run = Some (Done, Completed, 1, Some 1, False)"
  by code_simp


section \<open>Properties\<close>

text \<open>C1: every worker that has ended left its operation in a terminal state, every terminal operation's
  worker has ended, and completion times agree with that, in every reachable state and for every
  interleaving of workers and calls.\<close>

theorem worker_end_is_terminal:
  assumes "reachable c s" and "map_of (jobs s) i = Some j"
  shows "op_id (job_operation j) = i \<and> lifecycle_ok (job_operation j)
    \<and> (job_pc j = Done \<longleftrightarrow> is_terminal (op_state (job_operation j)))"
  using reachable_inv [OF assms(1)] assms(2) by (auto simp: scheduler_inv_def job_inv_def)

theorem worker_end_is_terminal_witness:
  "\<exists>s j. reachable 1 s \<and> map_of (jobs s) 1 = Some j \<and> job_pc j = Done \<and> is_terminal (op_state (job_operation j))"
proof -
  obtain j where j: "final_job completing_run = Some j" "job_pc j = Done"
    using completing_run_outcome by (auto simp: outcome_of_def)
  obtain s where "reachable 1 s" "map_of (jobs s) 1 = Some j"
    using j(1) by (rule final_job_reachable)
  then show ?thesis using worker_end_is_terminal [of 1 s 1 j] j(2) by blast
qed

text \<open>at most the configured number of jobs (and at least one) runs at any time.\<close>

lemma concurrency_bounded:
  assumes "reachable c s"
  shows "running (jobs s) \<le> max (unat c) 1"
  using reachable_inv [OF assms] by (auto simp: scheduler_inv_def)

text \<open>C7: the state changes published for an operation are, in order, legal transitions of the lifecycle
  starting from the queued state; no subscriber ever sees an illegal one.\<close>

theorem published_transitions_legal:
  assumes "reachable c s"
  shows "legal_path Queued (changes i (sched_events s))"
  using reachable_inv [OF assms] by (auto simp: scheduler_inv_def announced_def)

theorem published_transitions_legal_witness:
  "\<exists>s. reachable 1 s \<and> changes 1 (sched_events s) = [Planning, Running, Completed]
    \<and> legal_path Queued (changes 1 (sched_events s))"
proof -
  have "map_option (\<lambda>s. changes 1 (sched_events s)) (play completing_run (scheduler_new 1)) = Some [Planning, Running, Completed]"
    by code_simp
  then obtain s where s: "play completing_run (scheduler_new 1) = Some s"
    "changes 1 (sched_events s) = [Planning, Running, Completed]" by auto
  then show ?thesis
    using published_transitions_legal [of 1 s 1] play_reachable [OF reachable.start s(1)] by auto
qed

text \<open>C8: an operation that completed, with or without warnings, has accounted for every item of its
  plan: its completed-items counter equals its total.\<close>

theorem completed_accounts_for_all_items:
  assumes "reachable c s" and "map_of (jobs s) i = Some j"
    and "op_state (job_operation j) \<in> {Completed, CompletedWithWarnings}"
  shows "total_items (op_progress (job_operation j)) = Some (completed_items (op_progress (job_operation j)))"
  using reachable_inv [OF assms(1)] assms(2,3) by (auto simp: scheduler_inv_def job_inv_def counted_def Let_def)

theorem completed_accounts_for_all_items_witness:
  "\<exists>j. final_job completing_run = Some j
    \<and> total_items (op_progress (job_operation j)) = Some (completed_items (op_progress (job_operation j)))"
proof -
  obtain j where j: "final_job completing_run = Some j" "op_state (job_operation j) = Completed"
    using completing_run_outcome by (auto simp: outcome_of_def)
  obtain s where "reachable 1 s" "map_of (jobs s) 1 = Some j"
    using j(1) by (rule final_job_reachable)
  then show ?thesis using completed_accounts_for_all_items [of 1 s 1 j] j by auto
qed

text \<open>C9: cancellation terminates. Once an operation is cancelling and its worker has its permit, the
  worker makes at most fifteen more steps of its own whatever the executor answers, it is never stuck
  before its end, and where it stops it is done.\<close>

theorem cancelled_worker_ends:
  assumes "job_cancelled j" and "op_state (job_operation j) = Cancelling" and "job_pc j \<noteq> Acquire"
    and "worker_run inputs j = Some j'"
  shows "length inputs \<le> 15
    \<and> (job_pc j' = Done \<or> (\<exists>now input j'' evs obs. worker_step now input j' = Some (j'', evs, obs)))"
proof -
  have "cancelling j" using assms(1,2) by (simp add: cancelling_def)
  note run = cancelling_run [OF this assms(4)]
  have "job_pc j' \<noteq> Acquire"
  proof (cases inputs)
    case Nil
    then show ?thesis using assms(3,4) by simp
  next
    case (Cons a list)
    then have "cancel_rank (job_pc j') < 15" using run cancel_rank_bound [OF assms(3)] by simp
    then show ?thesis by auto
  qed
  then show ?thesis
    using run cancel_rank_bound [OF assms(3)] cancelling_enabled [of j'] by auto
qed

theorem cancelled_worker_ends_witness:
  "\<exists>j j'. final_job cancel_run = Some j
    \<and> worker_run [(0, ExecuteResult (Inl NotImplemented)), (0, NoInput), (0, CleanupResult (Inr ())), (0, NoInput)] j = Some j'
    \<and> (job_pc j' = Done \<or> (\<exists>now input j'' evs obs. worker_step now input j' = Some (j'', evs, obs)))"
proof -
  let ?ins = "[(0, ExecuteResult (Inl NotImplemented)), (0, NoInput), (0, CleanupResult (Inr ())), (0, NoInput)]"
  have "map_option (\<lambda>j. (job_cancelled j, op_state (job_operation j), job_pc j = Acquire)) (final_job cancel_run)
    = Some (True, Cancelling, False)" by code_simp
  then obtain j where j: "final_job cancel_run = Some j" "job_cancelled j" "op_state (job_operation j) = Cancelling"
    "job_pc j \<noteq> Acquire" by auto
  have "Option.bind (final_job cancel_run) (worker_run ?ins) \<noteq> None" by code_simp
  then obtain j' where "worker_run ?ins j = Some j'" using j(1) by auto
  then show ?thesis using cancelled_worker_ends [of j ?ins j'] j by blast
qed

text \<open>the snapshot observer is told only of submissions and failures. Every snapshot it ever
  receives is queued or failed: no completed or cancelled operation reaches the durable history.\<close>

lemma observer_misses_completion:
  assumes "reachable c s" and "op \<in> set (observed s)"
  shows "op_state op \<in> {Queued, Failed}"
  using reachable_inv [OF assms(1)] assms(2) by (auto simp: scheduler_inv_def)

text \<open>an operation whose only conflict is answered with ``apply to all'' while later items are still
  being copied fails, although both items were copied, none had an error and finalization succeeded:
  the deferred item takes the remembered answer without leaving the waiting state, from which
  completion is not a legal transition.\<close>

lemma apply_to_all_fails_operation: "outcome_of apply_to_all_run = Some (Done, Failed, 2, Some 2, False)"
  by code_simp

text \<open>an operation paused while its executor finalizes fails, although its only item was copied without
  an error and finalization succeeded: completion is not a legal transition from the paused state, and
  the worker looks at the pause only before it finalizes.\<close>

lemma pause_in_finish_fails_operation: "outcome_of pause_in_finish_run = Some (Done, Failed, 1, Some 1, False)"
  by code_simp

end
