(* ===== verification/Event_Bus.thy ===== *)
theory Event_Bus
  imports Workspace_Model
begin

text \<open>
  The event bus of \<open>src/crates/fm-events/src/bus.rs\<close>: identifiers are handed out in order, the newest
  events are kept for subscribers that reconnect, and every subscriber sees the events its session is
  entitled to. The broadcast channel behind live delivery belongs to a library: what a receiver gets
  from it is an input (\<open>channel_outcome\<close>), paired with the state of the bus at that moment. Payloads
  are a type parameter, since the bus never looks into them.
\<close>

section \<open>Bounded logs\<close>

text \<open>A log that keeps its newest entries: pushing drops the oldest when the log is full.\<close>

locale bounded_log =
  fixes push :: "'a \<Rightarrow> 'a list \<Rightarrow> 'a list"
    and bound :: nat
  assumes push_room: "length xs < bound \<Longrightarrow> push x xs = xs @ [x]"
    and push_full: "length xs = bound \<Longrightarrow> push x xs = tl xs @ [x]"
    and bound_pos: "0 < bound"
begin

lemma push_suffix:
  assumes "length xs \<le> bound"
  shows "push x xs = drop (Suc (length xs) - bound) (xs @ [x])"
proof (cases "length xs = bound")
  case True
  then show ?thesis using bound_pos push_full by (cases xs) auto
next
  case False
  then have "length xs < bound" using assms by simp
  then show ?thesis by (simp add: push_room)
qed

lemma push_log: "push x (drop (length ys - bound) ys) = drop (Suc (length ys) - bound) (ys @ [x])"
proof -
  have "length (drop (length ys - bound) ys) \<le> bound" by simp
  from push_suffix [OF this, of x] show ?thesis
    by (cases "length ys \<le> bound") (auto simp: Suc_diff_le)
qed

lemma pushes_keep_newest: "fold push xs (drop (length ys - bound) ys) = drop (length (ys @ xs) - bound) (ys @ xs)"
proof (induction xs arbitrary: ys)
  case (Cons x xs)
  have "fold push (x # xs) (drop (length ys - bound) ys) = fold push xs (drop (length (ys @ [x]) - bound) (ys @ [x]))"
    by (simp add: push_log)
  then show ?case using Cons.IH [of "ys @ [x]"] by simp
qed simp

end

section \<open>Events and the bus\<close>

type_synonym session_id = string

datatype event_audience = Global | Session session_id | Workspace workspace_id

record 'p event_envelope =
  event_id :: u64
  env_timestamp :: timestamp
  env_workspace_id :: "workspace_id option"
  env_payload :: 'p

record 'p published_event =
  audience :: event_audience
  envelope :: "'p event_envelope"

datatype 'p subscription_event =
    Event "'p event_envelope"
  | Gap u64 u64 u64

datatype subscription_closed = SubscriptionClosed

record 'p event_bus =
  capacity :: nat
  next_event_id :: u64
  replay :: "'p published_event list"
  subscriber_count :: u64

definition DEFAULT_EVENT_BUS_CAPACITY :: nat where
  "DEFAULT_EVENT_BUS_CAPACITY = 1024"

definition event_bus_new :: "nat \<Rightarrow> 'p event_bus" where
  "event_bus_new c = \<lparr>capacity = max c 1, next_event_id = 1, replay = [], subscriber_count = 0\<rparr>"

definition push_replay :: "nat \<Rightarrow> 'p published_event \<Rightarrow> 'p published_event list \<Rightarrow> 'p published_event list" where
  "push_replay c published queue = (if length queue = c then tl queue else queue) @ [published]"

text \<open>\<open>None\<close> is the panic of an exhausted identifier space.\<close>

definition bus_publish ::
  "timestamp \<Rightarrow> 'p event_bus \<Rightarrow> event_audience \<Rightarrow> 'p \<Rightarrow> ('p published_event \<times> 'p event_bus) option" where
  "bus_publish now bus to payload =
    (case checked_add (next_event_id bus) 1 of
       None \<Rightarrow> None
     | Some next \<Rightarrow>
         (let published = \<lparr>audience = to, envelope = \<lparr>event_id = next_event_id bus, env_timestamp = now,
                env_workspace_id = (case to of Workspace w \<Rightarrow> Some w | _ \<Rightarrow> None), env_payload = payload\<rparr>\<rparr>
          in Some (published, bus\<lparr>next_event_id := next, replay := push_replay (capacity bus) published (replay bus)\<rparr>)))"

section \<open>Subscriptions\<close>

fun can_receive :: "session_id \<Rightarrow> workspace_id set \<Rightarrow> bool \<Rightarrow> event_audience \<Rightarrow> bool" where
  "can_receive session workspaces all_workspaces Global \<longleftrightarrow> True"
| "can_receive session workspaces all_workspaces (Session target) \<longleftrightarrow> target = session"
| "can_receive session workspaces all_workspaces (Workspace w) \<longleftrightarrow> all_workspaces \<or> w \<in> workspaces"

record 'p event_subscription =
  sub_session :: session_id
  sub_workspaces :: "workspace_id set"
  sub_all_workspaces :: bool
  sub_last_event_id :: u64
  sub_gap :: "'p subscription_event option"
  sub_replay :: "'p published_event list"

definition replay_bounds :: "'p event_bus \<Rightarrow> (u64 \<times> u64) option" where
  "replay_bounds bus = (case replay bus of
     [] \<Rightarrow> None | p # ps \<Rightarrow> Some (event_id (envelope p), event_id (envelope (last (p # ps)))))"

definition gap_after :: "'p event_bus \<Rightarrow> u64 option \<Rightarrow> 'p subscription_event option" where
  "gap_after bus last_id = Option.bind last_id (\<lambda>l.
     case replay_bounds bus of
       Some (oldest, newest) \<Rightarrow> if saturating_add l 1 < oldest then Some (Gap l oldest newest) else None
     | None \<Rightarrow> None)"

definition subscribe_inner ::
  "'p event_bus \<Rightarrow> session_id \<Rightarrow> workspace_id set \<Rightarrow> bool \<Rightarrow> u64 option \<Rightarrow> 'p event_subscription \<times> 'p event_bus" where
  "subscribe_inner bus session workspaces all_workspaces last_id =
    (let missing = gap_after bus last_id;
         queue = (if missing \<noteq> None then [] else case last_id of
            None \<Rightarrow> []
          | Some l \<Rightarrow> [p \<leftarrow> replay bus. l < event_id (envelope p)
              \<and> can_receive session workspaces all_workspaces (audience p)])
     in (\<lparr>sub_session = session, sub_workspaces = workspaces, sub_all_workspaces = all_workspaces,
          sub_last_event_id = (case last_id of Some l \<Rightarrow> l | None \<Rightarrow> 0), sub_gap = missing, sub_replay = queue\<rparr>,
         bus\<lparr>subscriber_count := subscriber_count bus + 1\<rparr>))"

definition bus_subscribe where
  "bus_subscribe bus session workspaces last_id = subscribe_inner bus session (set workspaces) False last_id"

definition subscribe_all_workspaces where
  "subscribe_all_workspaces bus session last_id = subscribe_inner bus session {} True last_id"

definition drop_subscription :: "'p event_bus \<Rightarrow> 'p event_bus" where
  "drop_subscription bus = bus\<lparr>subscriber_count := subscriber_count bus - 1\<rparr>"

definition sees :: "'p event_subscription \<Rightarrow> 'p published_event \<Rightarrow> bool" where
  "sees sub p = can_receive (sub_session sub) (sub_workspaces sub) (sub_all_workspaces sub) (audience p)"

datatype 'p channel_outcome = Received "'p published_event" | Lagged | Closed

definition live_gap :: "'p event_bus \<Rightarrow> 'p event_subscription \<Rightarrow> 'p subscription_event" where
  "live_gap bus sub =
    (case replay_bounds bus of
       Some (oldest, newest) \<Rightarrow> Gap (sub_last_event_id sub) oldest newest
     | None \<Rightarrow> Gap (sub_last_event_id sub) (saturating_add (sub_last_event_id sub) 1) (sub_last_event_id sub))"

text \<open>The loop of \<open>recv\<close> over what the channel yields; no result means that it still waits.\<close>

fun recv_live ::
  "('p event_bus \<times> 'p channel_outcome) list \<Rightarrow> 'p event_subscription \<Rightarrow>
   (subscription_closed + 'p subscription_event) option \<times> 'p event_subscription \<times> ('p event_bus \<times> 'p channel_outcome) list" where
  "recv_live [] sub = (None, sub, [])"
| "recv_live ((bus, Closed) # rest) sub = (Some (Inl SubscriptionClosed), sub, rest)"
| "recv_live ((bus, Lagged) # rest) sub = (Some (Inr (live_gap bus sub)), sub, rest)"
| "recv_live ((bus, Received p) # rest) sub =
    (if sees sub p
     then (Some (Inr (Event (envelope p))), sub\<lparr>sub_last_event_id := event_id (envelope p)\<rparr>, rest)
     else recv_live rest sub)"

definition recv ::
  "('p event_bus \<times> 'p channel_outcome) list \<Rightarrow> 'p event_subscription \<Rightarrow>
   (subscription_closed + 'p subscription_event) option \<times> 'p event_subscription \<times> ('p event_bus \<times> 'p channel_outcome) list" where
  "recv channel sub =
    (case sub_gap sub of
       Some gap \<Rightarrow> (Some (Inr gap), sub\<lparr>sub_gap := None\<rparr>, channel)
     | None \<Rightarrow>
         (case sub_replay sub of
            p # ps \<Rightarrow> (Some (Inr (Event (envelope p))),
              sub\<lparr>sub_last_event_id := event_id (envelope p), sub_replay := ps\<rparr>, channel)
          | [] \<Rightarrow> recv_live channel sub))"

text \<open>What \<open>n\<close> calls of \<open>recv\<close> return, up to the first that waits or reports the closed bus.\<close>

fun receive :: "nat \<Rightarrow> ('p event_bus \<times> 'p channel_outcome) list \<Rightarrow> 'p event_subscription \<Rightarrow>
    (subscription_closed + 'p subscription_event) list" where
  "receive 0 channel sub = []"
| "receive (Suc n) channel sub =
    (case recv channel sub of
       (None, _, _) \<Rightarrow> []
     | (Some (Inl e), _, _) \<Rightarrow> [Inl e]
     | (Some (Inr ev), sub', rest) \<Rightarrow> Inr ev # receive n rest sub')"

section \<open>The bus refines the log of all events\<close>

text \<open>A sequence of publications, with the events it put on the bus.\<close>

fun publish_all ::
  "(timestamp \<times> event_audience \<times> 'p) list \<Rightarrow> 'p event_bus \<Rightarrow> ('p published_event list \<times> 'p event_bus) option" where
  "publish_all [] bus = Some ([], bus)"
| "publish_all ((now, to, payload) # todo) bus =
    (case bus_publish now bus to payload of
       None \<Rightarrow> None
     | Some (p, bus') \<Rightarrow> map_option (\<lambda>(ps, b). (p # ps, b)) (publish_all todo bus'))"

text \<open>The bus after the events of a log have been published.\<close>

definition bus_logs :: "nat \<Rightarrow> 'p published_event list \<Rightarrow> 'p event_bus \<Rightarrow> bool" where
  "bus_logs c hist bus \<longleftrightarrow> capacity bus = max c 1 \<and> unat (next_event_id bus) = Suc (length hist)
    \<and> (\<forall>i < length hist. unat (event_id (envelope (hist ! i))) = Suc i)
    \<and> replay bus = drop (length hist - max c 1) hist"

interpretation replay_buffer: bounded_log "push_replay (max c 1)" "max c 1" for c
  by unfold_locales (auto simp: push_replay_def)

lemma bus_logs_new: "bus_logs c [] (event_bus_new c)"
  by (simp add: bus_logs_def event_bus_new_def)

lemma bus_publish_Some:
  assumes "bus_publish now bus to payload = Some (p, bus')"
  shows "event_id (envelope p) = next_event_id bus" "audience p = to" "env_payload (envelope p) = payload"
    "unat (next_event_id bus') = Suc (unat (next_event_id bus))"
    "bus' = bus\<lparr>next_event_id := next_event_id bus', replay := push_replay (capacity bus) p (replay bus)\<rparr>"
  using assms checked_add_Some [of "next_event_id bus" 1]
  by (auto simp: bus_publish_def Let_def split: option.splits)

lemma bus_logs_publish:
  assumes "bus_logs c hist bus" and "bus_publish now bus to payload = Some (p, bus')"
  shows "bus_logs c (hist @ [p]) bus'"
proof -
  note step = bus_publish_Some [OF assms(2)]
  have "replay bus' = push_replay (max c 1) p (drop (length hist - max c 1) hist)"
    using assms(1) by (subst step(5)) (simp add: bus_logs_def)
  then have "replay bus' = drop (Suc (length hist) - max c 1) (hist @ [p])"
    by (simp only: replay_buffer.push_log)
  moreover have "capacity bus' = capacity bus" by (subst step(5)) simp
  ultimately show ?thesis using assms(1) step(1,4) by (auto simp: bus_logs_def nth_append less_Suc_eq)
qed

lemma bus_logs_publish_all:
  assumes "bus_logs c hist bus" and "publish_all ps bus = Some (new, bus')"
  shows "bus_logs c (hist @ new) bus'"
  using assms
proof (induction ps bus arbitrary: hist new rule: publish_all.induct)
  case (2 now to payload todo bus)
  then obtain p bus1 new' where step: "bus_publish now bus to payload = Some (p, bus1)"
    "publish_all todo bus1 = Some (new', bus')" "new = p # new'"
    by (auto split: option.splits)
  then show ?case using 2(1) [OF step(1)] bus_logs_publish [OF 2(2) step(1)] by fastforce
qed simp

lemma publish_all_contents:
  assumes "publish_all ps bus = Some (new, bus')"
  shows "map (\<lambda>p. (audience p, env_payload (envelope p))) new = map snd ps"
  using assms
proof (induction ps bus arbitrary: new rule: publish_all.induct)
  case (2 now to payload todo bus)
  then show ?case using bus_publish_Some(2,3) by (fastforce split: option.splits)
qed simp

lemma publish_all_total:
  assumes "unat (next_event_id bus) + length ps < 2 ^ 64"
  shows "publish_all ps bus \<noteq> None"
  using assms
proof (induction ps bus rule: publish_all.induct)
  case (2 now to payload todo bus)
  obtain p bus1 where "bus_publish now bus to payload = Some (p, bus1)"
    using 2(2) checked_add_None [of "next_event_id bus" 1]
    by (cases "checked_add (next_event_id bus) 1") (auto simp: bus_publish_def Let_def)
  then show ?case using 2 bus_publish_Some(4) by fastforce
qed simp

lemmas published_logs = bus_logs_publish_all [OF bus_logs_new, simplified]

section \<open>Reconnecting\<close>

lemma bus_logs_bound:
  assumes "bus_logs c hist bus"
  shows "Suc (length hist) < 2 ^ 64"
proof -
  have "unat (next_event_id bus) < 2 ^ LENGTH(64)" by (rule unsigned_less)
  then show ?thesis using assms by (simp add: bus_logs_def)
qed

lemma newer_events:
  assumes "\<forall>i < length hist. unat (event_id (envelope (hist ! i))) = Suc i"
  shows "filter (\<lambda>p. l < event_id (envelope p)) hist = drop (unat l) hist"
proof -
  have older: "\<not> l < event_id (envelope p)" if "p \<in> set (take (unat l) hist)" for p
    using that assms by (auto simp: in_set_conv_nth word_less_nat_alt)
  have newer: "l < event_id (envelope p)" if "p \<in> set (drop (unat l) hist)" for p
    using that assms by (auto simp: in_set_conv_nth word_less_nat_alt)
  have "filter (\<lambda>p. l < event_id (envelope p)) hist
    = filter (\<lambda>p. l < event_id (envelope p)) (take (unat l) hist @ drop (unat l) hist)" by simp
  also have "\<dots> = drop (unat l) hist"
    using older newer by (simp only: filter_append) (simp add: filter_empty_conv filter_id_conv)
  finally show ?thesis .
qed

lemma newer_retained:
  assumes "bus_logs c hist bus" and "length hist - max c 1 \<le> unat l \<or> length hist < unat l"
  shows "filter (\<lambda>p. l < event_id (envelope p)) (replay bus) = drop (unat l) hist"
proof -
  let ?k = "length hist - max c 1"
  have ids: "\<forall>i < length hist. unat (event_id (envelope (hist ! i))) = Suc i" using assms(1) by (simp add: bus_logs_def)
  have "drop (unat l) hist = filter (\<lambda>p. l < event_id (envelope p)) (take ?k hist)
      @ filter (\<lambda>p. l < event_id (envelope p)) (drop ?k hist)"
    using newer_events [OF ids, of l] by (simp only: filter_append [symmetric] append_take_drop_id)
  moreover have "filter (\<lambda>p. l < event_id (envelope p)) (take ?k hist) = []"
    using ids assms(2) by (auto simp: filter_empty_conv in_set_conv_nth word_less_nat_alt)
  ultimately show ?thesis using assms(1) by (simp add: bus_logs_def)
qed

lemma bounds_of_log:
  assumes "bus_logs c hist bus"
  shows "replay_bounds bus = (if hist = [] then None
    else Some (event_id (envelope (hist ! (length hist - max c 1))), event_id (envelope (last hist))))"
proof (cases "hist = []")
  case False
  then have k: "length hist - max c 1 < length hist" by simp
  have "replay bus = hist ! (length hist - max c 1) # drop (Suc (length hist - max c 1)) hist"
    using assms Cons_nth_drop_Suc [OF k] by (simp add: bus_logs_def)
  moreover have "last (replay bus) = last hist" using assms k by (simp add: bus_logs_def)
  ultimately show ?thesis using False by (simp add: replay_bounds_def)
qed (use assms in \<open>simp add: bus_logs_def replay_bounds_def\<close>)

lemma gap_of_log:
  assumes "bus_logs c hist bus"
  shows "gap_after bus (Some l) = (if unat l < length hist - max c 1
    then Some (Gap l (event_id (envelope (hist ! (length hist - max c 1)))) (event_id (envelope (last hist)))) else None)"
proof (cases "hist = []")
  case False
  then have k: "length hist - max c 1 < length hist" by simp
  have "unat (event_id (envelope (hist ! (length hist - max c 1)))) = Suc (length hist - max c 1)"
    using assms k by (simp add: bus_logs_def)
  moreover have "unat (saturating_add l 1) = min (unat l + 1) (2 ^ 64 - 1)" by (simp add: unat_saturating_add)
  ultimately have "saturating_add l 1 < event_id (envelope (hist ! (length hist - max c 1))) \<longleftrightarrow> unat l < length hist - max c 1"
    using bus_logs_bound [OF assms] by (auto simp: word_less_nat_alt)
  then show ?thesis using False bounds_of_log [OF assms] by (simp add: gap_after_def)
qed (use bounds_of_log [OF assms] in \<open>auto simp: gap_after_def\<close>)

lemma subscribed_fields:
  "sees (fst (subscribe_inner bus s ws all last_id)) p = can_receive s ws all (audience p)"
  "sub_gap (fst (subscribe_inner bus s ws all last_id)) = gap_after bus last_id"
  by (simp_all add: subscribe_inner_def sees_def Let_def)

lemma catch_up:
  assumes "bus_logs c hist bus" and "\<not> unat l < length hist - max c 1"
  shows "sub_replay (fst (subscribe_inner bus s ws all (Some l)))
    = filter (\<lambda>p. can_receive s ws all (audience p)) (drop (unat l) hist)"
proof -
  have "sub_replay (fst (subscribe_inner bus s ws all (Some l)))
    = filter (\<lambda>p. can_receive s ws all (audience p)) (filter (\<lambda>p. l < event_id (envelope p)) (replay bus))"
    using assms(2) by (simp add: subscribe_inner_def gap_of_log [OF assms(1)] Let_def conj_commute cong: conj_cong)
  moreover have "filter (\<lambda>p. l < event_id (envelope p)) (replay bus) = drop (unat l) hist"
    using newer_retained [OF assms(1), of l] assms(2) by simp
  ultimately show ?thesis by (simp only:)
qed

section \<open>Delivery\<close>

lemma sees_update [simp]:
  "sees (sub\<lparr>sub_last_event_id := i\<rparr>) = sees sub" "sees (sub\<lparr>sub_replay := r\<rparr>) = sees sub" "sees (sub\<lparr>sub_gap := g\<rparr>) = sees sub"
  by (simp_all add: sees_def fun_eq_iff)

lemma recv_live_received:
  "recv_live (map (\<lambda>p. (b p, Received p)) ps) sub =
    (case dropWhile (\<lambda>p. \<not> sees sub p) ps of
       [] \<Rightarrow> (None, sub, [])
     | p # rest \<Rightarrow> (Some (Inr (Event (envelope p))), sub\<lparr>sub_last_event_id := event_id (envelope p)\<rparr>,
         map (\<lambda>p. (b p, Received p)) rest))"
  by (induction ps) auto

lemma filter_dropWhile: "dropWhile (\<lambda>x. \<not> P x) xs = y # ys \<Longrightarrow> filter P xs = y # filter P ys"
  by (induction xs) (auto split: if_splits)

lemma receive_stream:
  assumes "sub_gap sub = None"
  shows "receive n (map (\<lambda>p. (b p, Received p)) ps) sub
    = take n (map (\<lambda>p. Inr (Event (envelope p))) (sub_replay sub @ filter (sees sub) ps))"
  using assms
proof (induction n arbitrary: ps sub)
  case (Suc n)
  show ?case
  proof (cases "sub_replay sub")
    case (Cons p rest)
    then show ?thesis using Suc.prems Suc.IH [of "sub\<lparr>sub_last_event_id := event_id (envelope p), sub_replay := rest\<rparr>" ps]
      by (simp add: recv_def)
  next
    case Nil
    show ?thesis
    proof (cases "dropWhile (\<lambda>p. \<not> sees sub p) ps")
      case Nil
      then have "filter (sees sub) ps = []" by (simp add: dropWhile_eq_Nil_conv filter_empty_conv)
      then show ?thesis using Nil \<open>sub_replay sub = []\<close> Suc.prems
        by (simp add: recv_def recv_live_received del: dropWhile_eq_Nil_conv)
    next
      case (Cons p rest)
      then show ?thesis
        using \<open>sub_replay sub = []\<close> Suc.prems Suc.IH [of "sub\<lparr>sub_last_event_id := event_id (envelope p)\<rparr>" rest]
        by (simp add: recv_def recv_live_received filter_dropWhile)
    qed
  qed
qed simp

definition offered :: "'p event_subscription \<Rightarrow> ('p event_bus \<times> 'p channel_outcome) list \<Rightarrow> 'p published_event set" where
  "offered sub channel = set (sub_replay sub) \<union> {p. \<exists>b. (b, Received p) \<in> set channel \<and> sees sub p}"

lemma recv_live_offered:
  assumes "recv_live channel sub = (r, sub', rest)"
  shows "set rest \<subseteq> set channel" "sees sub' = sees sub" "sub_replay sub' = sub_replay sub" "sub_gap sub' = sub_gap sub"
    "r = Some (Inr (Event e)) \<Longrightarrow> \<exists>p \<in> offered sub channel. envelope p = e"
  using assms
  by (induction channel sub rule: recv_live.induct) (auto simp: offered_def live_gap_def split: if_splits option.splits)

lemma recv_offered:
  assumes "recv channel sub = (r, sub', rest)" and "\<forall>e. sub_gap sub \<noteq> Some (Event e)"
  shows "offered sub' rest \<subseteq> offered sub channel" "\<forall>e. sub_gap sub' \<noteq> Some (Event e)"
    "r = Some (Inr (Event e)) \<Longrightarrow> \<exists>p \<in> offered sub channel. envelope p = e"
proof -
  have live: "offered sub' rest \<subseteq> offered sub channel \<and> (\<forall>e. sub_gap sub' \<noteq> Some (Event e))
      \<and> (r = Some (Inr (Event e)) \<longrightarrow> (\<exists>p \<in> offered sub channel. envelope p = e))"
    if "recv_live channel sub = (r, sub', rest)"
    using recv_live_offered [OF that] assms(2) by (auto simp: offered_def)
  then show "offered sub' rest \<subseteq> offered sub channel" "\<forall>e. sub_gap sub' \<noteq> Some (Event e)"
    "r = Some (Inr (Event e)) \<Longrightarrow> \<exists>p \<in> offered sub channel. envelope p = e"
    using assms by (auto simp: recv_def offered_def split: option.splits list.splits)
qed

lemma receive_offered:
  assumes "Inr (Event e) \<in> set (receive n channel sub)" and "\<forall>e. sub_gap sub \<noteq> Some (Event e)"
  shows "\<exists>p \<in> offered sub channel. envelope p = e"
  using assms
proof (induction n arbitrary: channel sub)
  case (Suc n)
  obtain r sub' rest where r: "recv channel sub = (r, sub', rest)" by (metis prod_cases3)
  note step = recv_offered [OF r Suc.prems(2)]
  show ?case
  proof (cases "r = Some (Inr (Event e))")
    case False
    then have "Inr (Event e) \<in> set (receive n rest sub')"
      using Suc.prems(1) r by (auto split: option.splits sum.splits)
    then show ?thesis using Suc.IH step(1,2) by blast
  qed (use step(3) in blast)
qed simp

section \<open>Properties\<close>

definition sample_events :: "(timestamp \<times> event_audience \<times> nat) list" where
  "sample_events = [(0, Global, 10), (1, Session ''a'', 20), (2, Workspace 7, 30), (3, Session ''b'', 40)]"

text \<open>publishing never fails while identifiers last; the bus numbers all events from one in the order
  of publication, without gaps, and retains exactly the newest of them up to its capacity.\<close>

lemma replay_is_newest_suffix:
  assumes "length ps < 2 ^ 64 - 1"
  shows "\<exists>hist bus. publish_all ps (event_bus_new c) = Some (hist, bus)
    \<and> map (\<lambda>p. (audience p, env_payload (envelope p))) hist = map snd ps
    \<and> map (\<lambda>p. unat (event_id (envelope p))) hist = [1 ..< Suc (length ps)]
    \<and> replay bus = drop (length ps - max c 1) hist"
proof -
  obtain hist bus where run: "publish_all ps (event_bus_new c) = Some (hist, bus)"
    using publish_all_total [of "event_bus_new c" ps] assms by (auto simp: event_bus_new_def)
  have logs: "bus_logs c hist bus" by (rule published_logs [OF run])
  have contents: "map (\<lambda>p. (audience p, env_payload (envelope p))) hist = map snd ps" by (rule publish_all_contents [OF run])
  then have len: "length hist = length ps" by (metis length_map)
  have "map (\<lambda>p. unat (event_id (envelope p))) hist = [1 ..< Suc (length ps)]"
    using logs len by (intro nth_equalityI) (auto simp: bus_logs_def simp del: upt_Suc)
  then show ?thesis using run contents logs len by (auto simp: bus_logs_def)
qed

text \<open>C23: a subscriber that reconnects with the identifier of the last event it has seen is told of a gap
  exactly when an event after it is no longer retained, with the bounds of what is; otherwise it is
  queued every later event its session may see, once and in order. An identifier beyond the newest
  event, as a client of an earlier run of the program has, is not reported as a gap: nothing is queued
  and nothing reported.\<close>

theorem reconnect_gap_exact:
  assumes "publish_all ps (event_bus_new c) = Some (hist, bus)"
    and "subscribe_inner bus s ws all (Some l) = (sub, bus')"
  shows "if unat l < length hist - max c 1
    then sub_replay sub = [] \<and> (\<exists>oldest newest. sub_gap sub = Some (Gap l oldest newest)
      \<and> unat oldest = Suc (length hist - max c 1) \<and> unat newest = length hist)
    else sub_gap sub = None \<and> sub_replay sub = [p \<leftarrow> drop (unat l) hist. can_receive s ws all (audience p)]"
proof -
  note logs = published_logs [OF assms(1)]
  have sub: "sub = fst (subscribe_inner bus s ws all (Some l))" using assms(2) by simp
  show ?thesis
  proof (cases "unat l < length hist - max c 1")
    case True
    then have "hist \<noteq> []" by auto
    then have "unat (event_id (envelope (last hist))) = length hist"
      using logs by (simp add: bus_logs_def last_conv_nth)
    moreover have "unat (event_id (envelope (hist ! (length hist - max c 1)))) = Suc (length hist - max c 1)"
      using logs True by (simp add: bus_logs_def)
    ultimately show ?thesis using True by (auto simp: sub subscribe_inner_def gap_of_log [OF logs] Let_def)
  next
    case False
    then show ?thesis using catch_up [OF logs False] by (simp add: sub subscribed_fields gap_of_log [OF logs])
  qed
qed

lemma sample_events_logged:
  "\<exists>a b d e bus. publish_all sample_events (event_bus_new 2) = Some ([a, b, d, e], bus)
    \<and> audience d = Workspace 7 \<and> env_payload (envelope d) = 30 \<and> audience e = Session ''b''"
proof -
  obtain hist bus where run: "publish_all sample_events (event_bus_new 2) = Some (hist, bus)"
    using publish_all_total [of "event_bus_new 2" sample_events] by (auto simp: event_bus_new_def sample_events_def)
  then show ?thesis using publish_all_contents [OF run] by (auto simp: sample_events_def)
qed

theorem reconnect_gap_exact_witness:
  "\<exists>hist bus. publish_all sample_events (event_bus_new 2) = Some (hist, bus)
    \<and> sub_gap (fst (bus_subscribe bus ''a'' [7] (Some 1))) \<noteq> None
    \<and> map (\<lambda>p. env_payload (envelope p)) (sub_replay (fst (bus_subscribe bus ''a'' [7] (Some 2)))) = [30]"
proof -
  obtain a b d e bus where run: "publish_all sample_events (event_bus_new 2) = Some ([a, b, d, e], bus)"
    and d: "audience d = Workspace 7" "env_payload (envelope d) = 30" "audience e = Session ''b''"
    using sample_events_logged by blast
  let ?sub = "\<lambda>l. subscribe_inner bus ''a'' (set [7]) False (Some l)"
  have "sub_gap (fst (?sub 1)) \<noteq> None"
    using reconnect_gap_exact [OF run, of "''a''" "set [7]" False 1 "fst (?sub 1)" "snd (?sub 1)"] by auto
  moreover have "sub_replay (fst (?sub 2)) = [d]"
    using reconnect_gap_exact [OF run, of "''a''" "set [7]" False 2 "fst (?sub 2)" "snd (?sub 2)"] d by simp
  ultimately show ?thesis using run d by (auto simp: bus_subscribe_def)
qed

text \<open>C24: exactly-once delivery across a reconnect. If the subscriber's last event is still covered by the
  retained events and its receiver then gets, in order, the events published after it subscribed (the
  channel has not lagged), the first \<open>n\<close> calls of \<open>recv\<close> return exactly the first \<open>n\<close> of all events
  after its last one that it may see, whether they come from the retained events or live.\<close>

theorem reconnect_delivers_every_event_once:
  assumes "publish_all before (event_bus_new c) = Some (hist, bus)" and "length hist \<le> unat l + max c 1" and "unat l \<le> length hist"
    and "subscribe_inner bus s ws all (Some l) = (sub, bus1)"
    and "publish_all after bus1 = Some (live, bus2)"
    and "channel = map (\<lambda>p. (bus2, Received p)) live"
  shows "receive n channel sub
    = take n (map (\<lambda>p. Inr (Event (envelope p))) [p \<leftarrow> drop (unat l) (hist @ live). can_receive s ws all (audience p)])"
proof -
  note logs = published_logs [OF assms(1)]
  have sub: "sub = fst (subscribe_inner bus s ws all (Some l))" using assms(4) by simp
  have covered: "\<not> unat l < length hist - max c 1" using assms(2) by auto
  then have gap: "sub_gap sub = None" by (simp add: sub subscribed_fields gap_of_log [OF logs])
  have sees: "sees sub = (\<lambda>p. can_receive s ws all (audience p))" by (simp add: sub subscribed_fields fun_eq_iff)
  have "receive n channel sub = take n (map (\<lambda>p. Inr (Event (envelope p))) (sub_replay sub @ filter (sees sub) live))"
    unfolding assms(6) by (rule receive_stream [OF gap])
  also have "sub_replay sub @ filter (sees sub) live = [p \<leftarrow> drop (unat l) (hist @ live). can_receive s ws all (audience p)]"
    using catch_up [OF logs covered] assms(3) by (simp add: sub sees [unfolded sub])
  finally show ?thesis .
qed

theorem reconnect_delivers_every_event_once_witness:
  "\<exists>hist bus live bus2. publish_all sample_events (event_bus_new 2) = Some (hist, bus)
    \<and> publish_all [(9, Global, 50)] (snd (bus_subscribe bus ''a'' [7] (Some 2))) = Some (live, bus2)
    \<and> receive 5 (map (\<lambda>p. (bus2, Received p)) live) (fst (bus_subscribe bus ''a'' [7] (Some 2)))
      = map (\<lambda>p. Inr (Event (envelope p))) [hist ! 2, live ! 0]"
proof -
  obtain a b d e bus where run: "publish_all sample_events (event_bus_new 2) = Some ([a, b, d, e], bus)"
    and d: "audience d = Workspace 7" "audience e = Session ''b''"
    using sample_events_logged by blast
  let ?sub = "subscribe_inner bus ''a'' (set [7]) False (Some 2)"
  have "unat (next_event_id (snd ?sub)) = 5"
    using published_logs [OF run] by (simp add: subscribe_inner_def Let_def bus_logs_def)
  then obtain live bus2 where more: "publish_all [(9, Global, 50)] (snd ?sub) = Some (live, bus2)"
    using publish_all_total [of "snd ?sub" "[(9, Global, 50)]"] by auto
  then obtain f where f: "live = [f]" "audience f = Global" using publish_all_contents [OF more] by auto
  have "receive 5 (map (\<lambda>p. (bus2, Received p)) live) (fst ?sub) = map (\<lambda>p. Inr (Event (envelope p))) [d, f]"
    using reconnect_delivers_every_event_once [OF run, of 2 "''a''" "set [7]" False "fst ?sub" "snd ?sub" "[(9, Global, 50)]"
        live bus2 "map (\<lambda>p. (bus2, Received p)) live" 5] more d f by simp
  then show ?thesis using run more f by (auto simp: bus_subscribe_def)
qed

text \<open>C35: no event reaches a subscriber that is not entitled to it. Whatever the channel yields, in any
  order, every event \<open>recv\<close> returns was either retained by the bus or received live, and was published
  for everyone, for this session, or for a workspace the session may see.\<close>

theorem events_stay_in_audience:
  assumes "subscribe_inner bus s ws all last_id = (sub, bus')" and "Inr (Event e) \<in> set (receive n channel sub)"
  shows "\<exists>p. (p \<in> set (replay bus) \<or> (\<exists>b. (b, Received p) \<in> set channel)) \<and> envelope p = e
    \<and> (audience p = Global \<or> audience p = Session s \<or> (\<exists>w. audience p = Workspace w \<and> (all \<or> w \<in> ws)))"
proof -
  have sub: "sub = fst (subscribe_inner bus s ws all last_id)" using assms(1) by simp
  have "\<forall>e. sub_gap sub \<noteq> Some (Event e)"
    by (auto simp: sub subscribed_fields gap_after_def split: option.splits if_splits bind_splits)
  then obtain p where p: "p \<in> offered sub channel" "envelope p = e" using receive_offered [OF assms(2)] by blast
  have "can_receive s ws all (audience p)" "p \<in> set (replay bus) \<or> (\<exists>b. (b, Received p) \<in> set channel)"
    using p(1) by (auto simp: offered_def sub subscribed_fields) (auto simp: subscribe_inner_def Let_def split: if_splits option.splits)
  then show ?thesis using p(2) by (cases "audience p") auto
qed

theorem events_stay_in_audience_witness:
  "\<exists>hist bus p. publish_all sample_events (event_bus_new 2) = Some (hist, bus)
    \<and> Inr (Event (envelope (hist ! 2))) \<in> set (receive 1 [] (fst (bus_subscribe bus ''a'' [7] (Some 2))))
    \<and> p \<in> set (replay bus) \<and> envelope p = envelope (hist ! 2)
    \<and> (audience p = Global \<or> audience p = Session ''a'' \<or> (\<exists>w. audience p = Workspace w \<and> w \<in> {7}))"
proof -
  obtain a b d e bus where run: "publish_all sample_events (event_bus_new 2) = Some ([a, b, d, e], bus)"
    and d: "audience d = Workspace 7" "audience e = Session ''b''"
    using sample_events_logged by blast
  let ?sub = "subscribe_inner bus ''a'' (set [7]) False (Some 2)"
  have logs: "bus_logs 2 [a, b, d, e] bus" by (rule published_logs [OF run])
  have "sub_replay (fst ?sub) = [d]" using catch_up [OF logs, of 2] d by simp
  moreover have "sub_gap (fst ?sub) = None" by (simp add: subscribed_fields gap_of_log [OF logs])
  ultimately have got: "Inr (Event (envelope d)) \<in> set (receive 1 [] (fst ?sub))" by (simp add: recv_def)
  then obtain p where "p \<in> set (replay bus)" "envelope p = envelope d"
      "audience p = Global \<or> audience p = Session ''a'' \<or> (\<exists>w. audience p = Workspace w \<and> w \<in> set [7])"
    using events_stay_in_audience [of bus "''a''" "set [7]" False "Some 2" "fst ?sub" "snd ?sub" "envelope d" 1 "[]"] by auto
  then show ?thesis using run got by (auto simp: bus_subscribe_def)
qed

end
