(* ===== verification/Comparison.thy ===== *)
theory Comparison
  imports Scheduler "HOL-Library.List_Lexorder" "HOL-Library.Char_ord"
begin

text \<open>
  Directory comparison and sync planning, \<open>src/crates/fm-comparison/src\<close>: classification of two
  entries (\<open>model.rs\<close>), relative paths (\<open>path.rs\<close>), the results store (\<open>store.rs\<close>), the traversal of
  two directory trees (\<open>engine.rs\<close>) and the sync plan (\<open>sync.rs\<close>).

  What the traversal learns from outside (pages of listings, content hashes, the cancellation token,
  whether the batch interval has passed) comes from an environment, asked at the ticks of a clock that
  every question advances, so the answers may change while the comparison runs. Counters wrap as in a
  release build. Time stamps are in nanoseconds.
\<close>

section \<open>Entries and their classification\<close>

datatype git_file_status = GitClean | GitModified | GitStaged | GitUntracked | GitIgnored

record entry_summary =
  es_id :: nat
  es_location :: location
  es_name :: string
  es_kind :: entry_kind
  es_size :: "u64 option"
  es_modified_at :: "op_time option"
  es_created_at :: "op_time option"
  es_hidden :: bool
  es_read_only :: bool
  es_extension :: "string option"
  es_mime_type :: "string option"
  es_icon_key :: "string option"
  es_metadata_revision :: u64
  es_git_status :: "git_file_status option"

datatype comparison_criteria = NameOnly | SizeAndTimestamp | ContentHash

datatype comparison_status = OnlyLeft | OnlyRight | Newer | Older | DifferentSize | Identical | TypeMismatch

record comparison_entry_side =
  side_kind :: entry_kind
  side_size :: "u64 option"
  side_modified_at :: "op_time option"
  side_content_hash :: "string option"

record comparison_entry =
  ce_relative_path :: string
  ce_left :: "comparison_entry_side option"
  ce_right :: "comparison_entry_side option"
  ce_status :: comparison_status

definition TIMESTAMP_TOLERANCE_SECONDS :: int where
  "TIMESTAMP_TOLERANCE_SECONDS = 2"

text \<open>\<open>secs l r\<close> stands for the library's \<open>(l - r).num_seconds()\<close>.\<close>

definition timestamp_direction ::
  "(op_time \<Rightarrow> op_time \<Rightarrow> int) \<Rightarrow> comparison_entry_side \<Rightarrow> comparison_entry_side \<Rightarrow> comparison_status option" where
  "timestamp_direction secs left right =
    (case (side_modified_at left, side_modified_at right) of
       (Some l, Some r) \<Rightarrow>
         if \<bar>secs l r\<bar> < TIMESTAMP_TOLERANCE_SECONDS then None
         else Some (if r < l then Newer else Older)
     | _ \<Rightarrow> None)"

definition classify_by_size_and_timestamp ::
  "(op_time \<Rightarrow> op_time \<Rightarrow> int) \<Rightarrow> comparison_entry_side \<Rightarrow> comparison_entry_side \<Rightarrow> comparison_status" where
  "classify_by_size_and_timestamp secs left right =
    (case timestamp_direction secs left right of
       Some d \<Rightarrow> d
     | None \<Rightarrow> if side_size left \<noteq> side_size right then DifferentSize else Identical)"

definition classify_by_content_hash ::
  "(op_time \<Rightarrow> op_time \<Rightarrow> int) \<Rightarrow> comparison_entry_side \<Rightarrow> comparison_entry_side \<Rightarrow> comparison_status" where
  "classify_by_content_hash secs left right =
    (case (side_content_hash left, side_content_hash right) of
       (Some hl, Some hr) \<Rightarrow>
         if hl = hr then Identical
         else (case timestamp_direction secs left right of Some d \<Rightarrow> d | None \<Rightarrow> DifferentSize)
     | _ \<Rightarrow> classify_by_size_and_timestamp secs left right)"

definition classify ::
  "(op_time \<Rightarrow> op_time \<Rightarrow> int) \<Rightarrow> comparison_entry_side \<Rightarrow> comparison_entry_side \<Rightarrow> comparison_criteria \<Rightarrow> comparison_status" where
  "classify secs left right criteria =
    (if side_kind left \<noteq> side_kind right then TypeMismatch
     else if side_kind left = Directory then Identical
     else case criteria of
       NameOnly \<Rightarrow> Identical
     | SizeAndTimestamp \<Rightarrow> classify_by_size_and_timestamp secs left right
     | ContentHash \<Rightarrow> classify_by_content_hash secs left right)"

section \<open>Relative paths\<close>

fun join_segments :: "(string \<Rightarrow> bool) \<Rightarrow> location \<Rightarrow> string list \<Rightarrow> location_error + location" where
  "join_segments uuid_ok current [] = Inr current"
| "join_segments uuid_ok current (s # ss) =
    and_then (location_join uuid_ok current s) (\<lambda>l. join_segments uuid_ok l ss)"

definition resolve_relative :: "(string \<Rightarrow> bool) \<Rightarrow> location \<Rightarrow> string \<Rightarrow> location_error + location" where
  "resolve_relative uuid_ok root_loc relative_path =
    (if relative_path = [] then Inr root_loc else join_segments uuid_ok root_loc (split_on slash relative_path))"

definition relative_parent :: "string \<Rightarrow> string" where
  "relative_parent relative_path = (case rsplit_once slash relative_path of Some (parent, _) \<Rightarrow> parent | None \<Rightarrow> [])"

definition relative_join :: "string \<Rightarrow> string \<Rightarrow> string" where
  "relative_join relative_path name = (if relative_path = [] then name else relative_path @ slash # name)"

section \<open>Sync plans\<close>

datatype sync_mode = MirrorLeftToRight | MirrorRightToLeft | TwoWayUpdate

datatype sync_action = CopyLeftToRight | CopyRightToLeft | DeleteLeft | DeleteRight | SyncSkip

record sync_plan_item =
  sp_relative_path :: string
  sp_status :: comparison_status
  sp_action :: sync_action
  sp_left :: "comparison_entry_side option"
  sp_right :: "comparison_entry_side option"

fun default_action :: "comparison_status \<Rightarrow> sync_mode \<Rightarrow> sync_action" where
  "default_action status MirrorLeftToRight =
    (case status of
       OnlyRight \<Rightarrow> DeleteRight
     | Identical \<Rightarrow> SyncSkip
     | TypeMismatch \<Rightarrow> SyncSkip
     | _ \<Rightarrow> CopyLeftToRight)"
| "default_action status MirrorRightToLeft =
    (case status of
       OnlyLeft \<Rightarrow> DeleteLeft
     | Identical \<Rightarrow> SyncSkip
     | TypeMismatch \<Rightarrow> SyncSkip
     | _ \<Rightarrow> CopyRightToLeft)"
| "default_action status TwoWayUpdate =
    (case status of
       OnlyLeft \<Rightarrow> CopyLeftToRight
     | Newer \<Rightarrow> CopyLeftToRight
     | OnlyRight \<Rightarrow> CopyRightToLeft
     | Older \<Rightarrow> CopyRightToLeft
     | _ \<Rightarrow> SyncSkip)"

definition generate_sync_plan :: "comparison_entry list \<Rightarrow> sync_mode \<Rightarrow> sync_plan_item list" where
  "generate_sync_plan entries mode =
    map (\<lambda>e. \<lparr>sp_relative_path = ce_relative_path e, sp_status = ce_status e,
        sp_action = default_action (ce_status e) mode, sp_left = ce_left e, sp_right = ce_right e\<rparr>)
      [e \<leftarrow> entries. ce_status e \<noteq> Identical]"

section \<open>The results store\<close>

type_synonym comparison_id = nat

record comparison_state =
  cs_left_root :: location
  cs_right_root :: location
  cs_criteria :: comparison_criteria
  cs_entries :: "comparison_entry list"
  cs_complete :: bool
  cs_warnings :: u32
  cs_cancelled :: bool

record comparison_page =
  page_left_root :: location
  page_right_root :: location
  page_criteria :: comparison_criteria
  page_entries :: "comparison_entry list"
  page_complete :: bool
  page_warnings :: u32
  page_has_more :: bool
  page_total :: nat

type_synonym comparison_store = "comparison_id \<rightharpoonup> comparison_state"

definition store_new :: comparison_store where
  "store_new = Map.empty"

definition store_register ::
  "comparison_store \<Rightarrow> comparison_id \<Rightarrow> location \<Rightarrow> location \<Rightarrow> comparison_criteria \<Rightarrow> comparison_store" where
  "store_register store i l r criteria = store(i \<mapsto> \<lparr>cs_left_root = l, cs_right_root = r, cs_criteria = criteria,
     cs_entries = [], cs_complete = False, cs_warnings = 0, cs_cancelled = False\<rparr>)"

definition store_append ::
  "comparison_store \<Rightarrow> comparison_id \<Rightarrow> comparison_entry list \<Rightarrow> u32 \<Rightarrow> comparison_store" where
  "store_append store i entries warnings =
    (case store i of
       Some st \<Rightarrow> store(i \<mapsto> st\<lparr>cs_entries := cs_entries st @ entries, cs_warnings := warnings\<rparr>)
     | None \<Rightarrow> store)"

definition store_mark_complete :: "comparison_store \<Rightarrow> comparison_id \<Rightarrow> comparison_store" where
  "store_mark_complete store i =
    (case store i of Some st \<Rightarrow> store(i \<mapsto> st\<lparr>cs_complete := True\<rparr>) | None \<Rightarrow> store)"

definition store_cancel :: "comparison_store \<Rightarrow> comparison_id \<Rightarrow> (unit \<times> comparison_store) option" where
  "store_cancel store i = map_option (\<lambda>st. ((), store(i \<mapsto> st\<lparr>cs_cancelled := True\<rparr>))) (store i)"

definition store_roots :: "comparison_store \<Rightarrow> comparison_id \<Rightarrow> (location \<times> location) option" where
  "store_roots store i = map_option (\<lambda>st. (cs_left_root st, cs_right_root st)) (store i)"

definition store_all_entries :: "comparison_store \<Rightarrow> comparison_id \<Rightarrow> comparison_entry list option" where
  "store_all_entries store i = map_option cs_entries (store i)"

definition store_page :: "comparison_store \<Rightarrow> comparison_id \<Rightarrow> nat \<Rightarrow> nat \<Rightarrow> bool \<Rightarrow> comparison_page option" where
  "store_page store i offset limit differences_only =
    map_option (\<lambda>st.
      let filtered = [e \<leftarrow> cs_entries st. \<not> differences_only \<or> ce_status e \<noteq> Identical];
          entries = take limit (drop offset filtered)
      in \<lparr>page_left_root = cs_left_root st, page_right_root = cs_right_root st, page_criteria = cs_criteria st,
          page_entries = entries, page_complete = cs_complete st, page_warnings = cs_warnings st,
          page_has_more = (offset + length entries < length filtered \<or> \<not> cs_complete st),
          page_total = length filtered\<rparr>) (store i)"

section \<open>The traversal\<close>

record directory_page =
  dp_entries :: "entry_summary list"
  dp_total_known :: "u64 option"
  dp_has_more :: bool
  dp_token :: "string option"

record comparison_env =
  env_resolve :: "location \<Rightarrow> string + unit"
  env_can_list :: "location \<Rightarrow> bool"
  env_list :: "nat \<Rightarrow> location \<Rightarrow> string option \<Rightarrow> directory_page option"
  env_hash :: "nat \<Rightarrow> entry_summary \<Rightarrow> string option"
  env_cancelled :: "nat \<Rightarrow> bool"
  env_flush_due :: "nat \<Rightarrow> bool"
  env_secs :: "op_time \<Rightarrow> op_time \<Rightarrow> int"

record comparison_options =
  co_criteria :: comparison_criteria
  co_show_hidden :: bool
  co_operation_id :: "op_id option"

datatype comparison_error = InvalidRoot string | ComparisonNotFound comparison_id

datatype comparison_event =
    ComparisonResultsBatch comparison_id "comparison_entry list" bool u32
  | OperationEvent operation_event

record pending_dir =
  pd_relative_path :: string
  pd_left :: location
  pd_right :: location

record run_state =
  rs_stack :: "pending_dir list"
  rs_visited :: "(string \<times> string) set"
  rs_buffer :: "comparison_entry list"
  rs_warnings :: u32
  rs_compared :: u64
  rs_clock :: nat
  rs_store :: comparison_store
  rs_events :: "comparison_event list"

text \<open>\<open>list_all\<close>: \<open>None\<close> when the pages never end, otherwise the listing (or a failure) and the clock.\<close>

partial_function (option) list_pages ::
  "comparison_env \<Rightarrow> location \<Rightarrow> entry_summary list \<Rightarrow> string option \<Rightarrow> nat \<Rightarrow> (entry_summary list option \<times> nat) option" where
  "list_pages env l entries token t =
    (if env_cancelled env t then Some (Some entries, Suc t)
     else case env_list env (Suc t) l token of
       None \<Rightarrow> Some (None, t + 2)
     | Some page \<Rightarrow>
         if dp_has_more page then list_pages env l (entries @ dp_entries page) (dp_token page) (t + 2)
         else Some (Some (entries @ dp_entries page), t + 2))"

declare list_pages.simps [code]

definition list_all_pages :: "comparison_env \<Rightarrow> location \<Rightarrow> nat \<Rightarrow> (entry_summary list option \<times> nat) option" where
  "list_all_pages env l t =
    (if \<not> is_ok (env_resolve env l) \<or> \<not> env_can_list env l then Some (None, t) else list_pages env l [] None t)"

definition index_by_name :: "entry_summary list \<Rightarrow> bool \<Rightarrow> string \<rightharpoonup> entry_summary" where
  "index_by_name entries hidden_too =
    map_of (rev [(es_name e, e). e \<leftarrow> entries, hidden_too \<or> \<not> es_hidden e])"

definition all_names :: "entry_summary list \<Rightarrow> entry_summary list \<Rightarrow> bool \<Rightarrow> string list" where
  "all_names xs ys hidden_too =
    sort (remdups [es_name e. e \<leftarrow> xs @ ys, hidden_too \<or> \<not> es_hidden e])"

definition side_from :: "entry_summary \<Rightarrow> string option \<Rightarrow> comparison_entry_side" where
  "side_from e content_hash = \<lparr>side_kind = es_kind e, side_size = es_size e,
     side_modified_at = es_modified_at e, side_content_hash = content_hash\<rparr>"

definition progress_event :: "op_id \<Rightarrow> u64 \<Rightarrow> comparison_event" where
  "progress_event i compared = OperationEvent (OperationProgressed i
     \<lparr>payload_completed_items = compared, payload_total_items = None, payload_completed_bytes = 0,
      payload_total_bytes = None, payload_current_entry = None, payload_bytes_per_second = None\<rparr>)"

definition flush :: "comparison_id \<Rightarrow> op_id option \<Rightarrow> bool \<Rightarrow> run_state \<Rightarrow> run_state" where
  "flush i op is_complete s =
    (let s1 =
       (if rs_buffer s \<noteq> [] \<or> is_complete then
          (let store1 = store_append (rs_store s) i (rs_buffer s) (rs_warnings s);
               store2 = (if is_complete then store_mark_complete store1 i else store1)
           in s\<lparr>rs_buffer := [], rs_store := store2,
                rs_events := rs_events s @ [ComparisonResultsBatch i (rs_buffer s) is_complete (rs_warnings s)]\<rparr>)
        else s)
     in case op of
       Some oid \<Rightarrow> s1\<lparr>rs_events := rs_events s1 @ [progress_event oid (rs_compared s1)]\<rparr>
     | None \<Rightarrow> s1)"

definition BATCH_SIZE :: nat where
  "BATCH_SIZE = 500"

definition push_row :: "comparison_entry \<Rightarrow> run_state \<Rightarrow> run_state" where
  "push_row row s = s\<lparr>rs_compared := rs_compared s + 1, rs_buffer := rs_buffer s @ [row]\<rparr>"

definition tick :: "run_state \<Rightarrow> run_state" where
  "tick s = s\<lparr>rs_clock := Suc (rs_clock s)\<rparr>"

definition hash_pair ::
  "comparison_env \<Rightarrow> comparison_options \<Rightarrow> entry_summary \<Rightarrow> entry_summary \<Rightarrow> run_state \<Rightarrow> string option \<times> string option \<times> run_state" where
  "hash_pair env opts a b s =
    (if co_criteria opts = ContentHash \<and> es_kind a = File \<and> es_kind b = File then
       (let hl = env_hash env (rs_clock s) a; hr = env_hash env (Suc (rs_clock s)) b
        in (hl, hr, s\<lparr>rs_clock := rs_clock s + 2,
              rs_warnings := (if hl = None \<or> hr = None then rs_warnings s + 1 else rs_warnings s)\<rparr>))
     else (None, None, s))"

definition flush_if_due :: "comparison_env \<Rightarrow> comparison_options \<Rightarrow> comparison_id \<Rightarrow> run_state \<Rightarrow> run_state" where
  "flush_if_due env opts i s =
    (if BATCH_SIZE \<le> length (rs_buffer s) \<or> env_flush_due env (rs_clock s)
     then flush i (co_operation_id opts) False (tick s) else tick s)"

text \<open>The body of the loop over the names of one directory pair.\<close>

definition compare_name ::
  "comparison_env \<Rightarrow> comparison_options \<Rightarrow> comparison_id \<Rightarrow> pending_dir \<Rightarrow> string \<Rightarrow>
   entry_summary option \<Rightarrow> entry_summary option \<Rightarrow> run_state \<Rightarrow> run_state" where
  "compare_name env opts i dir name left right s =
    (let path = relative_join (pd_relative_path dir) name in
     case (left, right) of
       (Some a, None) \<Rightarrow> flush_if_due env opts i (push_row \<lparr>ce_relative_path = path,
         ce_left = Some (side_from a None), ce_right = None, ce_status = OnlyLeft\<rparr> s)
     | (None, Some b) \<Rightarrow> flush_if_due env opts i (push_row \<lparr>ce_relative_path = path,
         ce_left = None, ce_right = Some (side_from b None), ce_status = OnlyRight\<rparr> s)
     | (Some a, Some b) \<Rightarrow>
         if es_kind a = Directory \<and> es_kind b = Directory then
           push_row \<lparr>ce_relative_path = path, ce_left = Some (side_from a None), ce_right = Some (side_from b None),
               ce_status = Identical\<rparr>
             (s\<lparr>rs_stack := \<lparr>pd_relative_path = path, pd_left = es_location a, pd_right = es_location b\<rparr> # rs_stack s\<rparr>)
         else
           (let (hl, hr, s1) = hash_pair env opts a b s;
                sl = side_from a hl; sr = side_from b hr
            in flush_if_due env opts i (push_row \<lparr>ce_relative_path = path, ce_left = Some sl, ce_right = Some sr,
                 ce_status = classify (env_secs env) sl sr (co_criteria opts)\<rparr> s1))
     | (None, None) \<Rightarrow> s)"

fun compare_names ::
  "comparison_env \<Rightarrow> comparison_options \<Rightarrow> comparison_id \<Rightarrow> pending_dir \<Rightarrow> (string \<rightharpoonup> entry_summary) \<Rightarrow>
   (string \<rightharpoonup> entry_summary) \<Rightarrow> string list \<Rightarrow> run_state \<Rightarrow> run_state" where
  "compare_names env opts i dir left right [] s = s"
| "compare_names env opts i dir left right (name # names) s =
    (if env_cancelled env (rs_clock s) then tick s
     else compare_names env opts i dir left right names
       (compare_name env opts i dir name (left name) (right name) (tick s)))"

text \<open>One directory pair: \<open>Inl\<close> leaves the loop (cancelled), \<open>Inr\<close> goes on.\<close>

definition visit_dir ::
  "comparison_env \<Rightarrow> comparison_options \<Rightarrow> comparison_id \<Rightarrow> pending_dir \<Rightarrow> run_state \<Rightarrow> (run_state + run_state) option" where
  "visit_dir env opts i dir s =
    (if env_cancelled env (rs_clock s) then Some (Inl (tick s))
     else let key = (uri (pd_left dir), uri (pd_right dir)) in
       if key \<in> rs_visited s then Some (Inr (tick s))
       else
         (let s0 = (tick s)\<lparr>rs_visited := insert key (rs_visited s)\<rparr> in
          case list_all_pages env (pd_left dir) (rs_clock s0) of
            None \<Rightarrow> None
          | Some (None, t) \<Rightarrow> Some (Inr (s0\<lparr>rs_clock := t, rs_warnings := rs_warnings s0 + 1\<rparr>))
          | Some (Some xs, t) \<Rightarrow>
              (case list_all_pages env (pd_right dir) t of
                 None \<Rightarrow> None
               | Some (None, t') \<Rightarrow> Some (Inr (s0\<lparr>rs_clock := t', rs_warnings := rs_warnings s0 + 1\<rparr>))
               | Some (Some ys, t') \<Rightarrow>
                   Some (Inr (compare_names env opts i dir (index_by_name xs (co_show_hidden opts))
                     (index_by_name ys (co_show_hidden opts)) (all_names xs ys (co_show_hidden opts))
                     (s0\<lparr>rs_clock := t'\<rparr>))))))"

partial_function (option) run_loop ::
  "comparison_env \<Rightarrow> comparison_options \<Rightarrow> comparison_id \<Rightarrow> run_state \<Rightarrow> run_state option" where
  "run_loop env opts i s =
    (case rs_stack s of
       [] \<Rightarrow> Some s
     | dir # rest \<Rightarrow>
         Option.bind (visit_dir env opts i dir (s\<lparr>rs_stack := rest\<rparr>))
           (\<lambda>r. case r of Inl s' \<Rightarrow> Some s' | Inr s' \<Rightarrow> run_loop env opts i s'))"

declare run_loop.simps [code]

definition finish_run :: "comparison_env \<Rightarrow> comparison_options \<Rightarrow> comparison_id \<Rightarrow> run_state \<Rightarrow> run_state" where
  "finish_run env opts i s =
    (let s1 = flush i (co_operation_id opts) True s in
     case co_operation_id opts of
       Some oid \<Rightarrow> (tick s1)\<lparr>rs_events := rs_events s1 @ [OperationEvent (OperationStateChanged oid
         (if env_cancelled env (rs_clock s1) then Cancelled else Completed))]\<rparr>
     | None \<Rightarrow> s1)"

definition initial_run :: "comparison_store \<Rightarrow> comparison_event list \<Rightarrow> nat \<Rightarrow> location \<Rightarrow> location \<Rightarrow> run_state" where
  "initial_run store evs t left_root right_root = \<lparr>
     rs_stack = [\<lparr>pd_relative_path = [], pd_left = left_root, pd_right = right_root\<rparr>],
     rs_visited = {}, rs_buffer = [], rs_warnings = 0, rs_compared = 0, rs_clock = t, rs_store = store, rs_events = evs\<rparr>"

definition run_comparison ::
  "comparison_env \<Rightarrow> comparison_options \<Rightarrow> comparison_id \<Rightarrow> location \<Rightarrow> location \<Rightarrow> comparison_store \<Rightarrow>
   comparison_event list \<Rightarrow> nat \<Rightarrow> run_state option" where
  "run_comparison env opts i left_root right_root store evs t =
    map_option (finish_run env opts i) (run_loop env opts i (initial_run store evs t left_root right_root))"

text \<open>\<open>ComparisonEngine::start\<close> registers the comparison; the spawned task is \<open>run_comparison\<close> on the result.\<close>

definition comparison_start ::
  "comparison_env \<Rightarrow> comparison_options \<Rightarrow> comparison_id \<Rightarrow> location \<Rightarrow> location \<Rightarrow> comparison_store \<Rightarrow>
   comparison_error + comparison_store" where
  "comparison_start env opts i left_root right_root store =
    and_then (map_err InvalidRoot (env_resolve env left_root)) (\<lambda>_.
    and_then (map_err InvalidRoot (env_resolve env right_root)) (\<lambda>_.
      Inr (store_register store i left_root right_root (co_criteria opts))))"

definition comparison_cancel :: "comparison_store \<Rightarrow> comparison_id \<Rightarrow> comparison_error + (unit \<times> comparison_store)" where
  "comparison_cancel store i = ok_or (ComparisonNotFound i) (store_cancel store i)"

end
