(* ===== verification/Comparison_Laws.thy ===== *)
theory Comparison_Laws
  imports Comparison
begin

text \<open>
  What a comparison guarantees: every row it reports follows from complete listings of both sides, an
  uncancelled comparison of finitely many directories ends and reports every name, the published
  batches add up to the stored rows, and sync plans mirror when the sides are exchanged.
\<close>

section \<open>Names and indexes\<close>

lemma index_by_name_None: "index_by_name xs h n = None \<longleftrightarrow> n \<notin> set [es_name e. e \<leftarrow> xs, h \<or> \<not> es_hidden e]"
  by (auto simp: index_by_name_def map_of_eq_None_iff image_iff)

lemma set_all_names: "n \<in> set (all_names xs ys h) \<longleftrightarrow> index_by_name xs h n \<noteq> None \<or> index_by_name ys h n \<noteq> None"
  by (auto simp: index_by_name_None all_names_def)

lemma list_all2_ex: "list_all2 P xs ys \<Longrightarrow> x \<in> set xs \<Longrightarrow> \<exists>y \<in> set ys. P x y"
  by (induction rule: list_all2_induct) auto

lemma all_names_distinct: "distinct (all_names xs ys h)"
  by (simp add: all_names_def)

section \<open>What the rows of a comparison mean\<close>

text \<open>Pages of a listing, each read at some time.\<close>

inductive pages_from :: "comparison_env \<Rightarrow> location \<Rightarrow> string option \<Rightarrow> entry_summary list \<Rightarrow> bool" for env l where
  last_page: "env_list env t l token = Some page \<Longrightarrow> \<not> dp_has_more page \<Longrightarrow> pages_from env l token (dp_entries page)"
| more_pages: "env_list env t l token = Some page \<Longrightarrow> dp_has_more page \<Longrightarrow> pages_from env l (dp_token page) ys
    \<Longrightarrow> pages_from env l token (dp_entries page @ ys)"

definition complete_listing :: "comparison_env \<Rightarrow> location \<Rightarrow> entry_summary list \<Rightarrow> bool" where
  "complete_listing env l xs \<longleftrightarrow> is_ok (env_resolve env l) \<and> env_can_list env l \<and> pages_from env l None xs"

text \<open>The directory pairs a comparison descends into, given what counts as a listing.\<close>

inductive dir_pair ::
  "(location \<Rightarrow> entry_summary list \<Rightarrow> bool) \<Rightarrow> bool \<Rightarrow> location \<Rightarrow> location \<Rightarrow> string \<Rightarrow> location \<Rightarrow> location \<Rightarrow> bool"
  for L h left_root right_root where
  roots: "dir_pair L h left_root right_root [] left_root right_root"
| descend: "dir_pair L h left_root right_root p l r \<Longrightarrow> L l xs \<Longrightarrow> L r ys
    \<Longrightarrow> index_by_name xs h name = Some a \<Longrightarrow> index_by_name ys h name = Some b
    \<Longrightarrow> es_kind a = Directory \<Longrightarrow> es_kind b = Directory
    \<Longrightarrow> dir_pair L h left_root right_root (relative_join p name) (es_location a) (es_location b)"

fun row_matches ::
  "comparison_env \<Rightarrow> comparison_options \<Rightarrow> string \<Rightarrow> entry_summary option \<Rightarrow> entry_summary option \<Rightarrow> comparison_entry \<Rightarrow> bool" where
  "row_matches env opts path (Some a) None row \<longleftrightarrow>
    row = \<lparr>ce_relative_path = path, ce_left = Some (side_from a None), ce_right = None, ce_status = OnlyLeft\<rparr>"
| "row_matches env opts path None (Some b) row \<longleftrightarrow>
    row = \<lparr>ce_relative_path = path, ce_left = None, ce_right = Some (side_from b None), ce_status = OnlyRight\<rparr>"
| "row_matches env opts path (Some a) (Some b) row \<longleftrightarrow>
    (\<exists>hl hr. (hl \<noteq> None \<or> hr \<noteq> None \<longrightarrow> co_criteria opts = ContentHash \<and> es_kind a = File \<and> es_kind b = File)
      \<and> row = \<lparr>ce_relative_path = path, ce_left = Some (side_from a hl), ce_right = Some (side_from b hr),
          ce_status = classify (env_secs env) (side_from a hl) (side_from b hr) (co_criteria opts)\<rparr>)"
| "row_matches env opts path None None row \<longleftrightarrow> False"

definition justified ::
  "comparison_env \<Rightarrow> comparison_options \<Rightarrow> location \<Rightarrow> location \<Rightarrow> comparison_entry \<Rightarrow> bool" where
  "justified env opts left_root right_root row \<longleftrightarrow>
    (\<exists>p l r xs ys name. dir_pair (complete_listing env) (co_show_hidden opts) left_root right_root p l r
      \<and> complete_listing env l xs \<and> complete_listing env r ys
      \<and> row_matches env opts (relative_join p name) (index_by_name xs (co_show_hidden opts) name)
          (index_by_name ys (co_show_hidden opts) name) row)"

section \<open>Effects of the steps\<close>

definition rows :: "comparison_id \<Rightarrow> run_state \<Rightarrow> comparison_entry list" where
  "rows i s = (case rs_store s i of Some st \<Rightarrow> cs_entries st | None \<Rightarrow> []) @ rs_buffer s"

definition child_dirs :: "pending_dir \<Rightarrow> string \<Rightarrow> entry_summary option \<Rightarrow> entry_summary option \<Rightarrow> pending_dir list" where
  "child_dirs dir name left right =
    (case (left, right) of
       (Some a, Some b) \<Rightarrow>
         if es_kind a = Directory \<and> es_kind b = Directory
         then [\<lparr>pd_relative_path = relative_join (pd_relative_path dir) name, pd_left = es_location a, pd_right = es_location b\<rparr>]
         else []
     | _ \<Rightarrow> [])"

fun batch_rows :: "comparison_event list \<Rightarrow> comparison_entry list" where
  "batch_rows [] = []"
| "batch_rows (ComparisonResultsBatch i es c w # evs) = es @ batch_rows evs"
| "batch_rows (e # evs) = batch_rows evs"

fun batch_flags :: "comparison_event list \<Rightarrow> bool list" where
  "batch_flags [] = []"
| "batch_flags (ComparisonResultsBatch i es c w # evs) = c # batch_flags evs"
| "batch_flags (e # evs) = batch_flags evs"

lemma batch_append [simp]:
  "batch_rows (xs @ ys) = batch_rows xs @ batch_rows ys" "batch_flags (xs @ ys) = batch_flags xs @ batch_flags ys"
  by (induction xs rule: batch_rows.induct; simp)+

lemma batch_progress [simp]:
  "batch_rows (progress_event k n # evs) = batch_rows evs" "batch_flags (progress_event k n # evs) = batch_flags evs"
  by (simp_all add: progress_event_def)

text \<open>The store holds what has been published, and nothing is final yet.\<close>

definition streaming :: "comparison_id \<Rightarrow> run_state \<Rightarrow> bool" where
  "streaming i s \<longleftrightarrow> (\<exists>st. rs_store s i = Some st \<and> \<not> cs_complete st \<and> cs_entries st = batch_rows (rs_events s))
    \<and> True \<notin> set (batch_flags (rs_events s))"

lemma flush_effect:
  assumes "streaming i s"
  shows "streaming i (flush i op False s)" "rows i (flush i op False s) = rows i s"
    "rs_stack (flush i op False s) = rs_stack s" "rs_visited (flush i op False s) = rs_visited s"
    "rs_clock (flush i op False s) = rs_clock s"
  using assms
  by (auto simp: streaming_def rows_def flush_def store_append_def Let_def split: option.splits)

lemma flush_if_due_effect:
  assumes "streaming i s"
  shows "streaming i (flush_if_due env opts i s)" "rows i (flush_if_due env opts i s) = rows i s"
    "rs_stack (flush_if_due env opts i s) = rs_stack s" "rs_visited (flush_if_due env opts i s) = rs_visited s"
    "rs_clock s \<le> rs_clock (flush_if_due env opts i s)"
proof -
  have t: "streaming i (tick s)" "rows i (tick s) = rows i s" "rs_stack (tick s) = rs_stack s"
    "rs_visited (tick s) = rs_visited s" "rs_clock (tick s) = Suc (rs_clock s)"
    using assms by (simp_all add: tick_def streaming_def rows_def)
  then show "streaming i (flush_if_due env opts i s)" "rows i (flush_if_due env opts i s) = rows i s"
    "rs_stack (flush_if_due env opts i s) = rs_stack s" "rs_visited (flush_if_due env opts i s) = rs_visited s"
    "rs_clock s \<le> rs_clock (flush_if_due env opts i s)"
    using flush_effect [OF t(1)] by (auto simp: flush_if_due_def)
qed

lemma push_row_effect:
  "rows i (push_row row s) = rows i s @ [row]" "streaming i (push_row row s) = streaming i s"
  "rs_stack (push_row row s) = rs_stack s" "rs_visited (push_row row s) = rs_visited s" "rs_clock (push_row row s) = rs_clock s"
  by (simp_all add: rows_def push_row_def streaming_def)

lemma hash_pair_effect:
  assumes "hash_pair env opts a b s = (hl, hr, s')"
  shows "rows i s' = rows i s" "streaming i s' = streaming i s" "rs_stack s' = rs_stack s" "rs_visited s' = rs_visited s"
    "rs_clock s \<le> rs_clock s'"
    "hl \<noteq> None \<or> hr \<noteq> None \<longrightarrow> co_criteria opts = ContentHash \<and> es_kind a = File \<and> es_kind b = File"
  using assms by (auto simp: hash_pair_def Let_def rows_def streaming_def split: if_splits)

text \<open>A step that reports one row and perhaps a new directory pair.\<close>

definition reports ::
  "comparison_env \<Rightarrow> comparison_options \<Rightarrow> comparison_id \<Rightarrow> pending_dir \<Rightarrow> string \<Rightarrow> entry_summary option \<Rightarrow>
   entry_summary option \<Rightarrow> run_state \<Rightarrow> run_state \<Rightarrow> bool" where
  "reports env opts i dir name a b s s' \<longleftrightarrow> streaming i s' \<and> rs_visited s' = rs_visited s \<and> rs_clock s \<le> rs_clock s'
    \<and> rs_stack s' = child_dirs dir name a b @ rs_stack s
    \<and> (\<exists>row. rows i s' = rows i s @ [row] \<and> row_matches env opts (relative_join (pd_relative_path dir) name) a b row)"

lemma compare_name_reports:
  assumes "streaming i s" and "a \<noteq> None \<or> b \<noteq> None"
  shows "reports env opts i dir name a b s (compare_name env opts i dir name a b s)"
proof -
  have pushed: "reports env opts i dir name a b s (flush_if_due env opts i (push_row row s1))"
    if "child_dirs dir name a b = []" "row_matches env opts (relative_join (pd_relative_path dir) name) a b row"
      "rows i s1 = rows i s" "streaming i s1" "rs_stack s1 = rs_stack s" "rs_visited s1 = rs_visited s" "rs_clock s \<le> rs_clock s1"
    for row s1
    using flush_if_due_effect [of i "push_row row s1" env opts] that by (simp add: reports_def push_row_effect)
  consider (left) x where "a = Some x" "b = None" | (right) y where "a = None" "b = Some y"
    | (dirs) x y where "a = Some x" "b = Some y" "es_kind x = Directory" "es_kind y = Directory"
    | (both) x y where "a = Some x" "b = Some y" "\<not> (es_kind x = Directory \<and> es_kind y = Directory)"
    using assms(2) by (cases a; cases b) (simp, simp, simp, metis)
  then show ?thesis
  proof cases
    case (dirs x y)
    then show ?thesis using assms(1)
      by (auto simp: reports_def compare_name_def push_row_def rows_def streaming_def child_dirs_def classify_def side_from_def Let_def)
  next
    case (both x y)
    obtain hl hr s1 where hp: "hash_pair env opts x y s = (hl, hr, s1)" by (metis prod_cases3)
    have "row_matches env opts (relative_join (pd_relative_path dir) name) a b
      \<lparr>ce_relative_path = relative_join (pd_relative_path dir) name, ce_left = Some (side_from x hl), ce_right = Some (side_from y hr),
       ce_status = classify (env_secs env) (side_from x hl) (side_from y hr) (co_criteria opts)\<rparr>"
      using both hash_pair_effect(6) [OF hp] by auto
    from pushed [OF _ this, of s1] show ?thesis
      using both hp hash_pair_effect [OF hp] assms(1) by (auto simp: compare_name_def child_dirs_def Let_def)
  qed (use pushed [of _ s] assms(1) in \<open>simp_all add: compare_name_def child_dirs_def Let_def\<close>)
qed

text \<open>A loop over names reports rows for an initial part of them; for all of them if nobody cancels, and for
  none if the comparison was cancelled before it started.\<close>

lemma compare_names_reports:
  assumes "streaming i s" and "\<forall>n \<in> set names. L n \<noteq> None \<or> R n \<noteq> None"
  shows "\<exists>k rws. let s' = compare_names env opts i dir L R names s in
    streaming i s' \<and> rs_visited s' = rs_visited s \<and> rs_clock s \<le> rs_clock s'
    \<and> rows i s' = rows i s @ rws
    \<and> list_all2 (\<lambda>n row. row_matches env opts (relative_join (pd_relative_path dir) n) (L n) (R n) row) (take k names) rws
    \<and> set (rs_stack s') = set (rs_stack s) \<union> (\<Union>n \<in> set (take k names). set (child_dirs dir n (L n) (R n)))
    \<and> (env_cancelled env (rs_clock s) \<longrightarrow> k = 0)
    \<and> ((\<forall>t. \<not> env_cancelled env t) \<longrightarrow> k = length names)"
  using assms
proof (induction names arbitrary: s)
  case Nil
  then show ?case by (auto simp: Let_def intro!: exI [of _ 0])
next
  case (Cons n names)
  show ?case
  proof (cases "env_cancelled env (rs_clock s)")
    case True
    then show ?thesis using Cons.prems
      by (intro exI [of _ 0] exI [of _ "[]"]) (auto simp: Let_def tick_def rows_def streaming_def)
  next
    case False
    let ?s1 = "compare_name env opts i dir n (L n) (R n) (tick s)"
    have tick: "streaming i (tick s)" "rows i (tick s) = rows i s" "rs_stack (tick s) = rs_stack s"
      "rs_visited (tick s) = rs_visited s" "rs_clock (tick s) = Suc (rs_clock s)"
      using Cons.prems(1) by (simp_all add: tick_def streaming_def rows_def)
    have rep: "reports env opts i dir n (L n) (R n) (tick s) ?s1"
      using compare_name_reports [OF tick(1)] Cons.prems(2) by simp
    then have "streaming i ?s1" by (simp add: reports_def)
    from Cons.IH [OF this] Cons.prems(2) obtain k rws where IH: "let s' = compare_names env opts i dir L R names ?s1 in
      streaming i s' \<and> rs_visited s' = rs_visited ?s1 \<and> rs_clock ?s1 \<le> rs_clock s'
      \<and> rows i s' = rows i ?s1 @ rws
      \<and> list_all2 (\<lambda>n row. row_matches env opts (relative_join (pd_relative_path dir) n) (L n) (R n) row) (take k names) rws
      \<and> set (rs_stack s') = set (rs_stack ?s1) \<union> (\<Union>n \<in> set (take k names). set (child_dirs dir n (L n) (R n)))
      \<and> (env_cancelled env (rs_clock ?s1) \<longrightarrow> k = 0)
      \<and> ((\<forall>t. \<not> env_cancelled env t) \<longrightarrow> k = length names)"
      by auto
    obtain row where row: "rows i ?s1 = rows i s @ [row]"
      "row_matches env opts (relative_join (pd_relative_path dir) n) (L n) (R n) row"
      using rep tick by (auto simp: reports_def)
    show ?thesis
      using IH rep False row tick
      by (intro exI [of _ "Suc k"] exI [of _ "row # rws"]) (auto simp: Let_def reports_def)
  qed
qed

section \<open>Listings\<close>

definition sticky :: "comparison_env \<Rightarrow> bool" where
  "sticky env \<longleftrightarrow> (\<forall>t t'. env_cancelled env t \<longrightarrow> t \<le> t' \<longrightarrow> env_cancelled env t')"

lemma list_pages_sound:
  assumes "list_pages env l acc token t = Some r" and "sticky env"
  shows "t \<le> snd r \<and> (\<forall>zs. fst r = Some zs \<longrightarrow>
    env_cancelled env (snd r) \<or> (\<exists>ys. zs = acc @ ys \<and> pages_from env l token ys))"
  using assms
proof (induction rule: list_pages.raw_induct [rotated 1, consumes 1, case_names 1])
  case (1 list_pages env l acc token t r)
  show ?case
  proof (cases "env_cancelled env t")
    case True
    then have "r = (Some acc, Suc t)" using 1(2) by auto
    then show ?thesis using True 1(3) by (auto simp: sticky_def)
  next
    case False
    show ?thesis
    proof (cases "env_list env (Suc t) l token")
      case None
      then show ?thesis using 1(2) False by auto
    next
      case (Some page)
      show ?thesis
      proof (cases "dp_has_more page")
        case True
        then have rec: "list_pages env l (acc @ dp_entries page) (dp_token page) (t + 2) = Some r"
          using 1(2) False Some by simp
        from 1(1) [OF rec 1(3)] show ?thesis
          using more_pages [OF Some True] by (auto simp: append_assoc)
      next
        case no_more: False
        then show ?thesis using 1(2) False Some last_page [OF Some] by auto
      qed
    qed
  qed
qed

lemma list_all_sound:
  assumes "list_all_pages env l t = Some (Some zs, t')" and "sticky env"
  shows "t \<le> t'" "env_cancelled env t' \<or> complete_listing env l zs"
  using assms list_pages_sound [of env l "[]" None t "(Some zs, t')"]
  by (auto simp: list_all_pages_def complete_listing_def split: if_splits)

lemma list_all_clock:
  assumes "list_all_pages env l t = Some (r, t')" and "sticky env"
  shows "t \<le> t'"
  using assms list_pages_sound [of env l "[]" None t "(r, t')"]
  by (auto simp: list_all_pages_def split: if_splits)

section \<open>Soundness\<close>

definition sound_state :: "comparison_env \<Rightarrow> comparison_options \<Rightarrow> comparison_id \<Rightarrow> location \<Rightarrow> location \<Rightarrow> run_state \<Rightarrow> bool" where
  "sound_state env opts i lr rr s \<longleftrightarrow> streaming i s \<and> (\<forall>row \<in> set (rows i s). justified env opts lr rr row)
    \<and> (\<forall>d \<in> set (rs_stack s). dir_pair (complete_listing env) (co_show_hidden opts) lr rr (pd_relative_path d) (pd_left d) (pd_right d))"

lemma sound_state_cong:
  assumes "sound_state env opts i lr rr s" "rs_store s' = rs_store s" "rs_buffer s' = rs_buffer s" "rs_events s' = rs_events s"
    "rs_stack s' = rs_stack s"
  shows "sound_state env opts i lr rr s'"
  using assms by (simp add: sound_state_def streaming_def rows_def)

lemma compare_names_sound:
  assumes "sound_state env opts i lr rr s"
    and dir: "dir_pair (complete_listing env) (co_show_hidden opts) lr rr (pd_relative_path dir) (pd_left dir) (pd_right dir)"
    and xs: "env_cancelled env (rs_clock s) \<or> complete_listing env (pd_left dir) xs"
    and ys: "env_cancelled env (rs_clock s) \<or> complete_listing env (pd_right dir) ys"
    and L: "L = index_by_name xs (co_show_hidden opts)" and R: "R = index_by_name ys (co_show_hidden opts)"
  shows "sound_state env opts i lr rr (compare_names env opts i dir L R (all_names xs ys (co_show_hidden opts)) s)"
proof -
  let ?names = "all_names xs ys (co_show_hidden opts)"
  let ?s' = "compare_names env opts i dir L R ?names s"
  have str: "streaming i s" using assms(1) by (simp add: sound_state_def)
  have "\<forall>n \<in> set ?names. L n \<noteq> None \<or> R n \<noteq> None" using set_all_names by (simp add: L R)
  from compare_names_reports [OF str this, of env opts dir] obtain k rws where eff:
    "streaming i ?s'" "rows i ?s' = rows i s @ rws"
    "list_all2 (\<lambda>n row. row_matches env opts (relative_join (pd_relative_path dir) n) (L n) (R n) row) (take k ?names) rws"
    "set (rs_stack ?s') = set (rs_stack s) \<union> (\<Union>n \<in> set (take k ?names). set (child_dirs dir n (L n) (R n)))"
    "env_cancelled env (rs_clock s) \<longrightarrow> k = 0"
    by (auto simp: Let_def)
  have listed: "complete_listing env (pd_left dir) xs \<and> complete_listing env (pd_right dir) ys" if "0 < k"
    using that eff(5) xs ys by auto
  have "justified env opts lr rr row" if row: "row \<in> set rws" for row
  proof -
    obtain n where n: "row_matches env opts (relative_join (pd_relative_path dir) n) (L n) (R n) row"
      using eff(3) row by (fastforce simp: list_all2_iff in_set_zip in_set_conv_nth)
    moreover have "0 < k" using eff(3) row by (cases k) auto
    ultimately show ?thesis using dir listed unfolding justified_def L R by blast
  qed
  moreover have "dir_pair (complete_listing env) (co_show_hidden opts) lr rr (pd_relative_path d) (pd_left d) (pd_right d)"
    if d: "n \<in> set (take k ?names)" "d \<in> set (child_dirs dir n (L n) (R n))" for n d
  proof -
    have "0 < k" using d(1) by (cases k) auto
    moreover obtain a b where "L n = Some a" "R n = Some b" "es_kind a = Directory" "es_kind b = Directory"
      "d = \<lparr>pd_relative_path = relative_join (pd_relative_path dir) n, pd_left = es_location a, pd_right = es_location b\<rparr>"
      using d(2) unfolding child_dirs_def by (cases "L n"; cases "R n") (auto split: if_splits)
    ultimately show ?thesis using descend [OF dir, of xs ys n a b] listed by (simp add: L R)
  qed
  ultimately show ?thesis using assms(1) eff by (auto simp: sound_state_def)
qed

lemma visit_dir_sound:
  assumes "visit_dir env opts i dir s = Some r" and "sound_state env opts i lr rr s" and "sticky env"
    and dir: "dir_pair (complete_listing env) (co_show_hidden opts) lr rr (pd_relative_path dir) (pd_left dir) (pd_right dir)"
  shows "sound_state env opts i lr rr (case r of Inl s' \<Rightarrow> s' | Inr s' \<Rightarrow> s')"
proof -
  let ?s0 = "(tick s)\<lparr>rs_visited := insert (uri (pd_left dir), uri (pd_right dir)) (rs_visited s)\<rparr>"
  have other: "sound_state env opts i lr rr (?s0\<lparr>rs_clock := t, rs_warnings := w\<rparr>)"
      "sound_state env opts i lr rr (?s0\<lparr>rs_clock := t\<rparr>)" "sound_state env opts i lr rr (tick s)" for t w
    by (rule sound_state_cong [OF assms(2)]; simp add: tick_def)+
  consider (trivial) "r = Inl (tick s)" | (again) "r = Inr (tick s)"
    | (unlisted) t where "r = Inr (?s0\<lparr>rs_clock := t, rs_warnings := rs_warnings ?s0 + 1\<rparr>)"
    | (listed) xs ys t t' where "list_all_pages env (pd_left dir) (rs_clock ?s0) = Some (Some xs, t)"
        "list_all_pages env (pd_right dir) t = Some (Some ys, t')"
        "r = Inr (compare_names env opts i dir (index_by_name xs (co_show_hidden opts))
           (index_by_name ys (co_show_hidden opts)) (all_names xs ys (co_show_hidden opts)) (?s0\<lparr>rs_clock := t'\<rparr>))"
    using assms(1) by (auto simp: visit_dir_def Let_def split: if_splits option.splits prod.splits)
  then show ?thesis
  proof cases
    case (listed xs ys t t')
    note l = list_all_sound [OF listed(1) assms(3)] and r = list_all_sound [OF listed(2) assms(3)]
    have "env_cancelled env t' \<or> complete_listing env (pd_left dir) xs"
      using l(2) r(1) assms(3) by (auto simp: sticky_def)
    then show ?thesis
      using compare_names_sound [OF other(2) [of t'] dir _ _ refl refl, of xs ys] r(2) listed(3) by simp
  qed (use other in simp_all)
qed

lemma run_loop_sound:
  assumes "run_loop env opts i s = Some s'" and "sound_state env opts i lr rr s" and "sticky env"
  shows "sound_state env opts i lr rr s'"
  using assms
proof (induction rule: run_loop.raw_induct [rotated 1, consumes 1, case_names 1])
  case (1 run_loop env opts i s s')
  show ?case
  proof (cases "rs_stack s")
    case Nil
    then show ?thesis using 1(2,3) by simp
  next
    case (Cons dir rest)
    have "sound_state env opts i lr rr (s\<lparr>rs_stack := rest\<rparr>)"
      using 1(3) Cons by (auto simp: sound_state_def streaming_def rows_def)
    moreover have "dir_pair (complete_listing env) (co_show_hidden opts) lr rr (pd_relative_path dir) (pd_left dir) (pd_right dir)"
      using 1(3) Cons by (auto simp: sound_state_def)
    ultimately have visit: "sound_state env opts i lr rr (case r of Inl s' \<Rightarrow> s' | Inr s' \<Rightarrow> s')"
      if "visit_dir env opts i dir (s\<lparr>rs_stack := rest\<rparr>) = Some r" for r
      using visit_dir_sound that 1(4) by blast
    obtain r where r: "visit_dir env opts i dir (s\<lparr>rs_stack := rest\<rparr>) = Some r"
      "(case r of Inl s1 \<Rightarrow> Some s1 | Inr s1 \<Rightarrow> run_loop env opts i s1) = Some s'"
      using 1(2) Cons by (auto simp: bind_eq_Some_conv)
    show ?thesis
    proof (cases r)
      case (Inl s1)
      then show ?thesis using visit [OF r(1)] r(2) by simp
    next
      case (Inr s1)
      then show ?thesis using visit [OF r(1)] r(2) 1(1) [of env opts i s1 s'] 1(4) by simp
    qed
  qed
qed

section \<open>Completeness and termination\<close>

text \<open>Nobody cancels, and every listing ends and stays what it is.\<close>

definition quiet :: "comparison_env \<Rightarrow> (location \<Rightarrow> entry_summary list option) \<Rightarrow> bool" where
  "quiet env children \<longleftrightarrow> (\<forall>t. \<not> env_cancelled env t) \<and> (\<forall>l t. \<exists>t'. list_all_pages env l t = Some (children l, t'))"

definition pair_of ::
  "(location \<Rightarrow> entry_summary list option) \<Rightarrow> comparison_options \<Rightarrow> location \<Rightarrow> location \<Rightarrow> string \<Rightarrow> location \<Rightarrow> location \<Rightarrow> bool" where
  "pair_of children opts lr rr = dir_pair (\<lambda>l xs. children l = Some xs) (co_show_hidden opts) lr rr"

definition key :: "pending_dir \<Rightarrow> string \<times> string" where
  "key d = (uri (pd_left d), uri (pd_right d))"

text \<open>No directory pair is reached twice under one pair of locations.\<close>

definition tree_like ::
  "(location \<Rightarrow> entry_summary list option) \<Rightarrow> comparison_options \<Rightarrow> location \<Rightarrow> location \<Rightarrow> bool" where
  "tree_like children opts lr rr \<longleftrightarrow> (\<forall>p l r p' l' r'. pair_of children opts lr rr p l r \<longrightarrow> pair_of children opts lr rr p' l' r'
    \<longrightarrow> uri l = uri l' \<longrightarrow> uri r = uri r' \<longrightarrow> p = p' \<and> l = l' \<and> r = r')"

definition expanded ::
  "comparison_env \<Rightarrow> comparison_options \<Rightarrow> comparison_id \<Rightarrow> (location \<Rightarrow> entry_summary list option) \<Rightarrow> run_state \<Rightarrow> pending_dir \<Rightarrow> bool" where
  "expanded env opts i children s d \<longleftrightarrow> (\<forall>xs ys n. children (pd_left d) = Some xs \<longrightarrow> children (pd_right d) = Some ys
    \<longrightarrow> n \<in> set (all_names xs ys (co_show_hidden opts))
    \<longrightarrow> (\<exists>row \<in> set (rows i s). row_matches env opts (relative_join (pd_relative_path d) n)
          (index_by_name xs (co_show_hidden opts) n) (index_by_name ys (co_show_hidden opts) n) row)
      \<and> (\<forall>e \<in> set (child_dirs d n (index_by_name xs (co_show_hidden opts) n) (index_by_name ys (co_show_hidden opts) n)).
          e \<in> set (rs_stack s) \<or> key e \<in> rs_visited s))"

definition dir_of :: "string \<Rightarrow> location \<Rightarrow> location \<Rightarrow> pending_dir" where
  "dir_of p l r = \<lparr>pd_relative_path = p, pd_left = l, pd_right = r\<rparr>"

definition covering ::
  "comparison_env \<Rightarrow> comparison_options \<Rightarrow> comparison_id \<Rightarrow> (location \<Rightarrow> entry_summary list option) \<Rightarrow> location \<Rightarrow> location \<Rightarrow> run_state \<Rightarrow> bool" where
  "covering env opts i children lr rr s \<longleftrightarrow> streaming i s
    \<and> (\<forall>d \<in> set (rs_stack s). pair_of children opts lr rr (pd_relative_path d) (pd_left d) (pd_right d))
    \<and> (dir_of [] lr rr \<in> set (rs_stack s) \<or> (uri lr, uri rr) \<in> rs_visited s)
    \<and> (\<forall>p l r. pair_of children opts lr rr p l r \<longrightarrow> (uri l, uri r) \<in> rs_visited s \<longrightarrow> expanded env opts i children s (dir_of p l r))"

lemma expanded_mono:
  assumes "expanded env opts i children s d" "set (rows i s) \<subseteq> set (rows i s')"
    "\<And>e. e \<in> set (rs_stack s) \<or> key e \<in> rs_visited s \<Longrightarrow> e \<in> set (rs_stack s') \<or> key e \<in> rs_visited s'"
  shows "expanded env opts i children s' d"
  using assms unfolding expanded_def by blast

lemma covering_step:
  assumes cov: "covering env opts i children lr rr s" and "rs_stack s = dir # rest"
    and str: "streaming i s'" and rws: "set (rows i s) \<subseteq> set (rows i s')"
    and stack: "set rest \<subseteq> set (rs_stack s')"
    and new: "\<And>d. d \<in> set (rs_stack s') \<Longrightarrow> d \<notin> set rest \<Longrightarrow> pair_of children opts lr rr (pd_relative_path d) (pd_left d) (pd_right d)"
    and vis: "rs_visited s' = insert (key dir) (rs_visited s)"
    and exp: "key dir \<notin> rs_visited s \<Longrightarrow> expanded env opts i children s' dir"
    and tree: "tree_like children opts lr rr"
  shows "covering env opts i children lr rr s'"
proof -
  have keep: "e \<in> set (rs_stack s') \<or> key e \<in> rs_visited s'" if "e \<in> set (rs_stack s) \<or> key e \<in> rs_visited s" for e
    using that assms(2) stack vis by auto
  have dir: "pair_of children opts lr rr (pd_relative_path dir) (pd_left dir) (pd_right dir)"
    using cov assms(2) by (simp add: covering_def)
  have "expanded env opts i children s' (dir_of p l r)"
    if pr: "pair_of children opts lr rr p l r" "(uri l, uri r) \<in> rs_visited s'" for p l r
  proof (cases "(uri l, uri r) \<in> rs_visited s")
    case True
    then show ?thesis using cov pr(1) expanded_mono [OF _ rws keep] by (auto simp: covering_def)
  next
    case False
    then have "uri l = uri (pd_left dir)" "uri r = uri (pd_right dir)" using pr(2) vis by (auto simp: key_def)
    then have "dir_of p l r = dir" using tree pr(1) dir unfolding tree_like_def by (cases dir) (auto simp: dir_of_def)
    then show ?thesis using exp False pr(2) vis by (auto simp: key_def dir_of_def)
  qed
  moreover have "dir_of [] lr rr \<in> set (rs_stack s') \<or> (uri lr, uri rr) \<in> rs_visited s'"
    using cov keep [of "dir_of [] lr rr"] by (auto simp: covering_def key_def dir_of_def)
  ultimately show ?thesis using cov str new assms(2) unfolding covering_def by auto
qed

lemma visit_dir_covering:
  assumes cov: "covering env opts i children lr rr s" and st: "rs_stack s = dir # rest"
    and q: "quiet env children" and tree: "tree_like children opts lr rr"
  shows "\<exists>s'. visit_dir env opts i dir (s\<lparr>rs_stack := rest\<rparr>) = Some (Inr s') \<and> covering env opts i children lr rr s'
    \<and> rs_visited s' = insert (key dir) (rs_visited s)
    \<and> (key dir \<in> rs_visited s \<longrightarrow> rs_stack s' = rest)"
proof -
  let ?h = "co_show_hidden opts"
  have cancel: "\<not> env_cancelled env t" for t using q by (simp add: quiet_def)
  have str: "streaming i s" using cov by (simp add: covering_def)
  have dir: "pair_of children opts lr rr (pd_relative_path dir) (pd_left dir) (pd_right dir)"
    using cov st by (simp add: covering_def)
  show ?thesis
  proof (cases "key dir \<in> rs_visited s")
    case True
    let ?s' = "tick (s\<lparr>rs_stack := rest\<rparr>)"
    have "covering env opts i children lr rr ?s'"
      by (rule covering_step [OF cov st]) (use True str tree in \<open>auto simp: tick_def rows_def streaming_def\<close>)
    then show ?thesis using True cancel by (auto simp: visit_dir_def key_def tick_def)
  next
    case False
    let ?s0 = "(tick (s\<lparr>rs_stack := rest\<rparr>))\<lparr>rs_visited := insert (key dir) (rs_visited s)\<rparr>"
    obtain t where l: "list_all_pages env (pd_left dir) (rs_clock ?s0) = Some (children (pd_left dir), t)"
      using q unfolding quiet_def by blast
    obtain t' where r: "list_all_pages env (pd_right dir) t = Some (children (pd_right dir), t')"
      using q unfolding quiet_def by blast
    show ?thesis
    proof (cases "children (pd_left dir) = None \<or> children (pd_right dir) = None")
      case True
      have "\<exists>u. visit_dir env opts i dir (s\<lparr>rs_stack := rest\<rparr>) = Some (Inr (?s0\<lparr>rs_clock := u, rs_warnings := rs_warnings s + 1\<rparr>))"
      proof (cases "children (pd_left dir)")
        case None
        then show ?thesis using l False cancel
          by (intro exI [of _ t]) (simp add: visit_dir_def Let_def key_def tick_def)
      next
        case (Some xs)
        then have "children (pd_right dir) = None" using True by simp
        then show ?thesis using l r Some False cancel
          by (intro exI [of _ t']) (simp add: visit_dir_def Let_def key_def tick_def)
      qed
      then obtain u where v: "visit_dir env opts i dir (s\<lparr>rs_stack := rest\<rparr>)
          = Some (Inr (?s0\<lparr>rs_clock := u, rs_warnings := rs_warnings s + 1\<rparr>))" ..
      have "covering env opts i children lr rr (?s0\<lparr>rs_clock := u, rs_warnings := rs_warnings s + 1\<rparr>)"
        by (rule covering_step [OF cov st]) (use True str tree in \<open>auto simp: tick_def rows_def streaming_def expanded_def\<close>)
      then show ?thesis using v False by (auto simp: tick_def)
    next
      case listed: False
      then obtain xs ys where xs: "children (pd_left dir) = Some xs" and ys: "children (pd_right dir) = Some ys" by auto
      let ?names = "all_names xs ys ?h" and ?L = "index_by_name xs ?h" and ?R = "index_by_name ys ?h"
      define s1 where "s1 = ?s0\<lparr>rs_clock := t'\<rparr>"
      let ?s' = "compare_names env opts i dir ?L ?R ?names s1"
      have s1: "streaming i s1" "rows i s1 = rows i s" "rs_stack s1 = rest" "rs_visited s1 = insert (key dir) (rs_visited s)"
        using str by (simp_all add: s1_def tick_def streaming_def rows_def)
      have v: "visit_dir env opts i dir (s\<lparr>rs_stack := rest\<rparr>) = Some (Inr ?s')"
        using l r xs ys False cancel by (simp add: visit_dir_def Let_def key_def tick_def s1_def)
      have "\<forall>n \<in> set ?names. ?L n \<noteq> None \<or> ?R n \<noteq> None" by (simp add: set_all_names)
      from compare_names_reports [OF s1(1) this, of env opts dir] cancel obtain k rws where eff:
        "streaming i ?s'" "rs_visited ?s' = insert (key dir) (rs_visited s)" "rows i ?s' = rows i s @ rws"
        "list_all2 (\<lambda>n row. row_matches env opts (relative_join (pd_relative_path dir) n) (?L n) (?R n) row) ?names rws"
        "set (rs_stack ?s') = set rest \<union> (\<Union>n \<in> set ?names. set (child_dirs dir n (?L n) (?R n)))"
        by (auto simp: Let_def s1)
      have "expanded env opts i children ?s' dir"
        unfolding expanded_def eff(3) eff(5) using xs ys list_all2_ex [OF eff(4)] by (auto simp del: row_matches.simps)
      moreover have "pair_of children opts lr rr (pd_relative_path d) (pd_left d) (pd_right d)"
        if "n \<in> set ?names" "d \<in> set (child_dirs dir n (?L n) (?R n))" for n d
        using that(2) dir_pair.descend [OF dir [unfolded pair_of_def] xs ys, of n]
        unfolding child_dirs_def pair_of_def by (cases "?L n"; cases "?R n") (auto split: if_splits)
      ultimately have "covering env opts i children lr rr ?s'"
        by (intro covering_step [OF cov st eff(1) _ _ _ eff(2) _ tree]) (auto simp: eff(3,5))
      then show ?thesis using v False eff(2) by auto
    qed
  qed
qed

lemma run_loop_covering:
  assumes "covering env opts i children lr rr s" and "quiet env children" and "tree_like children opts lr rr"
    and fin: "finite U" and U: "\<And>p l r. pair_of children opts lr rr p l r \<Longrightarrow> (uri l, uri r) \<in> U"
  shows "\<exists>s'. run_loop env opts i s = Some s' \<and> covering env opts i children lr rr s' \<and> rs_stack s' = []"
  using assms(1)
proof (induction s rule: wf_induct_rule [OF wf_measures, of "[\<lambda>s. card (U - rs_visited s), \<lambda>s. length (rs_stack s)]"])
  case (1 s)
  show ?case
  proof (cases "rs_stack s")
    case Nil
    then show ?thesis using 1(2) by (subst run_loop.simps) simp
  next
    case (Cons dir rest)
    obtain s' where s': "visit_dir env opts i dir (s\<lparr>rs_stack := rest\<rparr>) = Some (Inr s')" "covering env opts i children lr rr s'"
      "rs_visited s' = insert (key dir) (rs_visited s)" "key dir \<in> rs_visited s \<longrightarrow> rs_stack s' = rest"
      using visit_dir_covering [OF 1(2) Cons assms(2,3)] by blast
    have "key dir \<in> U" using 1(2) Cons U [of "pd_relative_path dir" "pd_left dir" "pd_right dir"] by (simp add: covering_def key_def)
    then have less: "card (U - rs_visited s') < card (U - rs_visited s)" if "key dir \<notin> rs_visited s"
      using that s'(3) fin by (intro psubset_card_mono) auto
    have "(s', s) \<in> measures [\<lambda>s. card (U - rs_visited s), \<lambda>s. length (rs_stack s)]"
    proof (cases "key dir \<in> rs_visited s")
      case True
      then have "rs_visited s' = rs_visited s" "length (rs_stack s') < length (rs_stack s)"
        using s'(3,4) Cons by (simp_all add: insert_absorb)
      then show ?thesis by simp
    qed (use less in simp)
    from 1(1) [OF this s'(2)] show ?thesis using Cons s'(1) by (subst run_loop.simps) simp
  qed
qed

lemma all_pairs_visited:
  assumes "covering env opts i children lr rr s" "rs_stack s = []" "pair_of children opts lr rr p l r"
  shows "(uri l, uri r) \<in> rs_visited s"
  using assms(3) unfolding pair_of_def
proof (induction rule: dir_pair.induct)
  case roots
  then show ?case using assms(1,2) by (simp add: covering_def)
next
  case (descend p l r xs ys name a b)
  then have "expanded env opts i children s (dir_of p l r)" using assms(1) by (simp add: covering_def pair_of_def)
  moreover have "name \<in> set (all_names xs ys (co_show_hidden opts))" using descend by (simp add: set_all_names)
  ultimately show ?case using descend assms(2)
    by (auto simp: expanded_def child_dirs_def dir_of_def key_def)
qed

section \<open>Whole comparisons\<close>

lemma finish_run_effect:
  assumes "streaming i s" and "rs_store (finish_run env opts i s) i = Some st"
  shows "cs_complete st" "cs_entries st = rows i s" "batch_rows (rs_events (finish_run env opts i s)) = rows i s"
    "batch_flags (rs_events (finish_run env opts i s)) = batch_flags (rs_events s) @ [True]"
  using assms
  by (auto simp: finish_run_def flush_def streaming_def rows_def store_append_def store_mark_complete_def tick_def Let_def
      split: option.splits)

lemma finish_run_stored: "streaming i s \<Longrightarrow> rs_store (finish_run env opts i s) i \<noteq> None"
  by (auto simp: finish_run_def flush_def streaming_def store_append_def store_mark_complete_def tick_def Let_def
      split: option.splits)

lemma initial_sound:
  "sound_state env opts i lr rr (initial_run (store_register store i lr rr c) [] t lr rr)"
  by (auto simp: sound_state_def streaming_def rows_def initial_run_def store_register_def intro: dir_pair.roots)

lemma run_comparison_sound:
  assumes "sticky env" and "run_comparison env opts i lr rr (store_register store i lr rr c) [] t = Some s"
    and "rs_store s i = Some st"
  shows "cs_complete st" "\<forall>row \<in> set (cs_entries st). justified env opts lr rr row"
    "batch_rows (rs_events s) = cs_entries st" "\<exists>k. batch_flags (rs_events s) = replicate k False @ [True]"
proof -
  obtain s1 where s1: "run_loop env opts i (initial_run (store_register store i lr rr c) [] t lr rr) = Some s1"
    "s = finish_run env opts i s1"
    using assms(2) by (auto simp: run_comparison_def)
  have sound: "sound_state env opts i lr rr s1" by (rule run_loop_sound [OF s1(1) initial_sound assms(1)])
  then have str: "streaming i s1" by (simp add: sound_state_def)
  note eff = finish_run_effect [OF str, of env opts, folded s1(2), OF assms(3)]
  show "cs_complete st" "batch_rows (rs_events s) = cs_entries st" using eff by simp_all
  show "\<forall>row \<in> set (cs_entries st). justified env opts lr rr row" using eff sound by (simp add: sound_state_def)
  have "batch_flags (rs_events s1) = replicate (length (batch_flags (rs_events s1))) False"
    using str by (intro replicate_eqI) (auto simp: streaming_def)
  then show "\<exists>k. batch_flags (rs_events s) = replicate k False @ [True]" using eff(4) by metis
qed

section \<open>Exchanging the sides\<close>

fun mirrored :: "comparison_status \<Rightarrow> comparison_status" where
  "mirrored OnlyLeft = OnlyRight" | "mirrored OnlyRight = OnlyLeft"
| "mirrored Newer = Older" | "mirrored Older = Newer"
| "mirrored s = s"

fun mirrored_action :: "sync_action \<Rightarrow> sync_action" where
  "mirrored_action CopyLeftToRight = CopyRightToLeft" | "mirrored_action CopyRightToLeft = CopyLeftToRight"
| "mirrored_action DeleteLeft = DeleteRight" | "mirrored_action DeleteRight = DeleteLeft"
| "mirrored_action SyncSkip = SyncSkip"

fun mirrored_mode :: "sync_mode \<Rightarrow> sync_mode" where
  "mirrored_mode MirrorLeftToRight = MirrorRightToLeft" | "mirrored_mode MirrorRightToLeft = MirrorLeftToRight"
| "mirrored_mode TwoWayUpdate = TwoWayUpdate"

definition mirrored_entry :: "comparison_entry \<Rightarrow> comparison_entry" where
  "mirrored_entry e = \<lparr>ce_relative_path = ce_relative_path e, ce_left = ce_right e, ce_right = ce_left e, ce_status = mirrored (ce_status e)\<rparr>"

definition mirrored_item :: "sync_plan_item \<Rightarrow> sync_plan_item" where
  "mirrored_item x = \<lparr>sp_relative_path = sp_relative_path x, sp_status = mirrored (sp_status x),
     sp_action = mirrored_action (sp_action x), sp_left = sp_right x, sp_right = sp_left x\<rparr>"

lemma mirrored_Identical [simp]: "mirrored s = Identical \<longleftrightarrow> s = Identical"
  by (cases s) auto

lemma default_action_mirrored: "default_action (mirrored s) (mirrored_mode m) = mirrored_action (default_action s m)"
  by (cases s; cases m) auto

lemma plan_mirrored:
  "generate_sync_plan (map mirrored_entry es) (mirrored_mode m) = map mirrored_item (generate_sync_plan es m)"
  by (induction es)
    (auto simp: generate_sync_plan_def mirrored_entry_def mirrored_item_def default_action_mirrored)

lemma direction_mirrored:
  assumes "\<And>x y. secs y x = - secs x y"
  shows "timestamp_direction secs r l = map_option mirrored (timestamp_direction secs l r)"
proof -
  have "secs x x = 0" for x using assms [of x x] by simp
  then have same: "\<bar>secs x x\<bar> < TIMESTAMP_TOLERANCE_SECONDS" for x by (simp add: TIMESTAMP_TOLERANCE_SECONDS_def)
  show ?thesis
  proof (cases "side_modified_at l"; cases "side_modified_at r")
    fix x y
    assume times: "side_modified_at l = Some x" "side_modified_at r = Some y"
    have "\<bar>secs y x\<bar> = \<bar>secs x y\<bar>" unfolding assms [of x y] by simp
    then show ?thesis using times same [of x]
      by (cases x y rule: linorder_cases) (simp_all add: timestamp_direction_def)
  qed (simp_all add: timestamp_direction_def)
qed

lemma classify_mirrored:
  assumes "\<And>x y. secs y x = - secs x y"
  shows "classify secs r l c = mirrored (classify secs l r c)"
  using direction_mirrored [where secs = secs and r = r and l = l, OF assms]
  by (auto simp: classify_def classify_by_size_and_timestamp_def classify_by_content_hash_def
      split: comparison_criteria.splits option.splits)

section \<open>A sample\<close>

definition sample_file :: "string \<Rightarrow> bool \<Rightarrow> entry_summary" where
  "sample_file name hid = \<lparr>es_id = 0, es_location = location_new ''local'' name, es_name = name, es_kind = File, es_size = Some 1,
     es_modified_at = None, es_created_at = None, es_hidden = hid, es_read_only = False, es_extension = None,
     es_mime_type = None, es_icon_key = None, es_metadata_revision = 0, es_git_status = None\<rparr>"

definition left_dir :: location where
  "left_dir = location_new ''local'' ''file:///l''"

definition right_dir :: location where
  "right_dir = location_new ''local'' ''file:///r''"

definition sample_children :: "bool \<Rightarrow> location \<Rightarrow> entry_summary list option" where
  "sample_children hid l =
    (if l = left_dir then Some [sample_file ''a'' hid, sample_file ''c'' False]
     else if l = right_dir then Some [sample_file ''a'' False, sample_file ''b'' False] else None)"

definition sample_env :: "bool \<Rightarrow> comparison_env" where
  "sample_env hid = \<lparr>env_resolve = (\<lambda>l. Inr ()), env_can_list = (\<lambda>l. True),
     env_list = (\<lambda>t l token. map_option (\<lambda>es. \<lparr>dp_entries = es, dp_total_known = None, dp_has_more = False, dp_token = None\<rparr>)
       (sample_children hid l)),
     env_hash = (\<lambda>t e. None), env_cancelled = (\<lambda>t. False), env_flush_due = (\<lambda>t. False), env_secs = (\<lambda>l r. (l - r) div 1000000000)\<rparr>"

definition sample_options :: comparison_options where
  "sample_options = \<lparr>co_criteria = SizeAndTimestamp, co_show_hidden = False, co_operation_id = Some 5\<rparr>"

definition sample_run :: "bool \<Rightarrow> run_state option" where
  "sample_run hid = run_comparison (sample_env hid) sample_options 1 left_dir right_dir
     (store_register store_new 1 left_dir right_dir SizeAndTimestamp) [] 0"

definition sample_plan :: "bool \<Rightarrow> sync_mode \<Rightarrow> (string \<times> sync_action) list option" where
  "sample_plan hid mode = Option.bind (sample_run hid) (\<lambda>s. map_option (\<lambda>es.
     map (\<lambda>item. (sp_relative_path item, sp_action item)) (generate_sync_plan es mode)) (store_all_entries (rs_store s) 1))"

lemma sample_env_simps [simp]:
  "env_list (sample_env hid) t l token = map_option (\<lambda>es. \<lparr>dp_entries = es, dp_total_known = None, dp_has_more = False, dp_token = None\<rparr>)
     (sample_children hid l)"
  "env_cancelled (sample_env hid) t = False" "env_resolve (sample_env hid) l = Inr ()" "env_can_list (sample_env hid) l"
  by (simp_all add: sample_env_def)

lemma sample_sticky: "sticky (sample_env hid)"
  by (simp add: sticky_def)

lemma sample_quiet: "quiet (sample_env hid) (sample_children hid)"
proof -
  have "list_all_pages (sample_env hid) l t = Some (sample_children hid l, t + 2)" for l t
    by (cases "sample_children hid l") (simp_all add: list_all_pages_def list_pages.simps)
  then show ?thesis by (simp add: quiet_def)
qed

lemma sample_files: "sample_children hid l = Some xs \<Longrightarrow> index_by_name xs h n = Some a \<Longrightarrow> es_kind a = File"
  by (auto simp: sample_children_def sample_file_def index_by_name_def split: if_splits)

lemma sample_pairs: "pair_of (sample_children hid) opts left_dir right_dir p l r \<Longrightarrow> p = [] \<and> l = left_dir \<and> r = right_dir"
  unfolding pair_of_def by (induction rule: dir_pair.induct) (use sample_files in fastforce)+

section \<open>Properties\<close>

text \<open>C2: whatever the providers answer and whenever the user cancels (a token stays cancelled), every stored
  row follows from complete listings of a directory pair reached from the roots; in particular a row
  \<open>OnlyLeft\<close> or \<open>OnlyRight\<close> is never due to a listing that was cut short. The published batches add up to
  the stored rows, and exactly the last one says that the comparison is complete.\<close>

theorem comparison_rows_justified:
  assumes "sticky env" and "run_comparison env opts i lr rr (store_register store i lr rr c) [] t = Some s"
    and "rs_store s i = Some st"
  shows "(\<forall>row \<in> set (cs_entries st). justified env opts lr rr row) \<and> cs_complete st
    \<and> batch_rows (rs_events s) = cs_entries st \<and> (\<exists>k. batch_flags (rs_events s) = replicate k False @ [True])"
  using run_comparison_sound [OF assms] by blast

lemma sample_stored: "\<exists>s st. sample_run False = Some s \<and> rs_store s 1 = Some st \<and> length (cs_entries st) = 3"
proof -
  have "Option.bind (sample_run False) (\<lambda>s. map_option (\<lambda>st. length (cs_entries st)) (rs_store s 1)) = Some 3" by code_simp
  then show ?thesis by (auto simp: bind_eq_Some_conv)
qed

theorem comparison_rows_justified_witness:
  "\<exists>s st. sample_run False = Some s \<and> rs_store s 1 = Some st \<and> length (cs_entries st) = 3
    \<and> (\<forall>row \<in> set (cs_entries st). justified (sample_env False) sample_options left_dir right_dir row)
    \<and> batch_rows (rs_events s) = cs_entries st"
proof -
  obtain s st where s: "sample_run False = Some s" "rs_store s 1 = Some st" "length (cs_entries st) = 3"
    using sample_stored by blast
  show ?thesis using s comparison_rows_justified [OF sample_sticky, of False sample_options 1 left_dir right_dir store_new
      SizeAndTimestamp 0 s st, folded sample_run_def, OF s(1,2)] by blast
qed

text \<open>C3: a sync plan proposes to delete an entry only if a complete listing of the directory on the other
  side, without the hidden entries the comparison leaves out, does not have the name.\<close>

theorem sync_deletes_only_absent:
  assumes "sticky env" and "run_comparison env opts i lr rr (store_register store i lr rr c) [] t = Some s"
    and "rs_store s i = Some st" and "item \<in> set (generate_sync_plan (cs_entries st) mode)"
    and "sp_action item \<in> {DeleteLeft, DeleteRight}"
  shows "\<exists>p l r xs ys name. dir_pair (complete_listing env) (co_show_hidden opts) lr rr p l r
    \<and> complete_listing env l xs \<and> complete_listing env r ys \<and> sp_relative_path item = relative_join p name
    \<and> (if sp_action item = DeleteRight
       then index_by_name xs (co_show_hidden opts) name = None \<and> index_by_name ys (co_show_hidden opts) name \<noteq> None
       else index_by_name ys (co_show_hidden opts) name = None \<and> index_by_name xs (co_show_hidden opts) name \<noteq> None)"
proof -
  obtain row where row: "row \<in> set (cs_entries st)" "sp_relative_path item = ce_relative_path row"
    "sp_action item = default_action (ce_status row) mode"
    using assms(4) by (auto simp: generate_sync_plan_def)
  have status: "ce_status row = (if sp_action item = DeleteRight then OnlyRight else OnlyLeft)"
    using assms(5) row(3) by (cases mode) (auto split: comparison_status.splits)
  obtain p l r xs ys name where just: "dir_pair (complete_listing env) (co_show_hidden opts) lr rr p l r"
    "complete_listing env l xs" "complete_listing env r ys"
    "row_matches env opts (relative_join p name) (index_by_name xs (co_show_hidden opts) name)
       (index_by_name ys (co_show_hidden opts) name) row"
    using run_comparison_sound(2) [OF assms(1-3)] row(1) unfolding justified_def by blast
  have "classify secs sl sr crit \<notin> {OnlyLeft, OnlyRight}" for secs sl sr crit
    by (auto simp: classify_def classify_by_size_and_timestamp_def classify_by_content_hash_def timestamp_direction_def
        split: comparison_criteria.splits option.splits)
  then have "ce_relative_path row = relative_join p name
    \<and> (if sp_action item = DeleteRight
       then index_by_name xs (co_show_hidden opts) name = None \<and> index_by_name ys (co_show_hidden opts) name \<noteq> None
       else index_by_name ys (co_show_hidden opts) name = None \<and> index_by_name xs (co_show_hidden opts) name \<noteq> None)"
    using just(4) status
    by (cases "index_by_name xs (co_show_hidden opts) name"; cases "index_by_name ys (co_show_hidden opts) name")
      (auto split: if_splits)
  then show ?thesis using just(1-3) row(2) by metis
qed

theorem sync_deletes_only_absent_witness:
  "\<exists>s st item. sample_run False = Some s \<and> rs_store s 1 = Some st
    \<and> item \<in> set (generate_sync_plan (cs_entries st) MirrorLeftToRight) \<and> sp_action item = DeleteRight
    \<and> (\<exists>p l xs name. complete_listing (sample_env False) l xs \<and> sp_relative_path item = relative_join p name
      \<and> index_by_name xs False name = None)"
proof -
  obtain s st where s: "sample_run False = Some s" "rs_store s 1 = Some st" using sample_stored by blast
  have "sample_plan False MirrorLeftToRight = Some [(''b'', DeleteRight), (''c'', CopyLeftToRight)]" by code_simp
  then have "(''b'', DeleteRight) \<in> set (map (\<lambda>item. (sp_relative_path item, sp_action item)) (generate_sync_plan (cs_entries st) MirrorLeftToRight))"
    using s by (auto simp: sample_plan_def store_all_entries_def)
  then obtain item where item: "item \<in> set (generate_sync_plan (cs_entries st) MirrorLeftToRight)" "sp_action item = DeleteRight" by auto
  have "\<exists>p l xs name. complete_listing (sample_env False) l xs \<and> sp_relative_path item = relative_join p name
      \<and> index_by_name xs False name = None"
    using item sync_deletes_only_absent [OF sample_sticky, of False sample_options 1 left_dir right_dir store_new
      SizeAndTimestamp 0 s st item MirrorLeftToRight, folded sample_run_def, OF s item(1)]
    by (auto simp: sample_options_def)
  then show ?thesis using s item by blast
qed

text \<open>C10: an uncancelled comparison ends and is complete. If every listing ends and stays the same, no
  directory pair is reached under two names and there are finitely many of them, the comparison
  returns, and for every directory pair whose listings can be read, every name either side shows has
  its row.\<close>

theorem comparison_complete:
  assumes "quiet env children" and "tree_like children opts lr rr"
    and "finite {(uri l, uri r) | p l r. pair_of children opts lr rr p l r}"
  shows "\<exists>s st. run_comparison env opts i lr rr (store_register store i lr rr c) [] t = Some s
    \<and> rs_store s i = Some st \<and> cs_complete st
    \<and> (\<forall>p l r xs ys n. pair_of children opts lr rr p l r \<longrightarrow> children l = Some xs \<longrightarrow> children r = Some ys
      \<longrightarrow> n \<in> set (all_names xs ys (co_show_hidden opts))
      \<longrightarrow> (\<exists>row \<in> set (cs_entries st). row_matches env opts (relative_join p n) (index_by_name xs (co_show_hidden opts) n)
            (index_by_name ys (co_show_hidden opts) n) row))"
proof -
  let ?s0 = "initial_run (store_register store i lr rr c) [] t lr rr"
  have cov: "covering env opts i children lr rr ?s0"
    by (auto simp: covering_def streaming_def initial_run_def store_register_def pair_of_def dir_of_def intro: dir_pair.roots)
  obtain s1 where s1: "run_loop env opts i ?s0 = Some s1" "covering env opts i children lr rr s1" "rs_stack s1 = []"
    using run_loop_covering [OF cov assms(1,2,3)] by blast
  have str: "streaming i s1" using s1(2) by (simp add: covering_def)
  obtain st where st: "rs_store (finish_run env opts i s1) i = Some st" using finish_run_stored [OF str] by auto
  note eff = finish_run_effect [OF str st]
  have "\<exists>row \<in> set (cs_entries st). row_matches env opts (relative_join p n) (index_by_name xs (co_show_hidden opts) n)
      (index_by_name ys (co_show_hidden opts) n) row"
    if "pair_of children opts lr rr p l r" "children l = Some xs" "children r = Some ys"
      "n \<in> set (all_names xs ys (co_show_hidden opts))" for p l r xs ys n
  proof -
    have "expanded env opts i children s1 (dir_of p l r)"
      using s1(2) that(1) all_pairs_visited [OF s1(2,3) that(1)] by (simp add: covering_def)
    then show ?thesis using that eff(2) by (auto simp: expanded_def dir_of_def)
  qed
  then show ?thesis using s1(1) st eff(1) by (auto simp: run_comparison_def)
qed

theorem comparison_complete_witness:
  "\<exists>s st. sample_run False = Some s \<and> rs_store s 1 = Some st \<and> cs_complete st
    \<and> (\<exists>row \<in> set (cs_entries st). ce_relative_path row = ''b'' \<and> ce_status row = OnlyRight)"
proof -
  have "tree_like (sample_children False) sample_options left_dir right_dir"
    using sample_pairs unfolding tree_like_def by blast
  moreover have "{(uri l, uri r) | p l r. pair_of (sample_children False) sample_options left_dir right_dir p l r}
      \<subseteq> {(uri left_dir, uri right_dir)}" by (auto dest!: sample_pairs)
  ultimately obtain s st where run: "sample_run False = Some s" "rs_store s 1 = Some st" "cs_complete st"
    and all: "\<And>p l r xs ys n. pair_of (sample_children False) sample_options left_dir right_dir p l r
      \<Longrightarrow> sample_children False l = Some xs \<Longrightarrow> sample_children False r = Some ys
      \<Longrightarrow> n \<in> set (all_names xs ys (co_show_hidden sample_options))
      \<Longrightarrow> \<exists>row \<in> set (cs_entries st). row_matches (sample_env False) sample_options (relative_join p n)
          (index_by_name xs (co_show_hidden sample_options) n) (index_by_name ys (co_show_hidden sample_options) n) row"
    using comparison_complete [OF sample_quiet, of False sample_options left_dir right_dir 1 store_new SizeAndTimestamp 0]
      finite_subset unfolding sample_run_def by (metis (no_types, lifting) finite.emptyI finite.insertI)
  have "pair_of (sample_children False) sample_options left_dir right_dir [] left_dir right_dir"
    by (simp add: pair_of_def dir_pair.roots)
  from all [OF this, of "the (sample_children False left_dir)" "the (sample_children False right_dir)" "''b''"]
  have "\<exists>row \<in> set (cs_entries st). ce_relative_path row = ''b'' \<and> ce_status row = OnlyRight"
    by (auto simp: sample_children_def left_dir_def right_dir_def location_new_def all_names_def sample_file_def
        index_by_name_def relative_join_def elim!: bexI [rotated])
  then show ?thesis using run by blast
qed

text \<open>comparing and planning do not depend on which directory is called left. Exchanging the sides turns
  every outcome into its mirror image, and the plan of the mirrored comparison in the mirrored mode is
  the mirrored plan, entry by entry.\<close>

lemma sync_plan_symmetric:
  assumes "\<forall>x y. secs y x = - secs x y"
  shows "classify secs r l crit = mirrored (classify secs l r crit)
    \<and> generate_sync_plan (map mirrored_entry es) (mirrored_mode m) = map mirrored_item (generate_sync_plan es m)"
  using classify_mirrored [of secs] assms plan_mirrored by blast

text \<open>an entry that one side marks as hidden and the other does not is not left out of the comparison but
  reported as missing: mirroring left to right proposes to delete the right entry ``a'' although the left
  directory has it.\<close>

lemma hidden_counterpart_is_deleted:
  "sample_plan True MirrorLeftToRight = Some [(''a'', DeleteRight), (''b'', DeleteRight), (''c'', CopyLeftToRight)]
    \<and> ''a'' \<in> es_name ` set (the (sample_children True left_dir))"
proof
  show "sample_plan True MirrorLeftToRight = Some [(''a'', DeleteRight), (''b'', DeleteRight), (''c'', CopyLeftToRight)]" by code_simp
qed (simp add: sample_children_def sample_file_def)

end
