(* ===== verification/Directory.thy ===== *)
theory Directory
  imports Comparison Event_Bus "HOL-Library.Option_ord" "HOL-Library.Sorting_Algorithms"
begin

text \<open>
  The directory service of \<open>src/crates/fm-application/src/directory.rs\<close>: listings of panes, their pages
  and revisions, the watches shared by panes, polling, and the deltas published when a directory changes.

  The registry maps a provider id to the answers of the provider (\<open>FileSystemProvider\<close>), each asked at a
  tick of a clock, so that directories may change between two questions. The status of a git working
  tree and the lower-casing of names are parameters too. The service is a record: the pane table, the
  watch table, the cancelled tokens (tokens are numbered) and the tasks that are under way. Every
  section of the source between two points where the task may be suspended is one definition;
  \<open>dir_step\<close> interleaves the sections of all tasks. Counters wrap as in a release build.
\<close>

section \<open>Errors\<close>

datatype application_error =
    AppNotFound
  | AppPermissionDenied
  | AppFileLocked
  | AppInvalidRequest string
  | AppDestinationAlreadyExists
  | AppProviderUnavailable
  | AppOperationCancelled
  | AppCredentialRequired
  | AppInvalidCredential
  | AppWorkspaceRevisionConflict workspace_id u64 u64
  | AppFileRevisionConflict string string
  | AppActionNotFound string
  | AppActionUnavailable string
  | AppPlatformOperationFailed string
  | AppHostKeyUnverified string
  | AppHostKeyMismatch string string
  | AppInternal

fun app_of_vfs :: "vfs_error \<Rightarrow> application_error" where
  "app_of_vfs (VfsNotFound _) = AppNotFound"
| "app_of_vfs (VfsPermissionDenied _) = AppPermissionDenied"
| "app_of_vfs (VfsLocked _) = AppFileLocked"
| "app_of_vfs (VfsAlreadyExists _) = AppDestinationAlreadyExists"
| "app_of_vfs VfsCancelled = AppOperationCancelled"
| "app_of_vfs (VfsUnknownProvider _) = AppProviderUnavailable"
| "app_of_vfs VfsCredentialRequired = AppCredentialRequired"
| "app_of_vfs VfsInvalidCredential = AppInvalidCredential"
| "app_of_vfs (VfsIo _) = AppInternal"
| "app_of_vfs VfsUnsafeArchiveEntry = AppInternal"
| "app_of_vfs (VfsArchiveResourceLimit _) = AppInternal"
| "app_of_vfs _ = AppInvalidRequest ''the requested filesystem operation is not valid''"

section \<open>Providers\<close>

datatype change_tracking = NativeWatch | DeltaApi | Poll nat | Unsupported

datatype provider_change = Changed | ResetRequired

record provider =
  pr_change_tracking :: change_tracking
  pr_list :: "nat \<Rightarrow> location \<Rightarrow> string option \<Rightarrow> vfs_error + directory_page"
  pr_inspect :: "nat \<Rightarrow> location \<Rightarrow> vfs_error + entry_summary"
  pr_watch :: "nat \<Rightarrow> location \<Rightarrow> vfs_error + unit"

type_synonym provider_registry = "string \<rightharpoonup> provider"

definition registry_new :: provider_registry where
  "registry_new = Map.empty"

definition registry_register :: "string \<Rightarrow> provider \<Rightarrow> provider_registry \<Rightarrow> provider_registry" where
  "registry_register i pr reg = reg(i \<mapsto> pr)"

definition registry_resolve :: "(string \<rightharpoonup> 'p) \<Rightarrow> location \<Rightarrow> vfs_error + 'p" where
  "registry_resolve reg l = ok_or (VfsUnknownProvider (provider_id l)) (reg (provider_id l))"

record dir_env =
  de_providers :: provider_registry
  de_lower :: "string \<Rightarrow> string"
  de_git :: "nat \<Rightarrow> string \<Rightarrow> bool \<Rightarrow> entry_summary list \<Rightarrow> entry_summary list"

text \<open>\<open>list_all\<close>: \<open>None\<close> when the pages never end, otherwise the listing or the error, and the clock.\<close>

partial_function (option) provider_pages ::
  "provider \<Rightarrow> location \<Rightarrow> entry_summary list \<Rightarrow> string option \<Rightarrow> nat \<Rightarrow> ((vfs_error + entry_summary list) \<times> nat) option" where
  "provider_pages pr l entries token t =
    (case pr_list pr t l token of
       Inl e \<Rightarrow> Some (Inl e, Suc t)
     | Inr page \<Rightarrow>
         if dp_has_more page then provider_pages pr l (entries @ dp_entries page) (dp_token page) (Suc t)
         else Some (Inr (entries @ dp_entries page), Suc t))"

declare provider_pages.simps [code]

definition provider_list_all ::
  "provider \<Rightarrow> location \<Rightarrow> nat \<Rightarrow> ((vfs_error + entry_summary list) \<times> nat) option" where
  "provider_list_all pr l t = provider_pages pr l [] None t"

section \<open>Sorting\<close>

text \<open>\<open>Ord::cmp\<close> of an ordered type.\<close>

definition ord_cmp :: "'a::linorder \<Rightarrow> 'a \<Rightarrow> comp" where
  "ord_cmp a b = (if a < b then Less else if a = b then Equiv else Greater)"

fun comp_reverse :: "comp \<Rightarrow> comp" where
  "comp_reverse Less = Greater"
| "comp_reverse Equiv = Equiv"
| "comp_reverse Greater = Less"

definition compare_entry :: "(string \<Rightarrow> string) \<Rightarrow> string \<Rightarrow> entry_summary \<Rightarrow> entry_summary \<Rightarrow> comp" where
  "compare_entry lower column left right =
    (if column = ''core.extension'' then ord_cmp (es_extension left) (es_extension right)
     else if column = ''core.size'' then ord_cmp (es_size left) (es_size right)
     else if column = ''core.modified'' then ord_cmp (es_modified_at left) (es_modified_at right)
     else ord_cmp (lower (es_name left)) (lower (es_name right)))"

fun compare_by :: "(string \<Rightarrow> string) \<Rightarrow> sort_descriptor list \<Rightarrow> entry_summary \<Rightarrow> entry_summary \<Rightarrow> comp" where
  "compare_by lower [] left right = ord_cmp (es_name left) (es_name right)"
| "compare_by lower (d # ds) left right =
    (let ordering = compare_entry lower (sort_column_id d) left right in
     if ordering \<noteq> Equiv then (case direction d of Ascending \<Rightarrow> ordering | Descending \<Rightarrow> comp_reverse ordering)
     else compare_by lower ds left right)"

definition folder_cmp :: "entry_summary \<Rightarrow> entry_summary \<Rightarrow> comp" where
  "folder_cmp left right = ord_cmp (es_kind right = Directory) (es_kind left = Directory)"

definition entry_cmp ::
  "(string \<Rightarrow> string) \<Rightarrow> sort_descriptor list \<Rightarrow> bool \<Rightarrow> entry_summary \<Rightarrow> entry_summary \<Rightarrow> comp" where
  "entry_cmp lower ds folders left right =
    (if folders \<and> folder_cmp left right \<noteq> Equiv then folder_cmp left right else compare_by lower ds left right)"

text \<open>\<open>slice::sort_by\<close> is a stable sort; insertion from the right is one.\<close>

fun insert_by :: "('a \<Rightarrow> 'a \<Rightarrow> comp) \<Rightarrow> 'a \<Rightarrow> 'a list \<Rightarrow> 'a list" where
  "insert_by cmp x [] = [x]"
| "insert_by cmp x (y # ys) = (if cmp x y = Greater then y # insert_by cmp x ys else x # y # ys)"

definition sort_by :: "('a \<Rightarrow> 'a \<Rightarrow> comp) \<Rightarrow> 'a list \<Rightarrow> 'a list" where
  "sort_by cmp xs = foldr (insert_by cmp) xs []"

definition sort_entries ::
  "(string \<Rightarrow> string) \<Rightarrow> sort_descriptor list \<Rightarrow> bool \<Rightarrow> entry_summary list \<Rightarrow> entry_summary list" where
  "sort_entries lower ds folders entries = sort_by (entry_cmp lower ds folders) entries"

section \<open>Requests, snapshots and pane state\<close>

type_synonym request_id = nat
type_synonym token = nat

record list_request =
  lr_workspace_id :: workspace_id
  lr_pane_id :: pane_id
  lr_request_id :: request_id
  lr_location :: location
  lr_continuation_token :: "string option"
  lr_sort :: "sort_descriptor list"
  lr_show_hidden :: bool
  lr_folders_first :: bool
  lr_show_git_status :: bool

record navigate_request =
  nr_workspace_id :: workspace_id
  nr_pane_id :: pane_id
  nr_request_id :: request_id
  nr_location :: location
  nr_sort :: "sort_descriptor list"
  nr_show_hidden :: bool
  nr_folders_first :: bool
  nr_show_git_status :: bool

datatype loading_state = Idle | Loading | Loaded | LoadingError string

record directory_snapshot =
  sn_pane_id :: pane_id
  sn_request_id :: request_id
  sn_revision :: u64
  sn_location :: location
  sn_writable :: bool
  sn_entries :: "entry_summary list"
  sn_total_known_entries :: "u64 option"
  sn_total_known_size :: "u64 option"
  sn_total_known_file_count :: "u64 option"
  sn_has_more :: bool
  sn_continuation_token :: "string option"
  sn_loading_state :: loading_state

record pane_request =
  pn_request_id :: request_id
  pn_workspace_id :: workspace_id
  pn_cancellation :: token
  pn_watch_cancellation :: token
  pn_revision :: u64
  pn_show_hidden :: bool
  pn_folders_first :: bool
  pn_show_git_status :: bool
  pn_sort :: "sort_descriptor list"
  pn_snapshot :: "directory_snapshot option"
  pn_full_entries :: "entry_summary list option"

record shared_watch =
  sw_cancellation :: token
  sw_references :: nat
  sw_active :: bool

record pane_watch =
  pw_location :: location
  pw_workspace_id :: workspace_id
  pw_pane_id :: pane_id
  pw_show_hidden :: bool
  pw_folders_first :: bool
  pw_show_git_status :: bool
  pw_sort :: "sort_descriptor list"
  pw_cancellation :: token

section \<open>Deltas\<close>

record entry_summary_payload =
  ep_id :: nat
  ep_location :: location_payload
  ep_name :: string
  ep_kind :: entry_kind
  ep_size :: "u64 option"
  ep_modified_at :: "op_time option"
  ep_created_at :: "op_time option"
  ep_hidden :: bool
  ep_read_only :: bool
  ep_extension :: "string option"
  ep_mime_type :: "string option"
  ep_icon_key :: "string option"
  ep_metadata_revision :: u64
  ep_content_matches :: "(nat \<times> nat) list option"

definition entry_summary_payload_from :: "entry_summary \<Rightarrow> entry_summary_payload" where
  "entry_summary_payload_from e = \<lparr>ep_id = es_id e, ep_location = make_location_payload (es_location e),
     ep_name = es_name e, ep_kind = es_kind e, ep_size = es_size e, ep_modified_at = es_modified_at e,
     ep_created_at = es_created_at e, ep_hidden = es_hidden e, ep_read_only = es_read_only e,
     ep_extension = es_extension e, ep_mime_type = es_mime_type e, ep_icon_key = es_icon_key e,
     ep_metadata_revision = es_metadata_revision e, ep_content_matches = None\<rparr>"

record snapshot_payload =
  sp_pane_id :: pane_id
  sp_request_id :: request_id
  sp_revision :: u64
  sp_location :: location_payload
  sp_writable :: bool
  sp_entries :: "entry_summary_payload list"
  sp_total_known_entries :: "u64 option"
  sp_total_known_size :: "u64 option"
  sp_total_known_file_count :: "u64 option"
  sp_has_more :: bool
  sp_continuation_token :: "string option"
  sp_loading_state :: loading_state

definition snapshot_payload_from :: "directory_snapshot \<Rightarrow> snapshot_payload" where
  "snapshot_payload_from sn = \<lparr>sp_pane_id = sn_pane_id sn, sp_request_id = sn_request_id sn,
     sp_revision = sn_revision sn, sp_location = make_location_payload (sn_location sn),
     sp_writable = sn_writable sn, sp_entries = map entry_summary_payload_from (sn_entries sn),
     sp_total_known_entries = sn_total_known_entries sn, sp_total_known_size = sn_total_known_size sn,
     sp_total_known_file_count = sn_total_known_file_count sn, sp_has_more = sn_has_more sn,
     sp_continuation_token = sn_continuation_token sn, sp_loading_state = sn_loading_state sn\<rparr>"

datatype directory_delta =
    EntriesAdded u64 "entry_summary_payload list"
  | EntriesUpdated u64 "entry_summary_payload list"
  | EntriesRemoved u64 "nat list"
  | Reset snapshot_payload

fun delta_revision :: "directory_delta \<Rightarrow> u64" where
  "delta_revision (EntriesAdded rv _) = rv"
| "delta_revision (EntriesUpdated rv _) = rv"
| "delta_revision (EntriesRemoved rv _) = rv"
| "delta_revision (Reset sn) = sp_revision sn"

definition by_id :: "entry_summary list \<Rightarrow> nat \<rightharpoonup> entry_summary" where
  "by_id entries = map_of (rev (map (\<lambda>e. (es_id e, e)) entries))"

definition diff_entries :: "entry_summary list \<Rightarrow> entry_summary list \<Rightarrow> u64 \<Rightarrow> directory_delta list" where
  "diff_entries previous current rv =
    (let previous_by_id = by_id previous;
         current_ids = set (map es_id current);
         added = map entry_summary_payload_from [e \<leftarrow> current. previous_by_id (es_id e) = None];
         updated = map entry_summary_payload_from
           [e \<leftarrow> current. case previous_by_id (es_id e) of Some old \<Rightarrow> old \<noteq> e | None \<Rightarrow> False];
         removed = map es_id [e \<leftarrow> previous. es_id e \<notin> current_ids];
         r1 = (if added \<noteq> [] then rv + 1 else rv);
         r2 = (if updated \<noteq> [] then r1 + 1 else r1)
     in (if added \<noteq> [] then [EntriesAdded rv added] else [])
        @ (if updated \<noteq> [] then [EntriesUpdated r1 updated] else [])
        @ (if removed \<noteq> [] then [EntriesRemoved r2 removed] else []))"

definition deltas_for_change ::
  "provider_change \<Rightarrow> directory_snapshot \<Rightarrow> directory_snapshot \<Rightarrow> entry_summary list \<Rightarrow> u64 \<Rightarrow> directory_delta list" where
  "deltas_for_change change previous snapshot entries rv =
    (if change = ResetRequired then [Reset (snapshot_payload_from snapshot)]
     else diff_entries (sn_entries previous) entries rv)"

definition aggregate_totals :: "entry_summary list \<Rightarrow> u64 \<times> u64" where
  "aggregate_totals entries =
    fold (\<lambda>e (size, count). (size + (case es_size e of Some n \<Rightarrow> n | None \<Rightarrow> 0), count + 1))
      [e \<leftarrow> entries. es_kind e \<noteq> Directory] (0, 0)"

section \<open>The service\<close>

definition LIST_PAGE_SIZE :: nat where
  "LIST_PAGE_SIZE = 256"

text \<open>\<open>str::parse::<usize>()\<close> on a 64-bit target.\<close>

definition parse_usize :: "string \<Rightarrow> nat option" where
  "parse_usize raw =
    (let digits = (case raw of c # cs \<Rightarrow> if c = CHR ''+'' \<and> cs \<noteq> [] then cs else raw | [] \<Rightarrow> [])
     in if digits \<noteq> [] \<and> list_all is_ascii_digit digits \<and> int (read_nat digits) < 2 ^ 64
        then Some (read_nat digits) else None)"

definition decode_page_offset :: "string option \<Rightarrow> application_error + nat" where
  "decode_page_offset token = (case token of
     None \<Rightarrow> Inr 0
   | Some raw \<Rightarrow> ok_or (AppInvalidRequest ''invalid continuation token'') (parse_usize raw))"

definition annotate_git_status ::
  "dir_env \<Rightarrow> nat \<Rightarrow> location \<Rightarrow> bool \<Rightarrow> bool \<Rightarrow> entry_summary list \<Rightarrow> entry_summary list" where
  "annotate_git_status env t l force_refresh show_git entries =
    (if \<not> show_git \<or> provider_id l \<noteq> ''local'' then entries
     else case to_native_path l of
       Inl _ \<Rightarrow> entries
     | Inr dir \<Rightarrow> de_git env t dir force_refresh entries)"

text \<open>The two statements \<open>retain\<close> and \<open>sort_entries\<close> that \<open>list\<close> and \<open>publish_changes\<close> share.\<close>

definition arrange_entries ::
  "dir_env \<Rightarrow> bool \<Rightarrow> bool \<Rightarrow> sort_descriptor list \<Rightarrow> entry_summary list \<Rightarrow> entry_summary list" where
  "arrange_entries env hidden_too folders ds entries =
    sort_entries (de_lower env) ds folders (if hidden_too then entries else [e \<leftarrow> entries. \<not> es_hidden e])"

datatype dir_task =
    LoadTask list_request "entry_summary list option"
  | AttachTask list_request directory_snapshot token
  | WatchTask pane_watch
  | RefreshTask pane_watch

record dir_service =
  ds_panes :: "pane_id \<rightharpoonup> pane_request"
  ds_watches :: "location \<rightharpoonup> shared_watch"
  ds_cancelled :: "token set"
  ds_next_token :: token
  ds_clock :: nat
  ds_tasks :: "dir_task list"
  ds_outbox :: "(workspace_id \<times> pane_id \<times> directory_delta list) list"
  ds_published :: "(event_audience \<times> pane_id \<times> directory_delta) list"

definition directory_service_new :: dir_service where
  "directory_service_new = \<lparr>ds_panes = Map.empty, ds_watches = Map.empty, ds_cancelled = {}, ds_next_token = 0,
     ds_clock = 0, ds_tasks = [], ds_outbox = [], ds_published = []\<rparr>"

text \<open>Whether a request for a further page asks for the listing the pane already holds.\<close>

definition continues_listing :: "list_request \<Rightarrow> pane_request \<Rightarrow> bool" where
  "continues_listing req st \<longleftrightarrow>
     lr_continuation_token req \<noteq> None
     \<and> (case pn_snapshot st of Some sn \<Rightarrow> sn_location sn = lr_location req | None \<Rightarrow> False)
     \<and> pn_show_hidden st = lr_show_hidden req \<and> pn_folders_first st = lr_folders_first req
     \<and> pn_show_git_status st = lr_show_git_status req \<and> pn_sort st = lr_sort req"

text \<open>The first critical section of \<open>list\<close>: the pane is handed to the request, older work is cancelled.\<close>

definition begin_list :: "list_request \<Rightarrow> dir_service \<Rightarrow> entry_summary list option \<times> dir_service" where
  "begin_list req s =
    (let previous = ds_panes s (lr_pane_id req);
         rv = (case previous of Some st \<Rightarrow> pn_revision st | None \<Rightarrow> 0);
         cancellation = ds_next_token s;
         (watch_cancellation, snapshot, full_entries, next) =
           (case previous of
              Some st \<Rightarrow>
                if continues_listing req st
                then (pn_watch_cancellation st, pn_snapshot st, pn_full_entries st, Suc cancellation)
                else (Suc cancellation, None, None, Suc (Suc cancellation))
            | None \<Rightarrow> (Suc cancellation, None, None, Suc (Suc cancellation)));
         cancelled =
           (case previous of
              Some st \<Rightarrow> insert (pn_cancellation st)
                (if continues_listing req st then {} else {pn_watch_cancellation st})
            | None \<Rightarrow> {});
         st' = \<lparr>pn_request_id = lr_request_id req, pn_workspace_id = lr_workspace_id req,
           pn_cancellation = cancellation, pn_watch_cancellation = watch_cancellation, pn_revision = rv,
           pn_show_hidden = lr_show_hidden req, pn_folders_first = lr_folders_first req,
           pn_show_git_status = lr_show_git_status req, pn_sort = lr_sort req,
           pn_snapshot = snapshot, pn_full_entries = full_entries\<rparr>
     in (full_entries,
         s\<lparr>ds_panes := (ds_panes s)(lr_pane_id req \<mapsto> st'), ds_cancelled := ds_cancelled s \<union> cancelled,
           ds_next_token := next\<rparr>))"

text \<open>Resolving the provider and loading the listing, unless it is cached.\<close>

definition load_entries ::
  "dir_env \<Rightarrow> list_request \<Rightarrow> entry_summary list option \<Rightarrow> nat \<Rightarrow>
   ((application_error + entry_summary list) \<times> nat) option" where
  "load_entries env req cached t =
    (case registry_resolve (de_providers env) (lr_location req) of
       Inl e \<Rightarrow> Some (Inl (app_of_vfs e), t)
     | Inr pr \<Rightarrow>
         (case cached of
            Some full \<Rightarrow> Some (Inr full, t)
          | None \<Rightarrow>
              (case provider_list_all pr (lr_location req) t of
                 None \<Rightarrow> None
               | Some (Inl e, t') \<Rightarrow> Some (Inl (app_of_vfs e), t')
               | Some (Inr entries, t') \<Rightarrow>
                   Some (Inr (arrange_entries env (lr_show_hidden req) (lr_folders_first req) (lr_sort req)
                     (annotate_git_status env t' (lr_location req) False (lr_show_git_status req) entries)), Suc t'))))"

definition page_range :: "string option \<Rightarrow> entry_summary list \<Rightarrow> application_error + (nat \<times> nat)" where
  "page_range token full =
    and_then (decode_page_offset token) (\<lambda>offset.
      if length full < offset then Inl (AppInvalidRequest ''continuation token is out of range'')
      else Inr (offset, min (length full) (offset + LIST_PAGE_SIZE)))"

definition inspect_writable :: "dir_env \<Rightarrow> location \<Rightarrow> nat \<Rightarrow> bool" where
  "inspect_writable env l t =
    (case registry_resolve (de_providers env) l of
       Inl _ \<Rightarrow> False
     | Inr pr \<Rightarrow> (case pr_inspect pr t l of Inr e \<Rightarrow> \<not> es_read_only e | Inl _ \<Rightarrow> False))"

definition page_snapshot ::
  "list_request \<Rightarrow> entry_summary list \<Rightarrow> nat \<Rightarrow> nat \<Rightarrow> bool \<Rightarrow> u64 \<Rightarrow> directory_snapshot" where
  "page_snapshot req full offset fin writable rv =
    (let has_more = fin < length full; (size, count) = aggregate_totals full
     in \<lparr>sn_pane_id = lr_pane_id req, sn_request_id = lr_request_id req, sn_revision = rv,
         sn_location = lr_location req, sn_writable = writable, sn_entries = take (fin - offset) (drop offset full),
         sn_total_known_entries = Some (of_nat (length full)), sn_total_known_size = Some size,
         sn_total_known_file_count = Some count, sn_has_more = has_more,
         sn_continuation_token = (if has_more then Some (show_nat fin) else None), sn_loading_state = Loaded\<rparr>)"

text \<open>The rest of \<open>list\<close> up to the release of the lock: the page is stored only for the newest request.\<close>

definition publish_page ::
  "dir_env \<Rightarrow> list_request \<Rightarrow> entry_summary list \<Rightarrow> dir_service \<Rightarrow>
   (application_error + (directory_snapshot \<times> token)) \<times> dir_service" where
  "publish_page env req full s =
    (case page_range (lr_continuation_token req) full of
       Inl e \<Rightarrow> (Inl e, s)
     | Inr (offset, fin) \<Rightarrow>
         (case ds_panes s (lr_pane_id req) of
            None \<Rightarrow> (Inl AppOperationCancelled, s)
          | Some st \<Rightarrow>
              if pn_request_id st \<noteq> lr_request_id req then (Inl AppOperationCancelled, s)
              else
                (let rv = pn_revision st + 1;
                     snapshot = page_snapshot req full offset fin
                       (inspect_writable env (lr_location req) (ds_clock s)) rv;
                     st' = st\<lparr>pn_revision := rv, pn_full_entries := Some full, pn_snapshot := Some snapshot\<rparr>
                 in (Inr (snapshot, pn_watch_cancellation st),
                     s\<lparr>ds_panes := (ds_panes s)(lr_pane_id req \<mapsto> st'), ds_clock := Suc (ds_clock s)\<rparr>))))"

section \<open>Shared watches\<close>

definition WATCH_CAPABILITY :: string where
  "WATCH_CAPABILITY = ''ProviderCapabilities(WATCH)''"

definition watch_acquire :: "provider \<Rightarrow> location \<Rightarrow> dir_service \<Rightarrow> (vfs_error + unit) \<times> dir_service" where
  "watch_acquire pr l s =
    (case ds_watches s l of
       Some w \<Rightarrow> (Inr (), s\<lparr>ds_watches := (ds_watches s)(l \<mapsto> w\<lparr>sw_references := sw_references w + 1\<rparr>)\<rparr>)
     | None \<Rightarrow>
         (let cancellation = ds_next_token s;
              registered = s\<lparr>ds_next_token := Suc cancellation, ds_clock := Suc (ds_clock s),
                ds_watches := (ds_watches s)(l \<mapsto>
                  \<lparr>sw_cancellation = cancellation, sw_references = 1, sw_active = True\<rparr>)\<rparr>;
              watched = (case pr_watch pr (ds_clock s) l of
                  Inl e \<Rightarrow> (Inl e, s\<lparr>ds_next_token := Suc cancellation, ds_clock := Suc (ds_clock s)\<rparr>)
                | Inr _ \<Rightarrow> (Inr (), registered))
          in case pr_change_tracking pr of
               NativeWatch \<Rightarrow> watched
             | DeltaApi \<Rightarrow> watched
             | Poll _ \<Rightarrow> (Inr (), registered)
             | Unsupported \<Rightarrow> (Inl (VfsUnsupportedCapability WATCH_CAPABILITY),
                 s\<lparr>ds_next_token := Suc cancellation\<rparr>)))"

text \<open>The reference count is unsigned: taking one from zero wraps.\<close>

definition watch_release :: "location \<Rightarrow> dir_service \<Rightarrow> dir_service" where
  "watch_release l s =
    (case ds_watches s l of
       None \<Rightarrow> s
     | Some w \<Rightarrow>
         (let n = (if sw_references w = 0 then 2 ^ 64 - 1 else sw_references w - 1)
          in if n = 0
             then s\<lparr>ds_watches := (ds_watches s)(l := None), ds_cancelled := insert (sw_cancellation w) (ds_cancelled s)\<rparr>
             else s\<lparr>ds_watches := (ds_watches s)(l \<mapsto> w\<lparr>sw_references := n\<rparr>)\<rparr>))"

definition watch_set_active :: "location \<Rightarrow> bool \<Rightarrow> dir_service \<Rightarrow> dir_service" where
  "watch_set_active l active s =
    (case ds_watches s l of
       None \<Rightarrow> s
     | Some w \<Rightarrow> s\<lparr>ds_watches := (ds_watches s)(l \<mapsto> w\<lparr>sw_active := active\<rparr>)\<rparr>)"

definition set_pane_activity :: "pane_id \<Rightarrow> bool \<Rightarrow> dir_service \<Rightarrow> (application_error + unit) \<times> dir_service" where
  "set_pane_activity p active s =
    (case ds_panes s p of
       None \<Rightarrow> (Inl AppNotFound, s)
     | Some st \<Rightarrow>
         (Inr (), case pn_snapshot st of Some sn \<Rightarrow> watch_set_active (sn_location sn) active s | None \<Rightarrow> s))"

text \<open>The end of \<open>list\<close>: a first page acquires the watch of its location and spawns the pane's watcher.\<close>

definition attach_watch ::
  "dir_env \<Rightarrow> list_request \<Rightarrow> directory_snapshot \<Rightarrow> token \<Rightarrow> dir_service \<Rightarrow>
   (application_error + directory_snapshot) \<times> dir_service" where
  "attach_watch env req snapshot watch_token s =
    (case registry_resolve (de_providers env) (lr_location req) of
       Inl e \<Rightarrow> (Inl (app_of_vfs e), s)
     | Inr pr \<Rightarrow>
         if lr_continuation_token req = None \<and> pr_change_tracking pr \<noteq> Unsupported then
           (case watch_acquire pr (sn_location snapshot) s of
              (Inl e, s') \<Rightarrow> (Inl (app_of_vfs e), s')
            | (Inr _, s') \<Rightarrow>
                (Inr snapshot, s'\<lparr>ds_tasks := ds_tasks s' @ [WatchTask \<lparr>pw_location = sn_location snapshot,
                   pw_workspace_id = lr_workspace_id req, pw_pane_id = lr_pane_id req,
                   pw_show_hidden = lr_show_hidden req, pw_folders_first = lr_folders_first req,
                   pw_show_git_status = lr_show_git_status req, pw_sort = lr_sort req,
                   pw_cancellation = watch_token\<rparr>]\<rparr>))
         else (Inr snapshot, s))"

text \<open>\<open>list\<close> run without interruption; \<open>None\<close> when the provider's pages never end.\<close>

definition list_directory ::
  "dir_env \<Rightarrow> list_request \<Rightarrow> dir_service \<Rightarrow> ((application_error + directory_snapshot) \<times> dir_service) option" where
  "list_directory env req s =
    (let (cached, s1) = begin_list req s in
     case load_entries env req cached (ds_clock s1) of
       None \<Rightarrow> None
     | Some (Inl e, t) \<Rightarrow> Some (Inl e, s1\<lparr>ds_clock := t\<rparr>)
     | Some (Inr full, t) \<Rightarrow>
         (case publish_page env req full (s1\<lparr>ds_clock := t\<rparr>) of
            (Inl e, s2) \<Rightarrow> Some (Inl e, s2)
          | (Inr (snapshot, watch_token), s2) \<Rightarrow> Some (attach_watch env req snapshot watch_token s2)))"

definition list_request_of_navigate :: "navigate_request \<Rightarrow> list_request" where
  "list_request_of_navigate r = \<lparr>lr_workspace_id = nr_workspace_id r, lr_pane_id = nr_pane_id r,
     lr_request_id = nr_request_id r, lr_location = nr_location r, lr_continuation_token = None,
     lr_sort = nr_sort r, lr_show_hidden = nr_show_hidden r, lr_folders_first = nr_folders_first r,
     lr_show_git_status = nr_show_git_status r\<rparr>"

definition navigate_directory ::
  "dir_env \<Rightarrow> navigate_request \<Rightarrow> dir_service \<Rightarrow> ((application_error + directory_snapshot) \<times> dir_service) option" where
  "navigate_directory env r = list_directory env (list_request_of_navigate r)"

definition refresh_directory ::
  "dir_env \<Rightarrow> list_request \<Rightarrow> dir_service \<Rightarrow> ((application_error + directory_snapshot) \<times> dir_service) option" where
  "refresh_directory env req = list_directory env req"

definition list_children ::
  "dir_env \<Rightarrow> location \<Rightarrow> bool \<Rightarrow> nat \<Rightarrow> ((application_error + entry_summary list) \<times> nat) option" where
  "list_children env l hidden_too t =
    (case registry_resolve (de_providers env) l of
       Inl e \<Rightarrow> Some (Inl (app_of_vfs e), t)
     | Inr pr \<Rightarrow>
         (case provider_list_all pr l t of
            None \<Rightarrow> None
          | Some (Inl e, t') \<Rightarrow> Some (Inl (app_of_vfs e), t')
          | Some (Inr entries, t') \<Rightarrow>
              Some (Inr (sort_by (\<lambda>a b. ord_cmp (de_lower env (es_name a)) (de_lower env (es_name b)))
                [e \<leftarrow> entries. es_kind e = Directory \<and> (hidden_too \<or> \<not> es_hidden e)]), t')))"

section \<open>Publishing changes\<close>

text \<open>A lone reset is stamped with the final revision.\<close>

fun stamp_reset :: "u64 \<Rightarrow> directory_delta list \<Rightarrow> directory_delta list" where
  "stamp_reset final [Reset sp] = [Reset (sp\<lparr>sp_revision := final\<rparr>)]"
| "stamp_reset final deltas = deltas"

text \<open>\<open>publish_changes\<close> up to the release of the lock; the deltas are published afterwards.\<close>

definition commit_changes ::
  "dir_env \<Rightarrow> pane_watch \<Rightarrow> provider_change \<Rightarrow> entry_summary list \<Rightarrow> dir_service \<Rightarrow> directory_delta list \<times> dir_service" where
  "commit_changes env w change listing s =
    (let entries = arrange_entries env (pw_show_hidden w) (pw_folders_first w) (pw_sort w) listing in
     case ds_panes s (pw_pane_id w) of
       None \<Rightarrow> ([], s)
     | Some st \<Rightarrow>
         (case pn_snapshot st of
            None \<Rightarrow> ([], s)
          | Some previous \<Rightarrow>
              if sn_location previous \<noteq> pw_location w then ([], s)
              else
                (let rv = pn_revision st + 1;
                     (size, count) = aggregate_totals entries;
                     snapshot = previous\<lparr>sn_revision := rv, sn_entries := entries,
                       sn_total_known_entries := Some (of_nat (length entries)), sn_total_known_size := Some size,
                       sn_total_known_file_count := Some count, sn_has_more := False, sn_continuation_token := None\<rparr>;
                     deltas = deltas_for_change change previous snapshot entries rv;
                     final = (if deltas = [] then rv else delta_revision (last deltas));
                     published = stamp_reset final deltas;
                     st' = st\<lparr>pn_revision := final, pn_full_entries := Some entries,
                       pn_snapshot := Some (snapshot\<lparr>sn_revision := final\<rparr>)\<rparr>
                 in (published, s\<lparr>ds_panes := (ds_panes s)(pw_pane_id w \<mapsto> st')\<rparr>))))"

text \<open>The loop that publishes the deltas, run without interruption.\<close>

definition publish_deltas :: "pane_watch \<Rightarrow> directory_delta list \<Rightarrow> dir_service \<Rightarrow> dir_service" where
  "publish_deltas w deltas s = s\<lparr>ds_published := ds_published s
     @ map (\<lambda>d. (Workspace (pw_workspace_id w), pw_pane_id w, d)) deltas\<rparr>"

definition publish_changes ::
  "dir_env \<Rightarrow> pane_watch \<Rightarrow> provider_change \<Rightarrow> entry_summary list \<Rightarrow> dir_service \<Rightarrow> dir_service" where
  "publish_changes env w change listing s =
    (let (deltas, s') = commit_changes env w change listing s in publish_deltas w deltas s')"

text \<open>The panes that \<open>refresh_affected\<close> lists again; \<open>order\<close> is the iteration order of the pane table.\<close>

definition refresh_target :: "dir_env \<Rightarrow> location set \<Rightarrow> dir_service \<Rightarrow> pane_id \<Rightarrow> pane_watch option" where
  "refresh_target env locations s p =
    Option.bind (ds_panes s p) (\<lambda>st.
    Option.bind (pn_snapshot st) (\<lambda>sn.
      if sn_location sn \<notin> locations \<or> \<not> is_ok (registry_resolve (de_providers env) (sn_location sn)) then None
      else Some \<lparr>pw_location = sn_location sn, pw_workspace_id = pn_workspace_id st, pw_pane_id = p,
        pw_show_hidden = pn_show_hidden st, pw_folders_first = pn_folders_first st,
        pw_show_git_status = pn_show_git_status st, pw_sort = pn_sort st, pw_cancellation = pn_cancellation st\<rparr>))"

definition refresh_targets :: "dir_env \<Rightarrow> location set \<Rightarrow> dir_service \<Rightarrow> pane_id list \<Rightarrow> pane_watch list" where
  "refresh_targets env locations s order = List.map_filter (refresh_target env locations s) order"

text \<open>Listing a watched location again: the answer of \<open>list_all\<close> with its git status.\<close>

definition relist ::
  "dir_env \<Rightarrow> pane_watch \<Rightarrow> nat \<Rightarrow> ((vfs_error + entry_summary list) \<times> nat) option" where
  "relist env w t =
    (case registry_resolve (de_providers env) (pw_location w) of
       Inl e \<Rightarrow> Some (Inl e, t)
     | Inr pr \<Rightarrow>
         (case provider_list_all pr (pw_location w) t of
            None \<Rightarrow> None
          | Some (Inl e, t') \<Rightarrow> Some (Inl e, t')
          | Some (Inr entries, t') \<Rightarrow>
              Some (Inr (annotate_git_status env t' (pw_location w) True (pw_show_git_status w) entries), Suc t')))"

fun refresh_all :: "dir_env \<Rightarrow> pane_watch list \<Rightarrow> dir_service \<Rightarrow> dir_service option" where
  "refresh_all env [] s = Some s"
| "refresh_all env (w # ws) s =
    (case relist env w (ds_clock s) of
       None \<Rightarrow> None
     | Some (Inl _, t) \<Rightarrow> refresh_all env ws (s\<lparr>ds_clock := t\<rparr>)
     | Some (Inr entries, t) \<Rightarrow> refresh_all env ws (publish_changes env w ResetRequired entries (s\<lparr>ds_clock := t\<rparr>)))"

definition refresh_affected ::
  "dir_env \<Rightarrow> location set \<Rightarrow> pane_id list \<Rightarrow> dir_service \<Rightarrow> dir_service option" where
  "refresh_affected env locations order s = refresh_all env (refresh_targets env locations s order) s"

section \<open>Polling\<close>

definition BACKGROUND_POLL_MULTIPLIER :: u32 where
  "BACKGROUND_POLL_MULTIPLIER = 4"

definition MAX_POLL_BACKOFF_MULTIPLIER :: u32 where
  "MAX_POLL_BACKOFF_MULTIPLIER = 8"

text \<open>The fingerprint of a poll is the table of its entries by id; the model keeps the entries.\<close>

record poll_state =
  ps_previous :: "entry_summary list option"
  ps_backoff :: u32

datatype poll_outcome = PollStop | PollEmit poll_state | PollAgain poll_state

definition poll_new :: poll_state where
  "poll_new = \<lparr>ps_previous = None, ps_backoff = 1\<rparr>"

definition same_fingerprint :: "entry_summary list \<Rightarrow> entry_summary list \<Rightarrow> bool" where
  "same_fingerprint xs ys \<longleftrightarrow> list_all (\<lambda>i. by_id xs i = by_id ys i) (map es_id (xs @ ys))"

definition poll_interval :: "nat \<Rightarrow> bool \<Rightarrow> poll_state \<Rightarrow> nat" where
  "poll_interval base_interval active ps =
    base_interval * unat ((if active then 1 else BACKGROUND_POLL_MULTIPLIER) * ps_backoff ps)"

text \<open>One turn of the loop after the sleep, given the answer of \<open>list_all\<close>.\<close>

definition poll_turn :: "vfs_error + entry_summary list \<Rightarrow> poll_state \<Rightarrow> poll_outcome" where
  "poll_turn answer ps =
    (case answer of
       Inr entries \<Rightarrow>
         (let is_first_poll = (ps_previous ps = None);
              changed = (case ps_previous ps of Some old \<Rightarrow> \<not> same_fingerprint old entries | None \<Rightarrow> True);
              ps' = \<lparr>ps_previous = Some entries, ps_backoff = 1\<rparr>
          in if changed \<and> \<not> is_first_poll then PollEmit ps' else PollAgain ps')
     | Inl VfsCancelled \<Rightarrow> PollStop
     | Inl _ \<Rightarrow> PollAgain (ps\<lparr>ps_backoff := min (ps_backoff ps * 2) MAX_POLL_BACKOFF_MULTIPLIER\<rparr>))"

text \<open>The changes the stream emits for the answers of successive polls, with the state it ends in.\<close>

fun poll_run :: "(vfs_error + entry_summary list) list \<Rightarrow> poll_state \<Rightarrow> bool list \<times> poll_state option" where
  "poll_run [] ps = ([], Some ps)"
| "poll_run (a # as) ps =
    (case poll_turn a ps of
       PollStop \<Rightarrow> ([], None)
     | PollEmit ps' \<Rightarrow> (let (es, r) = poll_run as ps' in (True # es, r))
     | PollAgain ps' \<Rightarrow> (let (es, r) = poll_run as ps' in (False # es, r)))"

section \<open>Interleavings\<close>

text \<open>What a step assigns: the revisions it stores or publishes for panes, in order.\<close>

type_synonym assigned = "(pane_id \<times> u64) list"

inductive dir_step :: "dir_env \<Rightarrow> dir_service \<Rightarrow> assigned \<Rightarrow> dir_service \<Rightarrow> bool" for env where
  list_begins:
    "begin_list req s = (cached, s') \<Longrightarrow>
     dir_step env s [] (s'\<lparr>ds_tasks := ds_tasks s' @ [LoadTask req cached]\<rparr>)"
| list_fails:
    "ds_tasks s = as @ LoadTask req cached # bs \<Longrightarrow> dir_step env s [] (s\<lparr>ds_tasks := as @ bs\<rparr>)"
| list_rejected:
    "ds_tasks s = as @ LoadTask req cached # bs \<Longrightarrow> cached = None \<or> cached = Some full \<Longrightarrow>
     publish_page env req full (s\<lparr>ds_tasks := as @ bs\<rparr>) = (Inl e, s') \<Longrightarrow> dir_step env s [] s'"
| list_stores:
    "ds_tasks s = as @ LoadTask req cached # bs \<Longrightarrow> cached = None \<or> cached = Some full \<Longrightarrow>
     publish_page env req full s = (Inr (sn, tk), s') \<Longrightarrow>
     dir_step env s [(lr_pane_id req, sn_revision sn)] (s'\<lparr>ds_tasks := as @ AttachTask req sn tk # bs\<rparr>)"
| list_returns:
    "ds_tasks s = as @ AttachTask req sn tk # bs \<Longrightarrow>
     attach_watch env req sn tk (s\<lparr>ds_tasks := as @ bs\<rparr>) = (r, s') \<Longrightarrow> dir_step env s [] s'"
| watch_changes:
    "ds_tasks s = as @ WatchTask w # bs \<Longrightarrow> commit_changes env w change listing s = (deltas, s') \<Longrightarrow>
     dir_step env s (map (\<lambda>d. (pw_pane_id w, delta_revision d)) deltas)
       (s'\<lparr>ds_outbox := ds_outbox s' @ [(pw_workspace_id w, pw_pane_id w, deltas)]\<rparr>)"
| watch_ends:
    "ds_tasks s = as @ WatchTask w # bs \<Longrightarrow>
     dir_step env s [] (watch_release (pw_location w) (s\<lparr>ds_tasks := as @ bs\<rparr>))"
| refresh_begins:
    "dir_step env s [] (s\<lparr>ds_tasks := ds_tasks s @ map RefreshTask (refresh_targets env locations s order)\<rparr>)"
| refresh_fails:
    "ds_tasks s = as @ RefreshTask w # bs \<Longrightarrow> dir_step env s [] (s\<lparr>ds_tasks := as @ bs\<rparr>)"
| refresh_changes:
    "ds_tasks s = as @ RefreshTask w # bs \<Longrightarrow>
     commit_changes env w ResetRequired listing (s\<lparr>ds_tasks := as @ bs\<rparr>) = (deltas, s') \<Longrightarrow>
     dir_step env s (map (\<lambda>d. (pw_pane_id w, delta_revision d)) deltas)
       (s'\<lparr>ds_outbox := ds_outbox s' @ [(pw_workspace_id w, pw_pane_id w, deltas)]\<rparr>)"
| delta_published:
    "ds_outbox s = as @ (ws, p, d # ds) # bs \<Longrightarrow>
     dir_step env s [] (s\<lparr>ds_outbox := as @ (ws, p, ds) # bs, ds_published := ds_published s @ [(Workspace ws, p, d)]\<rparr>)"
| activity:
    "set_pane_activity p active s = (r, s') \<Longrightarrow> dir_step env s [] s'"
| time_passes:
    "dir_step env s [] (s\<lparr>ds_clock := t\<rparr>)"

text \<open>A run collects what its steps assign.\<close>

inductive dir_run :: "dir_env \<Rightarrow> dir_service \<Rightarrow> assigned list \<Rightarrow> dir_service \<Rightarrow> bool" for env where
  run_start: "dir_run env s [] s"
| run_step: "dir_run env s ls s' \<Longrightarrow> dir_step env s' l s'' \<Longrightarrow> dir_run env s (ls @ [l]) s''"

inductive_cases dir_stepE: "dir_step env s l s'"

end
