(* ===== verification/Directory_Laws.thy ===== *)
theory Directory_Laws
  imports Directory
begin

text \<open>
  Properties of the directory service: the order of listings, the pages a client receives, revisions
  under every interleaving of the tasks, the deltas as a patch of the client's view, the reference
  counts of shared watches and the polling stream.
\<close>

section \<open>The order of a listing\<close>

text \<open>A comparison function in the sense of \<open>Ord::cmp\<close> sorts stably by insertion.\<close>

locale rust_order = comparator cmp for cmp :: "'a \<Rightarrow> 'a \<Rightarrow> comp"
begin

lemma le_trans: "cmp a b \<noteq> Greater \<Longrightarrow> cmp b c \<noteq> Greater \<Longrightarrow> cmp a c \<noteq> Greater"
  using trans_not_greater by blast

lemma insert_by_sorted:
  "sorted_wrt (\<lambda>a b. cmp a b \<noteq> Greater) xs \<Longrightarrow> sorted_wrt (\<lambda>a b. cmp a b \<noteq> Greater) (insert_by cmp x xs)"
proof (induction xs)
  case (Cons y ys)
  have mem: "set (insert_by cmp x ys) = insert x (set ys)" by (induction ys) auto
  show ?case
  proof (cases "cmp x y = Greater")
    case True
    then have "cmp y x \<noteq> Greater" using asym_greater by blast
    then show ?thesis using True Cons mem by auto
  next
    case False
    then show ?thesis using Cons.prems le_trans by auto
  qed
qed simp

lemma sort_by_sorted: "sorted_wrt (\<lambda>a b. cmp a b \<noteq> Greater) (sort_by cmp xs)"
  unfolding sort_by_def by (induction xs) (auto intro: insert_by_sorted)

lemma insert_by_stable:
  "[y \<leftarrow> insert_by cmp x xs. cmp y k = Equiv] = (if cmp x k = Equiv then [x] else []) @ [y \<leftarrow> xs. cmp y k = Equiv]"
proof (induction xs)
  case (Cons y ys)
  have "cmp x y = Greater \<Longrightarrow> cmp x k = Equiv \<Longrightarrow> cmp y k = Equiv \<Longrightarrow> False"
    using equiv_subst_right [of k y x] sym by (metis comp.distinct trans_equiv)
  then show ?case using Cons.IH by auto
qed simp

lemma sort_by_stable: "[y \<leftarrow> sort_by cmp xs. cmp y k = Equiv] = [y \<leftarrow> xs. cmp y k = Equiv]"
  unfolding sort_by_def by (induction xs) (auto simp: insert_by_stable)

end

lemma mset_insert_by [simp]: "mset (insert_by cmp x xs) = add_mset x (mset xs)"
  by (induction xs) auto

lemma mset_sort_by [simp]: "mset (sort_by cmp xs) = mset xs"
  unfolding sort_by_def by (induction xs) auto

lemma set_sort_by [simp]: "set (sort_by cmp xs) = set xs"
  using mset_sort_by [of cmp xs] by (metis set_mset_mset)

lemma length_sort_by [simp]: "length (sort_by cmp xs) = length xs"
  using mset_sort_by [of cmp xs] by (metis size_mset)

text \<open>Comparison functions are closed under keys, reversal and lexicographic composition.\<close>

lemma comparator_key: "comparator (\<lambda>a b. ord_cmp (f a) (f b))"
  by unfold_locales (auto simp: ord_cmp_def split: if_splits)

lemma comp_reverse_eq [simp]:
  "comp_reverse r = Equiv \<longleftrightarrow> r = Equiv" "comp_reverse r = Less \<longleftrightarrow> r = Greater" "comp_reverse r = Greater \<longleftrightarrow> r = Less"
  by (cases r; simp)+

lemma comparator_reverse:
  assumes "comparator c"
  shows "comparator (\<lambda>a b. comp_reverse (c a b))"
proof -
  note laws = comparator.refl [OF assms] comparator.trans_equiv [OF assms] comparator.trans_greater [OF assms]
    comparator.greater_iff_sym_less [OF assms]
  show ?thesis by unfold_locales (simp_all, (use laws in blast)+)
qed

lemma comparator_lex:
  assumes "comparator c" and "comparator d"
  shows "comparator (\<lambda>x y. if c x y \<noteq> Equiv then c x y else d x y)"
proof
  fix x y z
  note c = comparator.trans_equiv [OF assms(1)] comparator.trans_less [OF assms(1)]
    comparator.trans_equiv_less [OF assms(1)] comparator.trans_less_equiv [OF assms(1)]
    comparator.greater_iff_sym_less [OF assms(1)] comparator.sym [OF assms(1)]
  note d = comparator.trans_equiv [OF assms(2)] comparator.trans_less [OF assms(2)]
    comparator.greater_iff_sym_less [OF assms(2)]
  let ?l = "\<lambda>x y. if c x y \<noteq> Equiv then c x y else d x y"
  show "?l x x = Equiv" using assms by (simp add: comparator.refl)
  show "?l x y = Equiv \<Longrightarrow> ?l y z = Equiv \<Longrightarrow> ?l x z = Equiv"
    using c(1) d(1) by (metis (mono_tags))
  show "?l x y = Less \<Longrightarrow> ?l y z = Less \<Longrightarrow> ?l x z = Less"
    using c(1-4) d(2) by (metis (mono_tags) comp.distinct(1))
  show "?l y x = Greater \<longleftrightarrow> ?l x y = Less"
    using c(5,6) d(3) by (metis (mono_tags) comp.distinct)
qed

lemma comparator_cong: "comparator c \<Longrightarrow> (\<And>x y. c x y = d x y) \<Longrightarrow> comparator d"
  by (metis ext)

lemma comparator_compare_entry: "comparator (compare_entry lower column)"
proof -
  consider "column = ''core.extension''" | "column = ''core.size''" | "column = ''core.modified''"
    | "column \<notin> {''core.extension'', ''core.size'', ''core.modified''}" by blast
  then show ?thesis
  proof cases
    case 1
    show ?thesis by (rule comparator_cong [OF comparator_key [of es_extension]]) (simp add: compare_entry_def 1)
  next
    case 2
    show ?thesis by (rule comparator_cong [OF comparator_key [of es_size]]) (simp add: compare_entry_def 2)
  next
    case 3
    show ?thesis by (rule comparator_cong [OF comparator_key [of es_modified_at]]) (simp add: compare_entry_def 3)
  next
    case 4
    show ?thesis
      by (rule comparator_cong [OF comparator_key [of "\<lambda>e. lower (es_name e)"]]) (use 4 in \<open>simp add: compare_entry_def\<close>)
  qed
qed

lemma comparator_compare_by: "comparator (compare_by lower ds)"
proof (induction ds)
  case Nil
  show ?case by (rule comparator_cong [OF comparator_key [of es_name]]) simp
next
  case (Cons d ds)
  let ?c = "\<lambda>l r. case direction d of Ascending \<Rightarrow> compare_entry lower (sort_column_id d) l r
    | Descending \<Rightarrow> comp_reverse (compare_entry lower (sort_column_id d) l r)"
  have "comparator ?c"
    using comparator_compare_entry comparator_reverse [OF comparator_compare_entry] by (cases "direction d") simp_all
  from comparator_lex [OF this Cons.IH] show ?case
    by (rule comparator_cong) (auto simp: Let_def split: sort_direction.splits)
qed

lemma comparator_folder_cmp: "comparator folder_cmp"
  by unfold_locales (auto simp: folder_cmp_def ord_cmp_def split: if_splits)

lemma comparator_entry_cmp: "comparator (entry_cmp lower ds folders)"
proof (cases folders)
  case True
  show ?thesis
    by (rule comparator_cong [OF comparator_lex [OF comparator_folder_cmp comparator_compare_by [of lower ds]]])
      (simp add: entry_cmp_def True)
next
  case False
  show ?thesis by (rule comparator_cong [OF comparator_compare_by [of lower ds]]) (simp add: entry_cmp_def False)
qed

interpretation entry_order: rust_order "entry_cmp lower ds folders" for lower ds folders
  unfolding rust_order_def by (rule comparator_entry_cmp)

lemma arrange_entries_laws:
  "mset (arrange_entries env hidden_too folders ds xs) = mset [e \<leftarrow> xs. hidden_too \<or> \<not> es_hidden e]"
  "sorted_wrt (\<lambda>a b. entry_cmp (de_lower env) ds folders a b \<noteq> Greater) (arrange_entries env hidden_too folders ds xs)"
  "length (arrange_entries env hidden_too folders ds xs) \<le> length xs"
  by (simp_all add: arrange_entries_def sort_entries_def entry_order.sort_by_sorted)

lemma arrange_entries_subset: "set (arrange_entries env h f ds xs) \<subseteq> set xs"
  by (auto simp: arrange_entries_def sort_entries_def)

section \<open>Pages\<close>

lemma parse_usize_show_nat: "int n < 2 ^ 64 \<Longrightarrow> parse_usize (show_nat n) = Some n"
proof -
  assume "int n < 2 ^ 64"
  moreover have "list_all is_ascii_digit (show_nat n)" by (auto simp: list_all_iff dest: show_nat_digits)
  moreover have "show_nat n = c # cs \<Longrightarrow> c \<noteq> CHR ''+''" for c cs
    using show_nat_digits [of "CHR ''+''" n] by (auto simp: is_ascii_digit_def in_range_def byte_def)
  ultimately show ?thesis
    by (cases "show_nat n") (use read_show_nat [of n] in \<open>auto simp: parse_usize_def Let_def simp del: read_nat.simps\<close>)
qed

lemma page_range_first: "page_range None full = Inr (0, min (length full) LIST_PAGE_SIZE)"
  by (simp add: page_range_def decode_page_offset_def)

lemma page_range_next:
  "int off < 2 ^ 64 \<Longrightarrow> off \<le> length full \<Longrightarrow>
   page_range (Some (show_nat off)) full = Inr (off, min (length full) (off + LIST_PAGE_SIZE))"
  by (simp add: page_range_def decode_page_offset_def parse_usize_show_nat)

definition pane_snapshot_of :: "dir_service \<Rightarrow> pane_id \<Rightarrow> directory_snapshot option" where
  "pane_snapshot_of s p = Option.bind (ds_panes s p) pn_snapshot"

text \<open>A pane that holds a complete listing for the options of a request.\<close>

definition pane_holds :: "dir_service \<Rightarrow> list_request \<Rightarrow> entry_summary list \<Rightarrow> bool" where
  "pane_holds s req full \<longleftrightarrow> (\<exists>st sn. ds_panes s (lr_pane_id req) = Some st
     \<and> pn_snapshot st = Some sn \<and> sn_location sn = lr_location req \<and> pn_full_entries st = Some full
     \<and> pn_show_hidden st = lr_show_hidden req \<and> pn_folders_first st = lr_folders_first req
     \<and> pn_show_git_status st = lr_show_git_status req \<and> pn_sort st = lr_sort req)"

lemma begin_list_pane:
  assumes "begin_list req s = (cached, s1)"
  obtains st where "ds_panes s1 (lr_pane_id req) = Some st" "pn_request_id st = lr_request_id req"
    "pn_show_hidden st = lr_show_hidden req" "pn_folders_first st = lr_folders_first req"
    "pn_show_git_status st = lr_show_git_status req" "pn_sort st = lr_sort req" "pn_full_entries st = cached"
  using assms that by (auto simp: begin_list_def Let_def split: prod.splits)

lemma begin_list_cached:
  assumes "begin_list req s = (cached, s1)"
  shows "lr_continuation_token req = None \<Longrightarrow> cached = None"
    and "lr_continuation_token req \<noteq> None \<Longrightarrow> pane_holds s req full \<Longrightarrow> cached = Some full"
    and "ds_clock s1 = ds_clock s" "ds_watches s1 = ds_watches s" "ds_tasks s1 = ds_tasks s"
  using assms by (auto simp: begin_list_def Let_def continues_listing_def pane_holds_def
      split: prod.splits option.splits if_splits)

lemma publish_page_ok:
  assumes "ds_panes s (lr_pane_id req) = Some st" "pn_request_id st = lr_request_id req"
    and "pn_show_hidden st = lr_show_hidden req" "pn_folders_first st = lr_folders_first req"
    and "pn_show_git_status st = lr_show_git_status req" "pn_sort st = lr_sort req"
    and "page_range (lr_continuation_token req) full = Inr (off, fin)"
  shows "\<exists>s'. publish_page env req full s = (Inr (page_snapshot req full off fin
      (inspect_writable env (lr_location req) (ds_clock s)) (pn_revision st + 1), pn_watch_cancellation st), s')
    \<and> pane_holds s' req full \<and> pane_snapshot_of s' (lr_pane_id req) = Some (page_snapshot req full off fin
      (inspect_writable env (lr_location req) (ds_clock s)) (pn_revision st + 1))"
proof -
  define sn where "sn = page_snapshot req full off fin (inspect_writable env (lr_location req) (ds_clock s)) (pn_revision st + 1)"
  have "sn_location sn = lr_location req" by (simp add: sn_def page_snapshot_def Let_def split: prod.split)
  then show ?thesis using assms
    by (simp add: publish_page_def pane_holds_def pane_snapshot_of_def Let_def flip: sn_def)
qed

lemma page_snapshot_simps [simp]:
  "sn_location (page_snapshot req full off fin writable rv) = lr_location req"
  "sn_entries (page_snapshot req full off fin writable rv) = take (fin - off) (drop off full)"
  "sn_continuation_token (page_snapshot req full off fin writable rv) = (if fin < length full then Some (show_nat fin) else None)"
  "sn_revision (page_snapshot req full off fin writable rv) = rv"
  by (simp_all add: page_snapshot_def Let_def split: prod.split)

text \<open>The provider answers a request to watch the location, or is polled, or cannot be watched at all.\<close>

definition can_watch :: "provider \<Rightarrow> location \<Rightarrow> bool" where
  "can_watch pr l \<longleftrightarrow> (case pr_change_tracking pr of
     NativeWatch \<Rightarrow> (\<forall>t. pr_watch pr t l = Inr ()) | DeltaApi \<Rightarrow> (\<forall>t. pr_watch pr t l = Inr ()) | _ \<Rightarrow> True)"

lemma attach_watch_ok:
  assumes "de_providers env (provider_id (lr_location req)) = Some pr" "can_watch pr (lr_location req)"
    and "sn_location sn = lr_location req"
  shows "\<exists>s'. attach_watch env req sn tk s = (Inr sn, s') \<and> ds_panes s' = ds_panes s"
  using assms
  by (cases "pr_change_tracking pr")
    (auto simp: attach_watch_def watch_acquire_def can_watch_def registry_resolve_def Let_def split: option.splits)

lemma page_after_begin:
  assumes "begin_list req s = (cached, s1)" "de_providers env (provider_id (lr_location req)) = Some pr"
    and "can_watch pr (lr_location req)" "load_entries env req cached (ds_clock s1) = Some (Inr full, t)"
    and "page_range (lr_continuation_token req) full = Inr (off, fin)"
  shows "\<exists>sn s'. list_directory env req s = Some (Inr sn, s') \<and> pane_holds s' req full
    \<and> pane_snapshot_of s' (lr_pane_id req) = Some sn \<and> sn_location sn = lr_location req
    \<and> sn_entries sn = take (fin - off) (drop off full)
    \<and> sn_continuation_token sn = (if fin < length full then Some (show_nat fin) else None)"
proof -
  obtain st where st: "ds_panes s1 (lr_pane_id req) = Some st" "pn_request_id st = lr_request_id req"
    "pn_show_hidden st = lr_show_hidden req" "pn_folders_first st = lr_folders_first req"
    "pn_show_git_status st = lr_show_git_status req" "pn_sort st = lr_sort req"
    using begin_list_pane [OF assms(1)] by metis
  obtain sn s2 where page: "publish_page env req full (s1\<lparr>ds_clock := t\<rparr>) = (Inr (sn, pn_watch_cancellation st), s2)"
    "sn = page_snapshot req full off fin (inspect_writable env (lr_location req) t) (pn_revision st + 1)"
    "pane_holds s2 req full" "pane_snapshot_of s2 (lr_pane_id req) = Some sn"
    using publish_page_ok [of "s1\<lparr>ds_clock := t\<rparr>" req st full off fin env] st assms(5) by simp blast
  obtain s3 where "attach_watch env req sn (pn_watch_cancellation st) s2 = (Inr sn, s3)" "ds_panes s3 = ds_panes s2"
    using attach_watch_ok [OF assms(2,3), of sn "pn_watch_cancellation st" s2] page(2) by auto
  moreover from this have "pane_holds s3 req full" "pane_snapshot_of s3 (lr_pane_id req) = Some sn"
    using page(3,4) by (simp_all add: pane_holds_def pane_snapshot_of_def)
  ultimately show ?thesis using assms(1,4) page(1,2) by (simp add: list_directory_def)
qed

text \<open>The client that follows the continuation tokens, each request with an id of its own.\<close>

fun follow_pages ::
  "dir_env \<Rightarrow> list_request \<Rightarrow> nat \<Rightarrow> dir_service \<Rightarrow> (entry_summary list list \<times> dir_service) option" where
  "follow_pages env req 0 s = None"
| "follow_pages env req (Suc n) s =
    (case list_directory env req s of
       Some (Inr sn, s') \<Rightarrow>
         (case sn_continuation_token sn of
            None \<Rightarrow> Some ([sn_entries sn], s')
          | Some tk \<Rightarrow> map_option (\<lambda>(ps, s''). (sn_entries sn # ps, s''))
              (follow_pages env (req\<lparr>lr_continuation_token := Some tk, lr_request_id := Suc (lr_request_id req)\<rparr>) n s'))
     | _ \<Rightarrow> None)"

lemma cached_page_stored:
  assumes "de_providers env (provider_id (lr_location req)) = Some pr" "can_watch pr (lr_location req)"
    and "int (length full) < 2 ^ 64" "off \<le> length full"
    and "lr_continuation_token req = Some (show_nat off)" "pane_holds s req full"
    and "fin = min (length full) (off + LIST_PAGE_SIZE)"
  shows "\<exists>sn s'. list_directory env req s = Some (Inr sn, s') \<and> pane_holds s' req full
    \<and> pane_snapshot_of s' (lr_pane_id req) = Some sn \<and> sn_location sn = lr_location req
    \<and> sn_entries sn = take (fin - off) (drop off full)
    \<and> sn_continuation_token sn = (if fin < length full then Some (show_nat fin) else None)"
proof -
  obtain cached s1 where beg: "begin_list req s = (cached, s1)" by (cases "begin_list req s")
  then have "cached = Some full" using begin_list_cached(2) assms(5,6) by fastforce
  then have load: "load_entries env req cached (ds_clock s1) = Some (Inr full, ds_clock s1)"
    using assms(1) by (simp add: load_entries_def registry_resolve_def)
  have "int off < 2 ^ 64" using assms(3,4) by linarith
  then have "page_range (lr_continuation_token req) full = Inr (off, fin)"
    using assms(4,5,7) page_range_next by simp
  from page_after_begin [OF beg assms(1,2) load this] show ?thesis .
qed

lemma follow_cached_pages:
  assumes "de_providers env (provider_id (lr_location req)) = Some pr" "can_watch pr (lr_location req)"
    and "int (length full) < 2 ^ 64" "off \<le> length full" "length full - off < LIST_PAGE_SIZE * n"
    and "lr_continuation_token req = Some (show_nat off)" "pane_holds s req full"
  shows "\<exists>ps s'. follow_pages env req n s = Some (ps, s') \<and> concat ps = drop off full
    \<and> (\<forall>p\<in>set ps. length p \<le> LIST_PAGE_SIZE)"
  using assms
proof (induction n arbitrary: req s off)
  case (Suc n)
  let ?fin = "min (length full) (off + LIST_PAGE_SIZE)"
  let ?req = "req\<lparr>lr_continuation_token := Some (show_nat ?fin), lr_request_id := Suc (lr_request_id req)\<rparr>"
  from cached_page_stored [OF Suc.prems(1,2,3,4,6,7) refl] obtain sn s' where sn:
    "list_directory env req s = Some (Inr sn, s')" "pane_holds s' req full"
    "sn_entries sn = take (?fin - off) (drop off full)"
    "sn_continuation_token sn = (if ?fin < length full then Some (show_nat ?fin) else None)" by blast
  have short: "length (sn_entries sn) \<le> LIST_PAGE_SIZE" using sn(3) by simp
  show ?case
  proof (cases "?fin < length full")
    case True
    then have fin: "?fin = off + LIST_PAGE_SIZE" by linarith
    have holds: "pane_holds s' ?req full" using sn(2) by (simp add: pane_holds_def)
    have "length full - ?fin < LIST_PAGE_SIZE * n" using Suc.prems(5) True fin by simp
    then obtain ps s'' where "follow_pages env ?req n s' = Some (ps, s'')" "concat ps = drop ?fin full"
      "\<forall>p\<in>set ps. length p \<le> LIST_PAGE_SIZE"
      using Suc.IH [OF _ _ Suc.prems(3) _ _ _ holds, of ?fin] Suc.prems(1,2) by auto
    moreover have "take (?fin - off) (drop off full) @ drop ?fin full = drop off full"
      using fin by (metis add.commute add_diff_cancel_left' append_take_drop_id drop_drop)
    ultimately show ?thesis using sn True short by simp
  next
    case False
    then have "take (?fin - off) (drop off full) = drop off full" by simp
    then show ?thesis using sn False short by simp
  qed
qed simp

lemma first_page_loads:
  assumes "begin_list req s = (cached, s1)" "lr_continuation_token req = None"
    and "de_providers env (provider_id (lr_location req)) = Some pr"
    and "provider_list_all pr (lr_location req) (ds_clock s) = Some (Inr listing, t)"
  shows "load_entries env req cached (ds_clock s1) = Some (Inr (arrange_entries env (lr_show_hidden req)
    (lr_folders_first req) (lr_sort req)
    (annotate_git_status env t (lr_location req) False (lr_show_git_status req) listing)), Suc t)"
  using assms begin_list_cached(1,3) [OF assms(1)] by (simp add: load_entries_def registry_resolve_def)

text \<open>C19: Following the continuation tokens of a listing ends and delivers every visible entry of the
  directory exactly once, in pages of at most 256 entries whose concatenation is ordered by the
  requested sort, whatever page structure the provider has.\<close>

theorem listing_pages_complete:
  assumes "de_providers env (provider_id (lr_location req)) = Some pr"
    and "can_watch pr (lr_location req)"
    and "lr_continuation_token req = None"
    and "provider_list_all pr (lr_location req) (ds_clock s) = Some (Inr listing, t)"
    and "entries = annotate_git_status env t (lr_location req) False (lr_show_git_status req) listing"
    and "int (length entries) < 2 ^ 64"
  shows "\<exists>pages s'. follow_pages env req (Suc (length entries div 256)) s = Some (pages, s')
    \<and> mset (concat pages) = mset [e \<leftarrow> entries. lr_show_hidden req \<or> \<not> es_hidden e]
    \<and> sorted_wrt (\<lambda>a b. entry_cmp (de_lower env) (lr_sort req) (lr_folders_first req) a b \<noteq> Greater) (concat pages)
    \<and> (\<forall>p\<in>set pages. length p \<le> 256)"
proof -
  let ?full = "arrange_entries env (lr_show_hidden req) (lr_folders_first req) (lr_sort req) entries"
  let ?n = "length entries div 256"
  let ?fin = "min (length ?full) LIST_PAGE_SIZE"
  let ?req = "req\<lparr>lr_continuation_token := Some (show_nat ?fin), lr_request_id := Suc (lr_request_id req)\<rparr>"
  note laws = arrange_entries_laws [where env = env and hidden_too = "lr_show_hidden req" and folders = "lr_folders_first req"
    and ds = "lr_sort req" and xs = entries]
  obtain cached s1 where beg: "begin_list req s = (cached, s1)" by (cases "begin_list req s")
  have load: "load_entries env req cached (ds_clock s1) = Some (Inr ?full, Suc t)"
    using first_page_loads [OF beg assms(3,1,4)] assms(5) by simp
  have range: "page_range (lr_continuation_token req) ?full = Inr (0, ?fin)" using assms(3) page_range_first by simp
  from page_after_begin [OF beg assms(1,2) load range] obtain sn s' where sn:
    "list_directory env req s = Some (Inr sn, s')" "pane_holds s' req ?full"
    "sn_entries sn = take ?fin ?full"
    "sn_continuation_token sn = (if ?fin < length ?full then Some (show_nat ?fin) else None)" by auto
  have "\<exists>ps s''. follow_pages env req (Suc ?n) s = Some (ps, s'') \<and> concat ps = ?full \<and> (\<forall>p\<in>set ps. length p \<le> 256)"
  proof (cases "?fin < length ?full")
    case True
    then have fin: "?fin = 256" by (simp add: LIST_PAGE_SIZE_def)
    have "length ?full - ?fin < LIST_PAGE_SIZE * ?n" using laws(3) fin True by (simp add: LIST_PAGE_SIZE_def)
    moreover have "int (length ?full) < 2 ^ 64" using assms(6) laws(3) by linarith
    moreover have "pane_holds s' ?req ?full" using sn(2) by (simp add: pane_holds_def)
    ultimately obtain ps s'' where "follow_pages env ?req ?n s' = Some (ps, s'')" "concat ps = drop ?fin ?full"
      "\<forall>p\<in>set ps. length p \<le> LIST_PAGE_SIZE"
      using follow_cached_pages [of env ?req pr ?full ?fin ?n s'] assms(1,2) by auto
    then show ?thesis using sn True fin by (simp add: LIST_PAGE_SIZE_def)
  next
    case False
    then show ?thesis using sn by (auto simp: LIST_PAGE_SIZE_def)
  qed
  then show ?thesis using laws(1,2) by metis
qed

definition listing_entry :: "nat \<Rightarrow> string \<Rightarrow> bool \<Rightarrow> entry_summary" where
  "listing_entry i name hidden = \<lparr>es_id = i, es_location = \<lparr>provider_id = ''s3'', uri = ''s3://x/'' @ name\<rparr>,
     es_name = name, es_kind = File, es_size = Some 1, es_modified_at = None, es_created_at = None,
     es_hidden = hidden, es_read_only = False, es_extension = None, es_mime_type = None, es_icon_key = None,
     es_metadata_revision = 0, es_git_status = None\<rparr>"

definition listing_provider :: provider where
  "listing_provider = \<lparr>pr_change_tracking = Poll 5,
     pr_list = (\<lambda>t l token. Inr (case token of
        None \<Rightarrow> \<lparr>dp_entries = [listing_entry 1 ''b'' False, listing_entry 2 ''.h'' True], dp_total_known = None,
          dp_has_more = True, dp_token = Some ''x''\<rparr>
      | Some _ \<Rightarrow> \<lparr>dp_entries = [listing_entry 3 ''a'' False], dp_total_known = None,
          dp_has_more = False, dp_token = None\<rparr>)),
     pr_inspect = (\<lambda>t l. Inr (listing_entry 0 ''x'' False)), pr_watch = (\<lambda>t l. Inl VfsCancelled)\<rparr>"

definition listing_env :: dir_env where
  "listing_env = \<lparr>de_providers = [''s3'' \<mapsto> listing_provider], de_lower = map to_ascii_lowercase,
     de_git = (\<lambda>t dir force es. es)\<rparr>"

definition listing_request :: "request_id \<Rightarrow> bool \<Rightarrow> list_request" where
  "listing_request i hidden_too = \<lparr>lr_workspace_id = 1, lr_pane_id = 7, lr_request_id = i,
     lr_location = \<lparr>provider_id = ''s3'', uri = ''s3://x''\<rparr>, lr_continuation_token = None,
     lr_sort = [\<lparr>sort_column_id = ''core.name'', direction = Ascending\<rparr>], lr_show_hidden = hidden_too,
     lr_folders_first = True, lr_show_git_status = False\<rparr>"

theorem listing_pages_complete_witness:
  "\<exists>pages s'. follow_pages listing_env (listing_request 1 False) 1 directory_service_new = Some (pages, s')
    \<and> mset (concat pages) = {#listing_entry 1 ''b'' False, listing_entry 3 ''a'' False#}
    \<and> (\<forall>p\<in>set pages. length p \<le> 256)"
proof -
  let ?listing = "[listing_entry 1 ''b'' False, listing_entry 2 ''.h'' True, listing_entry 3 ''a'' False]"
  have resolve: "de_providers listing_env (provider_id (lr_location (listing_request 1 False))) = Some listing_provider"
    by (simp add: listing_env_def listing_request_def)
  have watch: "can_watch listing_provider (lr_location (listing_request 1 False))"
    by (simp add: can_watch_def listing_provider_def)
  have first: "lr_continuation_token (listing_request 1 False) = None" by code_simp
  have all: "provider_list_all listing_provider (lr_location (listing_request 1 False)) (ds_clock directory_service_new)
      = Some (Inr ?listing, 2)" by code_simp
  have git: "?listing = annotate_git_status listing_env 2 (lr_location (listing_request 1 False)) False
      (lr_show_git_status (listing_request 1 False)) ?listing" by code_simp
  have short: "int (length ?listing) < 2 ^ 64" by simp
  have shown: "[e \<leftarrow> ?listing. lr_show_hidden (listing_request 1 False) \<or> \<not> es_hidden e]
      = [listing_entry 1 ''b'' False, listing_entry 3 ''a'' False]" by code_simp
  from listing_pages_complete [OF resolve watch first all git short] show ?thesis unfolding shown by auto
qed

section \<open>Deltas as patches\<close>

text \<open>What a client does with a delta: its view maps entry ids to payloads.\<close>

type_synonym client_view = "nat \<rightharpoonup> entry_summary_payload"

definition put_entries :: "entry_summary_payload list \<Rightarrow> client_view \<Rightarrow> client_view" where
  "put_entries es m = fold (\<lambda>e m. m(ep_id e \<mapsto> e)) es m"

fun apply_delta :: "directory_delta \<Rightarrow> client_view \<Rightarrow> client_view" where
  "apply_delta (EntriesAdded _ es) m = put_entries es m"
| "apply_delta (EntriesUpdated _ es) m = put_entries es m"
| "apply_delta (EntriesRemoved _ ids) m = m |` (- set ids)"
| "apply_delta (Reset sn) m = put_entries (sp_entries sn) Map.empty"

definition client_view_of :: "entry_summary list \<Rightarrow> client_view" where
  "client_view_of es = put_entries (map entry_summary_payload_from es) Map.empty"

lemma ep_id_payload [simp]: "ep_id (entry_summary_payload_from e) = es_id e"
  by (simp add: entry_summary_payload_from_def)

lemma by_id_snoc [simp]: "by_id (es @ [e]) = (by_id es)(es_id e \<mapsto> e)"
  by (simp add: by_id_def)

lemma by_id_Nil [simp]: "by_id [] = Map.empty"
  by (simp add: by_id_def)

lemma put_entries_by_id:
  "put_entries (map entry_summary_payload_from es) m i =
    (case by_id es i of Some e \<Rightarrow> Some (entry_summary_payload_from e) | None \<Rightarrow> m i)"
  by (induction es rule: rev_induct) (simp_all add: put_entries_def)

lemma by_id_None: "by_id es i = None \<longleftrightarrow> i \<notin> es_id ` set es"
  by (induction es rule: rev_induct) auto

lemma by_id_SomeD: "by_id es i = Some e \<Longrightarrow> e \<in> set es \<and> es_id e = i"
  by (induction es rule: rev_induct) (auto split: if_splits)

lemma by_id_distinct: "distinct (map es_id es) \<Longrightarrow> by_id es i = Some e \<longleftrightarrow> e \<in> set es \<and> es_id e = i"
  by (induction es rule: rev_induct) (auto simp: image_iff)

lemma by_id_filter:
  assumes "distinct (map es_id es)"
  shows "by_id (filter P es) i = (case by_id es i of Some e \<Rightarrow> if P e then Some e else None | None \<Rightarrow> None)"
  using assms by (induction es rule: rev_induct) (auto simp: by_id_None split: option.splits)

lemma client_view_of: "client_view_of es i = map_option entry_summary_payload_from (by_id es i)"
  by (simp add: client_view_of_def put_entries_by_id split: option.split)

lemma fold_apply_diff:
  "fold apply_delta (diff_entries previous current rv) m i =
    (if i \<in> es_id ` set previous \<and> i \<notin> es_id ` set current then None
     else case by_id [e \<leftarrow> current. by_id previous (es_id e) = None \<or> by_id previous (es_id e) \<noteq> Some e] i of
       Some e \<Rightarrow> Some (entry_summary_payload_from e) | None \<Rightarrow> m i)" if "distinct (map es_id current)"
proof -
  let ?removed = "map es_id [e \<leftarrow> previous. es_id e \<notin> set (map es_id current)]"
  let ?added = "[e \<leftarrow> current. by_id previous (es_id e) = None]"
  let ?updated = "[e \<leftarrow> current. case by_id previous (es_id e) of Some old \<Rightarrow> old \<noteq> e | None \<Rightarrow> False]"
  have nil: "put_entries [] = id" by (auto simp: put_entries_def)
  have univ: "m |` UNIV = m" for m :: client_view by (simp add: restrict_map_def)
  have "fold apply_delta (diff_entries previous current rv) m =
    (put_entries (map entry_summary_payload_from ?updated) (put_entries (map entry_summary_payload_from ?added) m))
      |` (- set ?removed)"
    by (cases "?added = []"; cases "?updated = []"; cases "?removed = []")
      (simp_all add: diff_entries_def Let_def nil univ)
  moreover have "set ?removed = {i \<in> es_id ` set previous. i \<notin> es_id ` set current}" by auto
  ultimately show ?thesis
    using that by (auto simp: restrict_map_def put_entries_by_id by_id_filter split: option.splits)
qed

lemma diff_keeps_absent:
  assumes "distinct (map es_id current)" "i \<notin> es_id ` set previous" "i \<notin> es_id ` set current"
  shows "fold apply_delta (diff_entries previous current rv) m i = m i"
proof -
  have "by_id (filter P current) i = None" for P using assms(3) by (auto simp: by_id_None)
  then show ?thesis using assms by (simp add: fold_apply_diff)
qed

lemma diff_patches_view:
  assumes "distinct (map es_id current)"
  shows "fold apply_delta (diff_entries previous current rv) (client_view_of previous) = client_view_of current"
proof
  fix i
  have "i \<in> es_id ` set xs \<longleftrightarrow> by_id xs i \<noteq> None" for xs by (simp add: by_id_None)
  then show "fold apply_delta (diff_entries previous current rv) (client_view_of previous) i = client_view_of current i"
    using assms by_id_SomeD [of current i]
    by (auto simp: fold_apply_diff client_view_of by_id_filter split: option.splits)
qed

lemma stamp_reset_other: "(\<And>sp. ds \<noteq> [Reset sp]) \<Longrightarrow> stamp_reset final ds = ds"
  by (cases "(final, ds)" rule: stamp_reset.cases) auto

lemma commit_changes_cases:
  assumes "commit_changes env w change listing s = (deltas, s')"
  obtains (ignored) "deltas = []" "s' = s" "\<nexists>st previous. ds_panes s (pw_pane_id w) = Some st
    \<and> pn_snapshot st = Some previous \<and> sn_location previous = pw_location w"
  | (stored) st previous sn final entries where
    "ds_panes s (pw_pane_id w) = Some st" "pn_snapshot st = Some previous" "sn_location previous = pw_location w"
    "entries = arrange_entries env (pw_show_hidden w) (pw_folders_first w) (pw_sort w) listing"
    "change = ResetRequired \<Longrightarrow> \<exists>sp. deltas = [Reset sp] \<and> sp_revision sp = pn_revision st + 1
       \<and> sp_entries sp = map entry_summary_payload_from entries"
    "change = Changed \<Longrightarrow> deltas = diff_entries (sn_entries previous) entries (pn_revision st + 1)"
    "final = (if deltas = [] then pn_revision st + 1 else delta_revision (last deltas))"
    "sn_entries sn = entries" "sn_location sn = pw_location w" "sn_revision sn = final"
    "s' = s\<lparr>ds_panes := (ds_panes s)(pw_pane_id w \<mapsto>
       st\<lparr>pn_revision := final, pn_full_entries := Some entries, pn_snapshot := Some sn\<rparr>)\<rparr>"
proof (cases "\<exists>st previous. ds_panes s (pw_pane_id w) = Some st \<and> pn_snapshot st = Some previous
    \<and> sn_location previous = pw_location w")
  case True
  then obtain st previous where st: "ds_panes s (pw_pane_id w) = Some st" "pn_snapshot st = Some previous"
    "sn_location previous = pw_location w" by blast
  define entries where "entries = arrange_entries env (pw_show_hidden w) (pw_folders_first w) (pw_sort w) listing"
  obtain size count where totals: "aggregate_totals entries = (size, count)" by (cases "aggregate_totals entries")
  define new where "new = previous\<lparr>sn_revision := pn_revision st + 1, sn_entries := entries,
    sn_total_known_entries := Some (of_nat (length entries)), sn_total_known_size := Some size,
    sn_total_known_file_count := Some count, sn_has_more := False, sn_continuation_token := None\<rparr>"
  define ds where "ds = deltas_for_change change previous new entries (pn_revision st + 1)"
  define final where "final = (if ds = [] then pn_revision st + 1 else delta_revision (last ds))"
  define sn where "sn = new\<lparr>sn_revision := final\<rparr>"
  have reset: "change = ResetRequired \<Longrightarrow> ds = [Reset (snapshot_payload_from new)]"
    by (simp add: ds_def deltas_for_change_def)
  have changed: "change = Changed \<Longrightarrow> ds = diff_entries (sn_entries previous) entries (pn_revision st + 1)"
    by (simp add: ds_def deltas_for_change_def)
  have no_reset: "change = Changed \<Longrightarrow> ds \<noteq> [Reset sp]" for sp
    using changed by (auto simp: diff_entries_def Let_def)
  define published where "published = stamp_reset final ds"
  have "commit_changes env w change listing s = (published,
      s\<lparr>ds_panes := (ds_panes s)(pw_pane_id w \<mapsto>
        st\<lparr>pn_revision := final, pn_full_entries := Some entries, pn_snapshot := Some sn\<rparr>)\<rparr>)"
    using st totals unfolding commit_changes_def Let_def entries_def [symmetric]
    by (simp add: published_def final_def sn_def ds_def new_def)
  then have s': "deltas = published" "s' = s\<lparr>ds_panes := (ds_panes s)(pw_pane_id w \<mapsto>
      st\<lparr>pn_revision := final, pn_full_entries := Some entries, pn_snapshot := Some sn\<rparr>)\<rparr>"
    using assms by simp_all
  have pub: "change = Changed \<Longrightarrow> published = ds"
    unfolding published_def by (rule stamp_reset_other) (use no_reset in blast)
  have rst: "change = ResetRequired \<Longrightarrow> published = [Reset ((snapshot_payload_from new)\<lparr>sp_revision := final\<rparr>)]
      \<and> final = pn_revision st + 1"
    using reset by (simp add: published_def final_def new_def snapshot_payload_from_def)
  have fin: "final = (if deltas = [] then pn_revision st + 1 else delta_revision (last deltas))"
    using pub rst s'(1) by (cases change) (auto simp: final_def)
  show ?thesis
  proof (rule stored [OF st entries_def _ _ fin _ _ _ s'(2)])
    show "change = ResetRequired \<Longrightarrow> \<exists>sp. deltas = [Reset sp] \<and> sp_revision sp = pn_revision st + 1
       \<and> sp_entries sp = map entry_summary_payload_from entries"
      using rst s'(1) by (simp add: snapshot_payload_from_def new_def)
  qed (use pub changed s'(1) st(3) in \<open>auto simp: sn_def new_def\<close>)
next
  case False
  then have "commit_changes env w change listing s = ([], s)"
    by (auto simp: commit_changes_def Let_def split: option.splits)
  then show ?thesis using assms ignored False by simp
qed

lemma reset_replaces_view:
  "sp_entries sp = map entry_summary_payload_from es \<Longrightarrow> fold apply_delta [Reset sp] m = client_view_of es"
  by (simp add: client_view_of_def)

lemma arrange_entries_ids: "distinct (map es_id xs) \<Longrightarrow> distinct (map es_id (arrange_entries env h f ds xs))"
proof -
  assume "distinct (map es_id xs)"
  then have "distinct (map es_id [e \<leftarrow> xs. h \<or> \<not> es_hidden e])" by (rule distinct_map_filter)
  moreover have "mset (map es_id (arrange_entries env h f ds xs)) = mset (map es_id [e \<leftarrow> xs. h \<or> \<not> es_hidden e])"
    by (simp add: arrange_entries_laws(1))
  ultimately show ?thesis by (metis mset_eq_imp_distinct_iff)
qed

text \<open>C20: A client that shows the entries of the pane's snapshot and applies the published deltas shows
  exactly the entries of the new snapshot: additions, updates and removals patch the old view into the
  new one, and a reset replaces it.\<close>

theorem deltas_patch_client_view:
  assumes "commit_changes env w change listing s = (deltas, s')"
    and "ds_panes s (pw_pane_id w) = Some st" "pn_snapshot st = Some previous" "sn_location previous = pw_location w"
    and "distinct (map es_id listing)"
  shows "\<exists>st' sn. ds_panes s' (pw_pane_id w) = Some st' \<and> pn_snapshot st' = Some sn
    \<and> sn_entries sn = arrange_entries env (pw_show_hidden w) (pw_folders_first w) (pw_sort w) listing
    \<and> fold apply_delta deltas (client_view_of (sn_entries previous)) = client_view_of (sn_entries sn)"
  using assms(1)
proof (cases rule: commit_changes_cases)
  case ignored
  then show ?thesis using assms(2-4) by blast
next
  case (stored st0 previous0 sn final entries)
  then have same: "st0 = st" "previous0 = previous" using assms(2,3) by simp_all
  have "fold apply_delta deltas (client_view_of (sn_entries previous)) = client_view_of entries"
  proof (cases change)
    case Changed
    then show ?thesis using stored(4,6) same diff_patches_view [OF arrange_entries_ids [OF assms(5)]] by simp
  next
    case ResetRequired
    then show ?thesis using stored(5) reset_replaces_view by blast
  qed
  then show ?thesis using stored same by simp
qed



text \<open>The pane of the samples after a listing with hidden entries.\<close>

definition listed_pane :: dir_service where
  "listed_pane = (case list_directory listing_env (listing_request 1 True) directory_service_new of
     Some (_, s) \<Rightarrow> s | None \<Rightarrow> directory_service_new)"

definition listing_watch :: pane_watch where
  "listing_watch = \<lparr>pw_location = \<lparr>provider_id = ''s3'', uri = ''s3://x''\<rparr>, pw_workspace_id = 1, pw_pane_id = 7,
     pw_show_hidden = True, pw_folders_first = True, pw_show_git_status = False,
     pw_sort = [\<lparr>sort_column_id = ''core.name'', direction = Ascending\<rparr>], pw_cancellation = 1\<rparr>"

lemma listed_pane_tasks: "ds_tasks listed_pane = [WatchTask listing_watch]"
  by code_simp

lemma listed_pane_entries:
  "map_option sn_entries (pane_snapshot_of listed_pane 7)
    = Some [listing_entry 2 ''.h'' True, listing_entry 3 ''a'' False, listing_entry 1 ''b'' False]"
  "map_option sn_location (pane_snapshot_of listed_pane 7) = Some (pw_location listing_watch)"
  by code_simp+

theorem deltas_patch_client_view_witness:
  "\<exists>deltas s' sn. commit_changes listing_env listing_watch Changed
      [listing_entry 3 ''a'' False, listing_entry 4 ''c'' False] listed_pane = (deltas, s')
    \<and> pane_snapshot_of s' 7 = Some sn
    \<and> fold apply_delta deltas (client_view_of [listing_entry 2 ''.h'' True, listing_entry 3 ''a'' False, listing_entry 1 ''b'' False])
        = client_view_of (sn_entries sn)"
proof -
  let ?new = "[listing_entry 3 ''a'' False, listing_entry 4 ''c'' False]"
  obtain deltas s' where commit: "commit_changes listing_env listing_watch Changed ?new listed_pane = (deltas, s')"
    by (cases "commit_changes listing_env listing_watch Changed ?new listed_pane")
  have pane: "pw_pane_id listing_watch = 7" by code_simp
  obtain st previous where st: "ds_panes listed_pane (pw_pane_id listing_watch) = Some st" "pn_snapshot st = Some previous"
    "sn_location previous = pw_location listing_watch"
    "sn_entries previous = [listing_entry 2 ''.h'' True, listing_entry 3 ''a'' False, listing_entry 1 ''b'' False]"
    using listed_pane_entries pane by (auto simp: pane_snapshot_of_def bind_eq_Some_conv)
  have "distinct (map es_id ?new)" by code_simp
  from deltas_patch_client_view [OF commit st(1-3) this] show ?thesis
    using commit st(4) pane by (auto simp: pane_snapshot_of_def bind_eq_Some_conv)
qed

text \<open>After a client has fetched a further page, the pane remembers only that page as its last
  snapshot, so the deltas of the next change compare against it alone: an entry of an earlier page
  that has disappeared is never reported as removed, and stays in the client's view.\<close>

lemma paged_view_misses_removal:
  assumes "de_providers env (provider_id (lr_location req)) = Some pr" "can_watch pr (lr_location req)"
    and "pane_holds s req full" "lr_continuation_token req = Some (show_nat off)"
    and "int (length full) < 2 ^ 64" "off \<le> length full" "distinct (map es_id full)" "e \<in> set (take off full)"
    and "list_directory env req s = Some (r, s1)"
    and "pw_pane_id w = lr_pane_id req" "pw_location w = lr_location req"
    and "distinct (map es_id listing)" "es_id e \<notin> es_id ` set listing"
    and "commit_changes env w Changed listing s1 = (deltas, s2)"
  shows "fold apply_delta deltas (client_view_of (take (off + LIST_PAGE_SIZE) full)) (es_id e)
      = Some (entry_summary_payload_from e)
    \<and> (\<exists>sn. pane_snapshot_of s2 (lr_pane_id req) = Some sn \<and> e \<notin> set (sn_entries sn))"
proof -
  let ?fin = "min (length full) (off + LIST_PAGE_SIZE)"
  obtain sn where sn: "pane_snapshot_of s1 (lr_pane_id req) = Some sn" "sn_location sn = lr_location req"
    "sn_entries sn = take (?fin - off) (drop off full)"
    using cached_page_stored [OF assms(1,2,5,6,4,3) refl] assms(9) by auto
  have dist: "distinct (map es_id (take off full @ drop off full))" using assms(7) by simp
  then have "es_id e \<notin> es_id ` set (drop off full)" using assms(8) unfolding map_append distinct_append by auto
  then have old: "es_id e \<notin> es_id ` set (sn_entries sn)" using sn(3) by (auto dest: in_set_takeD)
  have known: "client_view_of (take (off + LIST_PAGE_SIZE) full) (es_id e) = Some (entry_summary_payload_from e)"
  proof -
    have "e \<in> set (take (off + LIST_PAGE_SIZE) full)" using assms(8) by (simp add: take_add)
    moreover have "distinct (map es_id (take (off + LIST_PAGE_SIZE) full))" using assms(7) by (metis distinct_take take_map)
    ultimately have "by_id (take (off + LIST_PAGE_SIZE) full) (es_id e) = Some e" by (simp add: by_id_distinct)
    then show ?thesis by (simp add: client_view_of)
  qed
  from assms(14) show ?thesis
  proof (cases rule: commit_changes_cases)
    case ignored
    then show ?thesis using sn(1,2) assms(10,11) by (auto simp: pane_snapshot_of_def bind_eq_Some_conv)
  next
    case (stored st previous new final entries)
    then have previous: "previous = sn" using sn(1) assms(10) by (simp add: pane_snapshot_of_def)
    have gone: "es_id e \<notin> es_id ` set entries"
      using assms(13) stored(4) arrange_entries_subset by fastforce
    have "distinct (map es_id entries)" using stored(4) arrange_entries_ids assms(12) by simp
    then have "fold apply_delta deltas m (es_id e) = m (es_id e)" for m
      using stored(6) previous old gone diff_keeps_absent by simp
    then show ?thesis using known stored gone assms(10) by (auto simp: pane_snapshot_of_def)
  qed
qed

lemma listed_pane_options:
  "map_option (\<lambda>st. (pn_full_entries st, pn_show_hidden st, pn_folders_first st, pn_show_git_status st, pn_sort st))
     (ds_panes listed_pane 7)
   = Some (Some [listing_entry 2 ''.h'' True, listing_entry 3 ''a'' False, listing_entry 1 ''b'' False], True, True, False,
      [\<lparr>sort_column_id = ''core.name'', direction = Ascending\<rparr>])"
  by code_simp

lemma listed_pane_holds:
  "pane_holds listed_pane ((listing_request 2 True)\<lparr>lr_continuation_token := tk\<rparr>)
    [listing_entry 2 ''.h'' True, listing_entry 3 ''a'' False, listing_entry 1 ''b'' False]"
  using listed_pane_options listed_pane_entries(2)
  by (auto simp: pane_holds_def pane_snapshot_of_def bind_eq_Some_conv listing_request_def listing_watch_def)

text \<open>A change that is being processed by a watcher is published although the watcher has been
  cancelled in the meantime, with the options of the old listing: when the same directory was listed
  again without hidden entries, the hidden entries come back into the pane.\<close>

lemma cancelled_watch_overrides_view:
  assumes "commit_changes env w change listing s = (deltas, s')"
    and "pw_cancellation w \<in> ds_cancelled s" "pw_show_hidden w"
    and "ds_panes s (pw_pane_id w) = Some st" "\<not> pn_show_hidden st"
    and "pn_snapshot st = Some previous" "sn_location previous = pw_location w"
    and "e \<in> set listing" "es_hidden e"
  shows "\<exists>st' sn. ds_panes s' (pw_pane_id w) = Some st' \<and> \<not> pn_show_hidden st'
    \<and> pn_snapshot st' = Some sn \<and> e \<in> set (sn_entries sn)"
  using assms(1)
proof (cases rule: commit_changes_cases)
  case ignored
  then show ?thesis using assms(4,6,7) by blast
next
  case (stored st0 previous0 sn final entries)
  have "e \<in> set entries"
    using stored(4) assms(3,8) by (simp add: arrange_entries_def sort_entries_def)
  then show ?thesis using stored assms(4,5) by auto
qed

definition relisted_pane :: dir_service where
  "relisted_pane = (case list_directory listing_env (listing_request 2 False) listed_pane of
     Some (_, s) \<Rightarrow> s | None \<Rightarrow> listed_pane)"

section \<open>Revisions\<close>

definition pane_revision :: "dir_service \<Rightarrow> pane_id \<Rightarrow> u64" where
  "pane_revision s p = (case ds_panes s p of None \<Rightarrow> 0 | Some st \<Rightarrow> pn_revision st)"

lemma pane_revision_update [simp]:
  "pane_revision (s\<lparr>ds_tasks := ts\<rparr>) = pane_revision s" "pane_revision (s\<lparr>ds_outbox := os\<rparr>) = pane_revision s"
  "pane_revision (s\<lparr>ds_clock := t\<rparr>) = pane_revision s" "pane_revision (s\<lparr>ds_published := ps\<rparr>) = pane_revision s"
  by (simp_all add: pane_revision_def fun_eq_iff)

lemma pane_revision_cong: "ds_panes s = ds_panes s' \<Longrightarrow> pane_revision s = pane_revision s'"
  by (simp add: pane_revision_def fun_eq_iff)

definition revisions_of :: "pane_id \<Rightarrow> assigned list \<Rightarrow> u64 list" where
  "revisions_of p ls = map snd [a \<leftarrow> concat ls. fst a = p]"

text \<open>The revisions handed out by a change: consecutive from the successor of the pane's revision.\<close>

definition next_revisions :: "u64 \<Rightarrow> nat \<Rightarrow> u64 list" where
  "next_revisions r k = map (\<lambda>i. r + 1 + of_nat i) [0..<k]"

lemma next_revisions_simps [simp]:
  "next_revisions r 0 = []" "next_revisions r (Suc 0) = [r + 1]" "next_revisions r (Suc (Suc 0)) = [r + 1, r + 1 + 1]"
  "next_revisions r (Suc (Suc (Suc 0))) = [r + 1, r + 1 + 1, r + 1 + 1 + 1]"
  by (simp_all add: next_revisions_def)

lemma diff_revisions: "\<exists>k\<le>3. map delta_revision (diff_entries previous current (r + 1)) = next_revisions r k"
proof (intro exI conjI)
  let ?revs = "map delta_revision (diff_entries previous current (r + 1))"
  show "length ?revs \<le> 3" "?revs = next_revisions r (length ?revs)" by (auto simp: diff_entries_def Let_def)
qed

lemma last_next_revisions: "0 < k \<Longrightarrow> last (next_revisions r k) = r + of_nat k"
  by (cases k) (simp_all add: next_revisions_def)

lemma commit_changes_revisions:
  assumes "commit_changes env w change listing s = (deltas, s')"
  shows "s' = s \<and> deltas = [] \<or> (\<exists>k\<le>3. map delta_revision deltas = next_revisions (pane_revision s (pw_pane_id w)) k
    \<and> pane_revision s' = (pane_revision s)(pw_pane_id w := pane_revision s (pw_pane_id w) + of_nat (max 1 k)))"
  using assms
proof (cases rule: commit_changes_cases)
  case (stored st previous sn final entries)
  let ?r = "pn_revision st"
  have r: "pane_revision s (pw_pane_id w) = ?r" by (simp add: pane_revision_def stored)
  have "\<exists>k\<le>3. map delta_revision deltas = next_revisions ?r k"
  proof (cases change)
    case Changed
    then show ?thesis using stored(6) diff_revisions by simp
  next
    case ResetRequired
    then have "map delta_revision deltas = next_revisions ?r 1"
      using stored(5) by (auto simp: next_revisions_def)
    then show ?thesis by (metis one_le_numeral)
  qed
  then obtain k where k: "k \<le> 3" "map delta_revision deltas = next_revisions ?r k" by blast
  have "final = ?r + of_nat (max 1 k)"
  proof (cases "k = 0")
    case True
    then show ?thesis using k stored(7) by (simp add: next_revisions_def)
  next
    case False
    then have "deltas \<noteq> []" using k(2) by (auto simp: next_revisions_def)
    then have "delta_revision (last deltas) = last (next_revisions ?r k)" using k(2) by (metis last_map)
    then show ?thesis using False \<open>deltas \<noteq> []\<close> stored(7) last_next_revisions by (simp add: max_def)
  qed
  then have "pane_revision s' = (pane_revision s)(pw_pane_id w := ?r + of_nat (max 1 k))"
    using stored(11) by (auto simp: pane_revision_def fun_eq_iff)
  then show ?thesis using k r by metis
qed simp

text \<open>What a step assigns: nothing, or consecutive revisions of one pane that follow its last one.\<close>

definition assigns_next :: "dir_service \<Rightarrow> assigned \<Rightarrow> dir_service \<Rightarrow> bool" where
  "assigns_next s l s' \<longleftrightarrow> l = [] \<and> pane_revision s' = pane_revision s
    \<or> (\<exists>p k. k \<le> 3 \<and> l = map (Pair p) (next_revisions (pane_revision s p) k)
        \<and> pane_revision s' = (pane_revision s)(p := pane_revision s p + of_nat (max 1 k)))"

lemma assigns_nextI:
  "k \<le> 3 \<Longrightarrow> l = map (Pair p) (next_revisions (pane_revision s p) k) \<Longrightarrow>
   pane_revision s' = (pane_revision s)(p := pane_revision s p + of_nat (max 1 k)) \<Longrightarrow> assigns_next s l s'"
  unfolding assigns_next_def by (rule disjI2, rule exI [where x = p], rule exI [where x = k]) simp

lemma commit_assigns_next:
  assumes "commit_changes env w change listing s = (deltas, s')"
  shows "assigns_next s (map (\<lambda>d. (pw_pane_id w, delta_revision d)) deltas) s'"
proof -
  have "map (\<lambda>d. (pw_pane_id w, delta_revision d)) deltas = map (Pair (pw_pane_id w)) (map delta_revision deltas)" by simp
  then show ?thesis
    using commit_changes_revisions [OF assms] assigns_nextI by (elim disjE exE conjE) (simp_all add: assigns_next_def)
qed

lemma publish_page_revision:
  assumes "publish_page env req full s = (res, s')"
  shows "case res of Inl _ \<Rightarrow> s' = s
    | Inr (sn, tk) \<Rightarrow> sn_revision sn = pane_revision s (lr_pane_id req) + 1
        \<and> pane_revision s' = (pane_revision s)(lr_pane_id req := sn_revision sn)"
  using assms
  by (auto simp: publish_page_def pane_revision_def Let_def fun_eq_iff split: sum.splits prod.splits option.splits if_splits)

lemma begin_list_cases:
  assumes "begin_list req s = (cached, s')"
  obtains (fresh) st where
    "s' = s\<lparr>ds_panes := (ds_panes s)(lr_pane_id req \<mapsto> st), ds_cancelled := ds_cancelled s \<union>
       (case ds_panes s (lr_pane_id req) of None \<Rightarrow> {} | Some old \<Rightarrow> {pn_cancellation old, pn_watch_cancellation old}),
       ds_next_token := Suc (Suc (ds_next_token s))\<rparr>"
    "pn_revision st = pane_revision s (lr_pane_id req)" "pn_cancellation st = ds_next_token s"
    "pn_watch_cancellation st = Suc (ds_next_token s)" "pn_snapshot st = None" "cached = None"
  | (continued) st old where "ds_panes s (lr_pane_id req) = Some old" "continues_listing req old"
    "s' = s\<lparr>ds_panes := (ds_panes s)(lr_pane_id req \<mapsto> st),
       ds_cancelled := insert (pn_cancellation old) (ds_cancelled s), ds_next_token := Suc (ds_next_token s)\<rparr>"
    "pn_revision st = pane_revision s (lr_pane_id req)" "pn_cancellation st = ds_next_token s"
    "pn_watch_cancellation st = pn_watch_cancellation old" "pn_snapshot st = pn_snapshot old"
proof (cases "\<exists>old. ds_panes s (lr_pane_id req) = Some old \<and> continues_listing req old")
  case True
  then show ?thesis using assms continued by (auto simp: begin_list_def pane_revision_def Let_def)
next
  case False
  then show ?thesis using assms fresh
    by (auto simp: begin_list_def pane_revision_def Let_def insert_commute split: option.splits)
qed

lemma begin_list_revision:
  assumes "begin_list req s = (cached, s')"
  shows "pane_revision s' = pane_revision s"
  using assms by (cases rule: begin_list_cases) (simp_all add: pane_revision_def fun_eq_iff)

lemma watch_acquire_panes: "watch_acquire pr l s = (r, s') \<Longrightarrow> ds_panes s' = ds_panes s"
  by (auto simp: watch_acquire_def Let_def split: option.splits change_tracking.splits sum.splits)

lemma attach_watch_panes: "attach_watch env req sn tk s = (r, s') \<Longrightarrow> ds_panes s' = ds_panes s"
  by (auto simp: attach_watch_def split: sum.splits prod.splits if_splits dest: watch_acquire_panes)

lemma watch_release_panes [simp]: "ds_panes (watch_release l s) = ds_panes s"
  by (simp add: watch_release_def Let_def split: option.split)

lemma set_pane_activity_panes: "set_pane_activity p active s = (r, s') \<Longrightarrow> ds_panes s' = ds_panes s"
  by (auto simp: set_pane_activity_def watch_set_active_def split: option.splits)

lemma dir_step_assigns_next: "dir_step env s l s' \<Longrightarrow> assigns_next s l s'"
proof (induction rule: dir_step.induct)
  case (list_stores s as req cached bs full sn tk s')
  then show ?case using publish_page_revision [OF list_stores(3)]
    by (intro assigns_nextI [of "Suc 0" _ "lr_pane_id req"]) simp_all
next
  case (watch_changes s as w bs change listing deltas s')
  then show ?case using commit_assigns_next [OF watch_changes(2)] by (simp add: assigns_next_def)
next
  case (refresh_changes s as w bs listing deltas s')
  then show ?case using commit_assigns_next [OF refresh_changes(2)] by (simp add: assigns_next_def)
next
  case (list_rejected s as req cached bs full e s')
  then show ?case using publish_page_revision [OF list_rejected(3)] by (simp add: assigns_next_def)
next
  case (list_returns s as req sn tk bs r s')
  then have "pane_revision s' = pane_revision s" using attach_watch_panes [OF list_returns(2)] by (simp add: pane_revision_def fun_eq_iff)
  then show ?case by (simp add: assigns_next_def)
next
  case (activity p active s r s')
  then have "pane_revision s' = pane_revision s" using set_pane_activity_panes by (simp add: pane_revision_def fun_eq_iff)
  then show ?case by (simp add: assigns_next_def)
next
  case (watch_ends s as w bs)
  have "pane_revision (watch_release (pw_location w) (s\<lparr>ds_tasks := as @ bs\<rparr>)) = pane_revision s"
    by (simp add: pane_revision_def fun_eq_iff)
  then show ?case by (simp add: assigns_next_def)
qed (auto simp: assigns_next_def dest: begin_list_revision)

lemma unat_plus_small: "unat (r :: u64) + k < 2 ^ 64 \<Longrightarrow> unat (r + of_nat k) = unat r + k"
  by (simp add: unat_word_ariths unat_of_nat)

lemma next_revisions_sorted:
  assumes "unat r + k < 2 ^ 64"
  shows "sorted_wrt (<) (next_revisions r k)" "x \<in> set (next_revisions r k) \<Longrightarrow> r < x \<and> x \<le> r + of_nat k"
proof -
  have val: "unat (r + 1 + of_nat i) = unat r + Suc i" if "i < k" for i
    using unat_plus_small [of r "Suc i"] assms that by (simp add: ac_simps)
  show "sorted_wrt (<) (next_revisions r k)"
    using val by (auto simp: next_revisions_def sorted_wrt_map sorted_wrt_upt word_less_nat_alt
        intro!: sorted_wrt_mono_rel [OF _ sorted_wrt_upt])
  show "x \<in> set (next_revisions r k) \<Longrightarrow> r < x \<and> x \<le> r + of_nat k"
    using val unat_plus_small [OF assms] by (auto simp: next_revisions_def word_less_nat_alt word_le_nat_alt)
qed

lemma assigns_next_bound:
  assumes "assigns_next s l s'" "unat (pane_revision s p) + 3 < 2 ^ 64"
  shows "pane_revision s p \<le> pane_revision s' p \<and> unat (pane_revision s' p) \<le> unat (pane_revision s p) + 3
    \<and> sorted_wrt (<) (revisions_of p [l])
    \<and> (\<forall>x\<in>set (revisions_of p [l]). pane_revision s p < x \<and> x \<le> pane_revision s' p)"
proof (cases "l = [] \<and> pane_revision s' = pane_revision s")
  case False
  then obtain q k where q: "k \<le> 3" "l = map (Pair q) (next_revisions (pane_revision s q) k)"
    "pane_revision s' = (pane_revision s)(q := pane_revision s q + of_nat (max 1 k))"
    using assms(1) unfolding assigns_next_def by blast
  show ?thesis
  proof (cases "q = p")
    case True
    then have revs: "revisions_of p [l] = next_revisions (pane_revision s p) k"
      using q(2) by (simp add: revisions_of_def filter_map comp_def)
    have room: "unat (pane_revision s p) + k < 2 ^ 64" "unat (pane_revision s p) + max 1 k < 2 ^ 64"
      using assms(2) q(1) by auto
    have "unat (pane_revision s' p) = unat (pane_revision s p) + max 1 k"
      using unat_plus_small [OF room(2)] q(3) True by simp
    moreover have "unat (pane_revision s p + of_nat k) \<le> unat (pane_revision s p) + max 1 k"
      using unat_plus_small [OF room(1)] by simp
    ultimately show ?thesis
      using revs next_revisions_sorted [OF room(1)] q(1) by (auto simp: word_le_nat_alt intro: order_trans)
  next
    case False
    then show ?thesis using q by (simp add: revisions_of_def filter_map comp_def)
  qed
qed (simp add: revisions_of_def)

lemma revisions_of_simps [simp]:
  "revisions_of p [] = []" "revisions_of p (ls @ ms) = revisions_of p ls @ revisions_of p ms"
  by (simp_all add: revisions_of_def)

lemma run_revisions:
  assumes "dir_run env s ls s'" "s = directory_service_new" "3 * int (length ls) < 2 ^ 64"
  shows "unat (pane_revision s' p) \<le> 3 * length ls \<and> sorted_wrt (<) (revisions_of p ls)
    \<and> (\<forall>x\<in>set (revisions_of p ls). x \<le> pane_revision s' p)"
  using assms
proof (induction rule: dir_run.induct)
  case (run_start s)
  then show ?case by (simp add: pane_revision_def directory_service_new_def)
next
  case (run_step s ls s' l s'')
  then have IH: "unat (pane_revision s' p) \<le> 3 * length ls" "sorted_wrt (<) (revisions_of p ls)"
    "\<forall>x\<in>set (revisions_of p ls). x \<le> pane_revision s' p" by simp_all
  have "3 * length ls + 3 < 2 ^ 64" using run_step.prems(2) by simp
  then have "unat (pane_revision s' p) + 3 < 2 ^ 64" using IH(1) by linarith
  from assigns_next_bound [OF dir_step_assigns_next [OF run_step.hyps(2)] this] IH
  show ?case by (force simp: sorted_wrt_append)
qed

text \<open>C21: Whatever the interleaving of listings, page requests, watchers and refreshes, the revisions given
  to the snapshots and deltas of a pane strictly increase in the order in which they are assigned, so a
  client can reject a stale one by comparing revisions. (Each step assigns at most three revisions; the
  bound keeps the 64-bit counter from wrapping.)\<close>

theorem pane_revisions_increase:
  assumes "dir_run env directory_service_new ls s" "3 * int (length ls) < 2 ^ 64"
  shows "sorted_wrt (<) (revisions_of p ls)"
  using run_revisions [OF assms(1) refl assms(2)] by blast

theorem pane_revisions_increase_witness:
  "\<exists>l s. dir_run listing_env directory_service_new ([] @ [l]) s \<and> sorted_wrt (<) (revisions_of 7 ([] @ [l]))"
proof -
  obtain cached s1 where "begin_list (listing_request 1 True) directory_service_new = (cached, s1)"
    by (cases "begin_list (listing_request 1 True) directory_service_new")
  from run_step [OF run_start list_begins [OF this]]
  have run: "dir_run listing_env directory_service_new ([] @ [[]])
    (s1\<lparr>ds_tasks := ds_tasks s1 @ [LoadTask (listing_request 1 True) cached]\<rparr>)" .
  have "3 * int (length ([] @ [[]] :: assigned list)) < 2 ^ 64" by simp
  from pane_revisions_increase [OF run this] run show ?thesis by blast
qed

section \<open>Shared watches\<close>

definition watchers_on :: "location \<Rightarrow> dir_task list \<Rightarrow> nat" where
  "watchers_on l ts = length [t \<leftarrow> ts. case t of WatchTask w \<Rightarrow> pw_location w = l | _ \<Rightarrow> False]"

lemma watchers_on_simps [simp]:
  "watchers_on l [] = 0" "watchers_on l (as @ bs) = watchers_on l as + watchers_on l bs"
  "watchers_on l (WatchTask w # ts) = (if pw_location w = l then 1 else 0) + watchers_on l ts"
  "watchers_on l (LoadTask req c # ts) = watchers_on l ts" "watchers_on l (AttachTask req sn tk # ts) = watchers_on l ts"
  "watchers_on l (RefreshTask w # ts) = watchers_on l ts" "watchers_on l (map RefreshTask ws) = 0"
  by (simp_all add: watchers_on_def comp_def)

text \<open>The reference count of a registered watch is the number of its watchers; a location that is not
  registered has none.\<close>

definition watch_count :: "dir_service \<Rightarrow> location \<Rightarrow> nat" where
  "watch_count s l = (case ds_watches s l of Some w \<Rightarrow> sw_references w | None \<Rightarrow> 0)"

definition references_exact :: "dir_service \<Rightarrow> bool" where
  "references_exact s \<longleftrightarrow> (\<forall>l. watch_count s l = watchers_on l (ds_tasks s)
     \<and> (ds_watches s l \<noteq> None \<longrightarrow> 0 < watch_count s l))"

text \<open>A token of a watcher is cancelled, or it is the current watch token of the watcher's pane.\<close>

definition token_current :: "dir_service \<Rightarrow> pane_id \<Rightarrow> token \<Rightarrow> bool" where
  "token_current s p tk \<longleftrightarrow> tk \<in> ds_cancelled s \<or> (\<exists>st. ds_panes s p = Some st \<and> pn_watch_cancellation st = tk)"

fun task_owned :: "dir_service \<Rightarrow> dir_task \<Rightarrow> bool" where
  "task_owned s (WatchTask w) \<longleftrightarrow> token_current s (pw_pane_id w) (pw_cancellation w)"
| "task_owned s (AttachTask req sn tk) \<longleftrightarrow> token_current s (lr_pane_id req) tk"
| "task_owned s _ \<longleftrightarrow> True"

definition watchers_owned :: "dir_service \<Rightarrow> bool" where
  "watchers_owned s \<longleftrightarrow> (\<forall>t\<in>set (ds_tasks s). task_owned s t)"

lemma references_exact_same:
  assumes "references_exact s" "ds_watches s' = ds_watches s"
    and "\<And>l. watchers_on l (ds_tasks s') = watchers_on l (ds_tasks s)"
  shows "references_exact s'"
proof -
  have "watch_count s' = watch_count s" using assms(2) by (simp add: watch_count_def fun_eq_iff)
  then show ?thesis using assms unfolding references_exact_def by metis
qed

lemma begin_list_frame: "begin_list req s = (cached, s') \<Longrightarrow> ds_watches s' = ds_watches s \<and> ds_tasks s' = ds_tasks s"
  using begin_list_cached(4,5) by blast

lemma publish_page_frame:
  "publish_page env req full s = (r, s') \<Longrightarrow> ds_watches s' = ds_watches s \<and> ds_tasks s' = ds_tasks s"
  by (auto simp: publish_page_def Let_def split: sum.splits option.splits if_splits)

lemma commit_changes_frame:
  assumes "commit_changes env w change listing s = (deltas, s')"
  shows "ds_watches s' = ds_watches s" "ds_tasks s' = ds_tasks s" "ds_cancelled s' = ds_cancelled s"
  using assms by (cases rule: commit_changes_cases; simp)+

lemma watch_acquire_frame:
  assumes "watch_acquire pr l s = (r, s')"
  shows "ds_tasks s' = ds_tasks s" "ds_cancelled s' = ds_cancelled s"
    and "r = Inl e \<Longrightarrow> ds_watches s' = ds_watches s"
  using assms by (auto simp: watch_acquire_def Let_def split: option.splits change_tracking.splits sum.splits)

lemma acquire_counts:
  assumes "watch_acquire pr l s = (Inr u, s')"
  shows "watch_count s' = (watch_count s)(l := Suc (watch_count s l))" "dom (ds_watches s') = insert l (dom (ds_watches s))"
  using assms by (auto simp: watch_acquire_def watch_count_def Let_def fun_eq_iff
      split: option.splits change_tracking.splits sum.splits if_splits)

lemma attach_watch_spawns:
  assumes "attach_watch env req sn tk s = (r, s')"
  obtains (none) "ds_watches s' = ds_watches s" "ds_tasks s' = ds_tasks s"
  | (spawned) pr u t w where "watch_acquire pr (sn_location sn) s = (Inr u, t)" "pw_location w = sn_location sn"
    "s' = t\<lparr>ds_tasks := ds_tasks t @ [WatchTask w]\<rparr>" "pw_pane_id w = lr_pane_id req" "pw_cancellation w = tk"
proof (cases "registry_resolve (de_providers env) (lr_location req)")
  case (Inr pr)
  define w where "w = \<lparr>pw_location = sn_location sn, pw_workspace_id = lr_workspace_id req, pw_pane_id = lr_pane_id req,
    pw_show_hidden = lr_show_hidden req, pw_folders_first = lr_folders_first req,
    pw_show_git_status = lr_show_git_status req, pw_sort = lr_sort req, pw_cancellation = tk\<rparr>"
  have w: "pw_location w = sn_location sn" "pw_pane_id w = lr_pane_id req" "pw_cancellation w = tk" by (simp_all add: w_def)
  obtain a t where acq: "watch_acquire pr (sn_location sn) s = (a, t)" by (cases "watch_acquire pr (sn_location sn) s")
  show ?thesis
  proof (cases "s' = s")
    case False
    then show ?thesis
      using assms Inr acq none watch_acquire_frame [OF acq] spawned [OF _ w(1) _ w(2,3)]
      by (cases a) (auto simp: attach_watch_def split: if_splits simp flip: w_def)
  qed (use none in simp)
qed (use assms none in \<open>simp add: attach_watch_def\<close>)

lemma attach_references:
  assumes "attach_watch env req sn tk s = (r, s')" "references_exact s"
  shows "references_exact s'"
  using assms(1)
proof (cases rule: attach_watch_spawns)
  case none
  then show ?thesis using assms(2) references_exact_same by simp
next
  case (spawned pr u t w)
  have "watch_count s' = watch_count t" "ds_watches s' = ds_watches t" using spawned(3) by (simp_all add: watch_count_def fun_eq_iff)
  then show ?thesis
    using assms(2) spawned acquire_counts [OF spawned(1)] watch_acquire_frame(1) [OF spawned(1)]
    by (auto simp: references_exact_def dom_def set_eq_iff)
qed

lemma release_counts:
  assumes "0 < watch_count s l"
  shows "watch_count (watch_release l s) = (watch_count s)(l := watch_count s l - 1)"
    and "dom (ds_watches (watch_release l s)) = (if watch_count s l = 1 then dom (ds_watches s) - {l} else dom (ds_watches s))"
    and "ds_tasks (watch_release l s) = ds_tasks s"
  using assms by (auto simp: watch_count_def watch_release_def Let_def fun_eq_iff split: option.splits)

lemma release_references:
  assumes "ds_tasks s = as @ WatchTask w # bs" "references_exact s"
  shows "references_exact (watch_release (pw_location w) (s\<lparr>ds_tasks := as @ bs\<rparr>))"
proof -
  define l where "l = pw_location w"
  define t where "t = s\<lparr>ds_tasks := as @ bs\<rparr>"
  have t: "watch_count t = watch_count s" "ds_watches t = ds_watches s" "ds_tasks t = as @ bs"
    by (simp_all add: t_def watch_count_def fun_eq_iff)
  have count: "watch_count t m = (if m = l then 1 else 0) + watchers_on m (as @ bs)" for m
    using assms by (simp add: t references_exact_def l_def)
  have dom: "m \<in> dom (ds_watches t) \<Longrightarrow> 0 < watch_count t m" for m
    using assms(2) by (auto simp: t references_exact_def)
  have "0 < watch_count t l" using count by simp
  note rel = release_counts [OF this]
  have "watch_count (watch_release l t) m = watchers_on m (ds_tasks (watch_release l t))" for m
    using rel count by (simp add: t(3))
  moreover have "0 < watch_count (watch_release l t) m" if "m \<in> dom (ds_watches (watch_release l t))" for m
    using that rel(1,2) dom [of m] count [of l] by (auto split: if_splits)
  ultimately have "references_exact (watch_release l t)" by (auto simp: references_exact_def dom_def)
  then show ?thesis by (simp add: l_def t_def)
qed

lemma activity_references:
  assumes "set_pane_activity p active s = (r, s')" "references_exact s"
  shows "references_exact s'"
proof -
  have "watch_count s' = watch_count s" "dom (ds_watches s') = dom (ds_watches s)" "ds_tasks s' = ds_tasks s"
    using assms(1) by (auto simp: set_pane_activity_def watch_set_active_def watch_count_def fun_eq_iff
        split: option.splits if_splits)
  then show ?thesis using assms(2) by (auto simp: references_exact_def dom_def set_eq_iff)
qed

lemma dir_step_references: "dir_step env s a s' \<Longrightarrow> references_exact s \<Longrightarrow> references_exact s'"
proof (induction rule: dir_step.induct)
  case (list_returns s as req sn tk bs r s')
  then have "references_exact (s\<lparr>ds_tasks := as @ bs\<rparr>)" by (auto elim!: references_exact_same)
  then show ?case using attach_references list_returns(2) by blast
qed (auto simp: release_references activity_references elim!: references_exact_same
    dest: begin_list_frame publish_page_frame commit_changes_frame)

lemma token_current_update [simp]:
  "token_current (s\<lparr>ds_tasks := ts\<rparr>) p tk = token_current s p tk" "token_current (s\<lparr>ds_clock := t\<rparr>) p tk = token_current s p tk"
  "token_current (s\<lparr>ds_outbox := os\<rparr>) p tk = token_current s p tk"
  "token_current (s\<lparr>ds_published := ps\<rparr>) p tk = token_current s p tk"
  by (simp_all add: token_current_def)

lemma task_owned_mono: "task_owned s t \<Longrightarrow> (\<And>p tk. token_current s p tk \<Longrightarrow> token_current s' p tk) \<Longrightarrow> task_owned s' t"
  by (cases t) auto

lemma task_owned_update [simp]:
  "task_owned (s\<lparr>ds_tasks := ts\<rparr>) t = task_owned s t" "task_owned (s\<lparr>ds_clock := c\<rparr>) t = task_owned s t"
  "task_owned (s\<lparr>ds_outbox := os\<rparr>) t = task_owned s t" "task_owned (s\<lparr>ds_published := ps\<rparr>) t = task_owned s t"
  by (cases t; simp)+

lemma watchers_owned_mono:
  assumes "watchers_owned s" "set (ds_tasks s') \<subseteq> set (ds_tasks s)"
    and "\<And>p tk. token_current s p tk \<Longrightarrow> token_current s' p tk"
  shows "watchers_owned s'"
  using assms task_owned_mono unfolding watchers_owned_def by blast

lemma begin_list_tokens:
  assumes "begin_list req s = (cached, s')" "token_current s p tk"
  shows "token_current s' p tk"
  using assms(1) by (cases rule: begin_list_cases) (use assms(2) in \<open>auto simp: token_current_def split: option.splits\<close>)

lemma publish_page_tokens:
  assumes "publish_page env req full s = (r, s')"
  shows "token_current s p tk \<Longrightarrow> token_current s' p tk"
    and "r = Inr (sn, tk) \<Longrightarrow> token_current s' (lr_pane_id req) tk"
  using assms by (auto simp: token_current_def publish_page_def Let_def split: sum.splits option.splits if_splits)

lemma commit_changes_tokens:
  assumes "commit_changes env w change listing s = (deltas, s')" "token_current s p tk"
  shows "token_current s' p tk"
  using assms(1) by (cases rule: commit_changes_cases) (use assms(2) in \<open>auto simp: token_current_def\<close>)

lemma attach_watch_tokens:
  assumes "attach_watch env req sn tk s = (r, s')"
  shows "token_current s' p x \<longleftrightarrow> token_current s p x"
    and "set (ds_tasks s') \<subseteq> set (ds_tasks s) \<union>
      {WatchTask w |w. pw_pane_id w = lr_pane_id req \<and> pw_cancellation w = tk}"
proof -
  have "ds_cancelled s' = ds_cancelled s"
    using assms by (auto simp: attach_watch_def split: sum.splits prod.splits if_splits dest: watch_acquire_frame)
  then show "token_current s' p x \<longleftrightarrow> token_current s p x"
    using attach_watch_panes [OF assms] by (simp add: token_current_def)
  from assms show "set (ds_tasks s') \<subseteq> set (ds_tasks s) \<union>
      {WatchTask w |w. pw_pane_id w = lr_pane_id req \<and> pw_cancellation w = tk}"
    by (cases rule: attach_watch_spawns) (auto dest: watch_acquire_frame(1))
qed

lemma other_tokens:
  "token_current s p tk \<Longrightarrow> token_current (watch_release l s) p tk"
  "set_pane_activity q active s = (r, s') \<Longrightarrow> token_current s p tk \<Longrightarrow> token_current s' p tk"
  by (auto simp: token_current_def watch_release_def set_pane_activity_def watch_set_active_def Let_def split: option.splits)

lemma dir_step_owned: "dir_step env s a s' \<Longrightarrow> watchers_owned s \<Longrightarrow> watchers_owned s'"
proof (induction rule: dir_step.induct)
  case (list_begins req s cached s')
  have "watchers_owned s'"
    using watchers_owned_mono [OF list_begins(2)] begin_list_frame [OF list_begins(1)] begin_list_tokens [OF list_begins(1)] by simp
  then show ?case by (auto simp: watchers_owned_def)
next
  case (list_stores s as req cached bs full sn tk s')
  have s': "watchers_owned s'" "token_current s' (lr_pane_id req) tk"
    using watchers_owned_mono [OF list_stores(4)] publish_page_frame [OF list_stores(3)]
      publish_page_tokens [OF list_stores(3)] by simp_all
  moreover have "ds_tasks s' = as @ LoadTask req cached # bs" using list_stores(1) publish_page_frame [OF list_stores(3)] by simp
  ultimately show ?case by (auto simp: watchers_owned_def)
next
  case (list_returns s as req sn tk bs r s')
  let ?t = "s\<lparr>ds_tasks := as @ bs\<rparr>"
  have "watchers_owned ?t" "token_current ?t (lr_pane_id req) tk" using list_returns(1,3) by (auto simp: watchers_owned_def)
  then show ?case
    using attach_watch_tokens [OF list_returns(2)] task_owned_mono [of ?t _ s'] unfolding watchers_owned_def by fastforce
next
  case (watch_changes s as w bs change listing deltas s')
  have "watchers_owned s'"
    using watchers_owned_mono [OF watch_changes(3)] commit_changes_frame [OF watch_changes(2)]
      commit_changes_tokens [OF watch_changes(2)] by simp
  then show ?case by (auto simp: watchers_owned_def)
next
  case (refresh_changes s as w bs listing deltas s')
  have "watchers_owned (s\<lparr>ds_tasks := as @ bs\<rparr>)" using refresh_changes(1,3) by (auto simp: watchers_owned_def)
  then have "watchers_owned s'"
    using watchers_owned_mono commit_changes_frame(2) [OF refresh_changes(2)] commit_changes_tokens [OF refresh_changes(2)]
    by (metis order_refl)
  then show ?case by (auto simp: watchers_owned_def)
next
  case (watch_ends s as w bs)
  have "ds_tasks (watch_release (pw_location w) (s\<lparr>ds_tasks := as @ bs\<rparr>)) = as @ bs"
    by (simp add: watch_release_def Let_def split: option.split)
  moreover have "token_current (watch_release (pw_location w) (s\<lparr>ds_tasks := as @ bs\<rparr>)) p tk"
    if "token_current s p tk" for p tk
    using other_tokens(1) [of "s\<lparr>ds_tasks := as @ bs\<rparr>"] that by simp
  ultimately show ?case by (intro watchers_owned_mono [OF watch_ends(2)]) (auto simp: watch_ends(1))
next
  case (list_rejected s as req cached bs full e s')
  then show ?case using publish_page_revision [OF list_rejected(3)] by (auto simp: watchers_owned_def)
next
  case (activity p active s r s')
  have "ds_tasks s' = ds_tasks s"
    using activity(1) by (auto simp: set_pane_activity_def watch_set_active_def split: option.splits)
  then show ?case using watchers_owned_mono [OF activity(2)] other_tokens(2) [OF activity(1)] by simp
qed (auto simp: watchers_owned_def)

text \<open>C22: Under every interleaving the reference count of a shared watch is the number of watchers that
  hold it: it is never zero while registered (so releasing never wraps), a location without watchers is
  not registered, and every watcher either has been cancelled or carries its pane's current watch token.\<close>

theorem watch_references_exact:
  assumes "dir_run env directory_service_new ls s"
  shows "(case ds_watches s l of
      Some w \<Rightarrow> 0 < sw_references w \<and> sw_references w = watchers_on l (ds_tasks s)
    | None \<Rightarrow> watchers_on l (ds_tasks s) = 0)
    \<and> (\<forall>w. WatchTask w \<in> set (ds_tasks s) \<longrightarrow> pw_cancellation w \<in> ds_cancelled s
        \<or> (\<exists>st. ds_panes s (pw_pane_id w) = Some st \<and> pn_watch_cancellation st = pw_cancellation w))"
proof -
  have "references_exact directory_service_new \<and> watchers_owned directory_service_new"
    by (simp add: references_exact_def watch_count_def watchers_owned_def directory_service_new_def)
  with assms have "references_exact s \<and> watchers_owned s"
    by (induction rule: dir_run.induct) (auto dest: dir_step_references dir_step_owned)
  then show ?thesis
    by (fastforce simp: references_exact_def watch_count_def watchers_owned_def token_current_def
        split: option.splits dest: spec [of _ l])
qed

theorem watch_references_exact_witness:
  "\<exists>ls s. dir_run listing_env directory_service_new ls s \<and> (case ds_watches s (pw_location listing_watch) of
      Some w \<Rightarrow> 0 < sw_references w \<and> sw_references w = watchers_on (pw_location listing_watch) (ds_tasks s)
    | None \<Rightarrow> watchers_on (pw_location listing_watch) (ds_tasks s) = 0)"
proof -
  obtain cached s1 where "begin_list (listing_request 1 True) directory_service_new = (cached, s1)"
    by (cases "begin_list (listing_request 1 True) directory_service_new")
  note run = run_step [OF run_start list_begins [OF this], of listing_env]
  then show ?thesis using watch_references_exact [OF run] by blast
qed

section \<open>Polling\<close>

lemma same_fingerprint_iff: "same_fingerprint xs ys \<longleftrightarrow> by_id xs = by_id ys"
proof
  assume same: "same_fingerprint xs ys"
  show "by_id xs = by_id ys"
  proof
    fix i
    show "by_id xs i = by_id ys i"
      using same by_id_None [of xs i] by_id_None [of ys i]
      by (cases "i \<in> es_id ` set xs \<union> es_id ` set ys") (auto simp: same_fingerprint_def list_all_iff)
  qed
qed (simp add: same_fingerprint_def list_all_iff)

text \<open>The last successful answer, and whether an answer differs from it.\<close>

fun last_success :: "entry_summary list option \<Rightarrow> (vfs_error + entry_summary list) list \<Rightarrow> entry_summary list option" where
  "last_success old [] = old"
| "last_success old (Inr xs # as) = last_success (Some xs) as"
| "last_success old (Inl e # as) = last_success old as"

lemma last_success_snoc: "last_success old (as @ [a]) = (case a of Inr xs \<Rightarrow> Some xs | Inl _ \<Rightarrow> last_success old as)"
  by (induction old as rule: last_success.induct) (auto split: sum.split)

definition differs_from :: "entry_summary list option \<Rightarrow> vfs_error + entry_summary list \<Rightarrow> bool" where
  "differs_from old a \<longleftrightarrow> (\<exists>xs ys. old = Some xs \<and> a = Inr ys \<and> by_id xs \<noteq> by_id ys)"

lemma poll_turn_emits:
  assumes "a \<noteq> Inl VfsCancelled"
  shows "poll_turn a ps = (if differs_from (ps_previous ps) a then PollEmit else PollAgain)
    \<lparr>ps_previous = last_success (ps_previous ps) [a],
     ps_backoff = (case a of Inr _ \<Rightarrow> 1 | Inl _ \<Rightarrow> min (ps_backoff ps * 2) 8)\<rparr>"
  using assms
  by (cases a) (auto simp: poll_turn_def differs_from_def same_fingerprint_iff MAX_POLL_BACKOFF_MULTIPLIER_def
      split: vfs_error.splits option.splits)

lemma last_success_append: "last_success old (as @ bs) = last_success (last_success old as) bs"
  by (induction old as rule: last_success.induct) auto

lemma poll_run_emits:
  assumes "Inl VfsCancelled \<notin> set as" "ps_backoff ps \<in> {1, 2, 4, 8}"
  shows "\<exists>ps'. poll_run as ps = (map (\<lambda>i. differs_from (last_success (ps_previous ps) (take i as)) (as ! i)) [0..<length as], Some ps')
    \<and> ps_previous ps' = last_success (ps_previous ps) as \<and> ps_backoff ps' \<in> {1, 2, 4, 8}"
  using assms
proof (induction as arbitrary: ps)
  case (Cons a as)
  define ps1 where "ps1 = \<lparr>ps_previous = last_success (ps_previous ps) [a],
     ps_backoff = (case a of Inr _ \<Rightarrow> 1 | Inl _ \<Rightarrow> min (ps_backoff ps * 2) 8)\<rparr>"
  have turn: "poll_turn a ps = (if differs_from (ps_previous ps) a then PollEmit ps1 else PollAgain ps1)"
    using poll_turn_emits [of a ps] Cons.prems(1) by (auto simp: ps1_def)
  have "ps_backoff ps1 \<in> {1, 2, 4, 8}" using Cons.prems(2) by (auto simp: ps1_def min_def split: sum.split)
  then obtain ps' where ps': "poll_run as ps1 = (map (\<lambda>i. differs_from (last_success (ps_previous ps1) (take i as)) (as ! i)) [0..<length as], Some ps')"
    "ps_previous ps' = last_success (ps_previous ps1) as" "ps_backoff ps' \<in> {1, 2, 4, 8}"
    using Cons.IH [of ps1] Cons.prems(1) by auto
  have "last_success (ps_previous ps1) xs = last_success (ps_previous ps) (a # xs)" for xs
    using last_success_append [of "ps_previous ps" "[a]" xs] by (simp add: ps1_def)
  with ps' turn show ?case by (simp add: upt_conv_Cons map_Suc_upt [symmetric] comp_def del: upt_Suc)
qed simp

text \<open>The polling stream reports a change at exactly those polls whose listing differs, entry by
  entry, from the last listing that succeeded: never for the first one, not for a reordering and not for
  failed polls. The wait between polls never exceeds thirty-two times the base interval.\<close>

lemma poll_emits_exactly_on_change:
  assumes "Inl VfsCancelled \<notin> set answers"
  shows "\<exists>ps. poll_run answers poll_new =
      (map (\<lambda>i. differs_from (last_success None (take i answers)) (answers ! i)) [0..<length answers], Some ps)
    \<and> ps_previous ps = last_success None answers
    \<and> base_interval \<le> poll_interval base_interval active ps \<and> poll_interval base_interval active ps \<le> 32 * base_interval"
proof -
  obtain ps where ps: "poll_run answers poll_new =
      (map (\<lambda>i. differs_from (last_success None (take i answers)) (answers ! i)) [0..<length answers], Some ps)"
    "ps_previous ps = last_success None answers" "ps_backoff ps \<in> {1, 2, 4, 8}"
    using poll_run_emits [OF assms, of poll_new] by (auto simp: poll_new_def)
  have "base_interval \<le> poll_interval base_interval active ps \<and> poll_interval base_interval active ps \<le> 32 * base_interval"
    using ps(3) by (auto simp: poll_interval_def BACKGROUND_POLL_MULTIPLIER_def)
  then show ?thesis using ps by blast
qed

definition poll_answers :: "(vfs_error + entry_summary list) list" where
  "poll_answers = [Inr [listing_entry 1 ''b'' False], Inl (VfsIo ''x''), Inr [listing_entry 1 ''b'' False], Inr []]"

end
