(* ===== verification/Operation_History.thy ===== *)
theory Operation_History
  imports Scheduler_Laws Directory "HOL-Library.Multiset" "HOL-Library.Sublist"
begin

text \<open>
  The operation history of \<open>src/crates/fm-application/src/operation_history.rs\<close> and the listing of
  operations in \<open>service.rs\<close>: the history observes the scheduler, keeps a bounded number of finished
  operations beside the settings and is loaded again at the next start.

  The clock and the outcome of every attempt to write the file are inputs. The file is its parsed content
  (\<open>None\<close> when it is missing or cannot be read): the JSON codec is assumed to read back what it wrote, and
  a write replaces the file whole, by renaming a temporary file, or leaves it as it was. Wire enumerations
  that repeat a domain enumeration constructor by constructor are represented by it.
\<close>

section \<open>Data\<close>

definition OPERATION_HISTORY_MAX_ENTRIES :: nat where
  "OPERATION_HISTORY_MAX_ENTRIES = 100"

definition OPERATION_HISTORY_MAX_AGE_DAYS :: int where
  "OPERATION_HISTORY_MAX_AGE_DAYS = 30"

record operation_history =
  oh_file :: "operation list option"
  oh_operations :: "operation list"

record operation_dto =
  dto_id :: op_id
  dto_operation_type :: operation_kind
  dto_state :: operation_state
  dto_sources :: "entry_ref list"
  dto_destination :: "location option"
  dto_progress :: operation_progress
  dto_conflict_policy :: conflict_policy
  dto_created_at :: op_time
  dto_started_at :: "op_time option"
  dto_completed_at :: "op_time option"
  dto_errors :: "operation_entry_error list"
  dto_queue_position :: "u64 option"
  dto_result_summary :: "string option"

definition operation_result_summary :: "operation \<Rightarrow> string option" where
  "operation_result_summary op =
    (let items = show_nat (unat (completed_items (op_progress op))) in
     case op_state op of
       Completed \<Rightarrow> Some (''Completed '' @ items @ '' items.'')
     | CompletedWithWarnings \<Rightarrow> Some (''Completed with '' @ show_nat (length (op_errors op)) @ '' warnings.'')
     | Cancelled \<Rightarrow> Some (''Cancelled after '' @ items @ '' items.'')
     | Failed \<Rightarrow> Some ''Operation failed.''
     | Interrupted \<Rightarrow> Some (''Interrupted after '' @ items @ '' items; it was not resumed.'')
     | _ \<Rightarrow> None)"

definition make_operation_dto :: "operation \<Rightarrow> u64 option \<Rightarrow> operation_dto" where
  "make_operation_dto op queue_position = \<lparr>dto_id = op_id op, dto_operation_type = op_kind op, dto_state = op_state op,
     dto_sources = op_sources op, dto_destination = op_destination op, dto_progress = op_progress op,
     dto_conflict_policy = op_conflict_policy op, dto_created_at = op_created_at op, dto_started_at = op_started_at op,
     dto_completed_at = op_completed_at op, dto_errors = op_errors op, dto_queue_position = queue_position,
     dto_result_summary = operation_result_summary op\<rparr>"

abbreviation op_terminal :: "operation \<Rightarrow> bool" where
  "op_terminal op \<equiv> is_terminal (op_state op)"

section \<open>Pruning and saving\<close>

text \<open>Days in the nanoseconds of time stamps.\<close>

definition days :: "int \<Rightarrow> op_time" where
  "days n = n * 86400000000000"

definition not_expired :: "op_time \<Rightarrow> operation \<Rightarrow> bool" where
  "not_expired now op \<longleftrightarrow> \<not> op_terminal op \<or> (case op_completed_at op of
     None \<Rightarrow> True | Some completed_at \<Rightarrow> now - days OPERATION_HISTORY_MAX_AGE_DAYS \<le> completed_at)"

definition terminal_by_age :: "operation list \<Rightarrow> (nat \<times> op_time option) list" where
  "terminal_by_age ops =
    sort_key snd (map (\<lambda>(i, op). (i, op_completed_at op)) [(i, op) \<leftarrow> List.enumerate 0 ops. op_terminal op])"

definition prune :: "op_time \<Rightarrow> operation list \<Rightarrow> operation list" where
  "prune now operations =
    (let retained = [op \<leftarrow> operations. not_expired now op];
         terminal = terminal_by_age retained;
         excess = length terminal - OPERATION_HISTORY_MAX_ENTRIES;
         remove = map fst (take excess terminal)
     in if remove = [] then retained
        else map snd [(i, op) \<leftarrow> List.enumerate 0 retained. i \<notin> set remove])"

definition prune_and_save :: "op_time \<Rightarrow> bool \<Rightarrow> operation_history \<Rightarrow> operation_history" where
  "prune_and_save now written h =
    (let operations = prune now (oh_operations h)
     in h\<lparr>oh_operations := operations, oh_file := (if written then Some operations else oh_file h)\<rparr>)"

definition interrupt :: "op_time \<Rightarrow> operation \<Rightarrow> operation" where
  "interrupt now op = (if op_terminal op then op else op\<lparr>op_state := Interrupted, op_completed_at := Some now\<rparr>)"

definition history_load :: "op_time \<Rightarrow> bool \<Rightarrow> operation list option \<Rightarrow> operation_history" where
  "history_load now written file =
    prune_and_save now written
      \<lparr>oh_file = file, oh_operations = map (interrupt now) (case file of Some ops \<Rightarrow> ops | None \<Rightarrow> [])\<rparr>"

definition history_list :: "operation_history \<Rightarrow> operation_dto list" where
  "history_list h = map (\<lambda>op. make_operation_dto op None) [op \<leftarrow> oh_operations h. op_terminal op]"

definition history_get :: "operation_history \<Rightarrow> op_id \<Rightarrow> operation_dto option" where
  "history_get h i =
    map_option (\<lambda>op. make_operation_dto op None) (List.find (\<lambda>op. op_id op = i \<and> op_terminal op) (oh_operations h))"

fun upsert :: "operation \<Rightarrow> operation list \<Rightarrow> operation list" where
  "upsert op [] = [op]"
| "upsert op (previous # ops) = (if op_id previous = op_id op then op # ops else previous # upsert op ops)"

definition history_observe :: "op_time \<times> bool \<Rightarrow> operation \<Rightarrow> operation_history \<Rightarrow> operation_history" where
  "history_observe inp op h =
    prune_and_save (fst inp) (snd inp) (h\<lparr>oh_operations := upsert op (oh_operations h)\<rparr>)"

text \<open>The observer of the application: besides the history it names the directories to list again, the
  argument of \<open>refresh_affected\<close>.\<close>

definition with_parent :: "(string \<Rightarrow> bool) \<Rightarrow> location \<Rightarrow> location list" where
  "with_parent uuid_ok l = l # (case location_parent uuid_ok l of Inr (Some parent) \<Rightarrow> [parent] | _ \<Rightarrow> [])"

definition affected_locations :: "(string \<Rightarrow> bool) \<Rightarrow> operation \<Rightarrow> location list" where
  "affected_locations uuid_ok op =
    concat (map (\<lambda>source. with_parent uuid_ok (entry_location source)) (op_sources op))
    @ (case op_destination op of Some d \<Rightarrow> with_parent uuid_ok d | None \<Rightarrow> [])"

definition application_observe ::
  "(string \<Rightarrow> bool) \<Rightarrow> op_time \<times> bool \<Rightarrow> operation \<Rightarrow> operation_history \<Rightarrow> operation_history \<times> location set option" where
  "application_observe uuid_ok inp op h =
    (history_observe inp op h,
     if \<not> op_terminal op \<or> affected_locations uuid_ok op = [] then None
     else Some (set (affected_locations uuid_ok op)))"

section \<open>Listing operations\<close>

definition queued_by_age :: "operation list \<Rightarrow> op_id list" where
  "queued_by_age active = map fst (sort_key snd (map (\<lambda>op. (op_id op, op_created_at op)) [op \<leftarrow> active. op_state op = Queued]))"

definition service_list_operations :: "scheduler \<Rightarrow> operation_history \<Rightarrow> operation_dto list" where
  "service_list_operations s h =
    (let active = [op \<leftarrow> list_operations s. \<not> op_terminal op];
         queued = queued_by_age active
     in sort_key (\<lambda>dto. - dto_created_at dto)
          (map (\<lambda>op. make_operation_dto op (map_option (\<lambda>position. of_nat (position + 1)) (position (\<lambda>i. i = op_id op) queued))) active
           @ history_list h))"

record operation_page =
  op_page_offset :: u64
  op_page_limit :: "16 word"
  op_page_total :: u64
  op_page_operations :: "operation_dto list"

definition list_operation_page :: "scheduler \<Rightarrow> operation_history \<Rightarrow> u64 \<Rightarrow> 16 word \<Rightarrow> operation_page" where
  "list_operation_page s h offset requested =
    (let lim = (if requested < 1 then 1 else if 100 < requested then 100 else requested);
         operations = service_list_operations s h;
         first = min (unat offset) (length operations);
         fin = min (first + unat lim) (length operations)
     in \<lparr>op_page_offset = offset, op_page_limit = lim, op_page_total = of_nat (length operations),
         op_page_operations = take (fin - first) (drop first operations)\<rparr>)"

fun map_scheduler_error :: "scheduler_error \<Rightarrow> application_error" where
  "map_scheduler_error (UnknownOperation _) = AppNotFound"
| "map_scheduler_error (Transition e) = AppInvalidRequest (scheduler_error_text (Transition e))"
| "map_scheduler_error (Execution _) = AppInternal"

definition service_get_operation :: "scheduler \<Rightarrow> operation_history \<Rightarrow> op_id \<Rightarrow> application_error + operation_dto" where
  "service_get_operation s h i =
    (case map_err map_scheduler_error (get_operation s i) of
       Inr op \<Rightarrow> Inr (make_operation_dto op None)
     | Inl e \<Rightarrow> ok_or e (history_get h i))"

section \<open>What pruning keeps\<close>

lemma filter_nths: "filter P (nths xs A) = nths xs {i \<in> A. i < length xs \<and> P (xs ! i)}"
proof -
  have "filter P (nths xs A) = map fst [p \<leftarrow> zip xs [0..<length xs]. snd p \<in> A \<and> P (fst p)]"
    by (simp add: nths_def filter_map comp_def conj_commute)
  also have "[p \<leftarrow> zip xs [0..<length xs]. snd p \<in> A \<and> P (fst p)]
      = [p \<leftarrow> zip xs [0..<length xs]. snd p \<in> {i \<in> A. i < length xs \<and> P (xs ! i)}]"
    by (rule filter_cong) (auto simp: set_zip)
  finally show ?thesis by (simp add: nths_def)
qed

lemma nths_enumerate: "map snd [(i, x) \<leftarrow> List.enumerate 0 xs. i \<notin> A] = nths xs (- A)"
proof -
  have "List.enumerate 0 xs = map (\<lambda>(x, i). (i, x)) (zip xs [0..<length xs])"
    by (simp add: enumerate_eq_zip zip_commute [of "[0..<length xs]"])
  then show ?thesis by (simp add: nths_def filter_map comp_def case_prod_unfold)
qed

definition terminal_indices :: "operation list \<Rightarrow> nat set" where
  "terminal_indices ops = {i. i < length ops \<and> op_terminal (ops ! i)}"

lemma terminal_by_age_laws:
  "set (map fst (terminal_by_age ops)) = terminal_indices ops" "distinct (map fst (terminal_by_age ops))"
  "length (terminal_by_age ops) = card (terminal_indices ops)" "linorder_class.sorted (map snd (terminal_by_age ops))"
  "(i, c) \<in> set (terminal_by_age ops) \<Longrightarrow> c = op_completed_at (ops ! i)"
proof -
  let ?E = "[(i, op) \<leftarrow> List.enumerate 0 ops. op_terminal op]"
  let ?T = "map (\<lambda>(i, op). (i, op_completed_at op)) ?E"
  have same: "mset (terminal_by_age ops) = mset ?T" by (simp add: terminal_by_age_def)
  have "map fst ?T = map fst ?E" by (simp add: case_prod_unfold comp_def)
  moreover have "distinct (map fst ?E)"
    by (rule distinct_map_filter) (simp add: enumerate_eq_zip)
  ultimately have dist: "distinct (map fst ?T)" by metis
  have idx: "set (map fst ?T) = terminal_indices ops"
    by (force simp: terminal_indices_def enumerate_eq_zip set_zip image_iff)
  have fsts: "mset (map fst (terminal_by_age ops)) = mset (map fst ?T)" using same by (metis mset_map)
  then show set: "set (map fst (terminal_by_age ops)) = terminal_indices ops" using idx by (metis set_mset_mset)
  show dist': "distinct (map fst (terminal_by_age ops))" using fsts dist by (metis mset_eq_imp_distinct_iff)
  show "length (terminal_by_age ops) = card (terminal_indices ops)" using set distinct_card [OF dist'] by simp
  show "linorder_class.sorted (map snd (terminal_by_age ops))" by (simp add: terminal_by_age_def)
  show "(i, c) \<in> set (terminal_by_age ops) \<Longrightarrow> c = op_completed_at (ops ! i)"
    by (auto simp: terminal_by_age_def enumerate_eq_zip set_zip)
qed

definition pruned_indices :: "operation list \<Rightarrow> nat set" where
  "pruned_indices ops =
    set (map fst (take (length (terminal_by_age ops) - OPERATION_HISTORY_MAX_ENTRIES) (terminal_by_age ops)))"

lemma prune_nths: "prune now ops = nths [op \<leftarrow> ops. not_expired now op] (- pruned_indices [op \<leftarrow> ops. not_expired now op])"
  by (auto simp: prune_def pruned_indices_def Let_def nths_enumerate nths_all simp del: take_eq_Nil)

lemma pruned_indices_laws:
  "pruned_indices ops \<subseteq> terminal_indices ops"
  "card (terminal_indices ops - pruned_indices ops) = min OPERATION_HISTORY_MAX_ENTRIES (card (terminal_indices ops))"
  "i \<in> pruned_indices ops \<Longrightarrow> j \<in> terminal_indices ops - pruned_indices ops \<Longrightarrow>
   op_completed_at (ops ! i) \<le> op_completed_at (ops ! j)"
proof -
  define T where "T = terminal_by_age ops"
  define k where "k = length T - OPERATION_HISTORY_MAX_ENTRIES"
  note laws = terminal_by_age_laws [where ops = ops, folded T_def]
  have rem: "pruned_indices ops = set (take k (map fst T))" by (simp add: pruned_indices_def T_def k_def take_map)
  show "pruned_indices ops \<subseteq> terminal_indices ops" using rem laws(1) set_take_subset by metis
  have rest: "terminal_indices ops - pruned_indices ops = set (drop k (map fst T))"
  proof -
    have "distinct (take k (map fst T) @ drop k (map fst T))" using laws(2) by simp
    then have "set (take k (map fst T)) \<inter> set (drop k (map fst T)) = {}" by (simp only: distinct_append)
    moreover have "set (take k (map fst T)) \<union> set (drop k (map fst T)) = terminal_indices ops"
      using laws(1) by (metis append_take_drop_id set_append)
    ultimately show ?thesis using rem by auto
  qed
  moreover have "card (set (drop k (map fst T))) = length T - k"
    using distinct_card [OF distinct_drop [OF laws(2)], of k] by simp
  ultimately show "card (terminal_indices ops - pruned_indices ops) = min OPERATION_HISTORY_MAX_ENTRIES (card (terminal_indices ops))"
    using laws(3) by (simp add: k_def)
  assume i: "i \<in> pruned_indices ops" and j: "j \<in> terminal_indices ops - pruned_indices ops"
  obtain c where c: "(i, c) \<in> set (take k T)" using i rem by (auto simp: take_map)
  obtain d where d: "(j, d) \<in> set (drop k T)" using j rest by (auto simp: drop_map)
  have "linorder_class.sorted (map snd (take k T) @ map snd (drop k T))" using laws(4) by (simp flip: map_append)
  then have "c \<le> d" using c d by (force simp: sorted_append)
  then show "op_completed_at (ops ! i) \<le> op_completed_at (ops ! j)"
    using laws(5) c d by (metis in_set_dropD in_set_takeD)
qed


lemma length_nths_indices: "length [op \<leftarrow> nths ops (- A). op_terminal op] = card (terminal_indices ops - A)"
proof -
  have "{i. i < length ops \<and> i \<in> {i \<in> - A. i < length ops \<and> op_terminal (ops ! i)}} = terminal_indices ops - A"
    by (auto simp: terminal_indices_def)
  then show ?thesis by (simp add: filter_nths length_nths)
qed

lemma filter_id_nths: "filter P xs = nths xs {i. i < length xs \<and> P (xs ! i)}"
  using filter_nths [of P xs UNIV] by (simp add: nths_all)

lemma set_prune: "set (prune now ops) \<subseteq> {op \<in> set ops. not_expired now op}"
  using set_nths_subset unfolding prune_nths by fastforce

text \<open>C37: Pruning keeps the newest finished operations. It keeps every unfinished operation, and of the finished ones that
  completed in the last thirty days (or have no completion time) exactly one hundred, or all if there are fewer; none older
  than thirty days stays. What is kept stays in its order, and a finished operation that is dropped although
  it has not expired completed no later than any finished operation that is kept.\<close>

theorem history_keeps_newest:
  "length [op \<leftarrow> prune now ops. op_terminal op] = min 100 (length [op \<leftarrow> ops. op_terminal op \<and> not_expired now op])
   \<and> list_all (not_expired now) (prune now ops)
   \<and> [op \<leftarrow> prune now ops. \<not> op_terminal op] = [op \<leftarrow> ops. \<not> op_terminal op]
   \<and> subseq (prune now ops) ops
   \<and> (x \<in> set ops - set (prune now ops) \<longrightarrow> op_terminal x \<and>
       (not_expired now x \<longrightarrow> (\<forall>y\<in>set (prune now ops). op_terminal y \<longrightarrow> op_completed_at x \<le> op_completed_at y)))"
proof (intro conjI impI)
  let ?R = "[op \<leftarrow> ops. not_expired now op]" and ?A = "pruned_indices [op \<leftarrow> ops. not_expired now op]"
  note laws = pruned_indices_laws [where ops = ?R]
  have "card (terminal_indices ?R) = length [op \<leftarrow> ops. op_terminal op \<and> not_expired now op]"
    using length_nths_indices [of ?R "{}"] by (simp add: nths_all conj_commute)
  then show "length [op \<leftarrow> prune now ops. op_terminal op] = min 100 (length [op \<leftarrow> ops. op_terminal op \<and> not_expired now op])"
    using laws(2) by (simp add: prune_nths length_nths_indices OPERATION_HISTORY_MAX_ENTRIES_def)
  show "list_all (not_expired now) (prune now ops)" using set_prune [of now ops] by (auto simp: list_all_iff)
  have "{i \<in> - ?A. i < length ?R \<and> \<not> op_terminal (?R ! i)} = {i. i < length ?R \<and> \<not> op_terminal (?R ! i)}"
    using laws(1) by (auto simp: terminal_indices_def)
  then have "[op \<leftarrow> prune now ops. \<not> op_terminal op] = [op \<leftarrow> ?R. \<not> op_terminal op]"
    unfolding prune_nths filter_nths by (simp only: filter_id_nths [of _ ?R])
  also have "\<dots> = [op \<leftarrow> ops. \<not> op_terminal op]"
    by (auto simp: filter_filter not_expired_def intro!: filter_cong)
  finally show live: "[op \<leftarrow> prune now ops. \<not> op_terminal op] = [op \<leftarrow> ops. \<not> op_terminal op]" .
  show "subseq (prune now ops) ops"
    unfolding prune_nths using subseq_conv_nths subseq_filter_left subseq_order.order_trans by metis
  assume x: "x \<in> set ops - set (prune now ops)"
  show "op_terminal x"
  proof (rule ccontr)
    assume "\<not> op_terminal x"
    then have "x \<in> set [op \<leftarrow> prune now ops. \<not> op_terminal op]" using x unfolding live by simp
    then show False using x by simp
  qed
  assume "not_expired now x"
  then have "x \<in> set ?R" using x by simp
  then obtain i where i: "i < length ?R" "?R ! i = x" by (metis in_set_conv_nth)
  have gone: "i \<in> ?A" using x i by (auto simp: prune_nths set_nths)
  show "\<forall>y\<in>set (prune now ops). op_terminal y \<longrightarrow> op_completed_at x \<le> op_completed_at y"
  proof (intro ballI impI)
    fix y assume "y \<in> set (prune now ops)" "op_terminal y"
    then obtain j where "j \<in> terminal_indices ?R - ?A" "?R ! j = y"
      by (auto simp: prune_nths set_nths terminal_indices_def)
    then show "op_completed_at x \<le> op_completed_at y" using laws(3) [OF gone] i(2) by blast
  qed
qed


definition finished_op :: "op_id \<Rightarrow> op_time \<Rightarrow> operation" where
  "finished_op i done_at = (operation_new i 0 Copy [] None Ask)\<lparr>op_state := Completed, op_completed_at := Some done_at\<rparr>"

text \<open>One hundred and one operations that finished one after the other: the first is the one dropped.\<close>

definition finished_ops :: "operation list" where
  "finished_ops = map (\<lambda>i. finished_op i (int i)) [0 ..< 101]"

theorem history_keeps_newest_witness:
  "length (prune 0 finished_ops) = 100 \<and> finished_op 0 0 \<in> set finished_ops - set (prune 0 finished_ops)
   \<and> list_all (\<lambda>y. op_completed_at (finished_op 0 0) \<le> op_completed_at y) (prune 0 finished_ops)"
proof -
  note laws = history_keeps_newest [where now = 0 and ops = finished_ops]
  have all: "op_terminal op \<and> not_expired 0 op" if "op \<in> set finished_ops" for op
    using that by (auto simp: finished_ops_def finished_op_def is_terminal_def not_expired_def days_def operation_new_def
        OPERATION_HISTORY_MAX_AGE_DAYS_def)
  have sub: "set (prune 0 finished_ops) \<subseteq> set finished_ops" using set_prune [of 0 finished_ops] by auto
  then have "[op \<leftarrow> prune 0 finished_ops. op_terminal op] = prune 0 finished_ops" using all by (auto simp: filter_id_conv)
  moreover have "[op \<leftarrow> finished_ops. op_terminal op \<and> not_expired 0 op] = finished_ops" using all by (auto simp: filter_id_conv)
  ultimately have len: "length (prune 0 finished_ops) = 100" using laws by (simp add: finished_ops_def)
  have first: "finished_op 0 0 \<in> set finished_ops" unfolding finished_ops_def by (simp add: image_iff) (rule bexI [of _ 0], simp_all)
  have "\<exists>x. x \<in> set finished_ops - set (prune 0 finished_ops)"
  proof (rule ccontr)
    assume "\<not> (\<exists>x. x \<in> set finished_ops - set (prune 0 finished_ops))"
    then have "card (set finished_ops) \<le> length (prune 0 finished_ops)" using sub card_length [of "prune 0 finished_ops"] by (metis DiffI subsetI subset_antisym)
    moreover have "distinct finished_ops"
      by (auto simp: finished_ops_def distinct_map inj_on_def finished_op_def operation_new_def)
    ultimately show False using len distinct_card by (fastforce simp: finished_ops_def)
  qed
  then obtain x where x: "x \<in> set finished_ops - set (prune 0 finished_ops)" ..
  have "finished_op 0 0 \<notin> set (prune 0 finished_ops)"
  proof
    assume kept: "finished_op 0 0 \<in> set (prune 0 finished_ops)"
    then have "op_completed_at x \<le> op_completed_at (finished_op 0 0)"
      using history_keeps_newest [where now = 0 and ops = finished_ops and x = x] x all first by blast
    then have "x = finished_op 0 0" using x by (auto simp: finished_ops_def finished_op_def)
    then show False using x kept by blast
  qed
  then show ?thesis
    using len first history_keeps_newest [where now = 0 and ops = finished_ops and x = "finished_op 0 0"] all sub
    unfolding list_all_iff by blast
qed

section \<open>Restarts\<close>




lemma set_upsert: "set (upsert op ops) \<subseteq> insert op (set ops)"
  by (induction ops) auto


lemma interrupt_simps [simp]: "op_id (interrupt now op) = op_id op" "op_terminal (interrupt now op)"
  by (simp_all add: interrupt_def is_terminal_def)




section \<open>The scheduler's observer\<close>

text \<open>The interface through which the scheduler reports snapshots: an observer records nothing but what it
  was told. Each call has an input of its own (here the clock and whether the file could be written).\<close>

locale snapshot_observer =
  fixes observe :: "'i \<Rightarrow> operation \<Rightarrow> 'h \<Rightarrow> 'h"
    and recorded :: "'h \<Rightarrow> operation set"
  assumes observe_records: "recorded (observe i op h) \<subseteq> insert op (recorded h)"
begin

lemma observe_all_records: "recorded (fold (\<lambda>(i, op). observe i op) calls h) \<subseteq> snd ` set calls \<union> recorded h"
proof (induction calls arbitrary: h)
  case (Cons c calls)
  have "recorded (observe (fst c) (snd c) h) \<subseteq> insert (snd c) (recorded h)" by (rule observe_records)
  then show ?case using Cons.IH [of "observe (fst c) (snd c) h"] by (auto simp: case_prod_unfold)
qed simp

end

definition history_recorded :: "operation_history \<Rightarrow> operation set" where
  "history_recorded h = set (oh_operations h) \<union> (case oh_file h of Some ops \<Rightarrow> set ops | None \<Rightarrow> {})"

interpretation history_observer: snapshot_observer history_observe history_recorded
proof
  fix i :: "op_time \<times> bool" and op and h :: operation_history
  have "set (prune (fst i) (upsert op (oh_operations h))) \<subseteq> insert op (set (oh_operations h))"
    using set_prune set_upsert by blast
  then show "history_recorded (history_observe i op h) \<subseteq> insert op (history_recorded h)"
    by (auto simp: history_recorded_def history_observe_def prune_and_save_def Let_def)
qed

definition observe_all :: "(op_time \<times> bool) list \<Rightarrow> operation list \<Rightarrow> operation_history \<Rightarrow> operation_history" where
  "observe_all inputs ops h = fold (\<lambda>(i, op). history_observe i op) (zip inputs ops) h"

lemma load_recorded:
  assumes "op \<in> set (oh_operations (history_load now w stored))"
  shows "\<exists>x\<in>set (case stored of Some ops \<Rightarrow> ops | None \<Rightarrow> []). op = interrupt now x"
proof -
  have "op \<in> set (prune now (map (interrupt now) (case stored of Some ops \<Rightarrow> ops | None \<Rightarrow> [])))"
    using assms by (simp add: history_load_def prune_and_save_def Let_def)
  then have "op \<in> set (map (interrupt now) (case stored of Some ops \<Rightarrow> ops | None \<Rightarrow> []))"
    using set_prune by blast
  then show ?thesis by auto
qed

lemma interrupt_state: "op_state op \<in> {Queued, Failed} \<Longrightarrow> op_state (interrupt now op) \<in> {Failed, Interrupted}"
  by (auto simp: interrupt_def is_terminal_def)

text \<open>No operation that completed or was cancelled is ever listed as such. The history sees every
  snapshot the scheduler reports, but the scheduler reports none of them: a finished operation leaves the
  list at once, after a restart it is listed as interrupted or failed, and the directories it touched are
  listed again only if it failed.\<close>

lemma completed_operations_never_listed:
  assumes "reachable c s" "h = observe_all inputs (observed s) (history_load now w None)"
  shows "(d \<in> set (service_list_operations s h) \<longrightarrow> dto_state d \<notin> {Completed, CompletedWithWarnings, Cancelled})
    \<and> (d \<in> set (history_list (history_load later w' (oh_file h))) \<longrightarrow> dto_state d \<in> {Failed, Interrupted})
    \<and> (op \<in> set (observed s) \<and> snd (application_observe uuid_ok inp op h0) \<noteq> None \<longrightarrow> op_state op = Failed)"
proof -
  have seen: "op_state x \<in> {Queued, Failed}" if "x \<in> set (observed s)" for x
    using observer_misses_completion [OF assms(1) that] .
  have "history_recorded (history_load now w None) = {}"
    by (simp add: history_recorded_def history_load_def prune_and_save_def prune_def terminal_by_age_def Let_def)
  then have "history_recorded h \<subseteq> snd ` set (zip inputs (observed s))"
    using history_observer.observe_all_records [of "zip inputs (observed s)" "history_load now w None"] assms(2)
    by (simp add: observe_all_def)
  then have rec: "op_state x \<in> {Queued, Failed}" if "x \<in> history_recorded h" for x
    using seen that by (metis (no_types, lifting) imageE prod.collapse set_zip_rightD subsetD)
  have "dto_state d \<notin> {Completed, CompletedWithWarnings, Cancelled}" if listed: "d \<in> set (service_list_operations s h)"
  proof -
    obtain x where x: "dto_state d = op_state x" "\<not> op_terminal x \<or> x \<in> set (oh_operations h)"
      using listed by (auto simp: service_list_operations_def history_list_def make_operation_dto_def Let_def)
    then show ?thesis using rec [of x] by (auto simp: history_recorded_def is_terminal_def)
  qed
  moreover have "dto_state d \<in> {Failed, Interrupted}" if listed: "d \<in> set (history_list (history_load later w' (oh_file h)))"
  proof -
    obtain y where y: "y \<in> set (oh_operations (history_load later w' (oh_file h)))" "dto_state d = op_state y"
      using listed by (auto simp: history_list_def make_operation_dto_def)
    then obtain x where "x \<in> history_recorded h" "y = interrupt later x"
      using load_recorded by (fastforce simp: history_recorded_def split: option.splits)
    then show ?thesis using y(2) rec interrupt_state by auto
  qed
  moreover have "op_state op = Failed"
    if "op \<in> set (observed s)" "snd (application_observe uuid_ok inp op h0) \<noteq> None"
    using seen [OF that(1)] that(2) by (auto simp: application_observe_def is_terminal_def split: if_splits)
  ultimately show ?thesis by blast
qed

end
