(* ===== verification/Executor.thy ===== *)
theory Executor
  imports Directory
begin

text \<open>
  What all executors of \<open>src/crates/fm-application/src/operation_planner.rs\<close> share: the capabilities of
  providers (\<open>fm-vfs/src/capabilities.rs\<close>, \<open>transfer.rs\<close>), the calls an executor makes to them, the names
  and resolutions used on conflicts, and the computations in which executors are written.

  A computation passes a state on and may fail with an execution error; \<open>None\<close> means that it never
  returns. The state has a clock that every question to the outside advances, so that answers may change
  between two questions, a log of the calls that read, write or remove files, with whether they succeeded,
  and the fields of the executor itself. Identifiers made for probes carry nothing, so providers are asked
  about locations. Pausing only waits, during which the outside may change, as it may at any time.
\<close>

section \<open>Error texts\<close>

fun location_error_text :: "location_error \<Rightarrow> string" where
  "location_error_text InvalidUri = ''location URI has no valid scheme''"
| "location_error_text (UnsupportedProvider p) = ''provider `'' @ p @ ''` is reserved but unsupported''"
| "location_error_text (UnknownProvider p) = ''unknown provider `'' @ p @ ''`''"
| "location_error_text (MismatchedProvider p s) = ''provider `'' @ p @ ''` does not match URI scheme `'' @ s @ ''`''"
| "location_error_text NullByte = ''location contains a null byte''"
| "location_error_text EmptySegment = ''location contains an empty path segment''"
| "location_error_text InvalidPercentEncoding = ''location contains invalid percent-encoding''"
| "location_error_text InvalidUnicode = ''location name is not valid UTF-8''"
| "location_error_text (ReservedWindowsName n) = ''`'' @ n @ ''` is a reserved Windows device name''"
| "location_error_text (InvalidName n) = ''`'' @ n @ ''` is not a single safe path name''"
| "location_error_text EscapesRoot = ''location escapes the configured root''"
| "location_error_text RootMismatch = ''location and root are from different providers or authorities''"
| "location_error_text UnsupportedNativePath = ''location cannot be represented as a native path on this platform''"
| "location_error_text RelativeNativePath = ''native path must be absolute''"

fun safety_error_text :: "safety_error \<Rightarrow> string" where
  "safety_error_text SameEntry = ''source and destination are the same entry''"
| "safety_error_text DestinationInsideSource = ''destination is inside source''"
| "safety_error_text CaseOnlyDifference = ''source and destination differ only by case''"
| "safety_error_text SymlinkCycle = ''symbolic-link cycle detected''"
| "safety_error_text EntryTypeMismatch = ''cannot replace a file with a directory or a directory with a file''"
| "safety_error_text IncomparableLocations = ''locations use different providers or invalid local paths''"

section \<open>Capabilities\<close>

datatype provider_capability =
    CapList | CapRead | CapWrite | CapCreateDirectory | CapRename | CapMove | CapServerSideCopy | CapDelete
  | CapTrash | CapWatch | CapRandomAccess | CapSetTimestamps | CapSetPermissions | CapChecksum

text \<open>The debug text of a single flag.\<close>

fun capability_text :: "provider_capability \<Rightarrow> string" where
  "capability_text CapList = ''ProviderCapabilities(LIST)''"
| "capability_text CapRead = ''ProviderCapabilities(READ)''"
| "capability_text CapWrite = ''ProviderCapabilities(WRITE)''"
| "capability_text CapCreateDirectory = ''ProviderCapabilities(CREATE_DIRECTORY)''"
| "capability_text CapRename = ''ProviderCapabilities(RENAME)''"
| "capability_text CapMove = ''ProviderCapabilities(MOVE)''"
| "capability_text CapServerSideCopy = ''ProviderCapabilities(SERVER_SIDE_COPY)''"
| "capability_text CapDelete = ''ProviderCapabilities(DELETE)''"
| "capability_text CapTrash = ''ProviderCapabilities(TRASH)''"
| "capability_text CapWatch = ''ProviderCapabilities(WATCH)''"
| "capability_text CapRandomAccess = ''ProviderCapabilities(RANDOM_ACCESS)''"
| "capability_text CapSetTimestamps = ''ProviderCapabilities(SET_TIMESTAMPS)''"
| "capability_text CapSetPermissions = ''ProviderCapabilities(SET_PERMISSIONS)''"
| "capability_text CapChecksum = ''ProviderCapabilities(CHECKSUM)''"

definition require :: "provider_capability set \<Rightarrow> provider_capability \<Rightarrow> vfs_error + unit" where
  "require capabilities c = (if c \<in> capabilities then Inr () else Inl (VfsUnsupportedCapability (capability_text c)))"

record transfer_capabilities =
  tc_endpoint :: string
  tc_server_side_copy :: bool
  tc_server_side_move :: bool
  tc_resumable_upload :: bool
  tc_resumable_download :: bool
  tc_random_read :: bool
  tc_random_write :: bool

definition from_provider_capabilities :: "string \<Rightarrow> provider_capability set \<Rightarrow> transfer_capabilities" where
  "from_provider_capabilities endpoint capabilities = \<lparr>tc_endpoint = endpoint,
     tc_server_side_copy = (CapServerSideCopy \<in> capabilities), tc_server_side_move = (CapMove \<in> capabilities),
     tc_resumable_upload = False, tc_resumable_download = False,
     tc_random_read = (CapRandomAccess \<in> capabilities), tc_random_write = False\<rparr>"

definition shares_endpoint_with :: "transfer_capabilities \<Rightarrow> transfer_capabilities \<Rightarrow> bool" where
  "shares_endpoint_with a b \<longleftrightarrow> tc_endpoint a = tc_endpoint b"

text \<open>What a provider answers to the calls of executors, at a tick of the clock. A read returns the bytes
  put into the buffer, none at the end of the stream. Errors of streams are texts.\<close>

record transfer_provider = provider +
  tp_capabilities_for :: "nat \<Rightarrow> location \<Rightarrow> vfs_error + provider_capability set"
  tp_transfer_capabilities :: "nat \<Rightarrow> location \<Rightarrow> vfs_error + transfer_capabilities"
  tp_resolve_symlink :: "nat \<Rightarrow> location \<Rightarrow> vfs_error + entry_summary"
  tp_same_filesystem :: "nat \<Rightarrow> location \<Rightarrow> location \<Rightarrow> vfs_error + bool"
  tp_server_side_copy :: "nat \<Rightarrow> location \<Rightarrow> location \<Rightarrow> vfs_error + bool"
  tp_open_read :: "nat \<Rightarrow> location \<Rightarrow> vfs_error + unit"
  tp_open_write :: "nat \<Rightarrow> location \<Rightarrow> vfs_error + unit"
  tp_read :: "nat \<Rightarrow> string + string"
  tp_write_all :: "nat \<Rightarrow> string \<Rightarrow> string + unit"
  tp_shutdown :: "nat \<Rightarrow> string + unit"
  tp_commit_copy :: "nat \<Rightarrow> location \<Rightarrow> location \<Rightarrow> location \<Rightarrow> bool \<Rightarrow> bool \<Rightarrow> vfs_error + unit"
  tp_discard_copy :: "nat \<Rightarrow> location \<Rightarrow> vfs_error + unit"
  tp_remove :: "nat \<Rightarrow> location \<Rightarrow> bool \<Rightarrow> vfs_error + unit"
  tp_rename :: "nat \<Rightarrow> location \<Rightarrow> location \<Rightarrow> vfs_error + unit"
  tp_create_directory :: "nat \<Rightarrow> location \<Rightarrow> string \<Rightarrow> vfs_error + location"
  tp_copy_symlink :: "nat \<Rightarrow> location \<Rightarrow> location \<Rightarrow> vfs_error + unit"
  tp_preserve_metadata :: "nat \<Rightarrow> location \<Rightarrow> location \<Rightarrow> vfs_error + unit"

section \<open>Computations of executors\<close>

datatype vfs_call =
    InspectCall location
  | ServerSideCopyCall location location
  | OpenReadCall location
  | OpenWriteCall location
  | ReadCall string
  | WriteCall string
  | ShutdownCall
  | CommitCall location location location bool bool
  | DiscardCall location
  | RemoveCall location bool
  | RenameCall location location
  | CreateDirectoryCall location string
  | CopySymlinkCall location location
  | PreserveMetadataCall location location
  | TrashCall string
  | ArchiveCall string "string list"
  | RemovePathCall string bool

record 'x exec_state =
  x_clock :: nat
  x_log :: "(vfs_call \<times> bool) list"
  x_local :: 'x

type_synonym ('a, 'x) exec = "'x exec_state \<Rightarrow> ((execution_error + 'a) \<times> 'x exec_state) option"

text \<open>The environment besides the providers: the cancellation token, whether \<open>tokio::select!\<close> took the
  branch of the token, fresh identifiers.\<close>

record exec_env =
  xe_uuid_ok :: "string \<Rightarrow> bool"
  xe_lower :: "string \<Rightarrow> string"
  xe_cancelled :: "nat \<Rightarrow> bool"
  xe_select :: "nat \<Rightarrow> bool"
  xe_uuid :: "nat \<Rightarrow> string"
  xe_fresh :: "nat \<Rightarrow> nat"

definition return_x :: "'a \<Rightarrow> ('a, 'x) exec" where
  "return_x a s = Some (Inr a, s)"

definition throw_x :: "execution_error \<Rightarrow> ('a, 'x) exec" where
  "throw_x e s = Some (Inl e, s)"

definition bind_x :: "('a, 'x) exec \<Rightarrow> ('a \<Rightarrow> ('b, 'x) exec) \<Rightarrow> ('b, 'x) exec" where
  "bind_x m f s =
    (case m s of None \<Rightarrow> None | Some (Inl e, s') \<Rightarrow> Some (Inl e, s') | Some (Inr a, s') \<Rightarrow> f a s')"

text \<open>The result of a computation as a value, for a \<open>match\<close> on it.\<close>

definition attempt_x :: "('a, 'x) exec \<Rightarrow> (execution_error + 'a, 'x) exec" where
  "attempt_x m s = (case m s of None \<Rightarrow> None | Some (r, s') \<Rightarrow> Some (Inr r, s'))"

definition lift_x :: "execution_error + 'a \<Rightarrow> ('a, 'x) exec" where
  "lift_x r s = Some (r, s)"

definition ask_x :: "(nat \<Rightarrow> 'a) \<Rightarrow> ('a, 'x) exec" where
  "ask_x q s = Some (Inr (q (x_clock s)), s\<lparr>x_clock := Suc (x_clock s)\<rparr>)"

definition call_x :: "('r \<Rightarrow> vfs_call \<times> bool) \<Rightarrow> (nat \<Rightarrow> 'r) \<Rightarrow> ('r, 'x) exec" where
  "call_x entry q s =
    (let r = q (x_clock s) in Some (Inr r, s\<lparr>x_clock := Suc (x_clock s), x_log := x_log s @ [entry r]\<rparr>))"

definition get_x :: "('x \<Rightarrow> 'a) \<Rightarrow> ('a, 'x) exec" where
  "get_x f s = Some (Inr (f (x_local s)), s)"

definition modify_x :: "('x \<Rightarrow> 'x) \<Rightarrow> (unit, 'x) exec" where
  "modify_x f s = Some (Inr (), s\<lparr>x_local := f (x_local s)\<rparr>)"

text \<open>A call that ends the computation when it fails.\<close>

definition outcome :: "vfs_call \<Rightarrow> 'e + 'a \<Rightarrow> vfs_call \<times> bool" where
  "outcome c r = (c, is_ok r)"

definition vfs_x :: "vfs_call \<Rightarrow> (nat \<Rightarrow> vfs_error + 'a) \<Rightarrow> ('a, 'x) exec" where
  "vfs_x c q = bind_x (call_x (outcome c) q) (\<lambda>r. lift_x (map_err Provider r))"

definition question_x :: "(nat \<Rightarrow> vfs_error + 'a) \<Rightarrow> ('a, 'x) exec" where
  "question_x q = bind_x (ask_x q) (\<lambda>r. lift_x (map_err Provider r))"

definition location_x :: "location_error + 'a \<Rightarrow> ('a, 'x) exec" where
  "location_x r = lift_x (map_err (\<lambda>e. ExecFailed (location_error_text e)) r)"

definition cancelled_x :: "exec_env \<Rightarrow> (unit, 'x) exec" where
  "cancelled_x env = bind_x (ask_x (xe_cancelled env)) (\<lambda>c. if c then throw_x (Provider VfsCancelled) else return_x ())"

text \<open>A computation on a part of the executor's fields.\<close>

definition within_x :: "('x \<Rightarrow> 'y) \<Rightarrow> ('y \<Rightarrow> 'x \<Rightarrow> 'x) \<Rightarrow> ('a, 'y) exec \<Rightarrow> ('a, 'x) exec" where
  "within_x part put m s =
    (case m \<lparr>x_clock = x_clock s, x_log = x_log s, x_local = part (x_local s)\<rparr> of
       None \<Rightarrow> None
     | Some (r, t) \<Rightarrow> Some (r, \<lparr>x_clock = x_clock t, x_log = x_log t, x_local = put (x_local t) (x_local s)\<rparr>))"

section \<open>Conflicts and names\<close>

fun policy_resolution :: "conflict_policy \<Rightarrow> conflict_resolution option" where
  "policy_resolution Ask = None"
| "policy_resolution SkipPolicy = Some Skip"
| "policy_resolution OverwritePolicy = Some Overwrite"
| "policy_resolution RenameNewPolicy = Some RenameNew"
| "policy_resolution KeepNewer = None"

definition effective_resolution :: "conflict_policy \<Rightarrow> conflict_resolution option \<Rightarrow> conflict_resolution option" where
  "effective_resolution policy resolution = (case resolution of Some r \<Rightarrow> Some r | None \<Rightarrow> policy_resolution policy)"

definition conflict_entry_of :: "entry_summary \<Rightarrow> conflict_entry" where
  "conflict_entry_of e = \<lparr>conflict_name = es_name e, conflict_kind = es_kind e, conflict_size = es_size e,
     conflict_modified_at = es_modified_at e\<rparr>"

definition conflict_error :: "exec_env \<Rightarrow> entry_summary \<Rightarrow> entry_summary \<Rightarrow> ('a, 'x) exec" where
  "conflict_error env source destination = bind_x (ask_x (xe_uuid env)) (\<lambda>new_id.
     throw_x (Conflict \<lparr>conflict_id = new_id, conflict_source = conflict_entry_of source,
       conflict_destination = conflict_entry_of destination\<rparr>))"

text \<open>\<open>Path::file_name\<close>, \<open>file_stem\<close> and \<open>extension\<close>.\<close>

definition path_file_name :: "string \<Rightarrow> string option" where
  "path_file_name n = (case rev (path_components n) of Normal x # _ \<Rightarrow> Some x | _ \<Rightarrow> None)"

definition stem_and_extension :: "string \<Rightarrow> string \<times> string option" where
  "stem_and_extension x =
    (case rsplit_once CHR ''.'' x of
       Some (before, after) \<Rightarrow> if before = [] then (x, None) else (before, Some after)
     | None \<Rightarrow> (x, None))"

definition copy_name :: "string \<Rightarrow> u32 \<Rightarrow> string" where
  "copy_name n suffix =
    (let (stem, extension) = (case path_file_name n of Some x \<Rightarrow> stem_and_extension x | None \<Rightarrow> (n, None))
     in stem @ '' (copy '' @ show_nat (unat suffix) @ '')'' @ (case extension of Some e \<Rightarrow> CHR ''.'' # e | None \<Rightarrow> []))"

definition copy_stream_error :: "string \<Rightarrow> execution_error" where
  "copy_stream_error message = Provider (VfsIo message)"

section \<open>Transfer strategies\<close>

datatype transfer_strategy = ServerSideCopy | DirectStream

datatype move_strategy = ServerSideMove | CopyThenDelete

record transfer_plan =
  tr_strategy :: transfer_strategy
  tr_move_strategy :: move_strategy
  tr_same_endpoint :: bool

definition transfer_select :: "transfer_capabilities \<Rightarrow> transfer_capabilities \<Rightarrow> transfer_plan" where
  "transfer_select source destination =
    (let same = shares_endpoint_with source destination in
     \<lparr>tr_strategy = (if same \<and> tc_server_side_copy source \<and> tc_server_side_copy destination
        then ServerSideCopy else DirectStream),
      tr_move_strategy = (if same \<and> tc_server_side_move source \<and> tc_server_side_move destination
        then ServerSideMove else CopyThenDelete),
      tr_same_endpoint = same\<rparr>)"

definition transfer_resolve ::
  "nat \<Rightarrow> transfer_provider \<Rightarrow> location \<Rightarrow> transfer_provider \<Rightarrow> location \<Rightarrow> application_error + transfer_plan" where
  "transfer_resolve t source_provider source destination_provider destination =
    and_then (map_err app_of_vfs (tp_transfer_capabilities source_provider t source)) (\<lambda>a.
      and_then (map_err app_of_vfs (tp_transfer_capabilities destination_provider t destination)) (\<lambda>b.
        Inr (transfer_select a b)))"

section \<open>The interface to the scheduler\<close>

text \<open>The calls of \<open>OperationExecutor\<close>, and a sequence of them on one executor.\<close>

datatype executor_request =
    PlanRequest operation
  | ExecuteRequest operation plan_item "conflict_resolution option"
  | CleanupRequest operation
  | FinishRequest operation

datatype executor_reply = PlanReply operation_plan | OutcomeReply execution_outcome | DoneReply

definition reply_x :: "('a \<Rightarrow> 'b) \<Rightarrow> ('a, 'x) exec \<Rightarrow> ('b, 'x) exec" where
  "reply_x f m = bind_x m (\<lambda>a. return_x (f a))"

fun run_requests ::
  "(executor_request \<Rightarrow> (executor_reply, 'x) exec) \<Rightarrow> executor_request list \<Rightarrow> 'x exec_state \<Rightarrow>
   ((execution_error + executor_reply) list \<times> 'x exec_state) option" where
  "run_requests perform [] s = Some ([], s)"
| "run_requests perform (request # requests) s =
    (case perform request s of
       None \<Rightarrow> None
     | Some (r, s) \<Rightarrow> (case run_requests perform requests s of None \<Rightarrow> None | Some (rs, s) \<Rightarrow> Some (r # rs, s)))"

end
