(* ===== verification/Copy_Move.thy ===== *)
theory Copy_Move
  imports Executor
begin

text \<open>
  The executors that copy and move one entry, \<open>CopyExecutor\<close> and \<open>MoveExecutor\<close> of
  \<open>src/crates/fm-application/src/operation_planner.rs\<close>. The fields that never change are one record, those
  behind a mutex another. A build for a platform other than Windows is modelled.
\<close>

section \<open>Copying\<close>

datatype symlink_policy = CopyLink | CopyTarget

record planned_copy_entry =
  pc_kind :: entry_kind
  pc_destination :: location
  pc_source :: entry_ref
  pc_is_root :: bool

record copy_executor =
  cx_source_provider :: transfer_provider
  cx_destination_provider :: transfer_provider
  cx_destination_directory :: location
  cx_symlink_policy :: symlink_policy
  cx_source_override :: "location option"
  cx_continue_on_error :: bool
  cx_transfer :: transfer_plan

record copy_local =
  cl_temporary :: "location option"
  cl_planned :: "string \<rightharpoonup> planned_copy_entry"
  cl_directories :: "(entry_ref \<times> location) list"
  cl_root_name :: "string option"
  cl_completed_root :: "location option"

definition copy_local_new :: copy_local where
  "copy_local_new = \<lparr>cl_temporary = None, cl_planned = Map.empty, cl_directories = [], cl_root_name = None,
     cl_completed_root = None\<rparr>"

text \<open>Planning walks the tree with a stack whose top is the head of the list.\<close>

partial_function (option) push_children ::
  "exec_env \<Rightarrow> copy_executor \<Rightarrow> location \<Rightarrow> location \<Rightarrow> string option \<Rightarrow> (entry_summary \<times> location) list \<Rightarrow>
   'x exec_state \<Rightarrow> ((execution_error + (entry_summary \<times> location) list) \<times> 'x exec_state) option" where
  "push_children env cx source destination token stack s =
    (case question_x (\<lambda>t. pr_list (cx_source_provider cx) t source token) s of
       None \<Rightarrow> None
     | Some (Inl e, s) \<Rightarrow> Some (Inl e, s)
     | Some (Inr page, s) \<Rightarrow>
         (case traverse (\<lambda>child. and_then (location_join (xe_uuid_ok env) destination (es_name child)) (\<lambda>d. Inr (child, d)))
                 (rev (dp_entries page)) of
            Inl e \<Rightarrow> Some (Inl (ExecFailed (location_error_text e)), s)
          | Inr children \<Rightarrow>
              if dp_has_more page then push_children env cx source destination (dp_token page) (rev children @ stack) s
              else Some (Inr (rev children @ stack), s)))"

declare push_children.simps [code]

record copy_walk =
  cw_items :: "plan_item list"
  cw_planned :: "string \<rightharpoonup> planned_copy_entry"
  cw_directories :: "(entry_ref \<times> location) list"
  cw_followed :: "nat set"

text \<open>One entry of the stack: \<open>None\<close> when a directory was reached before through a symbolic link.\<close>

definition follow_entry ::
  "copy_executor \<Rightarrow> entry_summary \<Rightarrow> copy_walk \<Rightarrow> ((entry_summary \<times> bool) option \<times> copy_walk, 'x) exec" where
  "follow_entry cx summary w =
    (if es_kind summary = Symlink \<and> cx_symlink_policy cx = CopyTarget
     then bind_x (question_x (\<lambda>t. tp_resolve_symlink (cx_source_provider cx) t (es_location summary))) (\<lambda>target.
       if es_kind target = Directory
       then return_x (if es_id target \<in> cw_followed w then None else Some (target, True),
              w\<lparr>cw_followed := insert (es_id target) (cw_followed w)\<rparr>)
       else return_x (Some (target, True), w))
     else return_x (Some (summary, False), w))"

definition record_entry ::
  "copy_executor \<Rightarrow> string \<Rightarrow> entry_ref \<Rightarrow> entry_summary \<Rightarrow> bool \<Rightarrow> location \<Rightarrow> copy_walk \<Rightarrow> copy_walk" where
  "record_entry cx root_uri plan_entry summary followed destination w =
    (let source = \<lparr>entry_id = es_id summary, entry_location = es_location summary\<rparr> in
     w\<lparr>cw_followed := (if es_kind summary = Directory \<and> \<not> followed \<and> cx_symlink_policy cx = CopyTarget
          then insert (es_id summary) (cw_followed w) else cw_followed w),
       cw_planned := (cw_planned w)(uri (entry_location plan_entry) \<mapsto>
          \<lparr>pc_kind = es_kind summary, pc_destination = destination, pc_source = source,
           pc_is_root = (uri (entry_location plan_entry) = root_uri)\<rparr>),
       cw_items := cw_items w @ [\<lparr>item_entry = plan_entry,
          item_bytes = (case es_size summary of Some n \<Rightarrow> n | None \<Rightarrow> 0)\<rparr>],
       cw_directories := (if es_kind summary = Directory then cw_directories w @ [(source, destination)]
          else cw_directories w)\<rparr>)"

partial_function (option) copy_walk_loop ::
  "exec_env \<Rightarrow> copy_executor \<Rightarrow> string \<Rightarrow> (entry_summary \<times> location) list \<Rightarrow> copy_walk \<Rightarrow> 'x exec_state \<Rightarrow>
   ((execution_error + copy_walk) \<times> 'x exec_state) option" where
  "copy_walk_loop env cx root_uri stack w s =
    (case stack of
       [] \<Rightarrow> Some (Inr w, s)
     | (summary, destination) # stack \<Rightarrow>
         (case bind_x (cancelled_x env) (\<lambda>_. follow_entry cx summary w) s of
            None \<Rightarrow> None
          | Some (Inl e, s) \<Rightarrow> Some (Inl e, s)
          | Some (Inr (None, w), s) \<Rightarrow> copy_walk_loop env cx root_uri stack w s
          | Some (Inr (Some (target, followed), w), s) \<Rightarrow>
              (let w = record_entry cx root_uri \<lparr>entry_id = es_id summary, entry_location = es_location summary\<rparr>
                         target followed destination w in
               if es_kind target = Directory
               then (case push_children env cx (es_location target) destination None stack s of
                       None \<Rightarrow> None
                     | Some (Inl e, s) \<Rightarrow> Some (Inl e, s)
                     | Some (Inr stack, s) \<Rightarrow> copy_walk_loop env cx root_uri stack w s)
               else copy_walk_loop env cx root_uri stack w s)))"

declare copy_walk_loop.simps [code]

definition copy_source :: "copy_executor \<Rightarrow> operation \<Rightarrow> execution_error + location" where
  "copy_source cx op =
    (case cx_source_override cx of
       Some l \<Rightarrow> Inr l
     | None \<Rightarrow> (case op_sources op of e # _ \<Rightarrow> Inr (entry_location e) | [] \<Rightarrow> Inl (ExecFailed ''copy source is missing'')))"

definition check_paths :: "exec_env \<Rightarrow> location \<Rightarrow> location \<Rightarrow> (unit, 'x) exec" where
  "check_paths env source destination =
    lift_x (map_err (\<lambda>e. ExecFailed (safety_error_text e)) (validate_paths (xe_lower env) source destination True))"

definition copy_plan :: "exec_env \<Rightarrow> copy_executor \<Rightarrow> operation \<Rightarrow> (operation_plan, copy_local) exec" where
  "copy_plan env cx op =
    bind_x (lift_x (copy_source cx op)) (\<lambda>source.
    bind_x (vfs_x (InspectCall source) (\<lambda>t. pr_inspect (cx_source_provider cx) t source)) (\<lambda>summary.
    bind_x (get_x cl_root_name) (\<lambda>name.
    bind_x (location_x (location_join (xe_uuid_ok env) (cx_destination_directory cx)
              (case name of Some n \<Rightarrow> n | None \<Rightarrow> es_name summary))) (\<lambda>root_destination.
    bind_x (if provider_id source = provider_id root_destination then check_paths env source root_destination
            else return_x ()) (\<lambda>_.
    bind_x (copy_walk_loop env cx (uri source) [(summary, root_destination)]
              \<lparr>cw_items = [], cw_planned = Map.empty, cw_directories = [], cw_followed = {}\<rparr>) (\<lambda>w.
    bind_x (modify_x (\<lambda>c. c\<lparr>cl_planned := cw_planned w, cl_directories := cw_directories w\<rparr>)) (\<lambda>_.
    return_x (operation_plan_new (cw_items w)))))))))"

text \<open>Renaming on a conflict.\<close>

definition rebase_location :: "location \<Rightarrow> location \<Rightarrow> location \<Rightarrow> location" where
  "rebase_location old_root new_root l =
    (case strip_prefix (uri old_root) (uri l) of
       Some suffix \<Rightarrow> location_new (provider_id l) (uri new_root @ suffix)
     | None \<Rightarrow> l)"

definition rebase_planned_destinations :: "location \<Rightarrow> location \<Rightarrow> copy_local \<Rightarrow> copy_local" where
  "rebase_planned_destinations old_root new_root c =
    c\<lparr>cl_planned := (\<lambda>u. map_option (\<lambda>pc. pc\<lparr>pc_destination := rebase_location old_root new_root (pc_destination pc)\<rparr>) (cl_planned c u)),
      cl_directories := map (\<lambda>(e, d). (e, rebase_location old_root new_root d)) (cl_directories c)\<rparr>"

text \<open>The suffix wraps around at the end of its range, as in a release build.\<close>

partial_function (option) probe_copy_names ::
  "exec_env \<Rightarrow> copy_executor \<Rightarrow> location \<Rightarrow> string \<Rightarrow> u32 \<Rightarrow> 'x exec_state \<Rightarrow>
   ((execution_error + location) \<times> 'x exec_state) option" where
  "probe_copy_names env cx parent n suffix s =
    (case location_join (xe_uuid_ok env) parent (copy_name n suffix) of
       Inl e \<Rightarrow> Some (Inl (ExecFailed (location_error_text e)), s)
     | Inr candidate \<Rightarrow>
         (case call_x (outcome (InspectCall candidate)) (\<lambda>t. pr_inspect (cx_destination_provider cx) t candidate) s of
            None \<Rightarrow> None
          | Some (Inl e, s) \<Rightarrow> Some (Inl e, s)
          | Some (Inr (Inl (VfsNotFound _)), s) \<Rightarrow> Some (Inr candidate, s)
          | Some (Inr (Inr _), s) \<Rightarrow> probe_copy_names env cx parent n (suffix + 1) s
          | Some (Inr (Inl e), s) \<Rightarrow> Some (Inl (Provider e), s)))"

declare probe_copy_names.simps [code]

definition parent_x :: "exec_env \<Rightarrow> location \<Rightarrow> (location, 'x) exec" where
  "parent_x env l = bind_x (location_x (location_parent (xe_uuid_ok env) l)) (\<lambda>p.
     lift_x (ok_or (ExecFailed ''copy destination has no parent'') p))"

definition name_x :: "exec_env \<Rightarrow> location \<Rightarrow> (string, 'x) exec" where
  "name_x env l = location_x (location_name (xe_uuid_ok env) l)"

definition next_copy_destination :: "exec_env \<Rightarrow> copy_executor \<Rightarrow> location \<Rightarrow> (location, 'x) exec" where
  "next_copy_destination env cx original =
    bind_x (parent_x env original) (\<lambda>parent. bind_x (name_x env original) (\<lambda>n. probe_copy_names env cx parent n 1))"

text \<open>Streaming.\<close>

definition select_x :: "exec_env \<Rightarrow> (unit, 'x) exec" where
  "select_x env = bind_x (ask_x (xe_select env)) (\<lambda>c. if c then throw_x (Provider VfsCancelled) else return_x ())"

definition read_x :: "transfer_provider \<Rightarrow> (string, 'x) exec" where
  "read_x pr = bind_x (call_x (\<lambda>r. (ReadCall (case r of Inr chunk \<Rightarrow> chunk | Inl _ \<Rightarrow> []), is_ok r)) (tp_read pr))
     (\<lambda>r. lift_x (map_err copy_stream_error r))"

definition write_x :: "exec_env \<Rightarrow> transfer_provider \<Rightarrow> string \<Rightarrow> (unit, 'x) exec" where
  "write_x env pr chunk = bind_x (call_x (\<lambda>(c, r). (WriteCall chunk, \<not> c \<and> is_ok r)) (\<lambda>t. (xe_select env t, tp_write_all pr t chunk)))
     (\<lambda>(c, r). if c then throw_x (Provider VfsCancelled) else lift_x (map_err copy_stream_error r))"

partial_function (option) copy_stream ::
  "exec_env \<Rightarrow> copy_executor \<Rightarrow> 'x exec_state \<Rightarrow> ((execution_error + unit) \<times> 'x exec_state) option" where
  "copy_stream env cx s =
    (case bind_x (cancelled_x env) (\<lambda>_. bind_x (select_x env) (\<lambda>_. read_x (cx_source_provider cx))) s of
       None \<Rightarrow> None
     | Some (Inl e, s) \<Rightarrow> Some (Inl e, s)
     | Some (Inr chunk, s) \<Rightarrow>
         if chunk = [] then Some (Inr (), s)
         else (case write_x env (cx_destination_provider cx) chunk s of
                 None \<Rightarrow> None
               | Some (Inl e, s) \<Rightarrow> Some (Inl e, s)
               | Some (Inr _, s) \<Rightarrow> copy_stream env cx s))"

declare copy_stream.simps [code]

definition direct_stream :: "exec_env \<Rightarrow> copy_executor \<Rightarrow> location \<Rightarrow> location \<Rightarrow> (unit, 'x) exec" where
  "direct_stream env cx source temporary =
    bind_x (vfs_x (OpenReadCall source) (\<lambda>t. tp_open_read (cx_source_provider cx) t source)) (\<lambda>_.
    bind_x (vfs_x (OpenWriteCall temporary) (\<lambda>t. tp_open_write (cx_destination_provider cx) t temporary)) (\<lambda>_.
    bind_x (attempt_x (copy_stream env cx)) (\<lambda>transferred.
    bind_x (call_x (outcome ShutdownCall) (tp_shutdown (cx_destination_provider cx))) (\<lambda>shutdown.
    bind_x (lift_x transferred) (\<lambda>_. lift_x (map_err copy_stream_error shutdown))))))"

definition clone_x :: "copy_executor \<Rightarrow> location \<Rightarrow> location \<Rightarrow> (bool, 'x) exec" where
  "clone_x cx source temporary =
    (if tr_strategy (cx_transfer cx) = ServerSideCopy
     then bind_x (call_x (\<lambda>r. (ServerSideCopyCall source temporary, r = Inr True))
              (\<lambda>t. tp_server_side_copy (cx_source_provider cx) t source temporary)) (\<lambda>r. lift_x (map_err Provider r))
     else return_x False)"

text \<open>Publishing the temporary.\<close>

definition keeps_metadata :: "copy_executor \<Rightarrow> location \<Rightarrow> (bool, 'x) exec" where
  "keeps_metadata cx l =
    (if tr_same_endpoint (cx_transfer cx)
     then bind_x (question_x (\<lambda>t. tp_capabilities_for (cx_destination_provider cx) t l)) (\<lambda>caps.
       return_x (CapSetTimestamps \<in> caps))
     else return_x False)"

definition discovered_conflict :: "exec_env \<Rightarrow> copy_executor \<Rightarrow> location \<Rightarrow> location \<Rightarrow> location \<Rightarrow> (unit, copy_local) exec" where
  "discovered_conflict env cx source temporary destination =
    bind_x (vfs_x (DiscardCall temporary) (\<lambda>t. tp_discard_copy (cx_destination_provider cx) t temporary)) (\<lambda>_.
    bind_x (modify_x (\<lambda>c. c\<lparr>cl_temporary := None\<rparr>)) (\<lambda>_.
    bind_x (vfs_x (InspectCall source) (\<lambda>t. pr_inspect (cx_source_provider cx) t source)) (\<lambda>a.
    bind_x (vfs_x (InspectCall destination) (\<lambda>t. pr_inspect (cx_destination_provider cx) t destination)) (\<lambda>b.
    if es_kind a \<noteq> es_kind b then throw_x (ExecFailed ''a file and directory cannot replace one another'')
    else conflict_error env a b))))"

partial_function (option) commit_loop ::
  "exec_env \<Rightarrow> copy_executor \<Rightarrow> conflict_resolution option \<Rightarrow> location \<Rightarrow> location \<Rightarrow> location \<Rightarrow> location \<Rightarrow> location \<Rightarrow> u32 \<Rightarrow>
   copy_local exec_state \<Rightarrow> ((execution_error + unit) \<times> copy_local exec_state) option" where
  "commit_loop env cx effective source temporary directory final_destination destination suffix s =
    (case bind_x (keeps_metadata cx destination) (\<lambda>keep.
        call_x (outcome (CommitCall source temporary destination (effective = Some Overwrite) keep))
          (\<lambda>t. tp_commit_copy (cx_destination_provider cx) t source temporary destination (effective = Some Overwrite) keep)) s of
       None \<Rightarrow> None
     | Some (Inl e, s) \<Rightarrow> Some (Inl e, s)
     | Some (Inr (Inr _), s) \<Rightarrow> Some (Inr (), s)
     | Some (Inr (Inl e), s) \<Rightarrow>
         (case e of
            VfsAlreadyExists _ \<Rightarrow>
              if effective = Some RenameNew
              then (case bind_x (name_x env final_destination) (\<lambda>n.
                        location_x (location_join (xe_uuid_ok env) directory (copy_name n suffix))) s of
                      None \<Rightarrow> None
                    | Some (Inl e, s) \<Rightarrow> Some (Inl e, s)
                    | Some (Inr d, s) \<Rightarrow>
                        commit_loop env cx effective source temporary directory final_destination d
                          (if suffix = -1 then suffix else suffix + 1) s)
              else if effective = None then discovered_conflict env cx source temporary destination s
              else Some (Inl (Provider e), s)
          | _ \<Rightarrow> Some (Inl (Provider e), s)))"

declare commit_loop.simps [code]

definition copy_file ::
  "exec_env \<Rightarrow> copy_executor \<Rightarrow> conflict_policy \<Rightarrow> location \<Rightarrow> location \<Rightarrow> conflict_resolution option \<Rightarrow>
   (execution_outcome, copy_local) exec" where
  "copy_file env cx policy source final_destination resolution =
    bind_x (parent_x env final_destination) (\<lambda>directory.
    bind_x (ask_x (xe_uuid env)) (\<lambda>fresh.
    bind_x (location_x (location_join (xe_uuid_ok env) (cx_destination_directory cx) (''.fm-copy-'' @ fresh))) (\<lambda>temporary.
    bind_x (modify_x (\<lambda>c. c\<lparr>cl_temporary := Some temporary\<rparr>)) (\<lambda>_.
    bind_x (clone_x cx source temporary) (\<lambda>cloned.
    bind_x (if cloned then return_x () else direct_stream env cx source temporary) (\<lambda>_.
    bind_x (cancelled_x env) (\<lambda>_.
    bind_x (commit_loop env cx (effective_resolution policy resolution) source temporary directory
              final_destination final_destination 1) (\<lambda>_.
    bind_x (modify_x (\<lambda>c. c\<lparr>cl_temporary := None\<rparr>)) (\<lambda>_.
    return_x OutcomeCompleted)))))))))"

text \<open>What an entry that exists at the destination leads to: \<open>None\<close> when the item is skipped, otherwise the
  entry with its final destination, and whether an existing directory is reused.\<close>

definition settle_destination ::
  "exec_env \<Rightarrow> copy_executor \<Rightarrow> conflict_resolution option \<Rightarrow> planned_copy_entry \<Rightarrow>
   ((planned_copy_entry \<times> bool) option, copy_local) exec" where
  "settle_destination env cx effective planned =
    bind_x (call_x (outcome (InspectCall (pc_destination planned)))
              (\<lambda>t. pr_inspect (cx_destination_provider cx) t (pc_destination planned))) (\<lambda>found.
    (case found of
       Inl _ \<Rightarrow> return_x (Some (planned, False))
     | Inr existing \<Rightarrow>
         bind_x (vfs_x (InspectCall (entry_location (pc_source planned)))
                   (\<lambda>t. pr_inspect (cx_source_provider cx) t (entry_location (pc_source planned)))) (\<lambda>source.
         if es_kind source \<noteq> es_kind existing
         then throw_x (ExecFailed ''a file and directory cannot replace one another'')
         else (case effective of
                 None \<Rightarrow> conflict_error env source existing
               | Some Skip \<Rightarrow> return_x None
               | Some Overwrite \<Rightarrow>
                   (let reuse = (pc_kind planned = Directory) in
                    bind_x (if pc_kind planned \<noteq> File \<and> \<not> reuse
                            then vfs_x (RemoveCall (pc_destination planned) (pc_kind planned = Directory))
                              (\<lambda>t. tp_remove (cx_destination_provider cx) t (pc_destination planned) (pc_kind planned = Directory))
                            else return_x ()) (\<lambda>_. return_x (Some (planned, reuse))))
               | Some RenameNew \<Rightarrow>
                   bind_x (next_copy_destination env cx (pc_destination planned)) (\<lambda>renamed.
                   bind_x (if pc_is_root planned \<and> pc_kind planned = Directory
                           then modify_x (rebase_planned_destinations (pc_destination planned) renamed)
                           else return_x ()) (\<lambda>_.
                   return_x (Some (planned\<lparr>pc_destination := renamed\<rparr>, False))))))))"

text \<open>The parent and the name of a directory to be made; errors here end \<open>execute\<close> at once.\<close>

definition directory_target :: "exec_env \<Rightarrow> planned_copy_entry \<Rightarrow> bool \<Rightarrow> ((location \<times> string) option, 'x) exec" where
  "directory_target env planned reuse =
    (if \<not> reuse \<and> pc_kind planned = Directory
     then bind_x (parent_x env (pc_destination planned)) (\<lambda>parent.
          bind_x (name_x env (pc_destination planned)) (\<lambda>n. return_x (Some (parent, n))))
     else return_x None)"

definition copy_entry ::
  "exec_env \<Rightarrow> copy_executor \<Rightarrow> conflict_policy \<Rightarrow> plan_item \<Rightarrow> conflict_resolution option \<Rightarrow> planned_copy_entry \<Rightarrow> bool \<Rightarrow>
   (location \<times> string) option \<Rightarrow> (execution_outcome, copy_local) exec" where
  "copy_entry env cx policy item resolution planned reuse target =
    (if reuse then return_x OutcomeCompleted
     else case target of
       Some (parent, n) \<Rightarrow>
         bind_x (vfs_x (CreateDirectoryCall parent n) (\<lambda>t. tp_create_directory (cx_destination_provider cx) t parent n)) (\<lambda>_.
         return_x OutcomeCompleted)
     | None \<Rightarrow>
         if pc_kind planned = Symlink
         then bind_x (vfs_x (CopySymlinkCall (entry_location (item_entry item)) (pc_destination planned))
                   (\<lambda>t. tp_copy_symlink (cx_destination_provider cx) t (entry_location (item_entry item)) (pc_destination planned))) (\<lambda>_.
              return_x OutcomeCompleted)
         else copy_file env cx policy (entry_location (pc_source planned)) (pc_destination planned) resolution)"

definition soften :: "copy_executor \<Rightarrow> plan_item \<Rightarrow> planned_copy_entry \<Rightarrow> execution_error + 'a \<Rightarrow> execution_error + 'a" where
  "soften cx item planned result =
    (case result of
       Inl e \<Rightarrow> if cx_continue_on_error cx \<and> \<not> pc_is_root planned then Inl (Warning (item_entry item) (execution_error_text e)) else Inl e
     | Inr a \<Rightarrow> Inr a)"

definition copy_execute ::
  "exec_env \<Rightarrow> copy_executor \<Rightarrow> operation \<Rightarrow> plan_item \<Rightarrow> conflict_resolution option \<Rightarrow> (execution_outcome, copy_local) exec" where
  "copy_execute env cx op item resolution =
    bind_x (get_x (\<lambda>c. cl_planned c (uri (entry_location (item_entry item))))) (\<lambda>found.
    bind_x (lift_x (ok_or (ExecFailed ''copy plan entry is missing'') found)) (\<lambda>planned.
    bind_x (settle_destination env cx (effective_resolution (op_conflict_policy op) resolution) planned) (\<lambda>settled.
    (case settled of
       None \<Rightarrow> return_x OutcomeSkipped
     | Some (planned, reuse) \<Rightarrow>
         bind_x (directory_target env planned reuse) (\<lambda>target.
         bind_x (attempt_x (copy_entry env cx (op_conflict_policy op) item resolution planned reuse target)) (\<lambda>result.
         bind_x (if is_ok result \<and> pc_is_root planned
                 then modify_x (\<lambda>c. c\<lparr>cl_completed_root := Some (pc_destination planned)\<rparr>) else return_x ()) (\<lambda>_.
         lift_x (soften cx item planned result))))))))"

definition copy_cleanup_partial :: "copy_executor \<Rightarrow> (unit, copy_local) exec" where
  "copy_cleanup_partial cx =
    bind_x (get_x cl_temporary) (\<lambda>temporary.
    bind_x (modify_x (\<lambda>c. c\<lparr>cl_temporary := None\<rparr>)) (\<lambda>_.
    (case temporary of
       Some t \<Rightarrow> vfs_x (DiscardCall t) (\<lambda>tick. tp_discard_copy (cx_destination_provider cx) tick t)
     | None \<Rightarrow> return_x ())))"

fun for_each_x :: "('b \<Rightarrow> (unit, 'x) exec) \<Rightarrow> 'b list \<Rightarrow> (unit, 'x) exec" where
  "for_each_x f [] = return_x ()"
| "for_each_x f (b # bs) = bind_x (f b) (\<lambda>_. for_each_x f bs)"

definition copy_finish :: "copy_executor \<Rightarrow> (unit, copy_local) exec" where
  "copy_finish cx =
    bind_x (get_x cl_directories) (\<lambda>directories.
    for_each_x (\<lambda>(source, destination).
      bind_x (keeps_metadata cx destination) (\<lambda>keep.
        if keep then vfs_x (PreserveMetadataCall (entry_location source) destination)
          (\<lambda>t. tp_preserve_metadata (cx_destination_provider cx) t (entry_location source) destination)
        else return_x ())) (rev directories))"

fun copy_perform :: "exec_env \<Rightarrow> copy_executor \<Rightarrow> executor_request \<Rightarrow> (executor_reply, copy_local) exec" where
  "copy_perform env cx (PlanRequest op) = reply_x PlanReply (copy_plan env cx op)"
| "copy_perform env cx (ExecuteRequest op item resolution) = reply_x OutcomeReply (copy_execute env cx op item resolution)"
| "copy_perform env cx (CleanupRequest op) = reply_x (\<lambda>_. DoneReply) (copy_cleanup_partial cx)"
| "copy_perform env cx (FinishRequest op) = reply_x (\<lambda>_. DoneReply) (copy_finish cx)"

section \<open>Moving\<close>

record move_executor =
  mx_source :: location
  mx_source_provider :: transfer_provider
  mx_destination_provider :: transfer_provider
  mx_destination_directory :: location
  mx_copy :: copy_executor
  mx_force_fallback :: bool
  mx_transfer :: transfer_plan

record move_local =
  ml_fallback :: bool
  ml_copy :: copy_local

definition move_local_new :: move_local where
  "move_local_new = \<lparr>ml_fallback = False, ml_copy = copy_local_new\<rparr>"

definition in_copy :: "('a, copy_local) exec \<Rightarrow> ('a, move_local) exec" where
  "in_copy = within_x ml_copy (\<lambda>c m. m\<lparr>ml_copy := c\<rparr>)"

definition move_plan :: "exec_env \<Rightarrow> move_executor \<Rightarrow> operation \<Rightarrow> (operation_plan, move_local) exec" where
  "move_plan env mx op =
    bind_x (name_x env (mx_source mx)) (\<lambda>n.
    bind_x (location_x (location_join (xe_uuid_ok env) (mx_destination_directory mx) n)) (\<lambda>destination.
    bind_x (check_paths env (mx_source mx) destination) (\<lambda>_.
    bind_x (if \<not> mx_force_fallback mx \<and> tr_move_strategy (mx_transfer mx) = ServerSideMove
            then question_x (\<lambda>t. tp_same_filesystem (mx_source_provider mx) t (mx_source mx) (mx_destination_directory mx))
            else return_x False) (\<lambda>same_filesystem.
    bind_x (modify_x (\<lambda>m. m\<lparr>ml_fallback := \<not> same_filesystem\<rparr>)) (\<lambda>_.
    if same_filesystem
    then bind_x (ask_x (xe_fresh env)) (\<lambda>new_id.
         return_x (operation_plan_new [\<lparr>item_entry = \<lparr>entry_id = new_id, entry_location = mx_source mx\<rparr>, item_bytes = 0\<rparr>]))
    else in_copy (copy_plan env (mx_copy mx) op))))))"

text \<open>The destination of a rename after an entry was found there: \<open>None\<close> when the item is skipped.\<close>

definition settle_rename ::
  "exec_env \<Rightarrow> move_executor \<Rightarrow> conflict_resolution option \<Rightarrow> location \<Rightarrow> location \<Rightarrow> (location option, move_local) exec" where
  "settle_rename env mx effective source destination =
    bind_x (call_x (outcome (InspectCall destination)) (\<lambda>t. pr_inspect (mx_destination_provider mx) t destination)) (\<lambda>found.
    (case found of
       Inl _ \<Rightarrow> return_x (Some destination)
     | Inr existing \<Rightarrow>
         bind_x (vfs_x (InspectCall source) (\<lambda>t. pr_inspect (mx_source_provider mx) t source)) (\<lambda>src.
         if es_kind src \<noteq> es_kind existing
         then throw_x (ExecFailed ''a file and directory cannot replace one another'')
         else (case effective of
                 None \<Rightarrow> conflict_error env src existing
               | Some Skip \<Rightarrow> return_x None
               | Some Overwrite \<Rightarrow>
                   bind_x (vfs_x (RemoveCall destination (es_kind existing = Directory))
                     (\<lambda>t. tp_remove (mx_destination_provider mx) t destination (es_kind existing = Directory))) (\<lambda>_.
                   return_x (Some destination))
               | Some RenameNew \<Rightarrow>
                   bind_x (next_copy_destination env (mx_copy mx) destination) (\<lambda>d. return_x (Some d))))))"

definition move_execute ::
  "exec_env \<Rightarrow> move_executor \<Rightarrow> operation \<Rightarrow> plan_item \<Rightarrow> conflict_resolution option \<Rightarrow> (execution_outcome, move_local) exec" where
  "move_execute env mx op item resolution =
    bind_x (get_x ml_fallback) (\<lambda>fallback.
    if fallback then in_copy (copy_execute env (mx_copy mx) op item resolution)
    else
      bind_x (name_x env (entry_location (item_entry item))) (\<lambda>n.
      bind_x (location_x (location_join (xe_uuid_ok env) (mx_destination_directory mx) n)) (\<lambda>destination.
      bind_x (settle_rename env mx (effective_resolution (op_conflict_policy op) resolution)
                (entry_location (item_entry item)) destination) (\<lambda>settled.
      (case settled of
         None \<Rightarrow> return_x OutcomeSkipped
       | Some d \<Rightarrow>
           bind_x (vfs_x (RenameCall (entry_location (item_entry item)) d)
             (\<lambda>t. tp_rename (mx_source_provider mx) t (entry_location (item_entry item)) d)) (\<lambda>_.
           return_x OutcomeCompleted))))))"

definition move_cleanup_partial :: "move_executor \<Rightarrow> (unit, move_local) exec" where
  "move_cleanup_partial mx = in_copy (copy_cleanup_partial (mx_copy mx))"

definition move_finish :: "exec_env \<Rightarrow> move_executor \<Rightarrow> (unit, move_local) exec" where
  "move_finish env mx =
    bind_x (get_x ml_fallback) (\<lambda>fallback.
    if \<not> fallback then return_x ()
    else
      bind_x (in_copy (copy_finish (mx_copy mx))) (\<lambda>_.
      bind_x (ask_x (xe_cancelled env)) (\<lambda>cancelled.
      if cancelled then return_x ()
      else bind_x (get_x (\<lambda>m. cl_completed_root (ml_copy m))) (\<lambda>completed.
      (case completed of
         None \<Rightarrow> return_x ()
       | Some destination \<Rightarrow>
           bind_x (vfs_x (InspectCall destination) (\<lambda>t. pr_inspect (mx_destination_provider mx) t destination)) (\<lambda>_.
           vfs_x (RemoveCall (mx_source mx) True) (\<lambda>t. tp_remove (mx_source_provider mx) t (mx_source mx) True)))))))"

fun move_perform :: "exec_env \<Rightarrow> move_executor \<Rightarrow> executor_request \<Rightarrow> (executor_reply, move_local) exec" where
  "move_perform env mx (PlanRequest op) = reply_x PlanReply (move_plan env mx op)"
| "move_perform env mx (ExecuteRequest op item resolution) = reply_x OutcomeReply (move_execute env mx op item resolution)"
| "move_perform env mx (CleanupRequest op) = reply_x (\<lambda>_. DoneReply) (move_cleanup_partial mx)"
| "move_perform env mx (FinishRequest op) = reply_x (\<lambda>_. DoneReply) (move_finish env mx)"

end
