(* ===== verification/File_Operations.thy ===== *)
theory File_Operations
  imports Copy_Move
begin

text \<open>
  The remaining executors of \<open>operation_planner.rs\<close> in \<open>src/crates/fm-application/src\<close>: groups of copies and
  of moves, duplicates, deletion, trash, renaming and creation. A group keeps the fields of its members in a
  list; both kinds of groups share their definitions, as their code differs only in the member they call.
\<close>

section \<open>Groups\<close>

record 'm group_local =
  gl_members :: "'m list"
  gl_stale :: "string \<rightharpoonup> entry_ref"

definition member_x :: "nat \<Rightarrow> ('a, 'm) exec \<Rightarrow> ('a, 'm group_local) exec" where
  "member_x i = within_x (\<lambda>g. gl_members g ! i) (\<lambda>c g. g\<lparr>gl_members := (gl_members g)[i := c]\<rparr>)"

text \<open>A member whose source is gone becomes an item that will be skipped with a warning.\<close>

fun group_plan ::
  "exec_env \<Rightarrow> ('c \<Rightarrow> (operation_plan, 'm) exec) \<Rightarrow> ('c \<Rightarrow> execution_error + location) \<Rightarrow> nat \<Rightarrow> 'c list \<Rightarrow>
   (plan_item list, 'm group_local) exec" where
  "group_plan env plan source i [] = return_x []"
| "group_plan env plan source i (c # cs) =
    bind_x (attempt_x (member_x i (plan c))) (\<lambda>r.
    bind_x
      (case r of
         Inr p \<Rightarrow> return_x (plan_items p)
       | Inl (Provider (VfsNotFound _)) \<Rightarrow>
           bind_x (lift_x (source c)) (\<lambda>l.
           bind_x (ask_x (xe_fresh env)) (\<lambda>new_id.
           bind_x (modify_x (\<lambda>g. g\<lparr>gl_stale := (gl_stale g)(uri l \<mapsto> \<lparr>entry_id = new_id, entry_location = l\<rparr>)\<rparr>)) (\<lambda>_.
           return_x [\<lparr>item_entry = \<lparr>entry_id = new_id, entry_location = l\<rparr>, item_bytes = 0\<rparr>])))
       | Inl e \<Rightarrow> throw_x e) (\<lambda>items.
    bind_x (group_plan env plan source (Suc i) cs) (\<lambda>more_items. return_x (items @ more_items))))"

text \<open>The first member that planned the item executes it.\<close>

fun group_dispatch ::
  "('c \<Rightarrow> 'm \<Rightarrow> bool) \<Rightarrow> ('c \<Rightarrow> ('a, 'm) exec) \<Rightarrow> string \<Rightarrow> nat \<Rightarrow> 'c list \<Rightarrow> ('a, 'm group_local) exec" where
  "group_dispatch owns run missing i [] = throw_x (ExecFailed missing)"
| "group_dispatch owns run missing i (c # cs) =
    bind_x (get_x (\<lambda>g. owns c (gl_members g ! i))) (\<lambda>own.
    if own then member_x i (run c) else group_dispatch owns run missing (Suc i) cs)"

definition group_execute ::
  "('c \<Rightarrow> 'm \<Rightarrow> bool) \<Rightarrow> ('c \<Rightarrow> (execution_outcome, 'm) exec) \<Rightarrow> string \<Rightarrow> 'c list \<Rightarrow> plan_item \<Rightarrow>
   (execution_outcome, 'm group_local) exec" where
  "group_execute owns run missing cs item =
    bind_x (get_x (\<lambda>g. gl_stale g (uri (entry_location (item_entry item))) \<noteq> None)) (\<lambda>stale.
    if stale then throw_x (Warning (item_entry item) ''Source no longer exists; skipped.'')
    else group_dispatch owns run missing 0 cs)"

fun group_each :: "('c \<Rightarrow> (unit, 'm) exec) \<Rightarrow> nat \<Rightarrow> 'c list \<Rightarrow> (unit, 'm group_local) exec" where
  "group_each run i [] = return_x ()"
| "group_each run i (c # cs) = bind_x (member_x i (run c)) (\<lambda>_. group_each run (Suc i) cs)"

definition copy_owns :: "plan_item \<Rightarrow> copy_executor \<Rightarrow> copy_local \<Rightarrow> bool" where
  "copy_owns item cx c \<longleftrightarrow> cl_planned c (uri (entry_location (item_entry item))) \<noteq> None"

definition copy_group_plan :: "exec_env \<Rightarrow> copy_executor list \<Rightarrow> operation \<Rightarrow> (operation_plan, copy_local group_local) exec" where
  "copy_group_plan env cxs op =
    reply_x operation_plan_new (group_plan env (\<lambda>cx. copy_plan env cx op)
      (\<lambda>cx. ok_or (ExecFailed ''copy source is missing from its plan'') (cx_source_override cx)) 0 cxs)"

definition copy_group_execute ::
  "exec_env \<Rightarrow> copy_executor list \<Rightarrow> operation \<Rightarrow> plan_item \<Rightarrow> conflict_resolution option \<Rightarrow>
   (execution_outcome, copy_local group_local) exec" where
  "copy_group_execute env cxs op item resolution =
    group_execute (copy_owns item) (\<lambda>cx. copy_execute env cx op item resolution) ''copy plan entry is missing'' cxs item"

definition copy_group_cleanup_partial :: "copy_executor list \<Rightarrow> (unit, copy_local group_local) exec" where
  "copy_group_cleanup_partial = group_each copy_cleanup_partial 0"

definition copy_group_finish :: "copy_executor list \<Rightarrow> (unit, copy_local group_local) exec" where
  "copy_group_finish = group_each copy_finish 0"

definition move_owns :: "plan_item \<Rightarrow> move_executor \<Rightarrow> move_local \<Rightarrow> bool" where
  "move_owns item mx m \<longleftrightarrow> entry_location (item_entry item) = mx_source mx \<or> copy_owns item (mx_copy mx) (ml_copy m)"

definition move_group_plan :: "exec_env \<Rightarrow> move_executor list \<Rightarrow> operation \<Rightarrow> (operation_plan, move_local group_local) exec" where
  "move_group_plan env mxs op =
    reply_x operation_plan_new (group_plan env (\<lambda>mx. move_plan env mx op) (\<lambda>mx. Inr (mx_source mx)) 0 mxs)"

definition move_group_execute ::
  "exec_env \<Rightarrow> move_executor list \<Rightarrow> operation \<Rightarrow> plan_item \<Rightarrow> conflict_resolution option \<Rightarrow>
   (execution_outcome, move_local group_local) exec" where
  "move_group_execute env mxs op item resolution =
    group_execute (move_owns item) (\<lambda>mx. move_execute env mx op item resolution) ''move plan entry is missing'' mxs item"

definition move_group_cleanup_partial :: "move_executor list \<Rightarrow> (unit, move_local group_local) exec" where
  "move_group_cleanup_partial = group_each move_cleanup_partial 0"

definition move_group_finish :: "exec_env \<Rightarrow> move_executor list \<Rightarrow> (unit, move_local group_local) exec" where
  "move_group_finish env = group_each (move_finish env) 0"

section \<open>Duplicates\<close>

text \<open>The first free duplicate name; the index stays at the end of its range.\<close>

partial_function (option) probe_duplicate_names ::
  "exec_env \<Rightarrow> copy_executor \<Rightarrow> string \<Rightarrow> u32 \<Rightarrow> 'x exec_state \<Rightarrow> ((execution_error + string) \<times> 'x exec_state) option" where
  "probe_duplicate_names env cx n index s =
    (case location_join (xe_uuid_ok env) (cx_destination_directory cx) (duplicate_name n index) of
       Inl e \<Rightarrow> Some (Inl (ExecFailed (location_error_text e)), s)
     | Inr candidate \<Rightarrow>
         (case call_x (outcome (InspectCall candidate)) (\<lambda>t. pr_inspect (cx_destination_provider cx) t candidate) s of
            None \<Rightarrow> None
          | Some (Inl e, s) \<Rightarrow> Some (Inl e, s)
          | Some (Inr (Inl (VfsNotFound _)), s) \<Rightarrow> Some (Inr (duplicate_name n index), s)
          | Some (Inr (Inr _), s) \<Rightarrow> probe_duplicate_names env cx n (if index = -1 then index else index + 1) s
          | Some (Inr (Inl e), s) \<Rightarrow> Some (Inl (Provider e), s)))"

declare probe_duplicate_names.simps [code]

definition duplicate_one :: "exec_env \<Rightarrow> operation \<Rightarrow> copy_executor \<Rightarrow> (operation_plan, copy_local) exec" where
  "duplicate_one env op cx =
    bind_x (lift_x (ok_or (ExecFailed ''duplicate source is missing'') (cx_source_override cx))) (\<lambda>source.
    bind_x (name_x env source) (\<lambda>n.
    bind_x (probe_duplicate_names env cx n 1) (\<lambda>candidate.
    bind_x (modify_x (\<lambda>c. c\<lparr>cl_root_name := Some candidate\<rparr>)) (\<lambda>_.
    copy_plan env cx op))))"

fun duplicate_all ::
  "exec_env \<Rightarrow> operation \<Rightarrow> nat \<Rightarrow> copy_executor list \<Rightarrow> (plan_item list, copy_local group_local) exec" where
  "duplicate_all env op i [] = return_x []"
| "duplicate_all env op i (cx # cxs) =
    bind_x (member_x i (duplicate_one env op cx)) (\<lambda>p.
    bind_x (duplicate_all env op (Suc i) cxs) (\<lambda>items. return_x (plan_items p @ items)))"

definition duplicate_plan :: "exec_env \<Rightarrow> copy_executor list \<Rightarrow> operation \<Rightarrow> (operation_plan, copy_local group_local) exec" where
  "duplicate_plan env cxs op = reply_x operation_plan_new (duplicate_all env op 0 cxs)"

definition duplicate_execute ::
  "exec_env \<Rightarrow> copy_executor list \<Rightarrow> operation \<Rightarrow> plan_item \<Rightarrow> conflict_resolution option \<Rightarrow>
   (execution_outcome, copy_local group_local) exec" where
  "duplicate_execute env cxs op item resolution =
    group_dispatch (copy_owns item) (\<lambda>cx. copy_execute env cx op item resolution) ''duplicate plan entry is missing'' 0 cxs"

definition duplicate_cleanup_partial :: "copy_executor list \<Rightarrow> (unit, copy_local group_local) exec" where
  "duplicate_cleanup_partial = group_each copy_cleanup_partial 0"

definition duplicate_finish :: "copy_executor list \<Rightarrow> (unit, copy_local group_local) exec" where
  "duplicate_finish = group_each copy_finish 0"

section \<open>Deletion\<close>

record delete_executor =
  dx_providers :: "string \<rightharpoonup> transfer_provider"
  dx_override_read_only :: bool
  dx_requires_confirmation :: bool

text \<open>The audit log is the list of records appended: the operation, the sources and the number of entries
  deleted.\<close>

record audit_record =
  au_operation :: op_id
  au_sources :: "string list"
  au_deleted :: u64

record delete_local =
  dl_deleted :: u64
  dl_audited :: bool
  dl_audit_log :: "audit_record list"

definition delete_local_new :: delete_local where
  "delete_local_new = \<lparr>dl_deleted = 0, dl_audited = False, dl_audit_log = []\<rparr>"

text \<open>\<open>audit_io t\<close> says whether the record could be appended (directories made, file opened and written).\<close>

definition write_audit :: "(nat \<Rightarrow> string + unit) \<Rightarrow> operation \<Rightarrow> (unit, delete_local) exec" where
  "write_audit audit_io op =
    bind_x (get_x dl_audited) (\<lambda>audited.
    if audited then return_x ()
    else bind_x (ask_x audit_io) (\<lambda>r.
         bind_x (lift_x (map_err copy_stream_error r)) (\<lambda>_.
         modify_x (\<lambda>c. c\<lparr>dl_audited := True, dl_audit_log := dl_audit_log c
           @ [\<lparr>au_operation = op_id op, au_sources = map (\<lambda>e. uri (entry_location e)) (op_sources op), au_deleted = dl_deleted c\<rparr>]\<rparr>))))"

partial_function (option) push_entries ::
  "transfer_provider \<Rightarrow> location \<Rightarrow> string option \<Rightarrow> (entry_summary \<times> bool) list \<Rightarrow> 'x exec_state \<Rightarrow>
   ((execution_error + (entry_summary \<times> bool) list) \<times> 'x exec_state) option" where
  "push_entries pr l token stack s =
    (case question_x (\<lambda>t. pr_list pr t l token) s of
       None \<Rightarrow> None
     | Some (Inl e, s) \<Rightarrow> Some (Inl e, s)
     | Some (Inr page, s) \<Rightarrow>
         (let stack = map (\<lambda>e. (e, False)) (dp_entries page) @ stack in
          if dp_has_more page then push_entries pr l (dp_token page) stack s else Some (Inr stack, s)))"

declare push_entries.simps [code]

partial_function (option) delete_walk ::
  "exec_env \<Rightarrow> delete_executor \<Rightarrow> transfer_provider \<Rightarrow> (entry_summary \<times> bool) list \<Rightarrow> plan_item list \<Rightarrow> 'x exec_state \<Rightarrow>
   ((execution_error + plan_item list) \<times> 'x exec_state) option" where
  "delete_walk env dx pr stack items s =
    (case stack of
       [] \<Rightarrow> Some (Inr items, s)
     | (summary, seen) # stack \<Rightarrow>
         (case cancelled_x env s of
            None \<Rightarrow> None
          | Some (Inl e, s) \<Rightarrow> Some (Inl e, s)
          | Some (Inr _, s) \<Rightarrow>
              if es_read_only summary \<and> \<not> dx_override_read_only dx
              then Some (Inl (ExecFailed (''read-only entry requires explicit override: '' @ uri (es_location summary))), s)
              else if es_kind summary = Directory \<and> \<not> seen
              then (case push_entries pr (es_location summary) None ((summary, True) # stack) s of
                      None \<Rightarrow> None
                    | Some (Inl e, s) \<Rightarrow> Some (Inl e, s)
                    | Some (Inr stack, s) \<Rightarrow> delete_walk env dx pr stack items s)
              else delete_walk env dx pr stack
                (items @ [\<lparr>item_entry = \<lparr>entry_id = es_id summary, entry_location = es_location summary\<rparr>,
                           item_bytes = (case es_size summary of Some n \<Rightarrow> n | None \<Rightarrow> 0)\<rparr>]) s))"

declare delete_walk.simps [code]

definition delete_provider :: "delete_executor \<Rightarrow> location \<Rightarrow> (transfer_provider, 'x) exec" where
  "delete_provider dx l = lift_x (ok_or (ExecFailed ''delete provider is missing'') (dx_providers dx (provider_id l)))"

fun delete_sources :: "exec_env \<Rightarrow> delete_executor \<Rightarrow> entry_ref list \<Rightarrow> plan_item list \<Rightarrow> (plan_item list, 'x) exec" where
  "delete_sources env dx [] items = return_x items"
| "delete_sources env dx (source # sources) items =
    bind_x (delete_provider dx (entry_location source)) (\<lambda>pr.
    bind_x (vfs_x (InspectCall (entry_location source)) (\<lambda>t. pr_inspect pr t (entry_location source))) (\<lambda>summary.
    bind_x (delete_walk env dx pr [(summary, False)] items) (\<lambda>items. delete_sources env dx sources items)))"

definition delete_plan :: "exec_env \<Rightarrow> delete_executor \<Rightarrow> operation \<Rightarrow> (operation_plan, delete_local) exec" where
  "delete_plan env dx op = reply_x operation_plan_new (delete_sources env dx (op_sources op) [])"

definition delete_execute :: "delete_executor \<Rightarrow> plan_item \<Rightarrow> (execution_outcome, delete_local) exec" where
  "delete_execute dx item =
    bind_x (delete_provider dx (entry_location (item_entry item))) (\<lambda>pr.
    bind_x (call_x (outcome (RemoveCall (entry_location (item_entry item)) False))
              (\<lambda>t. tp_remove pr t (entry_location (item_entry item)) False)) (\<lambda>r.
    (case r of
       Inr _ \<Rightarrow> bind_x (modify_x (\<lambda>c. c\<lparr>dl_deleted := dl_deleted c + 1\<rparr>)) (\<lambda>_. return_x OutcomeCompleted)
     | Inl e \<Rightarrow> throw_x (Warning (item_entry item) (vfs_error_text e)))))"

definition delete_cleanup_partial :: "(nat \<Rightarrow> string + unit) \<Rightarrow> operation \<Rightarrow> (unit, delete_local) exec" where
  "delete_cleanup_partial = write_audit"

definition delete_finish :: "(nat \<Rightarrow> string + unit) \<Rightarrow> operation \<Rightarrow> (unit, delete_local) exec" where
  "delete_finish = write_audit"

fun delete_perform ::
  "exec_env \<Rightarrow> (nat \<Rightarrow> string + unit) \<Rightarrow> delete_executor \<Rightarrow> executor_request \<Rightarrow> (executor_reply, delete_local) exec" where
  "delete_perform env audit_io dx (PlanRequest op) = reply_x PlanReply (delete_plan env dx op)"
| "delete_perform env audit_io dx (ExecuteRequest op item resolution) = reply_x OutcomeReply (delete_execute dx item)"
| "delete_perform env audit_io dx (CleanupRequest op) = reply_x (\<lambda>_. DoneReply) (delete_cleanup_partial audit_io op)"
| "delete_perform env audit_io dx (FinishRequest op) = reply_x (\<lambda>_. DoneReply) (delete_finish audit_io op)"

section \<open>Trash, renaming, creation\<close>

definition trash_plan :: "operation \<Rightarrow> (operation_plan, 'x) exec" where
  "trash_plan op = return_x (operation_plan_new (map (\<lambda>e. \<lparr>item_entry = e, item_bytes = 0\<rparr>) (op_sources op)))"

definition trash_execute :: "(nat \<Rightarrow> string \<Rightarrow> string + unit) \<Rightarrow> plan_item \<Rightarrow> (execution_outcome, 'x) exec" where
  "trash_execute trash item =
    bind_x (location_x (to_native_path (entry_location (item_entry item)))) (\<lambda>path.
    bind_x (call_x (outcome (TrashCall path)) (\<lambda>t. trash t path)) (\<lambda>r.
    bind_x (lift_x (map_err (Warning (item_entry item)) r)) (\<lambda>_. return_x OutcomeCompleted)))"

record rename_executor =
  rx_provider :: transfer_provider
  rx_source :: location
  rx_destination :: location

definition rename_plan :: "operation \<Rightarrow> (operation_plan, 'x) exec" where
  "rename_plan op =
    (case op_sources op of
       e # _ \<Rightarrow> return_x (operation_plan_new [\<lparr>item_entry = e, item_bytes = 0\<rparr>])
     | [] \<Rightarrow> throw_x (ExecFailed ''rename source is missing''))"

definition rename_execute :: "rename_executor \<Rightarrow> (execution_outcome, 'x) exec" where
  "rename_execute rx =
    bind_x (vfs_x (RenameCall (rx_source rx) (rx_destination rx)) (\<lambda>t. tp_rename (rx_provider rx) t (rx_source rx) (rx_destination rx))) (\<lambda>_.
    return_x OutcomeCompleted)"

fun rename_group_items :: "exec_env \<Rightarrow> rename_executor list \<Rightarrow> (plan_item list, 'x) exec" where
  "rename_group_items env [] = return_x []"
| "rename_group_items env (rx # rxs) =
    bind_x (ask_x (xe_fresh env)) (\<lambda>new_id.
    bind_x (rename_group_items env rxs) (\<lambda>items.
    return_x (\<lparr>item_entry = \<lparr>entry_id = new_id, entry_location = rx_source rx\<rparr>, item_bytes = 0\<rparr> # items)))"

definition rename_group_plan :: "exec_env \<Rightarrow> rename_executor list \<Rightarrow> (operation_plan, 'x) exec" where
  "rename_group_plan env rxs = reply_x operation_plan_new (rename_group_items env rxs)"

definition rename_group_execute :: "rename_executor list \<Rightarrow> plan_item \<Rightarrow> (execution_outcome, 'x) exec" where
  "rename_group_execute rxs item =
    (case List.find (\<lambda>rx. rx_source rx = entry_location (item_entry item)) rxs of
       Some rx \<Rightarrow> rename_execute rx
     | None \<Rightarrow> throw_x (ExecFailed ''rename plan entry is missing''))"

record create_directory_executor =
  cd_provider :: transfer_provider
  cd_parent :: location
  cd_name :: string
  cd_create_intermediates :: bool

definition parent_item_plan :: "exec_env \<Rightarrow> location \<Rightarrow> (operation_plan, 'x) exec" where
  "parent_item_plan env parent = bind_x (ask_x (xe_fresh env)) (\<lambda>new_id.
     return_x (operation_plan_new [\<lparr>item_entry = \<lparr>entry_id = new_id, entry_location = parent\<rparr>, item_bytes = 0\<rparr>]))"

definition create_directory_plan :: "exec_env \<Rightarrow> create_directory_executor \<Rightarrow> (operation_plan, 'x) exec" where
  "create_directory_plan env cd = parent_item_plan env (cd_parent cd)"

text \<open>\<open>str::split\<close> at slashes and backslashes.\<close>

definition split_separators :: "string \<Rightarrow> string list" where
  "split_separators n = split_on slash (map (\<lambda>c. if c = backslash then slash else c) n)"

fun create_nested :: "transfer_provider \<Rightarrow> location \<Rightarrow> string list \<Rightarrow> (execution_outcome, 'x) exec" where
  "create_nested pr parent [] = return_x OutcomeCompleted"
| "create_nested pr parent (n # ns) =
    bind_x (vfs_x (CreateDirectoryCall parent n) (\<lambda>t. tp_create_directory pr t parent n)) (\<lambda>created. create_nested pr created ns)"

definition create_directory_execute :: "create_directory_executor \<Rightarrow> (execution_outcome, 'x) exec" where
  "create_directory_execute cd =
    create_nested (cd_provider cd) (cd_parent cd) (if cd_create_intermediates cd then split_separators (cd_name cd) else [cd_name cd])"

record create_file_executor =
  cf_provider :: transfer_provider
  cf_parent :: location
  cf_name :: string

definition create_file_plan :: "exec_env \<Rightarrow> create_file_executor \<Rightarrow> (operation_plan, 'x) exec" where
  "create_file_plan env cf = parent_item_plan env (cf_parent cf)"

definition create_file_execute :: "exec_env \<Rightarrow> create_file_executor \<Rightarrow> (execution_outcome, 'x) exec" where
  "create_file_execute env cf =
    bind_x (location_x (location_join (xe_uuid_ok env) (cf_parent cf) (cf_name cf))) (\<lambda>destination.
    bind_x (vfs_x (OpenWriteCall destination) (\<lambda>t. tp_open_write (cf_provider cf) t destination)) (\<lambda>_.
    bind_x (call_x (outcome ShutdownCall) (tp_shutdown (cf_provider cf))) (\<lambda>shutdown.
    bind_x (lift_x (map_err copy_stream_error shutdown)) (\<lambda>_. return_x OutcomeCompleted))))"

section \<open>Archives\<close>

datatype archive_creation_format = Zip | SevenZip

record create_archive_executor =
  ca_destination :: string
  ca_sources :: "string list"
  ca_format :: archive_creation_format
  ca_compression_level :: int
  ca_remove_sources :: bool

definition create_archive_plan :: "exec_env \<Rightarrow> create_archive_executor \<Rightarrow> (operation_plan, 'x) exec" where
  "create_archive_plan env ca =
    bind_x (location_x (from_native_path (xe_uuid_ok env) (ca_destination ca))) (\<lambda>l. parent_item_plan env l)"

text \<open>The codec of \<open>fm-archive\<close> and the native file system are parameters: whether the archive was created
  (a text when its thread died, otherwise the result of the codec), whether a path is a directory, and whether
  removing it succeeded.\<close>

record archive_env =
  ae_create :: "nat \<Rightarrow> create_archive_executor \<Rightarrow> string + (vfs_error + unit)"
  ae_is_dir :: "nat \<Rightarrow> string \<Rightarrow> string + bool"
  ae_remove :: "nat \<Rightarrow> string \<Rightarrow> bool \<Rightarrow> string + unit"

definition remove_archived :: "exec_env \<Rightarrow> archive_env \<Rightarrow> string \<Rightarrow> (unit, 'x) exec" where
  "remove_archived env ae source =
    bind_x (cancelled_x env) (\<lambda>_.
    bind_x (ask_x (\<lambda>t. ae_is_dir ae t source)) (\<lambda>metadata.
    bind_x (lift_x (map_err ExecFailed metadata)) (\<lambda>is_dir.
    bind_x (call_x (outcome (RemovePathCall source is_dir)) (\<lambda>t. ae_remove ae t source is_dir)) (\<lambda>r.
    lift_x (map_err ExecFailed r)))))"

definition create_archive_execute :: "exec_env \<Rightarrow> archive_env \<Rightarrow> create_archive_executor \<Rightarrow> (execution_outcome, 'x) exec" where
  "create_archive_execute env ae ca =
    bind_x (call_x (\<lambda>r. (ArchiveCall (ca_destination ca) (ca_sources ca), r = Inr (Inr ()))) (\<lambda>t. ae_create ae t ca)) (\<lambda>r.
    bind_x (lift_x (map_err ExecFailed r)) (\<lambda>created.
    bind_x (lift_x (map_err Provider created)) (\<lambda>_.
    bind_x (if ca_remove_sources ca then for_each_x (remove_archived env ae) (ca_sources ca) else return_x ()) (\<lambda>_.
    return_x OutcomeCompleted))))"

end
