(* ===== verification/Planner.thy ===== *)
theory Planner
  imports File_Operations
begin

text \<open>
  The operation planner, \<open>OperationPlanner\<close> of \<open>src/crates/fm-application/src/operation_planner.rs\<close>: which
  executor a request leads to, and which requests are refused. The registry maps provider ids to providers; of
  the settings only the confirmation of permanent deletes matters and of the platform only whether it has a
  trash. Capabilities are asked at the time of the request.
\<close>

record operation_planner =
  pl_providers :: "string \<rightharpoonup> transfer_provider"
  pl_platform_trash :: bool
  pl_confirm_permanent_delete :: bool
  pl_force_cross_volume_moves :: bool

datatype request_kind = OperationRequest operation_kind | SearchRequest | CompareRequest

record start_request =
  sr_sources :: "location list"
  sr_destination :: "location option"
  sr_destinations :: "location list"
  sr_name :: "string option"
  sr_archive_format :: "archive_creation_format option"
  sr_archive_compression_level :: "int option"
  sr_create_intermediate_directories :: bool
  sr_symlink_policy :: symlink_policy
  sr_permanent_delete_confirmed :: bool
  sr_override_read_only :: bool

datatype planned_executor =
    ArchivePlanned create_archive_executor
  | DirectoryPlanned create_directory_executor
  | FilePlanned create_file_executor
  | RenamePlanned rename_executor
  | RenamesPlanned "rename_executor list"
  | CopiesPlanned "copy_executor list"
  | MovesPlanned "move_executor list"
  | DuplicatesPlanned "copy_executor list"
  | DeletePlanned delete_executor
  | TrashPlanned

section \<open>Checks\<close>

definition invalid :: "string \<Rightarrow> application_error + 'a" where
  "invalid message = Inl (AppInvalidRequest message)"

definition resolve_provider :: "operation_planner \<Rightarrow> location \<Rightarrow> application_error + transfer_provider" where
  "resolve_provider pl l = map_err app_of_vfs (registry_resolve (pl_providers pl) l)"

definition check_capability :: "nat \<Rightarrow> transfer_provider \<Rightarrow> location \<Rightarrow> provider_capability \<Rightarrow> application_error + unit" where
  "check_capability t pr l c = and_then (map_err app_of_vfs (tp_capabilities_for pr t l)) (\<lambda>caps. map_err app_of_vfs (require caps c))"

definition path_extension :: "string \<Rightarrow> string option" where
  "path_extension p = (case path_file_name p of Some x \<Rightarrow> snd (stem_and_extension x) | None \<Rightarrow> None)"

definition archive_format :: "string \<Rightarrow> archive_creation_format option \<Rightarrow> application_error + archive_creation_format" where
  "archive_format path requested =
    and_then (case path_extension path of
        Some x \<Rightarrow> if eq_ignore_ascii_case x ''zip'' then Inr Zip
          else if eq_ignore_ascii_case x ''7z'' then Inr SevenZip
          else invalid ''archive destination must end in .zip or .7z''
      | None \<Rightarrow> invalid ''archive destination must end in .zip or .7z'') (\<lambda>inferred.
    let chosen = (case requested of Some f \<Rightarrow> f | None \<Rightarrow> inferred) in
    if chosen \<noteq> inferred then invalid ''archive format must match the destination extension'' else Inr chosen)"

definition compression_level :: "archive_creation_format \<Rightarrow> int option \<Rightarrow> application_error + int" where
  "compression_level format requested =
    (case format of
       Zip \<Rightarrow> (let level = (case requested of Some l \<Rightarrow> l | None \<Rightarrow> 6) in
         if level < 0 \<or> 9 < level then invalid ''archive compression level must be between 0 and 9'' else Inr level)
     | SevenZip \<Rightarrow> if requested \<noteq> None then invalid ''7z compression level is not supported by this backend'' else Inr 6)"

definition native_path :: "location \<Rightarrow> application_error + string" where
  "native_path l = map_err (\<lambda>e. AppInvalidRequest (location_error_text e)) (to_native_path l)"

section \<open>Plans for each kind\<close>

definition plan_archive :: "start_request \<Rightarrow> bool \<Rightarrow> application_error + planned_executor" where
  "plan_archive rq remove =
    (if sr_sources rq = [] then invalid ''createArchive requires at least one source''
     else and_then (ok_or (AppInvalidRequest ''createArchive requires an archive destination'') (sr_destination rq)) (\<lambda>destination.
          and_then (native_path destination) (\<lambda>path.
          and_then (archive_format path (sr_archive_format rq)) (\<lambda>format.
          and_then (compression_level format (sr_archive_compression_level rq)) (\<lambda>level.
          and_then (traverse native_path (sr_sources rq)) (\<lambda>sources.
          Inr (ArchivePlanned \<lparr>ca_destination = path, ca_sources = sources, ca_format = format,
            ca_compression_level = level, ca_remove_sources = remove\<rparr>)))))))"

definition plan_create_directory :: "nat \<Rightarrow> operation_planner \<Rightarrow> start_request \<Rightarrow> application_error + planned_executor" where
  "plan_create_directory t pl rq =
    and_then (ok_or (AppInvalidRequest ''createDirectory requires a destination directory'') (sr_destination rq)) (\<lambda>parent.
    and_then (ok_or (AppInvalidRequest ''createDirectory requires a name'') (sr_name rq)) (\<lambda>n.
    and_then (resolve_provider pl parent) (\<lambda>pr.
    and_then (check_capability t pr parent CapCreateDirectory) (\<lambda>_.
    Inr (DirectoryPlanned \<lparr>cd_provider = pr, cd_parent = parent, cd_name = n,
      cd_create_intermediates = sr_create_intermediate_directories rq\<rparr>)))))"

definition plan_create_file :: "nat \<Rightarrow> operation_planner \<Rightarrow> start_request \<Rightarrow> application_error + planned_executor" where
  "plan_create_file t pl rq =
    and_then (ok_or (AppInvalidRequest ''createFile requires a destination directory'') (sr_destination rq)) (\<lambda>parent.
    and_then (ok_or (AppInvalidRequest ''createFile requires a name'') (sr_name rq)) (\<lambda>n.
    and_then (resolve_provider pl parent) (\<lambda>pr.
    and_then (check_capability t pr parent CapWrite) (\<lambda>_.
    Inr (FilePlanned \<lparr>cf_provider = pr, cf_parent = parent, cf_name = n\<rparr>)))))"

definition plan_rename_pair :: "nat \<Rightarrow> operation_planner \<Rightarrow> location \<times> location \<Rightarrow> application_error + rename_executor" where
  "plan_rename_pair t pl = (\<lambda>(source, destination).
    and_then (resolve_provider pl source) (\<lambda>pr.
    if provider_id source \<noteq> provider_id destination then invalid ''rename cannot cross providers''
    else and_then (check_capability t pr source CapRename) (\<lambda>_.
         Inr \<lparr>rx_provider = pr, rx_source = source, rx_destination = destination\<rparr>)))"

definition plan_rename :: "nat \<Rightarrow> operation_planner \<Rightarrow> start_request \<Rightarrow> application_error + planned_executor" where
  "plan_rename t pl rq =
    (if sr_destinations rq = [] then
       (case sr_sources rq of
          [source] \<Rightarrow>
            and_then (ok_or (AppInvalidRequest ''rename requires a destination'') (sr_destination rq)) (\<lambda>destination.
            and_then (plan_rename_pair t pl (source, destination)) (\<lambda>rx. Inr (RenamePlanned rx)))
        | _ \<Rightarrow> invalid ''rename requires exactly one source, or a destinations entry per source'')
     else if sr_sources rq = [] then invalid ''rename requires at least one source''
     else if length (sr_destinations rq) \<noteq> length (sr_sources rq)
     then invalid ''rename destinations must include exactly one entry per source''
     else and_then (traverse (plan_rename_pair t pl) (zip (sr_sources rq) (sr_destinations rq))) (\<lambda>rxs. Inr (RenamesPlanned rxs)))"

definition make_copy ::
  "start_request \<Rightarrow> transfer_provider \<Rightarrow> transfer_provider \<Rightarrow> location \<Rightarrow> location \<Rightarrow> bool \<Rightarrow> transfer_plan \<Rightarrow> copy_executor" where
  "make_copy rq source_provider destination_provider destination_directory source continue_on_error transfer =
    \<lparr>cx_source_provider = source_provider, cx_destination_provider = destination_provider,
     cx_destination_directory = destination_directory, cx_symlink_policy = sr_symlink_policy rq,
     cx_source_override = Some source, cx_continue_on_error = continue_on_error, cx_transfer = transfer\<rparr>"

definition plan_copy_source ::
  "nat \<Rightarrow> operation_planner \<Rightarrow> start_request \<Rightarrow> location \<Rightarrow> transfer_provider \<Rightarrow> location \<Rightarrow> application_error + copy_executor" where
  "plan_copy_source t pl rq directory destination_provider source =
    and_then (resolve_provider pl source) (\<lambda>source_provider.
    and_then (check_capability t source_provider source CapRead) (\<lambda>_.
    and_then (transfer_resolve t source_provider source destination_provider directory) (\<lambda>transfer.
    Inr (make_copy rq source_provider destination_provider directory source True transfer))))"

definition plan_copy :: "nat \<Rightarrow> operation_planner \<Rightarrow> start_request \<Rightarrow> application_error + planned_executor" where
  "plan_copy t pl rq =
    (if sr_sources rq = [] then invalid ''copy requires at least one source''
     else and_then (ok_or (AppInvalidRequest ''copy requires a destination directory'') (sr_destination rq)) (\<lambda>directory.
          and_then (resolve_provider pl directory) (\<lambda>destination_provider.
          and_then (check_capability t destination_provider directory CapWrite) (\<lambda>_.
          and_then (traverse (plan_copy_source t pl rq directory destination_provider) (sr_sources rq)) (\<lambda>copies.
          Inr (CopiesPlanned copies))))))"

definition plan_move_source ::
  "nat \<Rightarrow> operation_planner \<Rightarrow> start_request \<Rightarrow> location \<Rightarrow> transfer_provider \<Rightarrow> location \<Rightarrow> application_error + move_executor" where
  "plan_move_source t pl rq directory destination_provider source =
    and_then (resolve_provider pl source) (\<lambda>source_provider.
    and_then (transfer_resolve t source_provider source destination_provider directory) (\<lambda>transfer.
    Inr \<lparr>mx_source = source, mx_source_provider = source_provider, mx_destination_provider = destination_provider,
      mx_destination_directory = directory, mx_copy = make_copy rq source_provider destination_provider directory source False transfer,
      mx_force_fallback = pl_force_cross_volume_moves pl, mx_transfer = transfer\<rparr>))"

definition plan_move :: "nat \<Rightarrow> operation_planner \<Rightarrow> start_request \<Rightarrow> application_error + planned_executor" where
  "plan_move t pl rq =
    (if sr_sources rq = [] then invalid ''move requires at least one source''
     else and_then (ok_or (AppInvalidRequest ''move requires a destination directory'') (sr_destination rq)) (\<lambda>directory.
          and_then (resolve_provider pl directory) (\<lambda>destination_provider.
          and_then (traverse (plan_move_source t pl rq directory destination_provider) (sr_sources rq)) (\<lambda>moves.
          Inr (MovesPlanned moves)))))"

definition plan_duplicate_source :: "exec_env \<Rightarrow> nat \<Rightarrow> operation_planner \<Rightarrow> start_request \<Rightarrow> location \<Rightarrow> application_error + copy_executor" where
  "plan_duplicate_source env t pl rq source =
    and_then (map_err (\<lambda>e. AppInvalidRequest (location_error_text e)) (location_parent (xe_uuid_ok env) source)) (\<lambda>p.
    and_then (ok_or (AppInvalidRequest ''cannot duplicate a filesystem root'') p) (\<lambda>parent.
    and_then (resolve_provider pl source) (\<lambda>pr.
    and_then (transfer_resolve t pr source pr parent) (\<lambda>transfer.
    Inr (make_copy rq pr pr parent source True transfer)))))"

definition plan_duplicate :: "exec_env \<Rightarrow> nat \<Rightarrow> operation_planner \<Rightarrow> start_request \<Rightarrow> application_error + planned_executor" where
  "plan_duplicate env t pl rq =
    (if sr_sources rq = [] then invalid ''duplicate requires at least one source''
     else and_then (traverse (plan_duplicate_source env t pl rq) (sr_sources rq)) (\<lambda>copies. Inr (DuplicatesPlanned copies)))"

definition plan_delete_source :: "nat \<Rightarrow> operation_planner \<Rightarrow> location \<Rightarrow> application_error + (string \<times> transfer_provider)" where
  "plan_delete_source t pl l =
    and_then (resolve_provider pl l) (\<lambda>pr.
    and_then (check_capability t pr l CapDelete) (\<lambda>_. Inr (provider_id l, pr)))"

definition plan_delete :: "nat \<Rightarrow> operation_planner \<Rightarrow> start_request \<Rightarrow> application_error + planned_executor" where
  "plan_delete t pl rq =
    (if sr_sources rq = [] then invalid ''delete requires at least one source''
     else and_then (traverse (plan_delete_source t pl) (sr_sources rq)) (\<lambda>providers.
          Inr (DeletePlanned \<lparr>dx_providers = map_of (rev providers), dx_override_read_only = sr_override_read_only rq,
            dx_requires_confirmation = (pl_confirm_permanent_delete pl \<and> \<not> sr_permanent_delete_confirmed rq)\<rparr>)))"

definition plan_trash :: "operation_planner \<Rightarrow> start_request \<Rightarrow> application_error + planned_executor" where
  "plan_trash pl rq =
    (if sr_sources rq = [] then invalid ''trash requires at least one source''
     else if \<not> pl_platform_trash pl
     then Inl (AppPlatformOperationFailed ''platform does not support capability PlatformCapabilities(TRASH)'')
     else Inr TrashPlanned)"

definition planner_plan ::
  "exec_env \<Rightarrow> nat \<Rightarrow> operation_planner \<Rightarrow> request_kind \<Rightarrow> start_request \<Rightarrow> application_error + planned_executor" where
  "planner_plan env t pl kind rq =
    (case kind of
       SearchRequest \<Rightarrow> invalid ''search is handled via start_search, not the operation executor''
     | CompareRequest \<Rightarrow> invalid ''compare is handled via start_comparison, not the operation executor''
     | OperationRequest k \<Rightarrow>
         (case k of
            CreateArchive \<Rightarrow> plan_archive rq False
          | MoveToArchive \<Rightarrow> plan_archive rq True
          | CreateDirectory \<Rightarrow> plan_create_directory t pl rq
          | CreateFile \<Rightarrow> plan_create_file t pl rq
          | Rename \<Rightarrow> plan_rename t pl rq
          | Copy \<Rightarrow> plan_copy t pl rq
          | Move \<Rightarrow> plan_move t pl rq
          | Duplicate \<Rightarrow> plan_duplicate env t pl rq
          | Delete \<Rightarrow> plan_delete t pl rq
          | Trash \<Rightarrow> plan_trash pl rq))"

end
