(* ===== verification/Copy_Move_Laws.thy ===== *)
theory Copy_Move_Laws
  imports Copy_Move
begin

text \<open>
  What the executors of \<open>Copy_Move\<close> do with files. The rules for computations come first: every computation
  only adds calls to the log, and \<open>keeps I P m\<close> says that \<open>m\<close> preserves \<open>I\<close> of the executor's fields and
  makes only calls allowed by \<open>P\<close>, whatever the outside answers.
\<close>

section \<open>Rules for computations\<close>

lemma map_err_Inr_iff [simp]: "map_err f r = Inr a \<longleftrightarrow> r = Inr a"
  by (cases r) auto

lemma is_ok_Ex: "is_ok r \<longleftrightarrow> (\<exists>a. r = Inr a)"
  by (cases r) auto

lemmas exec_simps = return_x_def throw_x_def lift_x_def ask_x_def call_x_def get_x_def modify_x_def Let_def

lemma bind_xE:
  assumes "bind_x m f s = Some (r, s')"
  obtains (failed) e where "m s = Some (Inl e, s')" "r = Inl e"
  | (went_on) a s1 where "m s = Some (Inr a, s1)" "f a s1 = Some (r, s')"
  using assms by (auto simp: bind_x_def split: option.splits sum.splits)

lemma attempt_xE:
  assumes "attempt_x m s = Some (r, s')"
  obtains r' where "m s = Some (r', s')" "r = Inr r'"
  using assms by (auto simp: attempt_x_def split: option.splits)

lemma bind_x_lift: "bind_x (lift_x (Inr a)) f s = f a s" "bind_x (lift_x (Inl e)) f s = Some (Inl e, s)"
  by (simp_all add: bind_x_def exec_simps)

lemma bind_x_return: "bind_x (return_x a) f s = f a s"
  by (simp add: bind_x_def exec_simps)

lemma bind_x_throw: "bind_x (throw_x e) f s = Some (Inl e, s)"
  by (simp add: bind_x_def exec_simps)

lemma bind_x_ask: "bind_x (ask_x q) f s = f (q (x_clock s)) (s\<lparr>x_clock := Suc (x_clock s)\<rparr>)"
  by (simp add: bind_x_def exec_simps)

lemma bind_x_get: "bind_x (get_x g) f s = f (g (x_local s)) s"
  by (simp add: bind_x_def exec_simps)

lemma bind_x_modify: "bind_x (modify_x h) f s = f () (s\<lparr>x_local := h (x_local s)\<rparr>)"
  by (simp add: bind_x_def exec_simps)

lemmas bind_x_run = bind_x_lift bind_x_return bind_x_throw bind_x_ask bind_x_get bind_x_modify

definition keeps :: "('x \<Rightarrow> bool) \<Rightarrow> (vfs_call \<times> bool \<Rightarrow> bool) \<Rightarrow> ('a, 'x) exec \<Rightarrow> bool" where
  "keeps I P m \<longleftrightarrow> (\<forall>s r s'. I (x_local s) \<longrightarrow> m s = Some (r, s') \<longrightarrow>
     I (x_local s') \<and> (\<exists>new. x_log s' = x_log s @ new \<and> (\<forall>c\<in>set new. P c)))"

named_theorems keeps_rules

lemma keepsI:
  assumes "\<And>s r s'. I (x_local s) \<Longrightarrow> m s = Some (r, s') \<Longrightarrow>
    I (x_local s') \<and> (\<exists>new. x_log s' = x_log s @ new \<and> (\<forall>c\<in>set new. P c))"
  shows "keeps I P m"
  using assms unfolding keeps_def by blast

lemma keepsD:
  assumes "keeps I P m" "I (x_local s)" "m s = Some (r, s')"
  obtains new where "I (x_local s')" "x_log s' = x_log s @ new" "\<forall>c\<in>set new. P c"
  using assms unfolding keeps_def by blast

lemma keeps_mono: "keeps I P m \<Longrightarrow> (\<And>c. P c \<Longrightarrow> Q c) \<Longrightarrow> keeps I Q m"
  unfolding keeps_def by (meson)

lemma keeps_return [keeps_rules]: "keeps I P (return_x a)"
  by (rule keepsI) (auto simp: exec_simps)

lemma keeps_throw [keeps_rules]: "keeps I P (throw_x e)"
  by (rule keepsI) (auto simp: exec_simps)

lemma keeps_lift [keeps_rules]: "keeps I P (lift_x r)"
  by (rule keepsI) (auto simp: exec_simps)

lemma keeps_ask [keeps_rules]: "keeps I P (ask_x q)"
  by (rule keepsI) (auto simp: exec_simps)

lemma keeps_get [keeps_rules]: "keeps I P (get_x f)"
  by (rule keepsI) (auto simp: exec_simps)

lemma keeps_modify: "(\<And>c. I c \<Longrightarrow> I (f c)) \<Longrightarrow> keeps I P (modify_x f)"
  by (rule keepsI) (auto simp: exec_simps)

lemma keeps_call: "(\<And>r. P (entry r)) \<Longrightarrow> keeps I P (call_x entry q)"
  by (rule keepsI) (auto simp: exec_simps)

lemma keeps_bind [keeps_rules]:
  assumes "keeps I P m" "\<And>a. keeps I P (f a)"
  shows "keeps I P (bind_x m f)"
proof (rule keepsI)
  fix s r s'
  assume s: "I (x_local s)" and run: "bind_x m f s = Some (r, s')"
  from run show "I (x_local s') \<and> (\<exists>new. x_log s' = x_log s @ new \<and> (\<forall>c\<in>set new. P c))"
  proof (cases rule: bind_xE)
    case (failed e)
    then show ?thesis using keepsD [OF assms(1) s] by metis
  next
    case (went_on a s1)
    obtain n1 where 1: "I (x_local s1)" "x_log s1 = x_log s @ n1" "\<forall>c\<in>set n1. P c"
      by (rule keepsD [OF assms(1) s went_on(1)])
    obtain n2 where 2: "I (x_local s')" "x_log s' = x_log s1 @ n2" "\<forall>c\<in>set n2. P c"
      by (rule keepsD [OF assms(2) 1(1) went_on(2)])
    then show ?thesis using 1 by (intro conjI exI [of _ "n1 @ n2"]) auto
  qed
qed

lemma keeps_attempt [keeps_rules]: "keeps I P m \<Longrightarrow> keeps I P (attempt_x m)"
  by (rule keepsI) (metis attempt_xE keepsD)

lemma keeps_vfs: "(\<And>ok. P (c, ok)) \<Longrightarrow> keeps I P (vfs_x c q)"
  unfolding vfs_x_def by (intro keeps_rules keeps_call) (simp add: outcome_def)

lemma keeps_question [keeps_rules]: "keeps I P (question_x q)"
  unfolding question_x_def by (intro keeps_rules)

lemma keeps_location [keeps_rules]: "keeps I P (location_x r)"
  unfolding location_x_def by (intro keeps_rules)

lemma keeps_if [keeps_rules]: "(b \<Longrightarrow> keeps I P m) \<Longrightarrow> (\<not> b \<Longrightarrow> keeps I P n) \<Longrightarrow> keeps I P (if b then m else n)"
  by simp

lemma keeps_option [keeps_rules]:
  "(r = None \<Longrightarrow> keeps I P m) \<Longrightarrow> (\<And>a. r = Some a \<Longrightarrow> keeps I P (f a)) \<Longrightarrow> keeps I P (case r of None \<Rightarrow> m | Some a \<Rightarrow> f a)"
  by (cases r) auto

lemma keeps_sum [keeps_rules]:
  "(\<And>e. keeps I P (f e)) \<Longrightarrow> (\<And>a. keeps I P (g a)) \<Longrightarrow> keeps I P (case r of Inl e \<Rightarrow> f e | Inr a \<Rightarrow> g a)"
  by (cases r) auto

lemma keeps_prod [keeps_rules]: "(\<And>a b. p = (a, b) \<Longrightarrow> keeps I P (f a b)) \<Longrightarrow> keeps I P (case p of (a, b) \<Rightarrow> f a b)"
  by (cases p) auto

lemma keeps_resolution [keeps_rules]:
  "(r = Skip \<Longrightarrow> keeps I P a) \<Longrightarrow> (r = Overwrite \<Longrightarrow> keeps I P b) \<Longrightarrow> (r = RenameNew \<Longrightarrow> keeps I P c) \<Longrightarrow>
   keeps I P (case r of Skip \<Rightarrow> a | Overwrite \<Rightarrow> b | RenameNew \<Rightarrow> c)"
  by (cases r) auto

lemma keeps_cancelled [keeps_rules]: "keeps I P (cancelled_x env)"
  unfolding cancelled_x_def by (intro keeps_rules)

lemma keeps_within:
  assumes "keeps I P m" "\<And>x. J x \<Longrightarrow> I (part x)" "\<And>x c. J x \<Longrightarrow> I c \<Longrightarrow> J (put c x)"
  shows "keeps J P (within_x part put m)"
proof (rule keepsI)
  fix s r s'
  assume s: "J (x_local s)" and run: "within_x part put m s = Some (r, s')"
  define s0 where "s0 = \<lparr>x_clock = x_clock s, x_log = x_log s, x_local = part (x_local s)\<rparr>"
  obtain t where t: "m s0 = Some (r, t)" and s': "s' = \<lparr>x_clock = x_clock t, x_log = x_log t, x_local = put (x_local t) (x_local s)\<rparr>"
    using run unfolding within_x_def s0_def [symmetric] by (auto split: option.splits)
  have "I (x_local s0)" using assms(2) s by (simp add: s0_def)
  then obtain new where "I (x_local t)" "x_log t = x_log s0 @ new" "\<forall>c\<in>set new. P c"
    by (rule keepsD [OF assms(1) _ t])
  then show "J (x_local s') \<and> (\<exists>new. x_log s' = x_log s @ new \<and> (\<forall>c\<in>set new. P c))"
    using assms(3) s by (auto simp: s' s0_def)
qed

lemma keeps_for_each: "(\<And>b. keeps I P (f b)) \<Longrightarrow> keeps I P (for_each_x f bs)"
  by (induction bs) (auto intro: keeps_rules)

lemma keeps_conflict_error [keeps_rules]: "keeps I P (conflict_error env a b)"
  unfolding conflict_error_def by (intro keeps_rules)

lemma keeps_parent [keeps_rules]: "keeps I P (parent_x env l)"
  unfolding parent_x_def by (intro keeps_rules)

lemma keeps_name [keeps_rules]: "keeps I P (name_x env l)"
  unfolding name_x_def by (intro keeps_rules)

lemma keeps_check_paths [keeps_rules]: "keeps I P (check_paths env a b)"
  unfolding check_paths_def by (intro keeps_rules)

lemma keeps_metadata [keeps_rules]: "keeps I P (keeps_metadata cx l)"
  unfolding keeps_metadata_def by (intro keeps_rules)

lemma keeps_follow [keeps_rules]: "keeps I P (follow_entry cx e w)"
  unfolding follow_entry_def by (intro keeps_rules)

section \<open>Loops\<close>

text \<open>A silent computation changes nothing but the clock.\<close>

definition silent :: "('a, 'x) exec \<Rightarrow> bool" where
  "silent m \<longleftrightarrow> (\<forall>s r s'. m s = Some (r, s') \<longrightarrow> x_local s' = x_local s \<and> x_log s' = x_log s)"

lemma silentD: "silent m \<Longrightarrow> m s = Some (r, s') \<Longrightarrow> x_local s' = x_local s \<and> x_log s' = x_log s"
  by (auto simp: silent_def)

lemma silent_bind: "silent m \<Longrightarrow> (\<And>a. silent (f a)) \<Longrightarrow> silent (bind_x m f)"
  unfolding silent_def by (auto elim!: bind_xE)

lemma silent_keeps: "silent m \<Longrightarrow> keeps I P m"
  by (rule keepsI) (auto dest: silentD)

lemma silent_basic:
  "silent (return_x a)" "silent (throw_x e)" "silent (lift_x r)" "silent (ask_x q)" "silent (get_x f)"
  by (auto simp: silent_def exec_simps)

lemma silent_if: "silent m \<Longrightarrow> silent n \<Longrightarrow> silent (if b then m else n)"
  by simp

lemmas silent_rules = silent_bind silent_basic silent_if

lemma silent_question: "silent (question_x q)"
  unfolding question_x_def by (intro silent_rules)

lemma silent_cancelled: "silent (cancelled_x env)"
  unfolding cancelled_x_def by (intro silent_rules)

lemma silent_follow: "silent (follow_entry cx e w)"
  unfolding follow_entry_def by (intro silent_rules silent_question)

lemma silent_push_children: "silent (push_children env cx source destination token stack)"
proof -
  have "x_local (snd y) = x_local s \<and> x_log (snd y) = x_log s"
    if "push_children env cx source destination token stack s = Some y" for y s
    using that
  proof (induction rule: push_children.raw_induct [rotated 1, consumes 1, case_names 1])
    case (1 f env cx source destination token stack s y)
    show ?case
      using 1(2)
      by (auto split: option.splits sum.splits if_splits dest!: 1(1) silentD [OF silent_question])
  qed
  then show ?thesis by (fastforce simp: silent_def)
qed

lemma silent_copy_walk: "silent (copy_walk_loop env cx root_uri stack w)"
proof -
  have "x_local (snd y) = x_local s \<and> x_log (snd y) = x_log s"
    if "copy_walk_loop env cx root_uri stack w s = Some y" for y s
    using that
  proof (induction rule: copy_walk_loop.raw_induct [rotated 1, consumes 1, case_names 1])
    case (1 f env cx root_uri stack w s y)
    have step: "silent (bind_x (cancelled_x env) (\<lambda>_. follow_entry cx a w))" for a
      by (intro silent_bind silent_cancelled silent_follow)
    show ?case
      using 1(2)
      by (auto split: list.splits option.splits sum.splits if_splits prod.splits simp: Let_def
          dest!: 1(1) silentD [OF step] silentD [OF silent_push_children])
  qed
  then show ?thesis by (fastforce simp: silent_def)
qed

lemma keeps_copy_walk [keeps_rules]: "keeps I P (copy_walk_loop env cx root_uri stack w)"
  by (rule silent_keeps [OF silent_copy_walk])

lemma probe_copy_names_keeps:
  assumes "\<And>l ok. P (InspectCall l, ok)"
  shows "keeps I P (probe_copy_names env cx parent n suffix)"
proof -
  have "x_local (snd y) = x_local s \<and> (\<exists>new. x_log (snd y) = x_log s @ new \<and> (\<forall>c\<in>set new. \<exists>l ok. c = (InspectCall l, ok)))"
    if "probe_copy_names env cx parent n suffix s = Some y" for y s
    using that
  proof (induction rule: probe_copy_names.raw_induct [rotated 1, consumes 1, case_names 1])
    case (1 f env cx parent n suffix s y)
    show ?case
      using 1(2)
      by (force split: sum.splits vfs_error.splits simp: call_x_def Let_def outcome_def dest!: 1(1))
  qed
  then show ?thesis using assms by (fastforce simp: keeps_def)
qed

lemma keeps_next_copy_destination [keeps_rules]:
  "(\<And>l ok. P (InspectCall l, ok)) \<Longrightarrow> keeps I P (next_copy_destination env cx l)"
  unfolding next_copy_destination_def by (intro keeps_rules probe_copy_names_keeps)

section \<open>Streaming and publishing\<close>

text \<open>The calls of a transfer that moved the chunks, and of a complete transfer of a file into a temporary.\<close>

definition pumped :: "string list \<Rightarrow> (vfs_call \<times> bool) list" where
  "pumped chunks = concat (map (\<lambda>c. [(ReadCall c, True), (WriteCall c, True)]) chunks)"

definition complete_transfer :: "location \<Rightarrow> location \<Rightarrow> (vfs_call \<times> bool) list \<Rightarrow> bool" where
  "complete_transfer source temporary calls \<longleftrightarrow>
    calls = [(ServerSideCopyCall source temporary, True)] \<or>
    (\<exists>attempt chunks. attempt \<in> {[], [(ServerSideCopyCall source temporary, False)]} \<and> [] \<notin> set chunks \<and>
      calls = attempt @ [(OpenReadCall source, True), (OpenWriteCall temporary, True)] @ pumped chunks
        @ [(ReadCall [], True), (ShutdownCall, True)])"

definition streams :: "vfs_call \<times> bool \<Rightarrow> bool" where
  "streams c \<longleftrightarrow> (\<exists>chunk. fst c = ReadCall chunk \<or> fst c = WriteCall chunk)"

lemma streams_pumped: "c \<in> set (pumped chunks) \<Longrightarrow> streams c"
  by (auto simp: pumped_def streams_def)

lemma pumped_Cons: "pumped (c # cs) = (ReadCall c, True) # (WriteCall c, True) # pumped cs"
  by (simp add: pumped_def)

definition stream_log :: "execution_error + unit \<Rightarrow> 'x exec_state \<Rightarrow> 'x exec_state \<Rightarrow> bool" where
  "stream_log r s s' \<longleftrightarrow> x_local s' = x_local s \<and> (\<exists>chunks rest. [] \<notin> set chunks \<and> x_log s' = x_log s @ pumped chunks @ rest
     \<and> list_all streams rest \<and> (is_ok r \<longrightarrow> rest = [(ReadCall [], True)]))"

lemma stream_log_Cons:
  assumes "stream_log r s1 s'" "x_local s1 = x_local s" "x_log s1 = x_log s @ [(ReadCall c, True), (WriteCall c, True)]" "c \<noteq> []"
  shows "stream_log r s s'"
proof -
  obtain chunks rest where "[] \<notin> set chunks" "x_log s' = x_log s1 @ pumped chunks @ rest" "list_all streams rest"
    "is_ok r \<longrightarrow> rest = [(ReadCall [], True)]" "x_local s' = x_local s1"
    using assms(1) by (auto simp: stream_log_def)
  then show ?thesis unfolding stream_log_def
    by (intro conjI exI [of _ "c # chunks"] exI [of _ rest]) (auto simp: assms(2-4) pumped_Cons)
qed

lemma stream_log_end:
  assumes "x_local s' = x_local s" "x_log s' = x_log s @ rest" "list_all streams rest" "is_ok r \<longrightarrow> rest = [(ReadCall [], True)]"
  shows "stream_log r s s'"
  unfolding stream_log_def using assms by (intro conjI exI [of _ "[]"] exI [of _ rest]) (auto simp: pumped_def)

lemma read_step:
  assumes "bind_x (cancelled_x env) (\<lambda>_. bind_x (select_x env) (\<lambda>_. read_x pr)) s = Some (r, s')"
  shows "x_local s' = x_local s \<and> (\<exists>rest. x_log s' = x_log s @ rest \<and> list_all streams rest \<and>
    (\<forall>chunk. r = Inr chunk \<longrightarrow> rest = [(ReadCall chunk, True)]))"
  using assms
  by (auto simp: bind_x_def cancelled_x_def select_x_def read_x_def exec_simps streams_def split: sum.splits if_splits)

lemma write_step:
  assumes "write_x env pr chunk s = Some (r, s')"
  shows "x_local s' = x_local s \<and> x_log s' = x_log s @ [(WriteCall chunk, is_ok r)]"
  using assms by (auto simp: write_x_def bind_x_def exec_simps split: sum.splits if_splits)

lemma copy_stream_log: "copy_stream env cx s = Some y \<Longrightarrow> stream_log (fst y) s (snd y)"
proof (induction rule: copy_stream.raw_induct [rotated 1, consumes 1, case_names 1])
  case (1 f env cx s y)
  obtain r1 s1 where read: "bind_x (cancelled_x env) (\<lambda>_. bind_x (select_x env) (\<lambda>_. read_x (cx_source_provider cx))) s = Some (r1, s1)"
    using 1(2) by (auto split: option.splits)
  note log1 = read_step [OF read]
  show ?case
  proof (cases r1)
    case (Inl e)
    then show ?thesis using 1(2) read log1 by (auto intro: stream_log_end)
  next
    case (Inr chunk)
    show ?thesis
    proof (cases "chunk = []")
      case True
      then show ?thesis using 1(2) read log1 Inr by (auto intro!: stream_log_end)
    next
      case False
      obtain r2 s2 where w: "write_x env (cx_destination_provider cx) chunk s1 = Some (r2, s2)"
        using 1(2) read Inr False by (auto split: option.splits)
      note log2 = write_step [OF w]
      show ?thesis
      proof (cases r2)
        case (Inl e)
        then show ?thesis using 1(2) read w log1 log2 Inr False
          by (auto intro!: stream_log_end simp: streams_def)
      next
        case ok: (Inr u)
        then have "stream_log (fst y) s2 (snd y)" using 1(1) 1(2) read w Inr False by auto
        then show ?thesis by (rule stream_log_Cons) (use log1 log2 Inr ok False in auto)
      qed
    qed
  qed
qed

lemma copy_stream_log': "copy_stream env cx s = Some (r, s') \<Longrightarrow> stream_log r s s'"
  using copy_stream_log [of env cx s "(r, s')"] by simp

lemma vfs_step:
  assumes "vfs_x c q s = Some (r, s')"
  shows "x_local s' = x_local s \<and> x_log s' = x_log s @ [(c, is_ok r)]"
  using assms by (auto simp: vfs_x_def bind_x_def exec_simps outcome_def split: sum.splits)

text \<open>The log of a transfer that is not published yet.\<close>

definition moves_bytes :: "location \<Rightarrow> location \<Rightarrow> vfs_call \<times> bool \<Rightarrow> bool" where
  "moves_bytes source temporary c \<longleftrightarrow> streams c \<or>
    fst c \<in> {ServerSideCopyCall source temporary, OpenReadCall source, OpenWriteCall temporary, ShutdownCall}"

lemma list_all_moves_bytes: "list_all streams cs \<Longrightarrow> list_all (moves_bytes source temporary) cs"
  by (auto simp: list_all_iff moves_bytes_def)

lemma list_all_pumped: "list_all streams (pumped chunks)"
  using streams_pumped by (auto simp: list_all_iff)

lemma direct_stream_log:
  assumes "direct_stream env cx source temporary s = Some (r, s')"
  shows "x_local s' = x_local s \<and> (\<exists>calls. x_log s' = x_log s @ calls \<and> list_all (moves_bytes source temporary) calls \<and>
    (is_ok r \<longrightarrow> (\<exists>chunks. [] \<notin> set chunks \<and> calls = [(OpenReadCall source, True), (OpenWriteCall temporary, True)] @ pumped chunks
        @ [(ReadCall [], True), (ShutdownCall, True)])))"
  using assms unfolding direct_stream_def
proof (cases rule: bind_xE)
  case (failed e)
  then show ?thesis using vfs_step [OF failed(1)] by (auto simp: moves_bytes_def)
next
  case (went_on a s1)
  note open1 = vfs_step [OF went_on(1)]
  from went_on(2) show ?thesis
  proof (cases rule: bind_xE)
    case (failed e)
    then show ?thesis using open1 vfs_step [OF failed(1)] by (auto simp: moves_bytes_def)
  next
    case (went_on b s2)
    note open2 = vfs_step [OF went_on(1)]
    obtain tr s3 where str: "copy_stream env cx s2 = Some (tr, s3)"
      using went_on(2) by (auto simp: bind_x_def attempt_x_def split: option.splits)
    then obtain chunks rest where c: "x_local s3 = x_local s2" "[] \<notin> set chunks" "x_log s3 = x_log s2 @ pumped chunks @ rest"
      "list_all streams rest" "is_ok tr \<longrightarrow> rest = [(ReadCall [], True)]"
      using copy_stream_log' [OF str] by (auto simp: stream_log_def)
    obtain ok where fin: "x_local s' = x_local s3" "x_log s' = x_log s3 @ [(ShutdownCall, ok)]" "is_ok r = (is_ok tr \<and> ok)"
      using went_on(2) str
      by (auto simp: bind_x_def attempt_x_def exec_simps outcome_def split: sum.splits)
    then show ?thesis
      using open1 open2 c list_all_moves_bytes [OF list_all_pumped, of source temporary chunks]
        list_all_moves_bytes [OF c(4), of source temporary] by (auto simp: moves_bytes_def)
  qed
qed

text \<open>The log of publishing a temporary.\<close>

definition publishes :: "bool \<Rightarrow> location \<Rightarrow> location \<Rightarrow> vfs_call \<times> bool \<Rightarrow> bool" where
  "publishes overwrite source temporary c \<longleftrightarrow>
    (\<exists>d keep. fst c = CommitCall source temporary d overwrite keep) \<or> fst c = DiscardCall temporary \<or> (\<exists>l. fst c = InspectCall l)"

definition published :: "location \<Rightarrow> location \<Rightarrow> (vfs_call \<times> bool) list \<Rightarrow> bool" where
  "published source temporary calls \<longleftrightarrow> (\<exists>d overwrite keep. (CommitCall source temporary d overwrite keep, True) \<in> set calls)"

definition commit_log ::
  "bool \<Rightarrow> location \<Rightarrow> location \<Rightarrow> execution_error + unit \<Rightarrow> copy_local exec_state \<Rightarrow> copy_local exec_state \<Rightarrow> bool" where
  "commit_log overwrite source temporary r s s' \<longleftrightarrow>
    (\<exists>calls. x_log s' = x_log s @ calls \<and> list_all (publishes overwrite source temporary) calls
      \<and> (is_ok r \<longleftrightarrow> published source temporary calls)
      \<and> (x_local s' = x_local s \<or> \<not> is_ok r \<and> x_local s' = (x_local s)\<lparr>cl_temporary := None\<rparr> \<and> (DiscardCall temporary, True) \<in> set calls))"

lemma keeps_metadata_silent: "silent (keeps_metadata cx l)"
  unfolding keeps_metadata_def by (intro silent_rules silent_question)

lemma commit_step:
  assumes "bind_x (keeps_metadata cx d) (\<lambda>keep. call_x (outcome (CommitCall source temporary d overwrite keep)) (q keep)) s = Some (r, s')"
  shows "x_local s' = x_local s \<and> (case r of Inl _ \<Rightarrow> x_log s' = x_log s
    | Inr r' \<Rightarrow> \<exists>keep. x_log s' = x_log s @ [(CommitCall source temporary d overwrite keep, is_ok r')])"
  using assms
proof (cases rule: bind_xE)
  case (failed e)
  then show ?thesis using silentD [OF keeps_metadata_silent failed(1)] by auto
next
  case (went_on keep s1)
  then show ?thesis using silentD [OF keeps_metadata_silent went_on(1)] by (auto simp: call_x_def outcome_def Let_def)
qed

lemma conflict_error_step: "conflict_error env a b s = Some (r, s') \<Longrightarrow> x_local s' = x_local s \<and> x_log s' = x_log s \<and> \<not> is_ok r"
  by (auto simp: conflict_error_def bind_x_def exec_simps)

lemma discovered_conflict_log:
  assumes "discovered_conflict env cx source temporary destination s = Some (r, s')"
  shows "commit_log overwrite source temporary r s s' \<and> \<not> is_ok r"
  using assms unfolding discovered_conflict_def
  by (auto elim!: bind_xE dest!: vfs_step conflict_error_step simp: commit_log_def published_def publishes_def exec_simps
      split: if_splits)

lemma commit_log_Cons:
  assumes "commit_log overwrite source temporary r s1 s'" "x_local s1 = x_local s"
    "x_log s1 = x_log s @ [(CommitCall source temporary d overwrite keep, False)]"
  shows "commit_log overwrite source temporary r s s'"
proof -
  obtain calls where c: "x_log s' = x_log s1 @ calls" "list_all (publishes overwrite source temporary) calls"
    "is_ok r \<longleftrightarrow> published source temporary calls"
    "x_local s' = x_local s1 \<or> \<not> is_ok r \<and> x_local s' = (x_local s1)\<lparr>cl_temporary := None\<rparr> \<and> (DiscardCall temporary, True) \<in> set calls"
    using assms(1) unfolding commit_log_def by blast
  let ?calls = "(CommitCall source temporary d overwrite keep, False) # calls"
  have "published source temporary ?calls = published source temporary calls" by (simp add: published_def)
  moreover have "list_all (publishes overwrite source temporary) ?calls" using c(2) by (simp add: publishes_def)
  moreover have "x_log s' = x_log s @ ?calls" using c(1) assms(3) by simp
  moreover have "x_local s' = x_local s \<or> \<not> is_ok r \<and> x_local s' = (x_local s)\<lparr>cl_temporary := None\<rparr> \<and> (DiscardCall temporary, True) \<in> set ?calls"
    using c(4) assms(2) by auto
  ultimately show ?thesis unfolding commit_log_def using c(3) by blast
qed

lemma silent_location: "silent (location_x r)"
  unfolding location_x_def by (rule silent_basic)

lemma silent_name_x: "silent (name_x env l)"
  unfolding name_x_def by (rule silent_location)

lemma commit_log_stop:
  assumes "x_local s' = x_local s" "x_log s' = x_log s @ calls" "list_all (publishes overwrite source temporary) calls"
    "is_ok r \<longleftrightarrow> published source temporary calls"
  shows "commit_log overwrite source temporary r s s'"
  unfolding commit_log_def using assms by blast

lemma commit_loop_log:
  "commit_loop env cx effective source temporary directory final destination suffix s = Some y \<Longrightarrow>
   commit_log (effective = Some Overwrite) source temporary (fst y) s (snd y)"
proof (induction rule: commit_loop.raw_induct [rotated 1, consumes 1, case_names 1])
  case (1 f env cx effective source temporary directory final destination suffix s y)
  note IH = 1(1) and body = 1(2)
  let ?ov = "effective = Some Overwrite"
  obtain r1 s1 where com: "bind_x (keeps_metadata cx destination) (\<lambda>keep.
        call_x (outcome (CommitCall source temporary destination ?ov keep))
          (\<lambda>t. tp_commit_copy (cx_destination_provider cx) t source temporary destination ?ov keep)) s = Some (r1, s1)"
    using body by (auto split: option.splits)
  note log1 = commit_step [OF com]
  show ?case
  proof (cases r1)
    case (Inl e)
    then show ?thesis using body com log1 by (auto intro!: commit_log_stop [of _ _ "[]"] simp: published_def)
  next
    case (Inr r2)
    then obtain keep where keep: "x_log s1 = x_log s @ [(CommitCall source temporary destination ?ov keep, is_ok r2)]"
      and loc: "x_local s1 = x_local s" using log1 by auto
    show ?thesis
    proof (cases r2)
      case ok: (Inr u)
      then have "y = (Inr (), s1)" using body com Inr by simp
      then show ?thesis using keep loc ok
        by (auto intro!: commit_log_stop simp: published_def publishes_def)
    next
      case err: (Inl e)
      then have keep': "x_log s1 = x_log s @ [(CommitCall source temporary destination ?ov keep, False)]" using keep by simp
      have stop: "commit_log ?ov source temporary (Inl e') s s1" for e'
        by (rule commit_log_stop [OF loc keep']) (auto simp: published_def publishes_def)
      consider (rename) l where "e = VfsAlreadyExists l" "effective = Some RenameNew"
        | (late) l where "e = VfsAlreadyExists l" "effective = None"
        | (other) "y = (Inl (Provider e), s1)"
        using body com Inr err by (auto split: vfs_error.splits if_splits)
      then show ?thesis
      proof cases
        case rename
        obtain r3 s3 where nxt: "bind_x (name_x env final) (\<lambda>n. location_x (location_join (xe_uuid_ok env) directory (copy_name n suffix))) s1 = Some (r3, s3)"
          using body com Inr err rename by (auto split: option.splits)
        have q: "x_local s3 = x_local s1" "x_log s3 = x_log s1"
          using silentD [OF silent_bind [OF silent_name_x silent_location] nxt] by auto
        show ?thesis
        proof (cases r3)
          case (Inl e3)
          then have "y = (Inl e3, s3)" using body com Inr err rename nxt by auto
          then show ?thesis using stop [of e3] q by (simp add: commit_log_def)
        next
          case ok3: (Inr d)
          have "commit_log ?ov source temporary (fst y) s3 (snd y)"
            using body com Inr err rename nxt ok3 by (auto dest!: IH)
          then show ?thesis by (rule commit_log_Cons) (use q loc keep' in auto)
        qed
      next
        case late
        then have "discovered_conflict env cx source temporary destination s1 = Some y" using body com Inr err by auto
        then have "commit_log ?ov source temporary (fst y) s1 (snd y)" using discovered_conflict_log by (metis prod.collapse)
        then show ?thesis by (rule commit_log_Cons [OF _ loc keep'])
      next
        case other
        then show ?thesis using stop by simp
      qed
    qed
  qed
qed

text \<open>Where a temporary is published: at the final destination or, when renaming was chosen, at a variant of its name
  beside it; what is replaced is the final destination itself.\<close>

inductive name_variant :: "exec_env \<Rightarrow> location \<Rightarrow> location \<Rightarrow> bool" for env d where
  same: "name_variant env d d"
| sibling: "name_variant env d l \<Longrightarrow> location_parent (xe_uuid_ok env) l = Inr (Some parent) \<Longrightarrow> location_name (xe_uuid_ok env) l = Inr n \<Longrightarrow>
    location_join (xe_uuid_ok env) parent (copy_name n k) = Inr l' \<Longrightarrow> name_variant env d l'"

declare name_variant.same [simp]

lemma name_variant_trans: "name_variant env l m \<Longrightarrow> name_variant env d l \<Longrightarrow> name_variant env d m"
  by (induction rule: name_variant.induct) (auto intro: name_variant.sibling)

definition commits_to :: "exec_env \<Rightarrow> location \<Rightarrow> bool \<Rightarrow> vfs_call \<times> bool \<Rightarrow> bool" where
  "commits_to env final overwrite c \<longleftrightarrow>
    (case fst c of CommitCall _ _ l _ _ \<Rightarrow> name_variant env final l \<and> (overwrite \<longrightarrow> l = final) | _ \<Rightarrow> True)"

lemma discovered_conflict_targets:
  assumes "discovered_conflict env cx source temporary destination s = Some (r, s')"
  shows "\<exists>calls. x_log s' = x_log s @ calls \<and> list_all (commits_to env final overwrite) calls"
  using assms unfolding discovered_conflict_def
  by (auto elim!: bind_xE dest!: vfs_step conflict_error_step simp: commits_to_def exec_simps split: if_splits)

lemma name_join_step: "\<exists>r. bind_x (name_x env l) (\<lambda>n. location_x (g n)) s = Some (r, s)"
  by (auto simp: name_x_def location_x_def bind_x_def lift_x_def split: sum.splits)

lemma commit_loop_targets:
  "commit_loop env cx effective source temporary directory final destination suffix s = Some y \<Longrightarrow>
   location_parent (xe_uuid_ok env) final = Inr (Some directory) \<longrightarrow> name_variant env final destination \<longrightarrow>
   (effective = Some Overwrite \<longrightarrow> destination = final) \<longrightarrow>
   (\<exists>calls. x_log (snd y) = x_log s @ calls \<and> list_all (commits_to env final (effective = Some Overwrite)) calls)"
proof (induction rule: commit_loop.raw_induct [rotated 1, consumes 1, case_names 1])
  case (1 f env cx effective source temporary directory final destination suffix s y)
  note IH = 1(1) and body = 1(2)
  let ?ov = "effective = Some Overwrite"
  show ?case
  proof (intro impI)
    assume dir: "location_parent (xe_uuid_ok env) final = Inr (Some directory)" and var: "name_variant env final destination"
      and ov: "?ov \<longrightarrow> destination = final"
    obtain r1 s1 where com: "bind_x (keeps_metadata cx destination) (\<lambda>keep.
          call_x (outcome (CommitCall source temporary destination ?ov keep))
            (\<lambda>t. tp_commit_copy (cx_destination_provider cx) t source temporary destination ?ov keep)) s = Some (r1, s1)"
      using body by (auto split: option.splits)
    obtain first where first: "x_log s1 = x_log s @ first" "list_all (commits_to env final ?ov) first"
      using commit_step [OF com] var ov by (cases r1) (auto simp: commits_to_def)
    obtain r3 where name: "bind_x (name_x env final) (\<lambda>n. location_x (location_join (xe_uuid_ok env) directory (copy_name n suffix))) s1 = Some (r3, s1)"
      using name_join_step [of env final "\<lambda>n. location_join (xe_uuid_ok env) directory (copy_name n suffix)" s1] by blast
    consider (stop) "x_log (snd y) = x_log s1"
      | (rename) d where "effective = Some RenameNew"
          "bind_x (name_x env final) (\<lambda>n. location_x (location_join (xe_uuid_ok env) directory (copy_name n suffix))) s1 = Some (Inr d, s1)"
          "f env cx effective source temporary directory final d (if suffix = -1 then suffix else suffix + 1) s1 = Some y"
      | (late) "discovered_conflict env cx source temporary destination s1 = Some y"
      using body com name
      by (auto split: option.splits sum.splits vfs_error.splits if_splits)
    then show "\<exists>calls. x_log (snd y) = x_log s @ calls \<and> list_all (commits_to env final ?ov) calls"
    proof cases
      case stop
      then show ?thesis using first by auto
    next
      case rename
      have "name_variant env final d"
        using rename(2) dir by (auto simp: name_x_def location_x_def bind_x_def exec_simps intro: name_variant.intros split: sum.splits)
      then obtain calls where "x_log (snd y) = x_log s1 @ calls" "list_all (commits_to env final ?ov) calls"
        using IH [OF rename(3)] dir rename(1) by auto
      then show ?thesis using first by auto
    next
      case late
      then obtain calls where "x_log (snd y) = x_log s1 @ calls" "list_all (commits_to env final ?ov) calls"
        using discovered_conflict_targets [of env cx source temporary destination s1 "fst y" "snd y"] by auto
      then show ?thesis using first by auto
    qed
  qed
qed

section \<open>Copying one file\<close>

definition temporary_at :: "exec_env \<Rightarrow> copy_executor \<Rightarrow> nat \<Rightarrow> location_error + location" where
  "temporary_at env cx t = location_join (xe_uuid_ok env) (cx_destination_directory cx) (''.fm-copy-'' @ xe_uuid env t)"

definition is_temporary :: "exec_env \<Rightarrow> copy_executor \<Rightarrow> location \<Rightarrow> bool" where
  "is_temporary env cx l \<longleftrightarrow> (\<exists>t. temporary_at env cx t = Inr l)"

text \<open>The log of \<open>copy_file\<close>: first the bytes are moved into a temporary, then it is published.\<close>

definition file_log ::
  "bool \<Rightarrow> location \<Rightarrow> location \<Rightarrow> bool \<Rightarrow> copy_local exec_state \<Rightarrow> copy_local exec_state \<Rightarrow> (vfs_call \<times> bool) list \<Rightarrow> (vfs_call \<times> bool) list \<Rightarrow> bool" where
  "file_log overwrite source temporary ok s s' transfer calls \<longleftrightarrow>
    x_log s' = x_log s @ transfer @ calls
    \<and> list_all (moves_bytes source temporary) transfer \<and> list_all (publishes overwrite source temporary) calls
    \<and> (calls \<noteq> [] \<longrightarrow> complete_transfer source temporary transfer)
    \<and> (ok \<longleftrightarrow> published source temporary calls)
    \<and> (x_local s' = (x_local s)\<lparr>cl_temporary := None\<rparr> \<and> (ok \<or> (DiscardCall temporary, True) \<in> set calls)
       \<or> x_local s' = (x_local s)\<lparr>cl_temporary := Some temporary\<rparr> \<and> \<not> ok)"

lemma file_log_failed:
  assumes "x_local s' = (x_local s)\<lparr>cl_temporary := Some temporary\<rparr>" "x_log s' = x_log s @ transfer"
    "list_all (moves_bytes source temporary) transfer"
  shows "file_log overwrite source temporary False s s' transfer []"
  using assms by (simp add: file_log_def published_def)

lemma clone_step:
  assumes "clone_x cx source temporary s = Some (r, s')"
  shows "x_local s' = x_local s \<and> (\<exists>calls. x_log s' = x_log s @ calls \<and> list_all (moves_bytes source temporary) calls
    \<and> (r = Inr True \<longrightarrow> calls = [(ServerSideCopyCall source temporary, True)])
    \<and> (r = Inr False \<longrightarrow> calls \<in> {[], [(ServerSideCopyCall source temporary, False)]}))"
  using assms
  by (auto simp: clone_x_def bind_x_def exec_simps moves_bytes_def split: if_splits sum.splits)

lemma transfer_step:
  assumes "bind_x (clone_x cx source temporary) (\<lambda>cloned. if cloned then return_x () else direct_stream env cx source temporary) s = Some (r, s')"
  shows "x_local s' = x_local s \<and> (\<exists>calls. x_log s' = x_log s @ calls \<and> list_all (moves_bytes source temporary) calls
    \<and> (is_ok r \<longrightarrow> complete_transfer source temporary calls))"
  using assms
proof (cases rule: bind_xE)
  case (failed e)
  then show ?thesis using clone_step [OF failed(1)] by auto
next
  case (went_on cloned s1)
  obtain calls where c: "x_local s1 = x_local s" "x_log s1 = x_log s @ calls" "list_all (moves_bytes source temporary) calls"
    "cloned \<longrightarrow> calls = [(ServerSideCopyCall source temporary, True)]"
    "\<not> cloned \<longrightarrow> calls \<in> {[], [(ServerSideCopyCall source temporary, False)]}"
    using clone_step [OF went_on(1)] by (cases cloned) auto
  show ?thesis
  proof (cases cloned)
    case True
    then show ?thesis using went_on(2) c by (auto simp: return_x_def complete_transfer_def)
  next
    case False
    then obtain more_calls where d: "x_local s' = x_local s1" "x_log s' = x_log s1 @ more_calls" "list_all (moves_bytes source temporary) more_calls"
      "is_ok r \<longrightarrow> (\<exists>chunks. [] \<notin> set chunks \<and> more_calls = [(OpenReadCall source, True), (OpenWriteCall temporary, True)]
         @ pumped chunks @ [(ReadCall [], True), (ShutdownCall, True)])"
      using went_on(2) direct_stream_log [of env cx source temporary s1 r s'] by auto
    have "complete_transfer source temporary (calls @ more_calls)" if "is_ok r"
      using d(4) c(5) that False unfolding complete_transfer_def by (metis append.assoc)
    then show ?thesis using c(1-3) d(1-3) by (intro conjI exI [of _ "calls @ more_calls"]) auto
  qed
qed

lemma bind_x_assoc: "bind_x (bind_x m f) g = bind_x m (\<lambda>a. bind_x (f a) g)"
  by (rule ext) (simp add: bind_x_def split: option.splits sum.splits)

lemma silent_parent_x: "silent (parent_x env l)"
  unfolding parent_x_def by (intro silent_rules silent_location)

lemma copy_into_temporary:
  assumes "bind_x (modify_x (\<lambda>c. c\<lparr>cl_temporary := Some temporary\<rparr>)) (\<lambda>_.
    bind_x (clone_x cx source temporary) (\<lambda>cloned.
    bind_x (if cloned then return_x () else direct_stream env cx source temporary) (\<lambda>_.
    bind_x (cancelled_x env) (\<lambda>_.
    bind_x (commit_loop env cx effective source temporary directory final final 1) (\<lambda>_.
    bind_x (modify_x (\<lambda>c. c\<lparr>cl_temporary := None\<rparr>)) (\<lambda>_. return_x OutcomeCompleted)))))) s = Some (r, s')"
  shows "\<exists>transfer calls. file_log (effective = Some Overwrite) source temporary (is_ok r) s s' transfer calls \<and> r \<noteq> Inr OutcomeSkipped"
proof -
  define s0 where "s0 = s\<lparr>x_local := (x_local s)\<lparr>cl_temporary := Some temporary\<rparr>\<rparr>"
  have run: "bind_x (bind_x (clone_x cx source temporary) (\<lambda>cloned. if cloned then return_x () else direct_stream env cx source temporary))
     (\<lambda>_. bind_x (cancelled_x env) (\<lambda>_.
    bind_x (commit_loop env cx effective source temporary directory final final 1) (\<lambda>_.
    bind_x (modify_x (\<lambda>c. c\<lparr>cl_temporary := None\<rparr>)) (\<lambda>_. return_x OutcomeCompleted)))) s0 = Some (r, s')"
    using assms by (simp add: bind_x_assoc bind_x_modify s0_def)
  from run show ?thesis
  proof (cases rule: bind_xE)
    case (failed e)
    then obtain transfer where "x_local s' = x_local s0" "x_log s' = x_log s0 @ transfer" "list_all (moves_bytes source temporary) transfer"
      using transfer_step [OF failed(1)] by auto
    then show ?thesis using failed(2) by (intro exI [of _ transfer] exI [of _ "[]"]) (simp add: file_log_failed s0_def)
  next
    case (went_on u s1)
    then obtain transfer where tr: "x_local s1 = x_local s0" "x_log s1 = x_log s0 @ transfer" "list_all (moves_bytes source temporary) transfer"
      "complete_transfer source temporary transfer"
      using transfer_step [OF went_on(1)] by auto
    from went_on(2) show ?thesis
    proof (cases rule: bind_xE)
      case (failed e)
      then show ?thesis using silentD [OF silent_cancelled failed(1)] tr
        by (intro exI [of _ transfer] exI [of _ "[]"]) (simp add: file_log_failed s0_def)
    next
      case (went_on u2 s2)
      have q: "x_local s2 = x_local s1" "x_log s2 = x_log s1" using silentD [OF silent_cancelled went_on(1)] by auto
      obtain r3 s3 where com: "commit_loop env cx effective source temporary directory final final 1 s2 = Some (r3, s3)"
        and fin: "s' = (if is_ok r3 then s3\<lparr>x_local := (x_local s3)\<lparr>cl_temporary := None\<rparr>\<rparr> else s3)" "is_ok r = is_ok r3" "r \<noteq> Inr OutcomeSkipped"
        using went_on(2) by (auto simp: bind_x_def exec_simps split: option.splits sum.splits)
      obtain calls where c: "x_log s3 = x_log s2 @ calls" "list_all (publishes (effective = Some Overwrite) source temporary) calls"
        "is_ok r3 \<longleftrightarrow> published source temporary calls"
        "x_local s3 = x_local s2 \<or> \<not> is_ok r3 \<and> x_local s3 = (x_local s2)\<lparr>cl_temporary := None\<rparr> \<and> (DiscardCall temporary, True) \<in> set calls"
        using commit_loop_log [OF com] unfolding commit_log_def by auto
      have "file_log (effective = Some Overwrite) source temporary (is_ok r) s s' transfer calls"
        using tr q c fin by (auto simp: file_log_def s0_def split: if_splits)
      then show ?thesis using fin(3) by blast
    qed
  qed
qed

lemma parent_x_step: "parent_x env l s = Some (r, s') \<Longrightarrow> s' = s"
  by (auto simp: parent_x_def location_x_def bind_x_def lift_x_def split: sum.splits)

lemma copy_file_log:
  assumes "copy_file env cx policy source final resolution s = Some (r, s')"
  shows "(\<not> is_ok r \<and> x_log s' = x_log s \<and> x_local s' = x_local s)
    \<or> (\<exists>temporary transfer calls. temporary_at env cx (x_clock s) = Inr temporary \<and> r \<noteq> Inr OutcomeSkipped
        \<and> file_log (effective_resolution policy resolution = Some Overwrite) source temporary (is_ok r) s s' transfer calls)"
  using assms unfolding copy_file_def
proof (cases rule: bind_xE)
  case (failed e)
  then show ?thesis using parent_x_step [OF failed(1)] by auto
next
  case (went_on directory s1)
  note s1 = parent_x_step [OF went_on(1)]
  show ?thesis
  proof (cases "temporary_at env cx (x_clock s)")
    case (Inl e)
    then show ?thesis using went_on(2) s1 by (auto simp: bind_x_run location_x_def temporary_at_def)
  next
    case (Inr temporary)
    define s2 where "s2 = s\<lparr>x_clock := Suc (x_clock s)\<rparr>"
    have run: "bind_x (modify_x (\<lambda>c. c\<lparr>cl_temporary := Some temporary\<rparr>)) (\<lambda>_.
      bind_x (clone_x cx source temporary) (\<lambda>cloned.
      bind_x (if cloned then return_x () else direct_stream env cx source temporary) (\<lambda>_.
      bind_x (cancelled_x env) (\<lambda>_.
      bind_x (commit_loop env cx (effective_resolution policy resolution) source temporary directory final final 1) (\<lambda>_.
      bind_x (modify_x (\<lambda>c. c\<lparr>cl_temporary := None\<rparr>)) (\<lambda>_. return_x OutcomeCompleted)))))) s2 = Some (r, s')"
      using went_on(2) Inr s1
      by (simp add: bind_x_lift bind_x_ask location_x_def temporary_at_def s2_def)
    from copy_into_temporary [OF run] obtain transfer calls where
      fl: "file_log (effective_resolution policy resolution = Some Overwrite) source temporary (is_ok r) s2 s' transfer calls"
      and r: "r \<noteq> Inr OutcomeSkipped" by blast
    have "file_log (effective_resolution policy resolution = Some Overwrite) source temporary (is_ok r) s s' transfer calls"
      using fl unfolding file_log_def by (auto simp: s2_def)
    then show ?thesis using r Inr by blast
  qed
qed

text \<open>C11: a copied file is published only when it is complete. Every call that publishes, successful or
  not, comes after the whole content has reached the temporary: either the provider cloned the file, or
  every chunk that was read was written in the same order, the end of the source was reached and the writer
  was shut down without an error. The file counts as completed exactly if it was published. The temporary is
  forgotten only when it was published or discarded.\<close>

theorem copy_publishes_complete_file:
  assumes "copy_file env cx policy source final resolution s = Some (r, s')"
  shows "\<exists>temporary transfer calls. x_log s' = x_log s @ transfer @ calls
    \<and> (\<forall>c\<in>set transfer. moves_bytes source temporary c)
    \<and> (\<forall>c\<in>set calls. publishes (effective_resolution policy resolution = Some Overwrite) source temporary c)
    \<and> (calls \<noteq> [] \<longrightarrow> complete_transfer source temporary transfer)
    \<and> (r = Inr OutcomeCompleted \<longleftrightarrow> published source temporary calls) \<and> r \<noteq> Inr OutcomeSkipped
    \<and> (transfer \<noteq> [] \<and> cl_temporary (x_local s') \<noteq> Some temporary \<longrightarrow>
        published source temporary calls \<or> (DiscardCall temporary, True) \<in> set calls)"
proof -
  have completed: "r = Inr OutcomeCompleted \<longleftrightarrow> is_ok r" if "r \<noteq> Inr OutcomeSkipped"
    using that by (cases r) (auto intro: execution_outcome.exhaust)
  from copy_file_log [OF assms] consider
    "\<not> is_ok r" "x_log s' = x_log s"
    | temporary transfer calls where "r \<noteq> Inr OutcomeSkipped"
      "file_log (effective_resolution policy resolution = Some Overwrite) source temporary (is_ok r) s s' transfer calls"
    by blast
  then show ?thesis
  proof cases
    case 1
    then have "r \<noteq> Inr OutcomeSkipped" by auto
    then show ?thesis using 1 completed by (intro exI [of _ source] exI [of _ "[]"]) (auto simp: published_def)
  next
    case 2
    then show ?thesis using completed unfolding file_log_def
      by (intro exI [of _ temporary] exI [of _ transfer] exI [of _ calls]) (auto simp: list_all_iff)
  qed
qed

section \<open>Executors only make the calls they may make\<close>

text \<open>The contract of an executor: whatever it is asked, it keeps its invariant and makes only calls that the
  request allows in the state in which it is asked.\<close>

locale executor_contract =
  fixes perform :: "executor_request \<Rightarrow> (executor_reply, 'x) exec"
    and inv :: "'x \<Rightarrow> bool"
    and allowed :: "'x \<Rightarrow> executor_request \<Rightarrow> vfs_call \<times> bool \<Rightarrow> bool"
  assumes perform_keeps: "inv (x_local s) \<Longrightarrow> perform request s = Some (r, s') \<Longrightarrow>
    inv (x_local s') \<and> (\<exists>new. x_log s' = x_log s @ new \<and> (\<forall>c\<in>set new. allowed (x_local s) request c))"
begin

text \<open>Every call of a run belongs to one of its requests, and was allowed in the state that the requests before it led to.\<close>

lemma run_keeps:
  assumes "run_requests perform requests s = Some (rs, s')" "inv (x_local s)"
  shows "inv (x_local s') \<and> (\<exists>new. x_log s' = x_log s @ new \<and> (\<forall>c\<in>set new. \<exists>before request rest rs0 s0.
    requests = before @ request # rest \<and> run_requests perform before s = Some (rs0, s0) \<and> allowed (x_local s0) request c))"
  using assms
proof (induction requests arbitrary: s rs)
  case (Cons request requests)
  obtain r s1 rs1 where r: "perform request s = Some (r, s1)" "run_requests perform requests s1 = Some (rs1, s')"
    using Cons.prems(1) by (auto split: option.splits)
  obtain n1 where 1: "inv (x_local s1)" "x_log s1 = x_log s @ n1" "\<forall>c\<in>set n1. allowed (x_local s) request c"
    using perform_keeps [OF Cons.prems(2) r(1)] by blast
  obtain n2 where 2: "inv (x_local s')" "x_log s' = x_log s1 @ n2" "\<forall>c\<in>set n2. \<exists>before request rest rs0 s0.
      requests = before @ request # rest \<and> run_requests perform before s1 = Some (rs0, s0) \<and> allowed (x_local s0) request c"
    using Cons.IH [OF r(2) 1(1)] by blast
  have "\<exists>before q rest rs0 s0. request # requests = before @ q # rest \<and> run_requests perform before s = Some (rs0, s0)
      \<and> allowed (x_local s0) q c" if member: "c \<in> set (n1 @ n2)" for c
  proof (cases "c \<in> set n1")
    case True
    then show ?thesis using 1(3) by (intro exI [of _ "[]"]) auto
  next
    case False
    then obtain before q rest rs0 s0 where "requests = before @ q # rest" "run_requests perform before s1 = Some (rs0, s0)"
        "allowed (x_local s0) q c"
      using 2(3) member by (metis Un_iff set_append)
    then show ?thesis using r(1) by (intro exI [of _ "request # before"]) auto
  qed
  then show ?case using 1(2) 2(1,2) by (intro conjI exI [of _ "n1 @ n2"]) auto
qed auto

lemma run_keeps_requests:
  assumes "run_requests perform requests s = Some (rs, s')" "inv (x_local s)"
  shows "inv (x_local s') \<and> (\<exists>new. x_log s' = x_log s @ new \<and> (\<forall>c\<in>set new. \<exists>request\<in>set requests. \<exists>x. allowed x request c))"
proof -
  obtain new where new: "x_log s' = x_log s @ new" and "inv (x_local s')"
    and all: "\<And>c. c \<in> set new \<Longrightarrow> \<exists>before request rest rs0 s0.
      requests = before @ request # rest \<and> run_requests perform before s = Some (rs0, s0) \<and> allowed (x_local s0) request c"
    using run_keeps [OF assms] by blast
  moreover have "\<exists>request\<in>set requests. \<exists>x. allowed x request c" if "c \<in> set new" for c
    using all [OF that] by auto
  ultimately show ?thesis by blast
qed

end

lemma keeps_contract:
  assumes "\<And>request. keeps I (allowed request) (perform request)"
  shows "executor_contract perform I (\<lambda>_. allowed)"
  by unfold_locales (use keepsD [OF assms] in metis)

definition overwrites :: "executor_request \<Rightarrow> bool" where
  "overwrites request \<longleftrightarrow>
    (case request of ExecuteRequest op _ resolution \<Rightarrow> effective_resolution (op_conflict_policy op) resolution = Some Overwrite | _ \<Rightarrow> False)"

text \<open>What a transfer may do, whichever item it executes: write only its temporaries, publish over an existing entry or remove one only when
  overwriting was chosen, never remove a tree, rename or trash anything.\<close>

definition transfer_call_ok :: "exec_env \<Rightarrow> copy_executor \<Rightarrow> bool \<Rightarrow> vfs_call \<times> bool \<Rightarrow> bool" where
  "transfer_call_ok env cx overwrite c =
    (case fst c of
       RemoveCall _ recursive \<Rightarrow> overwrite \<and> \<not> recursive
     | CommitCall _ temporary _ replace _ \<Rightarrow> is_temporary env cx temporary \<and> (replace \<longrightarrow> overwrite)
     | OpenWriteCall l \<Rightarrow> is_temporary env cx l
     | ServerSideCopyCall _ l \<Rightarrow> is_temporary env cx l
     | DiscardCall l \<Rightarrow> is_temporary env cx l
     | RenameCall _ _ \<Rightarrow> False
     | TrashCall _ \<Rightarrow> False
     | ArchiveCall _ _ \<Rightarrow> False
     | RemovePathCall _ _ \<Rightarrow> False
     | _ \<Rightarrow> True)"

definition copy_inv :: "exec_env \<Rightarrow> copy_executor \<Rightarrow> copy_local \<Rightarrow> bool" where
  "copy_inv env cx c \<longleftrightarrow> (\<forall>t. cl_temporary c = Some t \<longrightarrow> is_temporary env cx t)"

lemma moves_bytes_ok:
  "is_temporary env cx temporary \<Longrightarrow> moves_bytes source temporary c \<Longrightarrow> transfer_call_ok env cx overwrite c"
  by (auto simp: moves_bytes_def streams_def transfer_call_ok_def)

lemma publishes_ok:
  "is_temporary env cx temporary \<Longrightarrow> publishes replace source temporary c \<Longrightarrow> (replace \<Longrightarrow> overwrite) \<Longrightarrow> transfer_call_ok env cx overwrite c"
  by (auto simp: publishes_def transfer_call_ok_def)

lemma keeps_copy_file:
  assumes "effective_resolution policy resolution = Some Overwrite \<Longrightarrow> overwrite"
  shows "keeps (copy_inv env cx) (transfer_call_ok env cx overwrite) (copy_file env cx policy source final resolution)"
proof (rule keepsI)
  fix s r s'
  assume inv: "copy_inv env cx (x_local s)" and run: "copy_file env cx policy source final resolution s = Some (r, s')"
  from copy_file_log [OF run] consider "x_log s' = x_log s" "x_local s' = x_local s"
    | temporary transfer calls where "is_temporary env cx temporary"
      "file_log (effective_resolution policy resolution = Some Overwrite) source temporary (is_ok r) s s' transfer calls"
    unfolding is_temporary_def by blast
  then show "copy_inv env cx (x_local s') \<and> (\<exists>new. x_log s' = x_log s @ new \<and> (\<forall>c\<in>set new. transfer_call_ok env cx overwrite c))"
  proof cases
    case 1
    then show ?thesis using inv by simp
  next
    case 2
    then have "\<forall>c\<in>set (transfer @ calls). transfer_call_ok env cx overwrite c"
      using moves_bytes_ok [OF 2(1)] publishes_ok [OF 2(1)] assms by (auto simp: file_log_def list_all_iff)
    moreover have "copy_inv env cx (x_local s')" using 2 inv by (auto simp: file_log_def copy_inv_def)
    ultimately show ?thesis using 2(2) by (auto simp: file_log_def)
  qed
qed

lemma transfer_call_ok_simps [simp]:
  "transfer_call_ok env cx ov (InspectCall l, ok)" "transfer_call_ok env cx ov (CreateDirectoryCall l n, ok)"
  "transfer_call_ok env cx ov (CopySymlinkCall l d, ok)" "transfer_call_ok env cx ov (PreserveMetadataCall l d, ok)"
  "transfer_call_ok env cx ov (DiscardCall l, ok) \<longleftrightarrow> is_temporary env cx l"
  "transfer_call_ok env cx ov (RemoveCall l rec, ok) \<longleftrightarrow> ov \<and> \<not> rec"
  by (auto simp: transfer_call_ok_def)

lemma keeps_settle_destination:
  assumes "effective = Some Overwrite \<Longrightarrow> overwrite"
  shows "keeps (copy_inv env cx) (transfer_call_ok env cx overwrite) (settle_destination env cx effective planned)"
  unfolding settle_destination_def Let_def
  by (intro keeps_rules keeps_call keeps_vfs keeps_modify)
    (use assms in \<open>auto simp: outcome_def copy_inv_def rebase_planned_destinations_def\<close>)

lemma keeps_copy_execute:
  assumes "effective_resolution (op_conflict_policy op) resolution = Some Overwrite \<Longrightarrow> overwrite"
  shows "keeps (copy_inv env cx) (transfer_call_ok env cx overwrite) (copy_execute env cx op item resolution)"
  unfolding copy_execute_def copy_entry_def directory_target_def
  by (intro keeps_rules keeps_vfs keeps_modify keeps_settle_destination keeps_copy_file)
    (use assms in \<open>auto simp: copy_inv_def\<close>)

lemma keeps_copy_plan: "keeps (copy_inv env cx) (transfer_call_ok env cx overwrite) (copy_plan env cx op)"
  unfolding copy_plan_def by (intro keeps_rules keeps_vfs keeps_modify) (auto simp: copy_inv_def)

lemma keeps_copy_cleanup: "keeps (copy_inv env cx) (transfer_call_ok env cx overwrite) (copy_cleanup_partial cx)"
proof (rule keepsI)
  fix s r s'
  assume inv: "copy_inv env cx (x_local s)" and run: "copy_cleanup_partial cx s = Some (r, s')"
  show "copy_inv env cx (x_local s') \<and> (\<exists>new. x_log s' = x_log s @ new \<and> (\<forall>c\<in>set new. transfer_call_ok env cx overwrite c))"
    using run inv
    by (cases "cl_temporary (x_local s)")
      (auto simp: copy_cleanup_partial_def bind_x_run copy_inv_def return_x_def dest!: vfs_step)
qed

lemma keeps_copy_finish: "keeps (copy_inv env cx) (transfer_call_ok env cx overwrite) (copy_finish cx)"
  unfolding copy_finish_def by (intro keeps_rules keeps_for_each keeps_vfs) auto

lemma keeps_reply: "keeps I P m \<Longrightarrow> keeps I P (reply_x f m)"
  unfolding reply_x_def by (intro keeps_rules)

text \<open>What executing one planned item of a copy may do. It reads only its own source. It writes and publishes only its
  temporaries, at the planned destination or a variant of its name, and replaces or removes only the planned
  destination, only when overwriting was chosen, and never a tree. Directories and links are made there too.\<close>

definition item_call_ok :: "exec_env \<Rightarrow> copy_executor \<Rightarrow> bool \<Rightarrow> plan_item \<Rightarrow> planned_copy_entry \<Rightarrow> vfs_call \<times> bool \<Rightarrow> bool" where
  "item_call_ok env cx overwrite item planned c =
    (let source = entry_location (pc_source planned); d = pc_destination planned in
     case fst c of
       InspectCall _ \<Rightarrow> True
     | OpenReadCall l \<Rightarrow> l = source
     | ReadCall _ \<Rightarrow> True
     | WriteCall _ \<Rightarrow> True
     | ShutdownCall \<Rightarrow> True
     | OpenWriteCall l \<Rightarrow> is_temporary env cx l
     | ServerSideCopyCall from_source l \<Rightarrow> from_source = source \<and> is_temporary env cx l
     | DiscardCall l \<Rightarrow> is_temporary env cx l
     | CommitCall from_source temporary l replace _ \<Rightarrow> from_source = source \<and> is_temporary env cx temporary \<and> name_variant env d l
         \<and> (replace \<longrightarrow> overwrite \<and> l = d)
     | RemoveCall l recursive \<Rightarrow> overwrite \<and> l = d \<and> \<not> recursive
     | CreateDirectoryCall parent n \<Rightarrow> (\<exists>l. name_variant env d l \<and> location_parent (xe_uuid_ok env) l = Inr (Some parent)
         \<and> location_name (xe_uuid_ok env) l = Inr n)
     | CopySymlinkCall link l \<Rightarrow> link = entry_location (item_entry item) \<and> name_variant env d l
     | _ \<Rightarrow> False)"

text \<open>What a request to a copy may do, by what the copy has planned and remembered when it is asked.\<close>

definition copy_call_ok :: "exec_env \<Rightarrow> copy_executor \<Rightarrow> copy_local \<Rightarrow> executor_request \<Rightarrow> vfs_call \<times> bool \<Rightarrow> bool" where
  "copy_call_ok env cx local request c =
    (case request of
       PlanRequest op \<Rightarrow> (\<exists>l. copy_source cx op = Inr l \<and> fst c = InspectCall l)
     | ExecuteRequest op item resolution \<Rightarrow>
         (\<exists>planned. cl_planned local (uri (entry_location (item_entry item))) = Some planned
           \<and> item_call_ok env cx (overwrites request) item planned c)
     | CleanupRequest _ \<Rightarrow> (\<exists>l. cl_temporary local = Some l \<and> is_temporary env cx l \<and> fst c = DiscardCall l)
     | FinishRequest _ \<Rightarrow> (\<exists>e d. (e, d) \<in> set (cl_directories local) \<and> fst c = PreserveMetadataCall (entry_location e) d))"

lemma item_call_simps [simp]:
  "item_call_ok env cx ov item planned (InspectCall l, ok)"
  "item_call_ok env cx ov item planned (RemoveCall l recursive, ok) \<longleftrightarrow> ov \<and> l = pc_destination planned \<and> \<not> recursive"
  "item_call_ok env cx ov item planned (CopySymlinkCall link l, ok) \<longleftrightarrow>
    link = entry_location (item_entry item) \<and> name_variant env (pc_destination planned) l"
  "item_call_ok env cx ov item planned (CreateDirectoryCall parent n, ok) \<longleftrightarrow>
    (\<exists>l. name_variant env (pc_destination planned) l \<and> location_parent (xe_uuid_ok env) l = Inr (Some parent)
      \<and> location_name (xe_uuid_ok env) l = Inr n)"
  by (auto simp: item_call_ok_def Let_def)

lemma item_moves_bytes:
  "is_temporary env cx temporary \<Longrightarrow> moves_bytes (entry_location (pc_source planned)) temporary c \<Longrightarrow> item_call_ok env cx ov item planned c"
  by (auto simp: moves_bytes_def streams_def item_call_ok_def Let_def)

lemma item_publishes:
  assumes "is_temporary env cx temporary" "publishes replace (entry_location (pc_source planned)) temporary c"
    "commits_to env final replace c" "replace \<Longrightarrow> ov" "name_variant env (pc_destination planned) final"
    "replace \<Longrightarrow> final = pc_destination planned"
  shows "item_call_ok env cx ov item planned c"
  using assms name_variant_trans [OF _ assms(5)]
  by (auto simp: publishes_def item_call_ok_def commits_to_def Let_def split: vfs_call.splits)

subsection \<open>Results carried to what follows\<close>

lemma keeps_bind_result:
  assumes "keeps I P m" "\<And>s a s'. m s = Some (Inr a, s') \<Longrightarrow> keeps I P (f a)"
  shows "keeps I P (bind_x m f)"
proof (rule keepsI)
  fix s r s'
  assume s: "I (x_local s)" and run: "bind_x m f s = Some (r, s')"
  from run show "I (x_local s') \<and> (\<exists>new. x_log s' = x_log s @ new \<and> (\<forall>c\<in>set new. P c))"
  proof (cases rule: bind_xE)
    case (failed e)
    then show ?thesis using keepsD [OF assms(1) s] by metis
  next
    case (went_on a s1)
    obtain n1 where 1: "I (x_local s1)" "x_log s1 = x_log s @ n1" "\<forall>c\<in>set n1. P c"
      by (rule keepsD [OF assms(1) s went_on(1)])
    obtain n2 where 2: "I (x_local s')" "x_log s' = x_log s1 @ n2" "\<forall>c\<in>set n2. P c"
      by (rule keepsD [OF assms(2) [OF went_on(1)] 1(1) went_on(2)])
    then show ?thesis using 1 by (intro conjI exI [of _ "n1 @ n2"]) auto
  qed
qed

lemma keeps_run:
  "keeps I P m \<Longrightarrow> I (x_local s) \<Longrightarrow> m s = Some (r, s') \<Longrightarrow> I (x_local s') \<and> (\<exists>new. x_log s' = x_log s @ new \<and> (\<forall>c\<in>set new. P c))"
  unfolding keeps_def by blast

lemma parent_x_result: "parent_x env l s = Some (Inr p, s') \<Longrightarrow> location_parent (xe_uuid_ok env) l = Inr (Some p)"
  by (auto simp: parent_x_def location_x_def bind_x_def lift_x_def ok_or_Inr split: sum.splits)

lemma name_x_result: "name_x env l s = Some (Inr n, s') \<Longrightarrow> location_name (xe_uuid_ok env) l = Inr n"
  by (auto simp: name_x_def location_x_def lift_x_def)

lemma probe_copy_names_result:
  "probe_copy_names env cx parent n suffix s = Some y \<Longrightarrow>
   (\<forall>l. fst y = Inr l \<longrightarrow> (\<exists>k. location_join (xe_uuid_ok env) parent (copy_name n k) = Inr l))"
proof (induction rule: probe_copy_names.raw_induct [rotated 1, consumes 1, case_names 1])
  case (1 f env cx parent n suffix s y)
  show ?case
    using 1(2) by (auto split: sum.splits vfs_error.splits option.splits dest!: 1(1)) blast+
qed

lemma next_copy_destination_result:
  assumes "next_copy_destination env cx d s = Some (Inr l, s')"
  shows "name_variant env d l"
proof -
  obtain parent s1 n s2 where "parent_x env d s = Some (Inr parent, s1)" "name_x env d s1 = Some (Inr n, s2)"
      "probe_copy_names env cx parent n 1 s2 = Some (Inr l, s')"
    using assms unfolding next_copy_destination_def by (auto elim!: bind_xE)
  then show ?thesis using probe_copy_names_result parent_x_result name_x_result
    by (metis fst_conv name_variant.same name_variant.sibling)
qed

lemma settle_destination_result:
  assumes "settle_destination env cx effective planned s = Some (Inr (Some (settled, reuse)), s')"
  shows "name_variant env (pc_destination planned) (pc_destination settled) \<and> pc_source settled = pc_source planned
    \<and> (effective = Some Overwrite \<longrightarrow> pc_destination settled = pc_destination planned)"
  using assms unfolding settle_destination_def Let_def
  by (auto elim!: bind_xE simp: exec_simps conflict_error_def split: sum.splits if_splits option.splits conflict_resolution.splits
      intro: name_variant.same dest!: next_copy_destination_result)

lemma directory_target_result:
  assumes "directory_target env planned reuse s = Some (Inr (Some (parent, n)), s')"
  shows "location_parent (xe_uuid_ok env) (pc_destination planned) = Inr (Some parent) \<and> location_name (xe_uuid_ok env) (pc_destination planned) = Inr n"
  using assms unfolding directory_target_def
  by (auto elim!: bind_xE simp: exec_simps split: if_splits dest: parent_x_result name_x_result)

subsection \<open>Executing an item\<close>

lemma moves_bytes_commits: "moves_bytes source temporary c \<Longrightarrow> commits_to env final ov c"
  by (auto simp: moves_bytes_def streams_def commits_to_def)

lemma copy_file_targets:
  "keeps (\<lambda>_. True) (commits_to env final (effective_resolution policy resolution = Some Overwrite))
    (copy_file env cx policy source final resolution)"
proof -
  let ?P = "commits_to env final (effective_resolution policy resolution = Some Overwrite)"
  have move: "keeps (\<lambda>_. True) ?P (bind_x (clone_x cx source temporary) (\<lambda>cloned.
      if cloned then return_x () else direct_stream env cx source temporary))" for temporary
  proof (rule keepsI)
    fix s r s'
    assume "bind_x (clone_x cx source temporary) (\<lambda>cloned. if cloned then return_x () else direct_stream env cx source temporary) s = Some (r, s')"
    from transfer_step [OF this] show "True \<and> (\<exists>new. x_log s' = x_log s @ new \<and> (\<forall>c\<in>set new. ?P c))"
      using moves_bytes_commits by (fastforce simp: list_all_iff)
  qed
  have commit: "keeps (\<lambda>_. True) ?P (commit_loop env cx (effective_resolution policy resolution) source temporary directory final final 1)"
    if "location_parent (xe_uuid_ok env) final = Inr (Some directory)" for temporary directory
    using commit_loop_targets [of env cx "effective_resolution policy resolution" source temporary directory final final 1] that
    by (intro keepsI) (fastforce simp: list_all_iff intro: name_variant.same)
  have "copy_file env cx policy source final resolution =
    bind_x (parent_x env final) (\<lambda>directory.
    bind_x (ask_x (xe_uuid env)) (\<lambda>fresh.
    bind_x (location_x (location_join (xe_uuid_ok env) (cx_destination_directory cx) (''.fm-copy-'' @ fresh))) (\<lambda>temporary.
    bind_x (modify_x (\<lambda>c. c\<lparr>cl_temporary := Some temporary\<rparr>)) (\<lambda>_.
    bind_x (bind_x (clone_x cx source temporary) (\<lambda>cloned. if cloned then return_x () else direct_stream env cx source temporary)) (\<lambda>_.
    bind_x (cancelled_x env) (\<lambda>_.
    bind_x (commit_loop env cx (effective_resolution policy resolution) source temporary directory final final 1) (\<lambda>_.
    bind_x (modify_x (\<lambda>c. c\<lparr>cl_temporary := None\<rparr>)) (\<lambda>_. return_x OutcomeCompleted))))))))"
    by (simp add: copy_file_def bind_x_assoc)
  moreover have "keeps (\<lambda>_. True) ?P \<dots>"
    by (intro keeps_bind_result [OF keeps_parent] keeps_rules keeps_modify move commit parent_x_result) auto
  ultimately show ?thesis by simp
qed

lemma keeps_item_file:
  assumes "name_variant env (pc_destination planned) final"
    "effective_resolution policy resolution = Some Overwrite \<Longrightarrow> ov \<and> final = pc_destination planned"
  shows "keeps (copy_inv env cx) (item_call_ok env cx ov item planned)
    (copy_file env cx policy (entry_location (pc_source planned)) final resolution)"
proof (rule keepsI)
  fix s r s'
  let ?source = "entry_location (pc_source planned)" and ?ov = "effective_resolution policy resolution = Some Overwrite"
  assume inv: "copy_inv env cx (x_local s)" and run: "copy_file env cx policy ?source final resolution s = Some (r, s')"
  obtain new where to: "x_log s' = x_log s @ new" "\<forall>c\<in>set new. commits_to env final ?ov c"
    by (rule keepsD [OF copy_file_targets _ run]) simp
  from copy_file_log [OF run] consider "x_log s' = x_log s" "x_local s' = x_local s"
    | temporary transfer calls where "is_temporary env cx temporary" "file_log ?ov ?source temporary (is_ok r) s s' transfer calls"
    unfolding is_temporary_def by blast
  then show "copy_inv env cx (x_local s') \<and> (\<exists>new. x_log s' = x_log s @ new \<and> (\<forall>c\<in>set new. item_call_ok env cx ov item planned c))"
  proof cases
    case 1
    then show ?thesis using inv by simp
  next
    case 2
    then have new: "new = transfer @ calls" using to(1) by (simp add: file_log_def)
    have "item_call_ok env cx ov item planned c" if "c \<in> set transfer" for c
      using 2 that item_moves_bytes [OF 2(1)] by (auto simp: file_log_def list_all_iff)
    moreover have "item_call_ok env cx ov item planned c" if "c \<in> set calls" for c
      using 2 that to(2) assms new by (intro item_publishes [OF 2(1), of ?ov planned c final]) (auto simp: file_log_def list_all_iff)
    moreover have "copy_inv env cx (x_local s')" using 2 inv by (auto simp: file_log_def copy_inv_def)
    ultimately show ?thesis using 2(2) by (auto simp: file_log_def)
  qed
qed

lemma keeps_item_settle:
  assumes "effective = Some Overwrite \<Longrightarrow> ov"
  shows "keeps (copy_inv env cx) (item_call_ok env cx ov item planned) (settle_destination env cx effective planned)"
  unfolding settle_destination_def Let_def
  by (intro keeps_rules keeps_call keeps_vfs keeps_modify)
    (use assms in \<open>auto simp: outcome_def copy_inv_def rebase_planned_destinations_def\<close>)

lemma keeps_item_entry:
  assumes "name_variant env (pc_destination planned) (pc_destination settled)" "pc_source settled = pc_source planned"
    "effective_resolution policy resolution = Some Overwrite \<Longrightarrow> ov \<and> pc_destination settled = pc_destination planned"
    "\<And>parent n. target = Some (parent, n) \<Longrightarrow> location_parent (xe_uuid_ok env) (pc_destination settled) = Inr (Some parent)
      \<and> location_name (xe_uuid_ok env) (pc_destination settled) = Inr n"
  shows "keeps (copy_inv env cx) (item_call_ok env cx ov item planned) (copy_entry env cx policy item resolution settled reuse target)"
  unfolding copy_entry_def assms(2)
  by (intro keeps_rules keeps_vfs keeps_item_file assms(1)) (use assms in auto)

text \<open>The two parts of executing an item: settling its destination, and what follows for a settled entry.\<close>

definition copy_settled ::
  "exec_env \<Rightarrow> copy_executor \<Rightarrow> operation \<Rightarrow> plan_item \<Rightarrow> conflict_resolution option \<Rightarrow> planned_copy_entry \<Rightarrow> bool \<Rightarrow> (execution_outcome, copy_local) exec" where
  "copy_settled env cx op item resolution settled reuse =
    bind_x (directory_target env settled reuse) (\<lambda>target.
    bind_x (attempt_x (copy_entry env cx (op_conflict_policy op) item resolution settled reuse target)) (\<lambda>result.
    bind_x (if is_ok result \<and> pc_is_root settled
            then modify_x (\<lambda>c. c\<lparr>cl_completed_root := Some (pc_destination settled)\<rparr>) else return_x ()) (\<lambda>_.
    lift_x (soften cx item settled result))))"

lemma copy_execute_planned:
  assumes "cl_planned (x_local s) (uri (entry_location (item_entry item))) = Some planned"
  shows "copy_execute env cx op item resolution s =
    bind_x (settle_destination env cx (effective_resolution (op_conflict_policy op) resolution) planned) (\<lambda>found.
      case found of None \<Rightarrow> return_x OutcomeSkipped
      | Some (settled, reuse) \<Rightarrow> copy_settled env cx op item resolution settled reuse) s"
  unfolding copy_execute_def copy_settled_def using assms by (simp add: bind_x_run)

lemma keeps_directory_target: "keeps I P (directory_target env settled reuse)"
  unfolding directory_target_def by (intro keeps_rules)

lemma keeps_copy_settled:
  assumes "name_variant env (pc_destination planned) (pc_destination settled)" "pc_source settled = pc_source planned"
    "effective_resolution (op_conflict_policy op) resolution = Some Overwrite \<Longrightarrow> ov \<and> pc_destination settled = pc_destination planned"
  shows "keeps (copy_inv env cx) (item_call_ok env cx ov item planned) (copy_settled env cx op item resolution settled reuse)"
  unfolding copy_settled_def
proof (rule keeps_bind_result [OF keeps_directory_target])
  fix s target s'
  assume "directory_target env settled reuse s = Some (Inr target, s')"
  then have "location_parent (xe_uuid_ok env) (pc_destination settled) = Inr (Some parent)
      \<and> location_name (xe_uuid_ok env) (pc_destination settled) = Inr n" if "target = Some (parent, n)" for parent n
    using directory_target_result that by blast
  then show "keeps (copy_inv env cx) (item_call_ok env cx ov item planned)
    (bind_x (attempt_x (copy_entry env cx (op_conflict_policy op) item resolution settled reuse target)) (\<lambda>result.
     bind_x (if is_ok result \<and> pc_is_root settled
             then modify_x (\<lambda>c. c\<lparr>cl_completed_root := Some (pc_destination settled)\<rparr>) else return_x ()) (\<lambda>_.
     lift_x (soften cx item settled result))))"
    by (intro keeps_rules keeps_modify keeps_item_entry assms) (auto simp: copy_inv_def)
qed

lemma copy_execute_calls:
  assumes "copy_inv env cx (x_local s)" "copy_execute env cx op item resolution s = Some (r, s')"
  shows "copy_inv env cx (x_local s') \<and> (\<exists>new. x_log s' = x_log s @ new
    \<and> (\<forall>c\<in>set new. copy_call_ok env cx (x_local s) (ExecuteRequest op item resolution) c))"
proof (cases "cl_planned (x_local s) (uri (entry_location (item_entry item)))")
  case None
  then show ?thesis using assms by (auto simp: copy_execute_def bind_x_run)
next
  case (Some planned)
  let ?ov = "effective_resolution (op_conflict_policy op) resolution = Some Overwrite"
  have "keeps (copy_inv env cx) (item_call_ok env cx ?ov item planned)
    (bind_x (settle_destination env cx (effective_resolution (op_conflict_policy op) resolution) planned) (\<lambda>found.
      case found of None \<Rightarrow> return_x OutcomeSkipped
      | Some (settled, reuse) \<Rightarrow> copy_settled env cx op item resolution settled reuse))"
    by (rule keeps_bind_result [OF keeps_item_settle], simp)
      (auto intro!: keeps_rules keeps_copy_settled dest: settle_destination_result)
  from keeps_run [OF this assms(1) assms(2) [unfolded copy_execute_planned [OF Some]]]
  show ?thesis using Some by (simp add: copy_call_ok_def overwrites_def)
qed

lemma copy_plan_calls:
  assumes "copy_plan env cx op s = Some (r, s')" "copy_inv env cx (x_local s)"
  shows "copy_inv env cx (x_local s') \<and> (\<exists>new. x_log s' = x_log s @ new \<and> (\<forall>c\<in>set new. copy_call_ok env cx local (PlanRequest op) c))"
proof (cases "copy_source cx op")
  case (Inl e)
  then show ?thesis using assms by (auto simp: copy_plan_def bind_x_run)
next
  case (Inr source)
  have "keeps (copy_inv env cx) (copy_call_ok env cx local (PlanRequest op)) (copy_plan env cx op)"
    unfolding copy_plan_def Inr
    by (intro keeps_rules keeps_vfs keeps_modify keeps_bind_result [OF keeps_lift])
      (auto simp: copy_inv_def copy_call_ok_def lift_x_def Inr)
  then show ?thesis using assms(2,1) by (rule keeps_run)
qed

lemma for_each_calls:
  assumes "for_each_x f bs s = Some (r, s')" "\<And>b. b \<in> set bs \<Longrightarrow> keeps I P (f b)" "I (x_local s)"
  shows "I (x_local s') \<and> (\<exists>new. x_log s' = x_log s @ new \<and> (\<forall>c\<in>set new. P c))"
proof -
  have "keeps I P (for_each_x f bs)" using assms(2) by (induction bs) (auto intro!: keeps_rules)
  then show ?thesis using assms(3,1) by (rule keeps_run)
qed

lemma copy_finish_calls:
  assumes "copy_finish cx s = Some (r, s')" "copy_inv env cx (x_local s)"
  shows "copy_inv env cx (x_local s')
    \<and> (\<exists>new. x_log s' = x_log s @ new \<and> (\<forall>c\<in>set new. copy_call_ok env cx (x_local s) (FinishRequest op) c))"
  using assms(1) unfolding copy_finish_def bind_x_get
  by (rule for_each_calls)
    (use assms(2) in \<open>auto intro!: keeps_rules keeps_vfs simp: copy_call_ok_def\<close>)

lemma copy_cleanup_calls:
  assumes "copy_cleanup_partial cx s = Some (r, s')" "copy_inv env cx (x_local s)"
  shows "copy_inv env cx (x_local s')
    \<and> (\<exists>new. x_log s' = x_log s @ new \<and> (\<forall>c\<in>set new. copy_call_ok env cx (x_local s) (CleanupRequest op) c))"
  using assms
  by (cases "cl_temporary (x_local s)")
    (auto simp: copy_cleanup_partial_def bind_x_run copy_inv_def copy_call_ok_def return_x_def dest!: vfs_step)

lemma reply_x_step: "reply_x f m s = Some (r, s') \<Longrightarrow> \<exists>r'. m s = Some (r', s')"
  by (auto simp: reply_x_def return_x_def elim!: bind_xE)

interpretation copy_contract: executor_contract "copy_perform env cx" "copy_inv env cx" "copy_call_ok env cx" for env cx
proof
  fix s request r s'
  assume inv: "copy_inv env cx (x_local s)" and run: "copy_perform env cx request s = Some (r, s')"
  show "copy_inv env cx (x_local s') \<and> (\<exists>new. x_log s' = x_log s @ new \<and> (\<forall>c\<in>set new. copy_call_ok env cx (x_local s) request c))"
  proof (cases request)
    case (PlanRequest op)
    then show ?thesis using run inv copy_plan_calls [of env cx op s] by (auto dest!: reply_x_step)
  next
    case (ExecuteRequest op item resolution)
    then show ?thesis using run inv copy_execute_calls [of env cx s op item resolution] by (auto dest!: reply_x_step)
  next
    case (CleanupRequest op)
    then show ?thesis using run inv copy_cleanup_calls [of cx s] by (auto dest!: reply_x_step)
  next
    case (FinishRequest op)
    then show ?thesis using run inv copy_finish_calls [of cx s] by (auto dest!: reply_x_step)
  qed
qed

text \<open>What a move may do besides: rename the entry it was asked to move, remove an entry at the destination
  when overwriting was chosen, and remove its source, but only when it finishes.\<close>

definition move_allowed :: "exec_env \<Rightarrow> move_executor \<Rightarrow> executor_request \<Rightarrow> vfs_call \<times> bool \<Rightarrow> bool" where
  "move_allowed env mx request c =
    (case fst c of
       RemoveCall l recursive \<Rightarrow> overwrites request \<or> l = mx_source mx \<and> (\<exists>op. request = FinishRequest op)
     | RenameCall source _ \<Rightarrow> (case request of ExecuteRequest _ item _ \<Rightarrow> source = entry_location (item_entry item) | _ \<Rightarrow> False)
     | _ \<Rightarrow> transfer_call_ok env (mx_copy mx) (overwrites request) c)"

definition move_inv :: "exec_env \<Rightarrow> move_executor \<Rightarrow> move_local \<Rightarrow> bool" where
  "move_inv env mx m \<longleftrightarrow> copy_inv env (mx_copy mx) (ml_copy m)"

lemma move_allowed_copy: "transfer_call_ok env (mx_copy mx) (overwrites request) c \<Longrightarrow> move_allowed env mx request c"
  by (auto simp: move_allowed_def transfer_call_ok_def split: vfs_call.splits)

lemma move_allowed_simps [simp]:
  "move_allowed env mx request (InspectCall l, ok)"
  "move_allowed env mx (ExecuteRequest op item resolution) (RenameCall (entry_location (item_entry item)) d, ok)"
  "move_allowed env mx (FinishRequest op) (RemoveCall (mx_source mx) True, ok)"
  "overwrites request \<Longrightarrow> move_allowed env mx request (RemoveCall l rec, ok)"
  by (auto simp: move_allowed_def)

lemma keeps_in_copy:
  assumes "keeps (copy_inv env (mx_copy mx)) (transfer_call_ok env (mx_copy mx) (overwrites request)) m"
  shows "keeps (move_inv env mx) (move_allowed env mx request) (in_copy m)"
  unfolding in_copy_def
  by (rule keeps_within [OF keeps_mono [OF assms move_allowed_copy]]) (auto simp: move_inv_def)

lemma keeps_move_plan: "keeps (move_inv env mx) (move_allowed env mx request) (move_plan env mx op)"
  unfolding move_plan_def
  by (intro keeps_rules keeps_modify keeps_in_copy keeps_copy_plan) (auto simp: move_inv_def)

lemma keeps_settle_rename:
  assumes "effective = Some Overwrite \<Longrightarrow> overwrites request"
  shows "keeps (move_inv env mx) (move_allowed env mx request) (settle_rename env mx effective source destination)"
  unfolding settle_rename_def
  by (intro keeps_rules keeps_call keeps_vfs) (use assms in \<open>auto simp: outcome_def\<close>)

lemma keeps_move_execute:
  "keeps (move_inv env mx) (move_allowed env mx (ExecuteRequest op item resolution)) (move_execute env mx op item resolution)"
  unfolding move_execute_def
  by (intro keeps_rules keeps_vfs keeps_in_copy keeps_copy_execute keeps_settle_rename) (auto simp: overwrites_def)

lemma keeps_move_finish: "keeps (move_inv env mx) (move_allowed env mx (FinishRequest op)) (move_finish env mx)"
  unfolding move_finish_def
  by (intro keeps_rules keeps_vfs keeps_in_copy keeps_copy_finish) auto

interpretation move_contract: executor_contract "move_perform env mx" "move_inv env mx" "\<lambda>_. move_allowed env mx" for env mx
proof (rule keeps_contract)
  fix request
  show "keeps (move_inv env mx) (move_allowed env mx request) (move_perform env mx request)"
    by (cases request)
      (auto intro!: keeps_reply keeps_move_plan keeps_move_execute keeps_move_finish keeps_in_copy keeps_copy_cleanup
        simp: move_cleanup_partial_def)
qed

text \<open>C12: whatever the providers answer and whatever happens meanwhile, every call of a copy belongs to one of its requests
  and concerns only what that request is about. Planning inspects the source. Executing an item reads the source planned for it,
  writes only temporaries of the copy, and publishes, creates a directory or copies a link only at the destination planned
  for it, or at a variant of that name when renaming; it replaces or removes nothing but that destination, only
  when overwriting was chosen for the item, and never a tree. Cleaning up discards the remembered temporary, and finishing sets
  the metadata of the recorded directories. Nothing is renamed or trashed, and no source is written or removed.\<close>

theorem copy_calls_confined:
  assumes "run_requests (copy_perform env cx) requests \<lparr>x_clock = t, x_log = [], x_local = copy_local_new\<rparr> = Some (rs, s')"
  shows "\<forall>c\<in>set (x_log s'). \<exists>before request rest rs0 s0. requests = before @ request # rest
    \<and> run_requests (copy_perform env cx) before \<lparr>x_clock = t, x_log = [], x_local = copy_local_new\<rparr> = Some (rs0, s0)
    \<and> copy_call_ok env cx (x_local s0) request c"
proof -
  have "copy_inv env cx copy_local_new" by (simp add: copy_inv_def copy_local_new_def)
  then show ?thesis using copy_contract.run_keeps [OF assms] by simp
qed

section \<open>Temporaries of failed files\<close>

text \<open>the temporary of a file whose copy failed is lost as soon as the next file is copied: only one
  temporary is remembered, the new one takes its place, and the old one is neither discarded then nor can a
  later cleanup find it.\<close>

lemma next_file_forgets_temporary:
  assumes "cl_temporary (x_local s) = Some old" "copy_file env cx policy source final resolution s = Some (r, s')"
    "x_log s' \<noteq> x_log s" "temporary_at env cx (x_clock s) \<noteq> Inr old"
  shows "cl_temporary (x_local s') \<noteq> Some old
    \<and> (\<exists>calls. x_log s' = x_log s @ calls \<and> (\<forall>ok. (DiscardCall old, ok) \<notin> set calls))"
proof -
  obtain temporary transfer calls where new: "temporary_at env cx (x_clock s) = Inr temporary"
    and fl: "file_log (effective_resolution policy resolution = Some Overwrite) source temporary (is_ok r) s s' transfer calls"
    using copy_file_log [OF assms(2)] assms(3) by blast
  have other: "temporary \<noteq> old" using new assms(4) by auto
  then have "cl_temporary (x_local s') \<noteq> Some old" using fl by (auto simp: file_log_def)
  moreover have "(DiscardCall old, ok) \<notin> set (transfer @ calls)" for ok
    using fl other by (auto simp: file_log_def list_all_iff moves_bytes_def streams_def publishes_def)
  ultimately show ?thesis using fl by (auto simp: file_log_def intro!: exI [of _ "transfer @ calls"])
qed

section \<open>Moving across providers\<close>

lemma join_provider: "location_join uuid_ok l n = Inr l' \<Longrightarrow> provider_id l' = provider_id l"
proof -
  assume j: "location_join uuid_ok l n = Inr l'"
  consider "provider_id l = ''archive''" | "provider_id l = ''sftp''" | "provider_id l = ''ftp''" | "provider_id l = ''webdav''"
    | "provider_id l \<notin> {''archive'', ''sftp'', ''ftp'', ''webdav''}" by auto
  then show ?thesis
  proof cases
    case 1
    then show ?thesis using j by (auto simp: location_join_def archive_join_def result_simps)
  next
    case 2
    then show ?thesis using j
      by (auto simp: location_join_def sftp_join_def result_simps dest!: validate_name_nonempty intro: sftp_grammar.join_parses(1))
  next
    case 3
    then show ?thesis using j
      by (auto simp: location_join_def ftp_join_def result_simps dest!: validate_name_nonempty intro: ftp_grammar.join_parses(1))
  next
    case 4
    then show ?thesis using j
      by (auto simp: location_join_def webdav_join_def result_simps dest!: validate_name_nonempty intro: webdav_grammar.join_parses(1))
  next
    case 5
    then show ?thesis using j
      by (auto simp: location_join_def ensure_local_Inr result_simps dest!: validate_name_nonempty intro: file_grammar.join_parses(1))
  qed
qed

text \<open>a move between two providers never starts. Its plan always fails before any provider is called,
  since the check of the two paths rejects locations of different providers, although such a move has a
  strategy of its own, copying and then deleting.\<close>

lemma cross_provider_move_fails:
  assumes "provider_id (mx_source mx) \<noteq> provider_id (mx_destination_directory mx)"
  shows "\<exists>e. move_plan env mx op s = Some (Inl e, s)"
proof (cases "location_name (xe_uuid_ok env) (mx_source mx)")
  case (Inl e)
  then show ?thesis by (auto simp: move_plan_def name_x_def location_x_def bind_x_run)
next
  case (Inr n)
  show ?thesis
  proof (cases "location_join (xe_uuid_ok env) (mx_destination_directory mx) n")
    case (Inl e)
    then show ?thesis using Inr by (auto simp: move_plan_def name_x_def location_x_def bind_x_run)
  next
    case join: (Inr d)
    then have "provider_id d \<noteq> provider_id (mx_source mx)" using join_provider [OF join] assms by simp
    then show ?thesis using Inr join
      by (auto simp: move_plan_def name_x_def location_x_def check_paths_def validate_paths_def bind_x_run)
  qed
qed

section \<open>Removing the source of a move\<close>

definition looks :: "vfs_call \<times> bool \<Rightarrow> bool" where
  "looks c \<longleftrightarrow> (\<exists>l. fst c = InspectCall l) \<or> (\<exists>l d. fst c = PreserveMetadataCall l d)"

lemma settle_skip: "keeps (\<lambda>c. c = c0) looks (settle_destination env cx (Some Skip) planned)"
  unfolding settle_destination_def Let_def
  by (intro keeps_rules keeps_call keeps_vfs keeps_modify) (auto simp: outcome_def looks_def)

lemma copy_entry_not_skipped: "copy_entry env cx policy item resolution planned reuse target s = Some (r, s') \<Longrightarrow> r \<noteq> Inr OutcomeSkipped"
  by (auto simp: copy_entry_def return_x_def split: if_splits option.splits elim!: bind_xE dest!: copy_file_log)

lemma soften_Inr: "soften cx item planned result = Inr a \<longleftrightarrow> result = Inr a"
  by (auto simp: soften_def split: sum.splits if_splits)

lemma skipped_step:
  assumes "copy_execute env cx op item (Some Skip) s = Some (Inr OutcomeSkipped, s1)"
  shows "x_local s1 = x_local s \<and> (\<exists>calls. x_log s1 = x_log s @ calls \<and> (\<forall>c\<in>set calls. looks c))"
proof -
  obtain planned settled s2 where settle: "settle_destination env cx (Some Skip) planned s = Some (Inr settled, s2)"
    and rest: "(case settled of None \<Rightarrow> return_x OutcomeSkipped
     | Some (planned, reuse) \<Rightarrow>
         bind_x (directory_target env planned reuse) (\<lambda>target.
         bind_x (attempt_x (copy_entry env cx (op_conflict_policy op) item (Some Skip) planned reuse target)) (\<lambda>result.
         bind_x (if is_ok result \<and> pc_is_root planned
                 then modify_x (\<lambda>c. c\<lparr>cl_completed_root := Some (pc_destination planned)\<rparr>) else return_x ()) (\<lambda>_.
         lift_x (soften cx item planned result))))) s2 = Some (Inr OutcomeSkipped, s1)"
    using assms unfolding copy_execute_def effective_resolution_def
    by (auto simp: get_x_def lift_x_def elim!: bind_xE)
  have "s1 = s2"
  proof (cases settled)
    case None
    then show ?thesis using rest by (simp add: return_x_def)
  next
    case (Some a)
    then have False using rest
      by (auto simp: lift_x_def soften_Inr dest: copy_entry_not_skipped split: prod.splits elim!: bind_xE attempt_xE)
    then show ?thesis ..
  qed
  then show ?thesis by (auto intro: keepsD [OF settle_skip [of "x_local s"] _ settle])
qed

lemma copy_finish_looks: "keeps (\<lambda>c. c = c0) looks (copy_finish cx)"
  unfolding copy_finish_def by (intro keeps_rules keeps_for_each keeps_vfs) (auto simp: looks_def)

lemma in_copy_step:
  assumes "in_copy m s = Some (r, s')" "keeps (\<lambda>c. c = ml_copy (x_local s)) looks m"
  shows "x_local s' = x_local s \<and> (\<exists>calls. x_log s' = x_log s @ calls \<and> (\<forall>c\<in>set calls. looks c))"
proof -
  have k: "keeps (\<lambda>x. x = x_local s) looks (in_copy m)"
    unfolding in_copy_def by (rule keeps_within [OF assms(2)]) auto
  show ?thesis by (rule keepsD [OF k _ assms(1)]) auto
qed

lemma in_copy_run: "in_copy m s = Some (r, s') \<Longrightarrow>
  \<exists>t. m \<lparr>x_clock = x_clock s, x_log = x_log s, x_local = ml_copy (x_local s)\<rparr> = Some (r, t)
    \<and> x_log s' = x_log t \<and> x_local s' = (x_local s)\<lparr>ml_copy := x_local t\<rparr>"
  by (auto simp: in_copy_def within_x_def split: option.splits)

lemma move_finish_removes:
  assumes "ml_fallback (x_local s)" "cl_completed_root (ml_copy (x_local s)) = Some d" "\<forall>t. \<not> xe_cancelled env t"
    and run: "move_finish env mx s = Some (Inr (), s')"
  shows "\<exists>calls. x_log s' = x_log s @ calls @ [(InspectCall d, True), (RemoveCall (mx_source mx) True, True)] \<and> (\<forall>c\<in>set calls. looks c)"
proof -
  let ?remove = "\<lambda>_. bind_x (ask_x (xe_cancelled env)) (\<lambda>cancelled. if cancelled then return_x ()
      else bind_x (get_x (\<lambda>m. cl_completed_root (ml_copy m))) (\<lambda>completed.
      (case completed of
         None \<Rightarrow> return_x ()
       | Some destination \<Rightarrow>
           bind_x (vfs_x (InspectCall destination) (\<lambda>t. pr_inspect (mx_destination_provider mx) t destination)) (\<lambda>_.
           vfs_x (RemoveCall (mx_source mx) True) (\<lambda>t. tp_remove (mx_source_provider mx) t (mx_source mx) True)))))"
  have "bind_x (in_copy (copy_finish (mx_copy mx))) ?remove s = Some (Inr (), s')"
    using run assms(1) by (simp add: move_finish_def bind_x_get)
  then show ?thesis
  proof (cases rule: bind_xE)
    case (went_on u s1)
    obtain calls where c: "x_local s1 = x_local s" "x_log s1 = x_log s @ calls" "\<forall>c\<in>set calls. looks c"
      using in_copy_step [OF went_on(1) copy_finish_looks] by blast
    have "x_log s' = x_log s1 @ [(InspectCall d, True), (RemoveCall (mx_source mx) True, True)]"
      using went_on(2) assms(2,3) c(1) by (auto simp: bind_x_ask bind_x_get elim!: bind_xE dest!: vfs_step)
    then show ?thesis using c by auto
  qed simp
qed

text \<open>C18: moving a directory by copying deletes files that were not copied. When the directory exists at
  the destination and is merged, an entry in it that the user chooses to skip is not copied, but the whole
  source tree, with the skipped entry, is removed at the end: between skipping and the removal no file is
  read, written or published.\<close>

theorem move_deletes_skipped_entries:
  assumes "ml_fallback (x_local s)" "cl_completed_root (ml_copy (x_local s)) = Some d" "\<forall>t. \<not> xe_cancelled env t"
    and "move_execute env mx op item (Some Skip) s = Some (Inr OutcomeSkipped, s1)" "move_finish env mx s1 = Some (Inr (), s')"
  shows "\<exists>calls. x_log s' = x_log s @ calls @ [(InspectCall d, True), (RemoveCall (mx_source mx) True, True)]
    \<and> (\<forall>c\<in>set calls. looks c)"
proof -
  have "in_copy (copy_execute env (mx_copy mx) op item (Some Skip)) s = Some (Inr OutcomeSkipped, s1)"
    using assms(1,4) by (simp add: move_execute_def bind_x_get)
  then obtain t where t: "copy_execute env (mx_copy mx) op item (Some Skip) \<lparr>x_clock = x_clock s, x_log = x_log s, x_local = ml_copy (x_local s)\<rparr> = Some (Inr OutcomeSkipped, t)"
    and s1: "x_log s1 = x_log t" "x_local s1 = (x_local s)\<lparr>ml_copy := x_local t\<rparr>"
    using in_copy_run by blast
  obtain calls where c: "x_log s1 = x_log s @ calls" "\<forall>c\<in>set calls. looks c" "x_local s1 = x_local s"
    using skipped_step [OF t] s1 by auto
  obtain calls' where "x_log s' = x_log s1 @ calls' @ [(InspectCall d, True), (RemoveCall (mx_source mx) True, True)]" "\<forall>c\<in>set calls'. looks c"
    using move_finish_removes [of s1 d env mx s'] assms(1-3,5) c(3) by auto
  then show ?thesis using c by (intro exI [of _ "calls @ calls'"]) auto
qed

section \<open>The plan of a copy\<close>

text \<open>The reference: a tree of entries, the children of a directory in pages as the provider lists them. The
  walk pushes page after page, so that the children of the last page come first.\<close>

datatype entry_tree = Node entry_summary "entry_tree list list"

primrec tree_entry :: "entry_tree \<Rightarrow> entry_summary" where
  "tree_entry (Node e pages) = e"

definition child_destination :: "(string \<Rightarrow> bool) \<Rightarrow> location \<Rightarrow> entry_tree \<Rightarrow> location" where
  "child_destination uuid_ok d c = (case location_join uuid_ok d (es_name (tree_entry c)) of Inr l \<Rightarrow> l | Inl _ \<Rightarrow> d)"

fun targets :: "(string \<Rightarrow> bool) \<Rightarrow> location \<Rightarrow> entry_tree \<Rightarrow> (entry_summary \<times> location) list" where
  "targets uuid_ok d (Node e pages) =
    (e, d) # concat (map (\<lambda>c. targets uuid_ok (child_destination uuid_ok d c) c) (concat (rev pages)))"

fun joinable :: "(string \<Rightarrow> bool) \<Rightarrow> location \<Rightarrow> entry_tree \<Rightarrow> bool" where
  "joinable uuid_ok d (Node e pages) \<longleftrightarrow>
    (\<forall>c\<in>set (concat pages). is_ok (location_join uuid_ok d (es_name (tree_entry c))) \<and> joinable uuid_ok (child_destination uuid_ok d c) c)"

fun nodes :: "entry_tree \<Rightarrow> nat" where
  "nodes (Node e pages) = Suc (sum_list (map nodes (concat pages)))"

text \<open>What a provider that does not change shows of a tree.\<close>

fun lists_pages :: "transfer_provider \<Rightarrow> location \<Rightarrow> string option \<Rightarrow> entry_tree list list \<Rightarrow> bool" where
  "lists_pages pr l token [] \<longleftrightarrow> False"
| "lists_pages pr l token [p] \<longleftrightarrow>
    (\<forall>t. \<exists>page. pr_list pr t l token = Inr page \<and> dp_entries page = map tree_entry p \<and> \<not> dp_has_more page)"
| "lists_pages pr l token (p # q # ps) \<longleftrightarrow>
    (\<exists>token'. (\<forall>t. \<exists>page. pr_list pr t l token = Inr page \<and> dp_entries page = map tree_entry p \<and> dp_has_more page
       \<and> dp_token page = token') \<and> lists_pages pr l token' (q # ps))"

inductive shows_tree :: "transfer_provider \<Rightarrow> entry_tree \<Rightarrow> bool" for pr where
  leaf: "es_kind e \<noteq> Directory \<Longrightarrow> shows_tree pr (Node e [])"
| directory: "es_kind e = Directory \<Longrightarrow> lists_pages pr (es_location e) None pages \<Longrightarrow>
    \<forall>c\<in>set (concat pages). shows_tree pr c \<Longrightarrow> shows_tree pr (Node e pages)"

inductive_cases shows_NodeE: "shows_tree pr (Node e pages)"

lemma traverse_map: "(\<And>x. x \<in> set xs \<Longrightarrow> f x = Inr (g x)) \<Longrightarrow> traverse f xs = Inr (map g xs)"
  by (induction xs) auto

definition at_rest :: "('a, 'x) exec \<Rightarrow> 'x exec_state \<Rightarrow> 'a \<Rightarrow> bool" where
  "at_rest m s a \<longleftrightarrow> (\<exists>t. m s = Some (Inr a, s\<lparr>x_clock := t\<rparr>))"

lemma page_children:
  assumes "\<forall>c\<in>set p. is_ok (location_join uuid_ok d (es_name (tree_entry c)))"
  shows "traverse (\<lambda>child. and_then (location_join uuid_ok d (es_name child)) (\<lambda>d. Inr (child, d))) (rev (map tree_entry p))
    = Inr (rev (map (\<lambda>c. (tree_entry c, child_destination uuid_ok d c)) p))"
proof -
  let ?g = "\<lambda>child. (child, case location_join uuid_ok d (es_name child) of Inr l \<Rightarrow> l | Inl _ \<Rightarrow> d)"
  have "traverse (\<lambda>child. and_then (location_join uuid_ok d (es_name child)) (\<lambda>d. Inr (child, d))) (rev (map tree_entry p))
    = Inr (map ?g (rev (map tree_entry p)))"
    by (rule traverse_map) (use assms in \<open>auto simp: is_ok_Ex\<close>)
  also have "map ?g (rev (map tree_entry p)) = rev (map (\<lambda>c. (tree_entry c, child_destination uuid_ok d c)) p)"
    by (simp add: rev_map child_destination_def)
  finally show ?thesis .
qed

lemma question_answer: "question_x q s = Some (map_err Provider (q (x_clock s)), s\<lparr>x_clock := Suc (x_clock s)\<rparr>)"
  by (simp add: question_x_def bind_x_ask lift_x_def)

lemma push_children_pages:
  assumes "lists_pages (cx_source_provider cx) l token pages"
    "\<forall>c\<in>set (concat pages). is_ok (location_join (xe_uuid_ok env) d (es_name (tree_entry c)))"
  shows "at_rest (push_children env cx l d token stack) s
    (map (\<lambda>c. (tree_entry c, child_destination (xe_uuid_ok env) d c)) (concat (rev pages)) @ stack)"
  using assms
proof (induction "cx_source_provider cx" l token pages arbitrary: stack s rule: lists_pages.induct)
  case (2 l token p)
  obtain page where page: "pr_list (cx_source_provider cx) (x_clock s) l token = Inr page" "dp_entries page = map tree_entry p"
    "\<not> dp_has_more page" using 2(1) by auto
  have "\<forall>c\<in>set p. is_ok (location_join (xe_uuid_ok env) d (es_name (tree_entry c)))" using 2(2) by simp
  from page_children [OF this] page show ?case
    by (subst at_rest_def, subst push_children.simps) (auto simp: question_answer)
next
  case (3 l token p q ps)
  obtain token' where tok: "\<forall>t. \<exists>page. pr_list (cx_source_provider cx) t l token = Inr page \<and> dp_entries page = map tree_entry p
    \<and> dp_has_more page \<and> dp_token page = token'" and rest: "lists_pages (cx_source_provider cx) l token' (q # ps)"
    using 3(2) by auto
  then obtain page where page: "pr_list (cx_source_provider cx) (x_clock s) l token = Inr page" "dp_entries page = map tree_entry p"
    "dp_has_more page" "dp_token page = token'" by blast
  let ?f = "\<lambda>c. (tree_entry c, child_destination (xe_uuid_ok env) d c)"
  have "\<forall>c\<in>set p. is_ok (location_join (xe_uuid_ok env) d (es_name (tree_entry c)))" using 3(3) by simp
  note children = page_children [OF this]
  have ok: "\<forall>c\<in>set (concat (q # ps)). is_ok (location_join (xe_uuid_ok env) d (es_name (tree_entry c)))" using 3(3) by simp
  have "at_rest (push_children env cx l d token' (map ?f p @ stack)) (s\<lparr>x_clock := Suc (x_clock s)\<rparr>)
    (map ?f (concat (rev (q # ps))) @ map ?f p @ stack)"
    by (rule 3(1) [OF rest ok])
  then obtain t where "push_children env cx l d token' (map ?f p @ stack) (s\<lparr>x_clock := Suc (x_clock s)\<rparr>)
    = Some (Inr (map ?f (concat (rev (q # ps))) @ map ?f p @ stack), s\<lparr>x_clock := t\<rparr>)" by (auto simp: at_rest_def)
  then show ?case using page children
    by (subst at_rest_def, subst push_children.simps) (auto simp: question_answer)
qed simp

definition entry_item :: "entry_summary \<Rightarrow> plan_item" where
  "entry_item e = \<lparr>item_entry = \<lparr>entry_id = es_id e, entry_location = es_location e\<rparr>,
     item_bytes = (case es_size e of Some n \<Rightarrow> n | None \<Rightarrow> 0)\<rparr>"

definition record_target :: "copy_executor \<Rightarrow> string \<Rightarrow> entry_summary \<times> location \<Rightarrow> copy_walk \<Rightarrow> copy_walk" where
  "record_target cx root_uri = (\<lambda>(e, d). record_entry cx root_uri \<lparr>entry_id = es_id e, entry_location = es_location e\<rparr> e False d)"

lemma sum_list_concat_rev: "sum_list (map f (concat (rev xss))) = (sum_list (map f (concat xss)) :: nat)"
  by (induction xss) auto

text \<open>No link of the tree is followed: links are copied as links, or there are none.\<close>

fun keeps_links :: "copy_executor \<Rightarrow> entry_tree \<Rightarrow> bool" where
  "keeps_links cx (Node e pages) \<longleftrightarrow>
    (es_kind e = Symlink \<longrightarrow> cx_symlink_policy cx = CopyLink) \<and> (\<forall>c\<in>set (concat pages). keeps_links cx c)"

lemma copy_walk_trees:
  assumes "\<forall>t. \<not> xe_cancelled env t"
    "\<forall>(c, d)\<in>set trees. shows_tree (cx_source_provider cx) c \<and> joinable (xe_uuid_ok env) d c \<and> keeps_links cx c"
  shows "at_rest (copy_walk_loop env cx root_uri (map (map_prod tree_entry id) trees) w) s
    (fold (record_target cx root_uri) (concat (map (\<lambda>(c, d). targets (xe_uuid_ok env) d c) trees)) w)"
  using assms(2)
proof (induction "sum_list (map (nodes \<circ> fst) trees)" arbitrary: trees w s rule: less_induct)
  case less
  show ?case
  proof (cases trees)
    case Nil
    have "s = s\<lparr>x_clock := x_clock s\<rparr>" by simp
    then show ?thesis using Nil unfolding at_rest_def by (subst copy_walk_loop.simps) (auto intro: exI [of _ "x_clock s"])
  next
    case (Cons cd rest)
    obtain e pages d where cd: "cd = (Node e pages, d)" by (metis entry_tree.exhaust surj_pair)
    have shown: "shows_tree (cx_source_provider cx) (Node e pages)" and join: "joinable (xe_uuid_ok env) d (Node e pages)"
      and links: "keeps_links cx (Node e pages)"
      and others: "\<forall>(c, d)\<in>set rest. shows_tree (cx_source_provider cx) c \<and> joinable (xe_uuid_ok env) d c \<and> keeps_links cx c"
      using less.prems Cons cd by auto
    let ?w = "record_target cx root_uri (e, d) w"
    let ?children = "map (\<lambda>c. (c, child_destination (xe_uuid_ok env) d c)) (concat (rev pages))"
    define s1 where "s1 = s\<lparr>x_clock := Suc (x_clock s)\<rparr>"
    have step: "bind_x (cancelled_x env) (\<lambda>_. follow_entry cx e w) s = Some (Inr (Some (e, False), w), s1)"
      using assms(1) links by (auto simp: cancelled_x_def bind_x_assoc bind_x_ask bind_x_return follow_entry_def return_x_def s1_def)
    have next_turn: "at_rest (copy_walk_loop env cx root_uri (map (map_prod tree_entry id) (more_trees @ rest)) ?w) (s1\<lparr>x_clock := t2\<rparr>)
        (fold (record_target cx root_uri) (concat (map (\<lambda>(c, d). targets (xe_uuid_ok env) d c) (more_trees @ rest))) ?w)"
      if "sum_list (map (nodes \<circ> fst) more_trees) < nodes (Node e pages)"
        "\<forall>(c, d)\<in>set more_trees. shows_tree (cx_source_provider cx) c \<and> joinable (xe_uuid_ok env) d c \<and> keeps_links cx c" for more_trees t2
      by (rule less.hyps) (use that others Cons cd in auto)
    show ?thesis
    proof (cases "es_kind e = Directory")
      case False
      then have pages: "pages = []" using shown by (auto elim: shows_NodeE)
      have "at_rest (copy_walk_loop env cx root_uri (map (map_prod tree_entry id) rest) ?w) s1
        (fold (record_target cx root_uri) (concat (map (\<lambda>(c, d). targets (xe_uuid_ok env) d c) rest)) ?w)"
        using next_turn [of "[]" "x_clock s1"] by simp
      then show ?thesis using Cons cd step False pages
        unfolding at_rest_def by (subst copy_walk_loop.simps) (auto simp: s1_def record_target_def Let_def)
    next
      case True
      then have pages: "lists_pages (cx_source_provider cx) (es_location e) None pages" "\<forall>c\<in>set (concat pages). shows_tree (cx_source_provider cx) c"
        using shown by (auto elim: shows_NodeE)
      have "\<forall>c\<in>set (concat pages). is_ok (location_join (xe_uuid_ok env) d (es_name (tree_entry c)))" using join by simp
      from push_children_pages [OF pages(1) this, of "map (map_prod tree_entry id) rest" s1] obtain t where
        push: "push_children env cx (es_location e) d None (map (map_prod tree_entry id) rest) s1
          = Some (Inr (map (map_prod tree_entry id) (?children @ rest)), s1\<lparr>x_clock := t\<rparr>)"
        by (auto simp: at_rest_def comp_def)
      have "sum_list (map (nodes \<circ> fst) ?children) < nodes (Node e pages)"
        by (simp add: comp_def sum_list_concat_rev)
      moreover have "\<forall>(c, d)\<in>set ?children. shows_tree (cx_source_provider cx) c \<and> joinable (xe_uuid_ok env) d c \<and> keeps_links cx c"
        using pages(2) join links by auto
      ultimately have "at_rest (copy_walk_loop env cx root_uri (map (map_prod tree_entry id) (?children @ rest)) ?w) (s1\<lparr>x_clock := t\<rparr>)
        (fold (record_target cx root_uri) (concat (map (\<lambda>(c, d). targets (xe_uuid_ok env) d c) (?children @ rest))) ?w)"
        by (rule next_turn)
      then show ?thesis using Cons cd step True push
        unfolding at_rest_def by (subst copy_walk_loop.simps) (auto simp: s1_def record_target_def Let_def comp_def)
    qed
  qed
qed

definition planned_target :: "string \<Rightarrow> entry_summary \<times> location \<Rightarrow> string \<times> planned_copy_entry" where
  "planned_target root_uri = (\<lambda>(e, d). (uri (es_location e), \<lparr>pc_kind = es_kind e, pc_destination = d,
     pc_source = \<lparr>entry_id = es_id e, entry_location = es_location e\<rparr>, pc_is_root = (uri (es_location e) = root_uri)\<rparr>))"

definition directory_targets :: "(entry_summary \<times> location) list \<Rightarrow> (entry_ref \<times> location) list" where
  "directory_targets ts = [(\<lparr>entry_id = es_id e, entry_location = es_location e\<rparr>, d). (e, d) \<leftarrow> ts, es_kind e = Directory]"

lemma record_targets:
  "cw_items (fold (record_target cx root_uri) ts w) = cw_items w @ map (entry_item \<circ> fst) ts"
  "cw_planned (fold (record_target cx root_uri) ts w) = cw_planned w ++ map_of (rev (map (planned_target root_uri) ts))"
  "cw_directories (fold (record_target cx root_uri) ts w) = cw_directories w @ directory_targets ts"
  by (induction ts arbitrary: w)
    (auto simp: record_target_def record_entry_def Let_def entry_item_def planned_target_def directory_targets_def map_add_def
      split: option.splits)

text \<open>C13: the plan of a copy is the preorder of the tree, when no symbolic link is followed: the policy copies links as
  links, or the tree has none. (Under the other policy the target of a link is planned in its place.) For a source that does
  not change, an operation that is not cancelled, names that can be joined and a root destination that the path check
  accepts, and however the listings are paged, planning ends, lists every entry of the tree with its size, a directory before
  its contents, and records for each the destination reached by joining the names on the way from the root, with
  the directories in the order of the plan.\<close>

theorem copy_plan_is_preorder:
  assumes "keeps_links cx tree" "\<forall>t. \<not> xe_cancelled env t"
    and source: "copy_source cx op = Inr source" "\<forall>t. pr_inspect (cx_source_provider cx) t source = Inr (tree_entry tree)"
    and root_name: "root_name = (case cl_root_name (x_local s) of Some n \<Rightarrow> n | None \<Rightarrow> es_name (tree_entry tree))"
    and dest: "location_join (xe_uuid_ok env) (cx_destination_directory cx) root_name = Inr d"
    and paths: "provider_id source = provider_id d \<longrightarrow> validate_paths (xe_lower env) source d True = Inr ()"
    and tree: "shows_tree (cx_source_provider cx) tree" "joinable (xe_uuid_ok env) d tree"
  shows "\<exists>s'. copy_plan env cx op s
      = Some (Inr (operation_plan_new (map (entry_item \<circ> fst) (targets (xe_uuid_ok env) d tree))), s')
    \<and> cl_planned (x_local s') = map_of (rev (map (planned_target (uri source)) (targets (xe_uuid_ok env) d tree)))
    \<and> cl_directories (x_local s') = directory_targets (targets (xe_uuid_ok env) d tree)"
proof -
  let ?w = "\<lparr>cw_items = [], cw_planned = Map.empty, cw_directories = [], cw_followed = {}\<rparr>"
  define s1 where "s1 = s\<lparr>x_clock := Suc (x_clock s), x_log := x_log s @ [(InspectCall source, True)]\<rparr>"
  have "at_rest (copy_walk_loop env cx (uri source) (map (map_prod tree_entry id) [(tree, d)]) ?w) s1
    (fold (record_target cx (uri source)) (concat (map (\<lambda>(c, d). targets (xe_uuid_ok env) d c) [(tree, d)])) ?w)"
    by (rule copy_walk_trees) (use assms tree in auto)
  then obtain t where walk: "copy_walk_loop env cx (uri source) [(tree_entry tree, d)] ?w s1
    = Some (Inr (fold (record_target cx (uri source)) (targets (xe_uuid_ok env) d tree) ?w), s1\<lparr>x_clock := t\<rparr>)"
    by (auto simp: at_rest_def)
  have inspect: "vfs_x (InspectCall source) (\<lambda>t. pr_inspect (cx_source_provider cx) t source) s = Some (Inr (tree_entry tree), s1)"
    using source(2) by (simp add: vfs_x_def bind_x_def exec_simps outcome_def s1_def)
  have name: "(case cl_root_name (x_local s1) of Some n \<Rightarrow> n | None \<Rightarrow> es_name (tree_entry tree)) = root_name"
    using root_name by (simp add: s1_def)
  have check: "(if provider_id source = provider_id d then check_paths env source d else return_x ()) s1 = Some (Inr (), s1)"
    using paths by (simp add: check_paths_def exec_simps)
  have "copy_plan env cx op s = Some (Inr (operation_plan_new (map (entry_item \<circ> fst) (targets (xe_uuid_ok env) d tree))),
    s1\<lparr>x_clock := t, x_local := (x_local s1)\<lparr>cl_planned := map_of (rev (map (planned_target (uri source)) (targets (xe_uuid_ok env) d tree))),
      cl_directories := directory_targets (targets (xe_uuid_ok env) d tree)\<rparr>\<rparr>)"
    using source(1) dest
    by (simp add: copy_plan_def bind_x_lift bind_x_def [of "vfs_x _ _"] inspect bind_x_get name location_x_def
        bind_x_def [of "if _ then _ else _"] check bind_x_def [of "copy_walk_loop _ _ _ _ _"] walk bind_x_modify return_x_def record_targets)
  then show ?thesis by auto
qed

section \<open>A small tree\<close>

text \<open>The directory \<open>s/d\<close> with one file, to be copied or moved into \<open>t\<close>, where \<open>t/d\<close> and a file of the same
  name exist.\<close>

definition at_path :: "string \<Rightarrow> location" where
  "at_path p = location_new ''local'' (''file:///'' @ p)"

definition tree_summary :: "string \<Rightarrow> string \<Rightarrow> entry_kind \<Rightarrow> entry_summary" where
  "tree_summary p n k = \<lparr>es_id = length p, es_location = at_path p, es_name = n, es_kind = k, es_size = Some 2, es_modified_at = None,
     es_created_at = None, es_hidden = False, es_read_only = False, es_extension = None, es_mime_type = None, es_icon_key = None,
     es_metadata_revision = 0, es_git_status = None\<rparr>"

definition tree_page :: "entry_summary list \<Rightarrow> directory_page" where
  "tree_page es = \<lparr>dp_entries = es, dp_total_known = None, dp_has_more = False, dp_token = None\<rparr>"

definition tree_inspect :: "location \<Rightarrow> vfs_error + entry_summary" where
  "tree_inspect l =
    (if l \<in> {at_path ''s/d'', at_path ''t/d''} then Inr (tree_summary (drop 8 (uri l)) ''d'' Directory)
     else if l \<in> {at_path ''s/d/a'', at_path ''t/d/a''} then Inr (tree_summary (drop 8 (uri l)) ''a'' File)
     else Inl (VfsNotFound (uri l)))"

text \<open>Reading returns one chunk at the sixth tick and the end of the file at every other.\<close>

definition tree_provider :: transfer_provider where
  "tree_provider = \<lparr>pr_change_tracking = Unsupported,
     pr_list = (\<lambda>_ l _. Inr (tree_page (if l = at_path ''s/d'' then [tree_summary ''s/d/a'' ''a'' File] else []))),
     pr_inspect = (\<lambda>_ l. tree_inspect l), pr_watch = (\<lambda>_ _. Inr ()),
     tp_capabilities_for = (\<lambda>_ _. Inr {}), tp_transfer_capabilities = (\<lambda>_ _. Inr (from_provider_capabilities ''local'' {})),
     tp_resolve_symlink = (\<lambda>_ l. tree_inspect l), tp_same_filesystem = (\<lambda>_ _ _. Inr False), tp_server_side_copy = (\<lambda>_ _ _. Inr False),
     tp_open_read = (\<lambda>_ _. Inr ()), tp_open_write = (\<lambda>_ _. Inr ()), tp_read = (\<lambda>t. Inr (if t = 5 then ''ab'' else [])),
     tp_write_all = (\<lambda>_ _. Inr ()), tp_shutdown = (\<lambda>_. Inr ()), tp_commit_copy = (\<lambda>_ _ _ _ _ _. Inr ()), tp_discard_copy = (\<lambda>_ _. Inr ()),
     tp_remove = (\<lambda>_ _ _. Inr ()), tp_rename = (\<lambda>_ _ _. Inr ()), tp_create_directory = (\<lambda>_ l _. Inr l), tp_copy_symlink = (\<lambda>_ _ _. Inr ()),
     tp_preserve_metadata = (\<lambda>_ _ _. Inr ())\<rparr>"

definition tree_env :: exec_env where
  "tree_env = \<lparr>xe_uuid_ok = (\<lambda>_. True), xe_lower = id, xe_cancelled = (\<lambda>_. False), xe_select = (\<lambda>_. False), xe_uuid = show_nat, xe_fresh = id\<rparr>"

definition tree_copy :: copy_executor where
  "tree_copy = \<lparr>cx_source_provider = tree_provider, cx_destination_provider = tree_provider, cx_destination_directory = at_path ''t'',
     cx_symlink_policy = CopyLink, cx_source_override = Some (at_path ''s/d''), cx_continue_on_error = True,
     cx_transfer = transfer_select (from_provider_capabilities ''local'' {}) (from_provider_capabilities ''local'' {})\<rparr>"

definition tree_move :: move_executor where
  "tree_move = \<lparr>mx_source = at_path ''s/d'', mx_source_provider = tree_provider, mx_destination_provider = tree_provider,
     mx_destination_directory = at_path ''t'', mx_copy = tree_copy\<lparr>cx_continue_on_error := False\<rparr>, mx_force_fallback = False,
     mx_transfer = cx_transfer tree_copy\<rparr>"

definition tree_operation :: operation where
  "tree_operation = operation_new 1 0 Move [] (Some (at_path ''t'')) Ask"

definition tree_root :: plan_item where
  "tree_root = entry_item (tree_summary ''s/d'' ''d'' Directory)"

definition tree_child :: plan_item where
  "tree_child = entry_item (tree_summary ''s/d/a'' ''a'' File)"

definition started :: "nat \<Rightarrow> 'x \<Rightarrow> 'x exec_state" where
  "started t x = \<lparr>x_clock = t, x_log = [], x_local = x\<rparr>"

theorem copy_publishes_complete_file_witness:
  "\<exists>r s'. copy_file tree_env tree_copy Ask (at_path ''s/d/a'') (at_path ''t/a'') None (started 0 copy_local_new) = Some (r, s')
    \<and> (r = Inr OutcomeCompleted \<longrightarrow> (\<exists>temporary calls. published (at_path ''s/d/a'') temporary calls)) \<and> is_ok r \<and> length (x_log s') = 7"
proof -
  have "map_option (\<lambda>(r, s). (is_ok r, length (x_log s)))
    (copy_file tree_env tree_copy Ask (at_path ''s/d/a'') (at_path ''t/a'') None (started 0 copy_local_new)) = Some (True, 7)"
    by code_simp
  then obtain r s' where run: "copy_file tree_env tree_copy Ask (at_path ''s/d/a'') (at_path ''t/a'') None (started 0 copy_local_new) = Some (r, s')"
    "is_ok r" "length (x_log s') = 7" by auto
  then show ?thesis using copy_publishes_complete_file [OF run(1)] by blast
qed

theorem copy_calls_confined_witness:
  "\<exists>rs s'. run_requests (copy_perform tree_env tree_copy) [PlanRequest tree_operation, ExecuteRequest tree_operation tree_root (Some Overwrite),
      ExecuteRequest tree_operation tree_child (Some Overwrite), FinishRequest tree_operation, CleanupRequest tree_operation]
      \<lparr>x_clock = 0, x_log = [], x_local = copy_local_new\<rparr> = Some (rs, s')
    \<and> list_all is_ok rs \<and> length (x_log s') = 10
    \<and> list_all (\<lambda>c. \<exists>request local. copy_call_ok tree_env tree_copy local request c) (x_log s')"
proof -
  let ?requests = "[PlanRequest tree_operation, ExecuteRequest tree_operation tree_root (Some Overwrite),
      ExecuteRequest tree_operation tree_child (Some Overwrite), FinishRequest tree_operation, CleanupRequest tree_operation]"
  have "map_option (\<lambda>(rs, s). (list_all is_ok rs, length (x_log s)))
    (run_requests (copy_perform tree_env tree_copy) ?requests \<lparr>x_clock = 0, x_log = [], x_local = copy_local_new\<rparr>) = Some (True, 10)"
    by code_simp
  then obtain rs s' where run: "run_requests (copy_perform tree_env tree_copy) ?requests \<lparr>x_clock = 0, x_log = [], x_local = copy_local_new\<rparr> = Some (rs, s')"
    "list_all is_ok rs" "length (x_log s') = 10" by auto
  have "list_all (\<lambda>c. \<exists>request local. copy_call_ok tree_env tree_copy local request c) (x_log s')"
    using copy_calls_confined [OF run(1)] unfolding list_all_iff by blast
  then show ?thesis using run by blast
qed

theorem move_deletes_skipped_entries_witness:
  "\<exists>rs s s1 s' calls. run_requests (move_perform tree_env tree_move)
      [PlanRequest tree_operation, ExecuteRequest tree_operation tree_root (Some Overwrite)] (started 0 move_local_new) = Some (rs, s)
    \<and> move_execute tree_env tree_move tree_operation tree_child (Some Skip) s = Some (Inr OutcomeSkipped, s1)
    \<and> move_finish tree_env tree_move s1 = Some (Inr (), s')
    \<and> x_log s' = x_log s @ calls @ [(InspectCall (at_path ''t/d''), True), (RemoveCall (at_path ''s/d'') True, True)]
    \<and> (\<forall>c\<in>set calls. looks c)"
proof -
  let ?run = "run_requests (move_perform tree_env tree_move)
      [PlanRequest tree_operation, ExecuteRequest tree_operation tree_root (Some Overwrite)] (started 0 move_local_new)"
  have "map_option (\<lambda>(rs, s). (ml_fallback (x_local s), cl_completed_root (ml_copy (x_local s)),
      map_option (\<lambda>(r, s1). (r, map_option fst (move_finish tree_env tree_move s1)))
        (move_execute tree_env tree_move tree_operation tree_child (Some Skip) s))) ?run
    = Some (True, Some (at_path ''t/d''), Some (Inr OutcomeSkipped, Some (Inr ())))"
    by code_simp
  then obtain rs s s1 s' where run: "?run = Some (rs, s)" and 1: "ml_fallback (x_local s)"
    and 2: "cl_completed_root (ml_copy (x_local s)) = Some (at_path ''t/d'')"
    and 3: "move_execute tree_env tree_move tree_operation tree_child (Some Skip) s = Some (Inr OutcomeSkipped, s1)"
    and 4: "move_finish tree_env tree_move s1 = Some (Inr (), s')" by auto
  have 5: "\<forall>t. \<not> xe_cancelled tree_env t" by (simp add: tree_env_def)
  have "mx_source tree_move = at_path ''s/d''" by (simp add: tree_move_def)
  then show ?thesis using run 3 4 move_deletes_skipped_entries [OF 1 2 5 3 4] by metis
qed

theorem copy_plan_is_preorder_witness:
  "\<exists>s'. copy_plan tree_env tree_copy tree_operation (started 0 copy_local_new) = Some (Inr (operation_plan_new [tree_root, tree_child]), s')"
proof -
  let ?tree = "Node (tree_summary ''s/d'' ''d'' Directory) [[Node (tree_summary ''s/d/a'' ''a'' File) []]]"
  let ?d = "at_path ''t/d''"
  have 1: "keeps_links tree_copy ?tree" by code_simp
  have 2: "\<forall>t. \<not> xe_cancelled tree_env t" by (simp add: tree_env_def)
  have 3: "copy_source tree_copy tree_operation = Inr (at_path ''s/d'')" by (simp add: copy_source_def tree_copy_def)
  have "tree_inspect (at_path ''s/d'') = Inr (tree_summary ''s/d'' ''d'' Directory)" by code_simp
  then have 4: "\<forall>t. pr_inspect (cx_source_provider tree_copy) t (at_path ''s/d'') = Inr (tree_entry ?tree)"
    by (simp add: tree_copy_def tree_provider_def)
  have 5: "''d'' = (case cl_root_name (x_local (started 0 copy_local_new)) of Some n \<Rightarrow> n | None \<Rightarrow> es_name (tree_entry ?tree))"
    by code_simp
  have 6: "location_join (xe_uuid_ok tree_env) (cx_destination_directory tree_copy) ''d'' = Inr ?d" by code_simp
  have 7: "provider_id (at_path ''s/d'') = provider_id ?d \<longrightarrow> validate_paths (xe_lower tree_env) (at_path ''s/d'') ?d True = Inr ()"
    by code_simp
  have "shows_tree tree_provider (Node (tree_summary ''s/d/a'' ''a'' File) [])" by (rule shows_tree.leaf) (simp add: tree_summary_def)
  then have 8: "shows_tree (cx_source_provider tree_copy) ?tree"
    by (auto simp: tree_copy_def tree_summary_def tree_provider_def tree_page_def intro!: shows_tree.directory)
  have 9: "joinable (xe_uuid_ok tree_env) ?d ?tree" by code_simp
  have "map (entry_item \<circ> fst) (targets (xe_uuid_ok tree_env) ?d ?tree) = [tree_root, tree_child]" by code_simp
  then show ?thesis using copy_plan_is_preorder [OF 1 2 3 4 5 6 7 8 9] by auto
qed

end
