(* ===== verification/File_Operations_Laws.thy ===== *)
theory File_Operations_Laws
  imports Copy_Move_Laws File_Operations
begin

text \<open>
  What deleting does: the plan lists every entry after its contents, entries that are read-only are refused,
  nothing but the planned entries is removed, and the audit log receives one record with the right count.
\<close>

section \<open>The plan of a deletion\<close>

fun postorder :: "entry_tree \<Rightarrow> entry_summary list" where
  "postorder (Node e pages) = concat (map postorder (concat (rev pages))) @ [e]"

definition deletable :: "delete_executor \<Rightarrow> entry_summary \<Rightarrow> bool" where
  "deletable dx e \<longleftrightarrow> (es_read_only e \<longrightarrow> dx_override_read_only dx)"

lemma push_entries_pages:
  assumes "lists_pages pr l token pages"
  shows "at_rest (push_entries pr l token stack) s (map (\<lambda>c. (tree_entry c, False)) (concat (rev pages)) @ stack)"
  using assms
proof (induction pr l token pages arbitrary: stack s rule: lists_pages.induct)
  case (2 pr l token p)
  obtain page where "pr_list pr (x_clock s) l token = Inr page" "dp_entries page = map tree_entry p" "\<not> dp_has_more page"
    using 2(1) by auto
  then show ?case by (subst at_rest_def, subst push_entries.simps) (auto simp: question_answer Let_def)
next
  case (3 pr l token p q ps)
  obtain token' where tok: "\<forall>t. \<exists>page. pr_list pr t l token = Inr page \<and> dp_entries page = map tree_entry p
    \<and> dp_has_more page \<and> dp_token page = token'" and rest: "lists_pages pr l token' (q # ps)"
    using 3(2) by auto
  then obtain page where page: "pr_list pr (x_clock s) l token = Inr page" "dp_entries page = map tree_entry p"
    "dp_has_more page" "dp_token page = token'" by blast
  let ?f = "\<lambda>c. (tree_entry c, False)"
  have "at_rest (push_entries pr l token' (map ?f p @ stack)) (s\<lparr>x_clock := Suc (x_clock s)\<rparr>)
    (map ?f (concat (rev (q # ps))) @ map ?f p @ stack)"
    by (rule 3(1) [OF rest])
  then obtain t where "push_entries pr l token' (map ?f p @ stack) (s\<lparr>x_clock := Suc (x_clock s)\<rparr>)
    = Some (Inr (map ?f (concat (rev (q # ps))) @ map ?f p @ stack), s\<lparr>x_clock := t\<rparr>)" by (auto simp: at_rest_def)
  then show ?case using page
    by (subst at_rest_def, subst push_entries.simps) (auto simp: question_answer comp_def Let_def)
qed simp

text \<open>The stack of the walk: trees still to be walked, and directories whose contents were pushed.\<close>

datatype todo = Walk entry_tree | Emit entry_summary

fun todo_entry :: "todo \<Rightarrow> entry_summary \<times> bool" where
  "todo_entry (Walk c) = (tree_entry c, False)"
| "todo_entry (Emit e) = (e, True)"

fun todo_order :: "todo \<Rightarrow> entry_summary list" where
  "todo_order (Walk c) = postorder c"
| "todo_order (Emit e) = [e]"

fun todo_size :: "todo \<Rightarrow> nat" where
  "todo_size (Walk c) = 3 * nodes c"
| "todo_size (Emit e) = 1"

fun todo_shown :: "transfer_provider \<Rightarrow> todo \<Rightarrow> bool" where
  "todo_shown pr (Walk c) \<longleftrightarrow> shows_tree pr c"
| "todo_shown pr (Emit e) \<longleftrightarrow> es_kind e = Directory"

text \<open>The walk ends with the order, or fails when an entry must not be deleted.\<close>

definition walk_result :: "delete_executor \<Rightarrow> entry_summary list \<Rightarrow> plan_item list \<Rightarrow> ((execution_error + plan_item list) \<times> 'x exec_state) option \<Rightarrow> 'x exec_state \<Rightarrow> bool" where
  "walk_result dx order items result s \<longleftrightarrow>
    (\<exists>t. if \<forall>e\<in>set order. deletable dx e then result = Some (Inr (items @ map entry_item order), s\<lparr>x_clock := t\<rparr>)
         else \<exists>e. result = Some (Inl (ExecFailed e), s\<lparr>x_clock := t\<rparr>))"

lemma todo_size_children: "sum_list (map (todo_size \<circ> Walk) (concat (rev pages))) = 3 * sum_list (map nodes (concat pages))"
proof -
  have "sum_list (map (todo_size \<circ> Walk) xs) = 3 * sum_list (map nodes xs)" for xs by (induction xs) auto
  then show ?thesis by (simp only: sum_list_concat_rev)
qed

lemma walk_result_later: "walk_result dx order items r (s\<lparr>x_clock := t\<rparr>) \<longleftrightarrow> walk_result dx order items r s"
  by (simp add: walk_result_def)

lemma walk_result_Cons:
  "deletable dx e \<Longrightarrow> walk_result dx order (items @ [entry_item e]) r s \<Longrightarrow> walk_result dx (e # order) items r s"
  by (cases "\<forall>e\<in>set order. deletable dx e") (auto simp: walk_result_def)

lemma delete_walk_todos:
  assumes "\<forall>t. \<not> xe_cancelled env t" "list_all (todo_shown pr) todos"
  shows "walk_result dx (concat (map todo_order todos)) items (delete_walk env dx pr (map todo_entry todos) items s) s"
  using assms(2)
proof (induction "sum_list (map todo_size todos)" arbitrary: todos items s rule: less_induct)
  case less
  let ?s = "s\<lparr>x_clock := Suc (x_clock s)\<rparr>"
  have go: "cancelled_x env s = Some (Inr (), ?s)"
    using assms(1) by (simp add: cancelled_x_def bind_x_ask return_x_def)
  have refused: "walk_result dx order items (Some (Inl (ExecFailed e), ?s)) s" if "x \<in> set order" "\<not> deletable dx x" for order x e
    using that unfolding walk_result_def by auto
  show ?case
  proof (cases todos)
    case Nil
    have "s = s\<lparr>x_clock := x_clock s\<rparr>" by simp
    then show ?thesis using Nil unfolding walk_result_def
      by (subst delete_walk.simps) (auto intro: exI [of _ "x_clock s"])
  next
    case (Cons todo rest)
    have rest: "list_all (todo_shown pr) rest" using less.prems Cons by simp
    have emit: "walk_result dx (e # concat (map todo_order rest)) items (delete_walk env dx pr (map todo_entry rest) (items @ [entry_item e]) ?s) s"
      if "deletable dx e" "0 < todo_size todo" for e
    proof -
      have "walk_result dx (concat (map todo_order rest)) (items @ [entry_item e])
          (delete_walk env dx pr (map todo_entry rest) (items @ [entry_item e]) ?s) ?s"
        by (rule less.hyps) (use that rest Cons in auto)
      then show ?thesis using that(1) by (simp add: walk_result_later walk_result_Cons)
    qed
    show ?thesis
    proof (cases todo)
      case (Emit e)
      show ?thesis
      proof (cases "deletable dx e")
        case True
        then show ?thesis using emit [of e] Cons Emit go
          by (subst delete_walk.simps) (auto simp: deletable_def entry_item_def)
      next
        case False
        then show ?thesis using Cons Emit go refused [of e "e # concat (map todo_order rest)"]
          by (subst delete_walk.simps) (auto simp: deletable_def)
      qed
    next
      case (Walk c)
      obtain e pages where c: "c = Node e pages" by (cases c)
      have shown: "shows_tree pr (Node e pages)" using less.prems Cons Walk c by simp
      have order: "concat (map todo_order todos) = concat (map postorder (concat (rev pages))) @ e # concat (map todo_order rest)"
        using Cons Walk c by simp
      show ?thesis
      proof (cases "deletable dx e")
        case False
        then show ?thesis using Cons Walk c go refused [of e "concat (map todo_order todos)"] order
          by (subst delete_walk.simps) (auto simp: deletable_def)
      next
        case del: True
        show ?thesis
        proof (cases "es_kind e = Directory")
          case False
          then have "pages = []" using shown by (auto elim: shows_NodeE)
          then show ?thesis using emit [of e] del Cons Walk c go False
            by (subst delete_walk.simps) (auto simp: deletable_def entry_item_def)
        next
          case True
          then have pages: "lists_pages pr (es_location e) None pages" "\<forall>c\<in>set (concat pages). shows_tree pr c"
            using shown by (auto elim: shows_NodeE)
          let ?todos = "map Walk (concat (rev pages)) @ Emit e # rest"
          obtain t where push: "push_entries pr (es_location e) None ((e, True) # map todo_entry rest) ?s
              = Some (Inr (map todo_entry ?todos), ?s\<lparr>x_clock := t\<rparr>)"
            using push_entries_pages [OF pages(1), of "(e, True) # map todo_entry rest" ?s] by (auto simp: at_rest_def comp_def)
          have "sum_list (map todo_size ?todos) < sum_list (map todo_size todos)"
            using Cons Walk c todo_size_children [of pages] by simp
          moreover have "list_all (todo_shown pr) ?todos" using pages(2) rest True by (auto simp: list_all_iff)
          ultimately have "walk_result dx (concat (map todo_order ?todos)) items
              (delete_walk env dx pr (map todo_entry ?todos) items (?s\<lparr>x_clock := t\<rparr>)) (?s\<lparr>x_clock := t\<rparr>)"
            by (rule less.hyps)
          moreover have "delete_walk env dx pr (map todo_entry todos) items s = delete_walk env dx pr (map todo_entry ?todos) items (?s\<lparr>x_clock := t\<rparr>)"
            using Cons Walk c go True push del by (subst delete_walk.simps) (auto simp: deletable_def)
          moreover have "concat (map todo_order ?todos) = concat (map todo_order todos)" using order by (simp add: comp_def)
          ultimately show ?thesis by (simp add: walk_result_later)
        qed
      qed
    qed
  qed
qed

definition source_shows :: "delete_executor \<Rightarrow> entry_ref \<Rightarrow> entry_tree \<Rightarrow> bool" where
  "source_shows dx source tree \<longleftrightarrow> (\<exists>pr. dx_providers dx (provider_id (entry_location source)) = Some pr
     \<and> (\<forall>t. pr_inspect pr t (entry_location source) = Inr (tree_entry tree)) \<and> shows_tree pr tree)"

definition sources_result ::
  "delete_executor \<Rightarrow> entry_summary list \<Rightarrow> plan_item list \<Rightarrow> ((execution_error + plan_item list) \<times> 'x exec_state) option \<Rightarrow> bool" where
  "sources_result dx order items result \<longleftrightarrow>
    (if \<forall>e\<in>set order. deletable dx e then \<exists>s'. result = Some (Inr (items @ map entry_item order), s')
     else \<exists>e s'. result = Some (Inl (ExecFailed e), s'))"

lemma delete_sources_trees:
  assumes "\<forall>t. \<not> xe_cancelled env t" "list_all2 (source_shows dx) sources trees"
  shows "sources_result dx (concat (map postorder trees)) items (delete_sources env dx sources items s)"
  using assms(2)
proof (induction sources trees arbitrary: items s rule: list_all2_induct)
  case Nil
  then show ?case by (simp add: sources_result_def return_x_def)
next
  case (Cons source sources tree trees)
  obtain pr where pr: "dx_providers dx (provider_id (entry_location source)) = Some pr"
    "\<forall>t. pr_inspect pr t (entry_location source) = Inr (tree_entry tree)" "shows_tree pr tree"
    using Cons(1) by (auto simp: source_shows_def)
  define s1 where "s1 = s\<lparr>x_clock := Suc (x_clock s), x_log := x_log s @ [(InspectCall (entry_location source), True)]\<rparr>"
  have "vfs_x (InspectCall (entry_location source)) (\<lambda>t. pr_inspect pr t (entry_location source)) s = Some (Inr (tree_entry tree), s1)"
    using pr(2) by (simp add: vfs_x_def bind_x_def exec_simps outcome_def s1_def)
  then have run: "delete_sources env dx (source # sources) items s
      = bind_x (delete_walk env dx pr [(tree_entry tree, False)] items) (\<lambda>items. delete_sources env dx sources items) s1"
    using pr(1) by (simp add: delete_provider_def bind_x_lift bind_x_def [of "vfs_x _ _"])
  have walk: "walk_result dx (postorder tree) items (delete_walk env dx pr [(tree_entry tree, False)] items s1) s1"
    using delete_walk_todos [OF assms(1), of pr "[Walk tree]" dx items s1] pr(3) by simp
  show ?case
  proof (cases "\<forall>e\<in>set (postorder tree). deletable dx e")
    case True
    then obtain t where "delete_walk env dx pr [(tree_entry tree, False)] items s1
        = Some (Inr (items @ map entry_item (postorder tree)), s1\<lparr>x_clock := t\<rparr>)"
      using walk by (auto simp: walk_result_def)
    then have "delete_sources env dx (source # sources) items s
        = delete_sources env dx sources (items @ map entry_item (postorder tree)) (s1\<lparr>x_clock := t\<rparr>)"
      using run by (simp add: bind_x_def)
    then show ?thesis
      using Cons(3) [of "items @ map entry_item (postorder tree)" "s1\<lparr>x_clock := t\<rparr>"] True
      unfolding sources_result_def by (cases "\<forall>e\<in>set (concat (map postorder trees)). deletable dx e") auto
  next
    case False
    then obtain e t where "delete_walk env dx pr [(tree_entry tree, False)] items s1 = Some (Inl (ExecFailed e), s1\<lparr>x_clock := t\<rparr>)"
      using walk unfolding walk_result_def by (auto split: if_splits)
    then show ?thesis using run False unfolding sources_result_def by (auto simp: bind_x_def)
  qed
qed

text \<open>C14: the plan of a deletion lists every entry below the sources exactly in postorder, so that a
  directory comes after everything in it and is empty when its turn comes; planning ends. If any entry is
  read-only and overriding was not asked for, there is no plan at all and nothing is deleted.\<close>

theorem delete_plan_is_postorder:
  assumes "\<forall>t. \<not> xe_cancelled env t" "list_all2 (source_shows dx) (op_sources op) trees"
  shows "if \<forall>e\<in>set (concat (map postorder trees)). deletable dx e
    then \<exists>s'. delete_plan env dx op s = Some (Inr (operation_plan_new (map entry_item (concat (map postorder trees)))), s')
    else \<exists>e s'. delete_plan env dx op s = Some (Inl (ExecFailed e), s')"
  using delete_sources_trees [OF assms, of "[]" s]
  by (auto simp: delete_plan_def reply_x_def bind_x_def sources_result_def return_x_def split: if_splits)

section \<open>What a deletion removes and records\<close>

definition removed :: "(vfs_call \<times> bool) list \<Rightarrow> nat" where
  "removed calls = length [c \<leftarrow> calls. \<exists>l. c = (RemoveCall l False, True)]"

definition delete_allowed :: "executor_request \<Rightarrow> vfs_call \<times> bool \<Rightarrow> bool" where
  "delete_allowed request c \<longleftrightarrow> (\<exists>l. fst c = InspectCall l)
    \<or> (\<exists>op item resolution. request = ExecuteRequest op item resolution \<and> fst c = RemoveCall (entry_location (item_entry item)) False)"

text \<open>The audit log holds one record once the flag is set, and none before.\<close>

definition audit_inv :: "delete_local \<Rightarrow> bool" where
  "audit_inv c \<longleftrightarrow> length (dl_audit_log c) = (if dl_audited c then 1 else 0)"

lemma silent_push_entries: "silent (push_entries pr l token stack)"
proof -
  have "x_local (snd y) = x_local s \<and> x_log (snd y) = x_log s" if "push_entries pr l token stack s = Some y" for y s
    using that
  proof (induction rule: push_entries.raw_induct [rotated 1, consumes 1, case_names 1])
    case (1 f pr l token stack s y)
    show ?case
      using 1(2) by (auto split: option.splits sum.splits if_splits simp: Let_def dest!: 1(1) silentD [OF silent_question])
  qed
  then show ?thesis by (fastforce simp: silent_def)
qed

lemma silent_delete_walk: "silent (delete_walk env dx pr stack items)"
proof -
  have "x_local (snd y) = x_local s \<and> x_log (snd y) = x_log s" if "delete_walk env dx pr stack items s = Some y" for y s
    using that
  proof (induction rule: delete_walk.raw_induct [rotated 1, consumes 1, case_names 1])
    case (1 f env dx pr stack items s y)
    show ?case
      using 1(2)
      by (auto split: list.splits option.splits sum.splits if_splits dest!: 1(1) silentD [OF silent_cancelled] silentD [OF silent_push_entries])
  qed
  then show ?thesis by (fastforce simp: silent_def)
qed

lemma keeps_delete_sources:
  assumes "\<And>l ok. P (InspectCall l, ok)"
  shows "keeps I P (delete_sources env dx sources items)"
  using assms
  by (induction env dx sources items rule: delete_sources.induct)
    (auto intro!: keeps_rules keeps_vfs silent_keeps [OF silent_delete_walk] simp: delete_provider_def)

lemma keeps_delete_execute:
  "keeps audit_inv (delete_allowed (ExecuteRequest op item resolution)) (delete_execute dx item)"
  unfolding delete_execute_def delete_provider_def
  by (intro keeps_rules keeps_call keeps_modify) (auto simp: delete_allowed_def outcome_def audit_inv_def)

lemma keeps_write_audit: "keeps audit_inv P (write_audit audit_io op)"
  by (rule keepsI) (auto simp: write_audit_def bind_x_run exec_simps audit_inv_def split: if_splits elim!: bind_xE)

interpretation delete_contract: executor_contract "delete_perform env audit_io dx" audit_inv "\<lambda>_. delete_allowed" for env audit_io dx
proof (rule keeps_contract)
  fix request
  show "keeps audit_inv (delete_allowed request) (delete_perform env audit_io dx request)"
    by (cases request)
      (auto intro!: keeps_reply keeps_delete_sources keeps_delete_execute keeps_write_audit
        simp: delete_plan_def delete_cleanup_partial_def delete_finish_def delete_allowed_def)
qed

text \<open>The counter of deleted entries is the number of successful removals.\<close>

definition counts_removed :: "(executor_request \<Rightarrow> (executor_reply, delete_local) exec) \<Rightarrow> executor_request \<Rightarrow> bool" where
  "counts_removed perform request \<longleftrightarrow> (\<forall>s r s'. perform request s = Some (r, s') \<longrightarrow>
     (\<exists>new. x_log s' = x_log s @ new \<and> dl_deleted (x_local s') = dl_deleted (x_local s) + of_nat (removed new)))"

lemma removed_append [simp]: "removed (a @ b) = removed a + removed b"
  by (simp add: removed_def)

lemma removed_none: "(\<forall>c\<in>set new. \<exists>l. fst c = InspectCall l) \<Longrightarrow> removed new = 0"
  by (auto simp: removed_def filter_empty_conv)

lemma counts_none:
  assumes "\<And>n. keeps (\<lambda>c. dl_deleted c = n) (\<lambda>c. \<exists>l. fst c = InspectCall l) (perform request)"
  shows "counts_removed perform request"
  unfolding counts_removed_def
proof (intro allI impI)
  fix s r s'
  assume run: "perform request s = Some (r, s')"
  show "\<exists>new. x_log s' = x_log s @ new \<and> dl_deleted (x_local s') = dl_deleted (x_local s) + of_nat (removed new)"
    by (rule keepsD [OF assms _ run, of "dl_deleted (x_local s)"]) (auto simp: removed_none)
qed

lemma delete_execute_counts:
  assumes "delete_execute dx item s = Some (r, s')"
  shows "\<exists>new. x_log s' = x_log s @ new \<and> dl_deleted (x_local s') = dl_deleted (x_local s) + of_nat (removed new)"
proof (cases "dx_providers dx (provider_id (entry_location (item_entry item)))")
  case None
  then show ?thesis using assms by (auto simp: delete_execute_def delete_provider_def bind_x_lift removed_def)
next
  case (Some pr)
  then show ?thesis using assms
    by (cases "tp_remove pr (x_clock s) (entry_location (item_entry item)) False")
      (auto simp: delete_execute_def delete_provider_def bind_x_run bind_x_def [of "call_x _ _"] exec_simps outcome_def removed_def)
qed

lemma write_audit_deleted: "keeps (\<lambda>c. dl_deleted c = n) P (write_audit audit_io op)"
  unfolding write_audit_def by (intro keeps_rules keeps_modify) auto

lemma delete_counts: "counts_removed (delete_perform env audit_io dx) request"
proof (cases request)
  case (ExecuteRequest op item resolution)
  then show ?thesis using delete_execute_counts [of dx item]
    by (auto simp: counts_removed_def dest!: reply_x_step)
next
  case (PlanRequest op)
  then show ?thesis
    by (intro counts_none) (auto intro!: keeps_reply keeps_delete_sources simp: delete_plan_def)
next
  case (CleanupRequest op)
  then show ?thesis by (intro counts_none) (auto intro!: keeps_reply write_audit_deleted simp: delete_cleanup_partial_def)
next
  case (FinishRequest op)
  then show ?thesis by (intro counts_none) (auto intro!: keeps_reply write_audit_deleted simp: delete_finish_def)
qed

lemma run_counts:
  assumes "run_requests (delete_perform env audit_io dx) requests s = Some (rs, s')"
  shows "\<exists>new. x_log s' = x_log s @ new \<and> dl_deleted (x_local s') = dl_deleted (x_local s) + of_nat (removed new)"
  using assms
proof (induction requests arbitrary: s rs)
  case Nil
  then show ?case by (auto simp: removed_def)
next
  case (Cons request requests)
  obtain r s1 rs1 where r: "delete_perform env audit_io dx request s = Some (r, s1)"
    "run_requests (delete_perform env audit_io dx) requests s1 = Some (rs1, s')"
    using Cons.prems by (auto split: option.splits)
  obtain n1 where 1: "x_log s1 = x_log s @ n1" "dl_deleted (x_local s1) = dl_deleted (x_local s) + of_nat (removed n1)"
    using delete_counts r(1) unfolding counts_removed_def by blast
  obtain n2 where 2: "x_log s' = x_log s1 @ n2" "dl_deleted (x_local s') = dl_deleted (x_local s1) + of_nat (removed n2)"
    using Cons.IH [OF r(2)] by blast
  show ?case by (intro exI [of _ "n1 @ n2"]) (simp add: 1 2)
qed

text \<open>C15: whatever sequence of calls a deletion receives, it removes only entries it is asked to execute,
  one at a time and never with their contents, counts exactly the removals that succeeded, and writes at most
  one audit record, however often it is finished or cleaned up.\<close>

theorem delete_confined_and_audited:
  assumes "run_requests (delete_perform env audit_io dx) requests \<lparr>x_clock = t, x_log = [], x_local = delete_local_new\<rparr> = Some (rs, s')"
  shows "(\<forall>c\<in>set (x_log s'). \<exists>request\<in>set requests. delete_allowed request c)
    \<and> dl_deleted (x_local s') = of_nat (removed (x_log s'))
    \<and> length (dl_audit_log (x_local s')) = (if dl_audited (x_local s') then 1 else 0)"
proof -
  let ?s = "\<lparr>x_clock = t, x_log = [], x_local = delete_local_new\<rparr>"
  have "audit_inv (x_local ?s)" by (simp add: audit_inv_def delete_local_new_def)
  then show ?thesis
    using delete_contract.run_keeps_requests [OF assms] run_counts [OF assms] by (auto simp: audit_inv_def delete_local_new_def)
qed

definition tree_delete :: delete_executor where
  "tree_delete = \<lparr>dx_providers = [''local'' \<mapsto> tree_provider], dx_override_read_only = False, dx_requires_confirmation = False\<rparr>"

definition delete_operation :: operation where
  "delete_operation = operation_new 1 0 Delete [\<lparr>entry_id = 7, entry_location = at_path ''s/d''\<rparr>] None Ask"

theorem delete_plan_is_postorder_witness:
  "\<exists>s'. delete_plan tree_env tree_delete delete_operation (started 0 delete_local_new) = Some (Inr (operation_plan_new [tree_child, tree_root]), s')"
proof -
  let ?tree = "Node (tree_summary ''s/d'' ''d'' Directory) [[Node (tree_summary ''s/d/a'' ''a'' File) []]]"
  have 1: "\<forall>t. \<not> xe_cancelled tree_env t" by (simp add: tree_env_def)
  have i: "tree_inspect (at_path ''s/d'') = Inr (tree_summary ''s/d'' ''d'' Directory)" by code_simp
  have "shows_tree tree_provider (Node (tree_summary ''s/d/a'' ''a'' File) [])" by (rule shows_tree.leaf) (simp add: tree_summary_def)
  then have "shows_tree tree_provider ?tree"
    by (auto simp: tree_summary_def tree_provider_def tree_page_def intro!: shows_tree.directory)
  then have 2: "list_all2 (source_shows tree_delete) (op_sources delete_operation) [?tree]"
    using i by (simp add: source_shows_def delete_operation_def operation_new_def tree_delete_def at_path_def location_new_def tree_provider_def)
  have 3: "\<forall>e\<in>set (concat (map postorder [?tree])). deletable tree_delete e" by code_simp
  have "map entry_item (concat (map postorder [?tree])) = [tree_child, tree_root]" by code_simp
  then show ?thesis using delete_plan_is_postorder [OF 1 2, of "started 0 delete_local_new"] 3 by auto
qed

theorem delete_confined_and_audited_witness:
  "\<exists>rs s'. run_requests (delete_perform tree_env (\<lambda>_. Inr ()) tree_delete)
      [PlanRequest delete_operation, ExecuteRequest delete_operation tree_child None, ExecuteRequest delete_operation tree_root None,
       FinishRequest delete_operation, CleanupRequest delete_operation] \<lparr>x_clock = 0, x_log = [], x_local = delete_local_new\<rparr> = Some (rs, s')
    \<and> removed (x_log s') = 2 \<and> dl_deleted (x_local s') = 2 \<and> length (dl_audit_log (x_local s')) \<le> 1"
proof -
  let ?run = "run_requests (delete_perform tree_env (\<lambda>_. Inr ()) tree_delete)
      [PlanRequest delete_operation, ExecuteRequest delete_operation tree_child None, ExecuteRequest delete_operation tree_root None,
       FinishRequest delete_operation, CleanupRequest delete_operation] \<lparr>x_clock = 0, x_log = [], x_local = delete_local_new\<rparr>"
  have "map_option (\<lambda>(rs, s). length [c \<leftarrow> x_log s. snd c \<and> (case fst c of RemoveCall _ rec \<Rightarrow> \<not> rec | _ \<Rightarrow> False)]) ?run = Some 2" by code_simp
  then obtain rs s' where run: "?run = Some (rs, s')"
    and two: "length [c \<leftarrow> x_log s'. snd c \<and> (case fst c of RemoveCall _ rec \<Rightarrow> \<not> rec | _ \<Rightarrow> False)] = 2" by auto
  have "[c \<leftarrow> x_log s'. \<exists>l. c = (RemoveCall l False, True)] = [c \<leftarrow> x_log s'. snd c \<and> (case fst c of RemoveCall _ rec \<Rightarrow> \<not> rec | _ \<Rightarrow> False)]"
    by (rule filter_cong) (auto split: vfs_call.splits)
  then have "removed (x_log s') = 2" using two by (simp add: removed_def)
  then show ?thesis using run delete_confined_and_audited [OF run] by simp
qed

end
