(* ===== verification/Planner_Laws.thy ===== *)
theory Planner_Laws
  imports Planner File_Operations_Laws
begin

text \<open>
  Which requests the operation planner accepts, and what it hands to the scheduler. The acceptance condition is
  stated per kind of operation over the registered providers and their capabilities, without the order in which
  the code asks for them; the shape of the planned executor is stated over the request.
\<close>

section \<open>Acceptance\<close>

definition granted :: "nat \<Rightarrow> operation_planner \<Rightarrow> location \<Rightarrow> provider_capability \<Rightarrow> bool" where
  "granted t pl l c \<longleftrightarrow>
    (case pl_providers pl (provider_id l) of
       None \<Rightarrow> False
     | Some pr \<Rightarrow> (case tp_capabilities_for pr t l of Inl _ \<Rightarrow> False | Inr caps \<Rightarrow> c \<in> caps))"

definition endpoint_known :: "nat \<Rightarrow> operation_planner \<Rightarrow> string \<Rightarrow> location \<Rightarrow> bool" where
  "endpoint_known t pl i l \<longleftrightarrow>
    (case pl_providers pl i of None \<Rightarrow> False | Some pr \<Rightarrow> is_ok (tp_transfer_capabilities pr t l))"

definition archive_destination_ok :: "start_request \<Rightarrow> string \<Rightarrow> bool" where
  "archive_destination_ok rq path \<longleftrightarrow>
    (case path_extension path of
       None \<Rightarrow> False
     | Some x \<Rightarrow>
         eq_ignore_ascii_case x ''zip'' \<and> sr_archive_format rq \<noteq> Some SevenZip
           \<and> (case sr_archive_compression_level rq of None \<Rightarrow> True | Some level \<Rightarrow> level \<in> {0..9})
         \<or> eq_ignore_ascii_case x ''7z'' \<and> sr_archive_format rq \<noteq> Some Zip \<and> sr_archive_compression_level rq = None)"

definition archive_accepted :: "start_request \<Rightarrow> bool" where
  "archive_accepted rq \<longleftrightarrow>
    sr_sources rq \<noteq> [] \<and> list_all (\<lambda>l. is_ok (to_native_path l)) (sr_sources rq)
    \<and> (case sr_destination rq of
         None \<Rightarrow> False
       | Some l \<Rightarrow> (case to_native_path l of Inl _ \<Rightarrow> False | Inr path \<Rightarrow> archive_destination_ok rq path))"

definition rename_accepted :: "nat \<Rightarrow> operation_planner \<Rightarrow> location \<times> location \<Rightarrow> bool" where
  "rename_accepted t pl = (\<lambda>(a, b). provider_id a = provider_id b \<and> granted t pl a CapRename)"

definition duplicate_accepted :: "exec_env \<Rightarrow> nat \<Rightarrow> operation_planner \<Rightarrow> location \<Rightarrow> bool" where
  "duplicate_accepted env t pl l \<longleftrightarrow>
    endpoint_known t pl (provider_id l) l
    \<and> (case location_parent (xe_uuid_ok env) l of
         Inr (Some parent) \<Rightarrow> endpoint_known t pl (provider_id l) parent
       | _ \<Rightarrow> False)"

definition with_destination :: "start_request \<Rightarrow> (location \<Rightarrow> bool) \<Rightarrow> bool" where
  "with_destination rq P \<longleftrightarrow> (case sr_destination rq of None \<Rightarrow> False | Some l \<Rightarrow> P l)"

fun planner_accepts :: "exec_env \<Rightarrow> nat \<Rightarrow> operation_planner \<Rightarrow> operation_kind \<Rightarrow> start_request \<Rightarrow> bool" where
  "planner_accepts env t pl CreateArchive rq = archive_accepted rq"
| "planner_accepts env t pl MoveToArchive rq = archive_accepted rq"
| "planner_accepts env t pl CreateDirectory rq =
     (with_destination rq (\<lambda>d. granted t pl d CapCreateDirectory) \<and> sr_name rq \<noteq> None)"
| "planner_accepts env t pl CreateFile rq = (with_destination rq (\<lambda>d. granted t pl d CapWrite) \<and> sr_name rq \<noteq> None)"
| "planner_accepts env t pl Rename rq =
     (if sr_destinations rq = []
      then length (sr_sources rq) = 1 \<and> with_destination rq (\<lambda>d. rename_accepted t pl (hd (sr_sources rq), d))
      else length (sr_destinations rq) = length (sr_sources rq)
           \<and> list_all (rename_accepted t pl) (zip (sr_sources rq) (sr_destinations rq)))"
| "planner_accepts env t pl Copy rq =
     (sr_sources rq \<noteq> [] \<and> with_destination rq (\<lambda>d. granted t pl d CapWrite \<and> endpoint_known t pl (provider_id d) d)
      \<and> list_all (\<lambda>l. granted t pl l CapRead \<and> endpoint_known t pl (provider_id l) l) (sr_sources rq))"
| "planner_accepts env t pl Move rq =
     (sr_sources rq \<noteq> [] \<and> with_destination rq (\<lambda>d. endpoint_known t pl (provider_id d) d)
      \<and> list_all (\<lambda>l. endpoint_known t pl (provider_id l) l) (sr_sources rq))"
| "planner_accepts env t pl Duplicate rq = (sr_sources rq \<noteq> [] \<and> list_all (duplicate_accepted env t pl) (sr_sources rq))"
| "planner_accepts env t pl Delete rq = (sr_sources rq \<noteq> [] \<and> list_all (\<lambda>l. granted t pl l CapDelete) (sr_sources rq))"
| "planner_accepts env t pl Trash rq = (sr_sources rq \<noteq> [] \<and> pl_platform_trash pl)"

lemma is_ok_and_then_case: "is_ok (and_then r f) \<longleftrightarrow> (case r of Inl _ \<Rightarrow> False | Inr x \<Rightarrow> is_ok (f x))"
  by (cases r) (auto simp: is_ok_iff)

lemma is_ok_simps [simp]: "is_ok (Inr x)" "\<not> is_ok (Inl e)" "\<not> is_ok (invalid m)"
  by (auto simp: is_ok_iff invalid_def)

lemma is_ok_then_Inr [simp]: "is_ok (and_then r (\<lambda>x. Inr (g x))) \<longleftrightarrow> is_ok r"
  by (cases r) auto

lemma is_ok_traverse: "is_ok (traverse f xs) \<longleftrightarrow> list_all (\<lambda>x. is_ok (f x)) xs"
  by (induction xs) (auto simp: is_ok_iff and_then_Inr list_all_iff)

lemma list_all_const: "ls \<noteq> [] \<Longrightarrow> list_all (\<lambda>l. P l \<and> c) ls \<longleftrightarrow> c \<and> list_all P ls"
  by (cases ls) (auto simp: list_all_iff)

lemmas is_ok_rules = is_ok_and_then_case is_ok_ok_or is_ok_traverse

lemma resolve_provider_cases:
  "resolve_provider pl l = (case pl_providers pl (provider_id l) of
     None \<Rightarrow> Inl (app_of_vfs (VfsUnknownProvider (provider_id l))) | Some pr \<Rightarrow> Inr pr)"
  by (simp add: resolve_provider_def registry_resolve_def split: option.splits)

lemma is_ok_check_capability:
  "is_ok (check_capability t pr l c) \<longleftrightarrow> (case tp_capabilities_for pr t l of Inl _ \<Rightarrow> False | Inr caps \<Rightarrow> c \<in> caps)"
  by (cases "tp_capabilities_for pr t l") (auto simp: check_capability_def require_def)

lemma granted_iff:
  "granted t pl l c \<longleftrightarrow> (\<exists>pr. pl_providers pl (provider_id l) = Some pr \<and> is_ok (check_capability t pr l c))"
  by (auto simp: granted_def is_ok_check_capability split: option.splits)

lemma is_ok_transfer_resolve:
  "is_ok (transfer_resolve t a x b y) \<longleftrightarrow> is_ok (tp_transfer_capabilities a t x) \<and> is_ok (tp_transfer_capabilities b t y)"
  by (cases "tp_transfer_capabilities a t x"; cases "tp_transfer_capabilities b t y") (auto simp: transfer_resolve_def)

lemma not_zip_and_7z: "eq_ignore_ascii_case x ''zip'' \<Longrightarrow> \<not> eq_ignore_ascii_case x ''7z''"
  by (auto simp: eq_ignore_ascii_case_def dest!: map_eq_imp_length_eq)

lemma archive_format_Inr:
  "archive_format path requested = Inr f \<longleftrightarrow>
    (\<exists>x. path_extension path = Some x \<and> eq_ignore_ascii_case x (case f of Zip \<Rightarrow> ''zip'' | SevenZip \<Rightarrow> ''7z''))
    \<and> (requested = None \<or> requested = Some f)"
  using not_zip_and_7z
  by (cases f; cases requested; cases "path_extension path") (auto simp: archive_format_def invalid_def Let_def split: if_splits)

lemma is_ok_compression_level:
  "is_ok (compression_level f level) \<longleftrightarrow>
    (case f of Zip \<Rightarrow> (case level of None \<Rightarrow> True | Some n \<Rightarrow> n \<in> {0..9}) | SevenZip \<Rightarrow> level = None)"
  by (cases f; cases level) (auto simp: compression_level_def)

lemma archive_destination_ok_iff:
  "archive_destination_ok rq path \<longleftrightarrow>
    (\<exists>f. archive_format path (sr_archive_format rq) = Inr f \<and> is_ok (compression_level f (sr_archive_compression_level rq)))"
proof -
  have ex: "(\<exists>f. P f) \<longleftrightarrow> P Zip \<or> P SevenZip" for P
    by (metis archive_creation_format.exhaust)
  show ?thesis unfolding ex archive_format_Inr is_ok_compression_level archive_destination_ok_def
    by (cases "path_extension path"; cases "sr_archive_format rq" rule: option.exhaust) (auto intro: archive_creation_format.exhaust)
qed

lemma is_ok_plan_archive: "is_ok (plan_archive rq remove) \<longleftrightarrow> archive_accepted rq"
proof (cases "sr_destination rq")
  case None
  then show ?thesis by (simp add: plan_archive_def archive_accepted_def)
next
  case (Some l)
  show ?thesis
  proof (cases "to_native_path l")
    case (Inl e)
    then show ?thesis using Some by (simp add: plan_archive_def archive_accepted_def native_path_def)
  next
    case (Inr path)
    have sources: "is_ok (traverse native_path ls) \<longleftrightarrow> list_all (\<lambda>l. is_ok (to_native_path l)) ls" for ls
      by (simp add: is_ok_traverse native_path_def)
    have "native_path l = Inr path" using Inr by (simp add: native_path_def)
    then show ?thesis using Some Inr
      by (cases "archive_format path (sr_archive_format rq)")
        (auto simp: plan_archive_def archive_accepted_def archive_destination_ok_iff is_ok_and_then_case sources split: sum.splits)
  qed
qed

lemma is_ok_plan_create_directory: "is_ok (plan_create_directory t pl rq) \<longleftrightarrow> planner_accepts env t pl CreateDirectory rq"
  by (auto simp: plan_create_directory_def with_destination_def granted_iff is_ok_rules resolve_provider_cases is_ok_iff result_simps
      split: option.splits sum.splits)

lemma is_ok_plan_create_file: "is_ok (plan_create_file t pl rq) \<longleftrightarrow> planner_accepts env t pl CreateFile rq"
  by (auto simp: plan_create_file_def with_destination_def granted_iff is_ok_rules resolve_provider_cases is_ok_iff result_simps
      split: option.splits sum.splits)

lemma is_ok_plan_rename_pair: "is_ok (plan_rename_pair t pl ab) \<longleftrightarrow> rename_accepted t pl ab"
  by (cases ab) (auto simp: plan_rename_pair_def rename_accepted_def granted_iff is_ok_rules resolve_provider_cases
      split: option.splits sum.splits)

lemma is_ok_plan_renames: "is_ok (traverse (plan_rename_pair t pl) ps) \<longleftrightarrow> list_all (rename_accepted t pl) ps"
  by (simp add: is_ok_traverse is_ok_plan_rename_pair)

lemma is_ok_plan_rename: "is_ok (plan_rename t pl rq) \<longleftrightarrow> planner_accepts env t pl Rename rq"
  by (auto simp: plan_rename_def with_destination_def is_ok_plan_rename_pair is_ok_plan_renames split: option.splits list.splits)

lemma is_ok_plan_copy_source:
  "is_ok (plan_copy_source t pl rq d dp l) \<longleftrightarrow>
    granted t pl l CapRead \<and> endpoint_known t pl (provider_id l) l \<and> is_ok (tp_transfer_capabilities dp t d)"
  by (auto simp: plan_copy_source_def granted_iff endpoint_known_def is_ok_and_then_case is_ok_transfer_resolve resolve_provider_cases
      split: option.splits sum.splits)

lemma is_ok_plan_copy: "is_ok (plan_copy t pl rq) \<longleftrightarrow> planner_accepts env t pl Copy rq"
proof (cases "sr_sources rq = [] \<or> sr_destination rq = None")
  case True
  then show ?thesis by (auto simp: plan_copy_def with_destination_def)
next
  case False
  then obtain d where d: "sr_destination rq = Some d" "sr_sources rq \<noteq> []" by auto
  show ?thesis
  proof (cases "pl_providers pl (provider_id d)")
    case None
    then show ?thesis using d by (simp add: plan_copy_def with_destination_def granted_iff resolve_provider_cases)
  next
    case (Some dp)
    have "is_ok (traverse (plan_copy_source t pl rq d dp) (sr_sources rq)) \<longleftrightarrow>
        is_ok (tp_transfer_capabilities dp t d)
        \<and> list_all (\<lambda>l. granted t pl l CapRead \<and> endpoint_known t pl (provider_id l) l) (sr_sources rq)"
      using list_all_const [OF d(2)] by (simp add: is_ok_traverse is_ok_plan_copy_source flip: conj_assoc)
    then show ?thesis using d Some
      by (cases "check_capability t dp d CapWrite")
        (auto simp: plan_copy_def with_destination_def granted_iff endpoint_known_def resolve_provider_cases)
  qed
qed

lemma is_ok_plan_move_source:
  "is_ok (plan_move_source t pl rq d dp l) \<longleftrightarrow> endpoint_known t pl (provider_id l) l \<and> is_ok (tp_transfer_capabilities dp t d)"
  by (auto simp: plan_move_source_def endpoint_known_def is_ok_and_then_case is_ok_transfer_resolve resolve_provider_cases
      split: option.splits sum.splits)

lemma is_ok_plan_move: "is_ok (plan_move t pl rq) \<longleftrightarrow> planner_accepts env t pl Move rq"
proof -
  have "is_ok (traverse (plan_move_source t pl rq d dp) ls) \<longleftrightarrow>
      is_ok (tp_transfer_capabilities dp t d) \<and> list_all (\<lambda>l. endpoint_known t pl (provider_id l) l) ls"
    if "ls \<noteq> []" for d dp ls
    using list_all_const [OF that] by (simp add: is_ok_traverse is_ok_plan_move_source)
  then show ?thesis
    by (auto simp: plan_move_def with_destination_def endpoint_known_def resolve_provider_cases split: option.splits)
qed

lemma is_ok_plan_duplicate_source: "is_ok (plan_duplicate_source env t pl rq l) \<longleftrightarrow> duplicate_accepted env t pl l"
  by (auto simp: plan_duplicate_source_def duplicate_accepted_def endpoint_known_def is_ok_and_then_case is_ok_transfer_resolve
      resolve_provider_cases split: option.splits sum.splits)

lemma is_ok_plan_delete_source: "is_ok (plan_delete_source t pl l) \<longleftrightarrow> granted t pl l CapDelete"
  by (auto simp: plan_delete_source_def granted_iff resolve_provider_cases split: option.splits)

text \<open>C16: A request is accepted exactly when it names what its kind needs and every capability the kind relies on is
  granted by the provider of the entry concerned at that moment: writing to the destination and reading every source
  of a copy, deleting every source of a deletion, renaming within one provider, creating in the named directory, a
  trash on the platform. A move and a duplication ask for no capability at all, only for known end points.\<close>

theorem planner_accepts_exactly:
  "is_ok (planner_plan env t pl (OperationRequest k) rq) \<longleftrightarrow> planner_accepts env t pl k rq"
proof (cases k)
  case Duplicate
  then show ?thesis
    by (auto simp: planner_plan_def plan_duplicate_def is_ok_traverse is_ok_plan_duplicate_source)
next
  case Delete
  then show ?thesis by (auto simp: planner_plan_def plan_delete_def is_ok_traverse is_ok_plan_delete_source)
qed (auto simp: planner_plan_def plan_trash_def is_ok_plan_archive is_ok_plan_create_directory [of _ _ _ env]
    is_ok_plan_create_file [of _ _ _ env] is_ok_plan_rename [of _ _ _ env] is_ok_plan_copy [of _ _ _ env] is_ok_plan_move [of _ _ _ env]
    simp del: planner_accepts.simps(3-7))

section \<open>The planned executor\<close>

text \<open>The member of a group for a source: its provider, the source itself and the destination it is sent to.\<close>

definition copy_for :: "operation_planner \<Rightarrow> start_request \<Rightarrow> location \<Rightarrow> string \<Rightarrow> bool \<Rightarrow> location \<Rightarrow> copy_executor \<Rightarrow> bool" where
  "copy_for pl rq directory destination_id continue_on_error l cx \<longleftrightarrow>
    pl_providers pl (provider_id l) = Some (cx_source_provider cx)
    \<and> pl_providers pl destination_id = Some (cx_destination_provider cx)
    \<and> cx_destination_directory cx = directory \<and> cx_source_override cx = Some l
    \<and> cx_symlink_policy cx = sr_symlink_policy rq \<and> cx_continue_on_error cx = continue_on_error"

definition move_for :: "operation_planner \<Rightarrow> start_request \<Rightarrow> location \<Rightarrow> location \<Rightarrow> move_executor \<Rightarrow> bool" where
  "move_for pl rq directory l mx \<longleftrightarrow>
    mx_source mx = l \<and> mx_destination_directory mx = directory
    \<and> pl_providers pl (provider_id l) = Some (mx_source_provider mx)
    \<and> pl_providers pl (provider_id directory) = Some (mx_destination_provider mx)
    \<and> mx_force_fallback mx = pl_force_cross_volume_moves pl \<and> cx_transfer (mx_copy mx) = mx_transfer mx
    \<and> copy_for pl rq directory (provider_id directory) False l (mx_copy mx)"

definition duplicate_for :: "exec_env \<Rightarrow> operation_planner \<Rightarrow> start_request \<Rightarrow> location \<Rightarrow> copy_executor \<Rightarrow> bool" where
  "duplicate_for env pl rq l cx \<longleftrightarrow>
    (\<exists>parent. location_parent (xe_uuid_ok env) l = Inr (Some parent) \<and> copy_for pl rq parent (provider_id l) True l cx)"

definition rename_for :: "operation_planner \<Rightarrow> location \<times> location \<Rightarrow> rename_executor \<Rightarrow> bool" where
  "rename_for pl ab rx \<longleftrightarrow>
    ab = (rx_source rx, rx_destination rx) \<and> pl_providers pl (provider_id (rx_source rx)) = Some (rx_provider rx)"

fun executor_for :: "exec_env \<Rightarrow> operation_planner \<Rightarrow> operation_kind \<Rightarrow> start_request \<Rightarrow> planned_executor \<Rightarrow> bool" where
  "executor_for env pl k rq (ArchivePlanned ca) \<longleftrightarrow>
     k \<in> {CreateArchive, MoveToArchive} \<and> ca_remove_sources ca = (k = MoveToArchive)
     \<and> list_all2 (\<lambda>l p. to_native_path l = Inr p) (sr_sources rq) (ca_sources ca)
     \<and> (\<exists>d. sr_destination rq = Some d \<and> to_native_path d = Inr (ca_destination ca))
     \<and> ca_compression_level ca \<in> {0..9}"
| "executor_for env pl k rq (DirectoryPlanned cd) \<longleftrightarrow>
     k = CreateDirectory \<and> sr_destination rq = Some (cd_parent cd) \<and> sr_name rq = Some (cd_name cd)
     \<and> pl_providers pl (provider_id (cd_parent cd)) = Some (cd_provider cd)"
| "executor_for env pl k rq (FilePlanned cf) \<longleftrightarrow>
     k = CreateFile \<and> sr_destination rq = Some (cf_parent cf) \<and> sr_name rq = Some (cf_name cf)
     \<and> pl_providers pl (provider_id (cf_parent cf)) = Some (cf_provider cf)"
| "executor_for env pl k rq (RenamePlanned rx) \<longleftrightarrow>
     k = Rename \<and> sr_sources rq = [rx_source rx] \<and> sr_destination rq = Some (rx_destination rx)
     \<and> rename_for pl (rx_source rx, rx_destination rx) rx"
| "executor_for env pl k rq (RenamesPlanned rxs) \<longleftrightarrow>
     k = Rename \<and> list_all2 (rename_for pl) (zip (sr_sources rq) (sr_destinations rq)) rxs"
| "executor_for env pl k rq (CopiesPlanned cxs) \<longleftrightarrow>
     k = Copy \<and> (\<exists>d. sr_destination rq = Some d \<and> list_all2 (copy_for pl rq d (provider_id d) True) (sr_sources rq) cxs)"
| "executor_for env pl k rq (MovesPlanned mxs) \<longleftrightarrow>
     k = Move \<and> (\<exists>d. sr_destination rq = Some d \<and> list_all2 (move_for pl rq d) (sr_sources rq) mxs)"
| "executor_for env pl k rq (DuplicatesPlanned cxs) \<longleftrightarrow> k = Duplicate \<and> list_all2 (duplicate_for env pl rq) (sr_sources rq) cxs"
| "executor_for env pl k rq (DeletePlanned dx) \<longleftrightarrow>
     k = Delete
     \<and> (\<forall>i. dx_providers dx i = (if i \<in> provider_id ` set (sr_sources rq) then pl_providers pl i else None))
     \<and> dx_requires_confirmation dx = (pl_confirm_permanent_delete pl \<and> \<not> sr_permanent_delete_confirmed rq)
     \<and> dx_override_read_only dx = sr_override_read_only rq"
| "executor_for env pl k rq TrashPlanned \<longleftrightarrow> k = Trash \<and> pl_platform_trash pl"

lemma traverse_Inr_all2: "traverse f xs = Inr ys \<longleftrightarrow> list_all2 (\<lambda>x y. f x = Inr y) xs ys"
  by (induction xs arbitrary: ys) (auto simp: and_then_Inr list_all2_Cons1)

lemma invalid_Inr [simp]: "invalid m \<noteq> Inr x"
  by (simp add: invalid_def)

lemma resolve_provider_Inr [result_simps]: "resolve_provider pl l = Inr pr \<longleftrightarrow> pl_providers pl (provider_id l) = Some pr"
  by (auto simp: resolve_provider_cases split: option.splits)

lemma plan_copy_source_Inr:
  "plan_copy_source t pl rq d dp l = Inr cx \<Longrightarrow> pl_providers pl (provider_id d) = Some dp \<Longrightarrow> copy_for pl rq d (provider_id d) True l cx"
  by (auto simp: plan_copy_source_def copy_for_def make_copy_def result_simps)

lemma plan_move_source_Inr:
  "plan_move_source t pl rq d dp l = Inr mx \<Longrightarrow> pl_providers pl (provider_id d) = Some dp \<Longrightarrow> move_for pl rq d l mx"
  by (auto simp: plan_move_source_def move_for_def copy_for_def make_copy_def result_simps)

lemma plan_duplicate_source_Inr: "plan_duplicate_source env t pl rq l = Inr cx \<Longrightarrow> duplicate_for env pl rq l cx"
  by (auto simp: plan_duplicate_source_def duplicate_for_def copy_for_def make_copy_def result_simps)

lemma plan_rename_pair_Inr: "plan_rename_pair t pl ab = Inr rx \<Longrightarrow> rename_for pl ab rx"
  by (cases ab) (auto simp: plan_rename_pair_def rename_for_def result_simps split: if_splits)

lemma plan_delete_sources_Inr:
  assumes "traverse (plan_delete_source t pl) ls = Inr ps"
  shows "map_of (rev ps) i = (if i \<in> provider_id ` set ls then pl_providers pl i else None)"
proof -
  have all: "list_all2 (\<lambda>l p. fst p = provider_id l \<and> pl_providers pl (fst p) = Some (snd p)) ls ps"
    using assms unfolding traverse_Inr_all2
    by (rule list_all2_mono) (auto simp: plan_delete_source_def result_simps)
  then have fsts: "fst ` set ps = provider_id ` set ls"
    by (induction rule: list_all2_induct) auto
  have snds: "\<forall>p\<in>set ps. pl_providers pl (fst p) = Some (snd p)"
    using all by (induction rule: list_all2_induct) auto
  show ?thesis
  proof (cases "map_of (rev ps) i")
    case None
    then show ?thesis using fsts by (auto simp: map_of_eq_None_iff image_iff)
  next
    case (Some pr)
    then have "(i, pr) \<in> set ps" using map_of_SomeD by fastforce
    then show ?thesis using Some fsts snds by force
  qed
qed

lemma plan_archive_Inr:
  assumes "plan_archive rq remove = Inr x"
  shows "executor_for env pl (if remove then MoveToArchive else CreateArchive) rq x"
proof -
  have native: "native_path l = Inr p \<longleftrightarrow> to_native_path l = Inr p" for l p
    by (simp add: native_path_def map_err_Inr)
  have level: "compression_level f r = Inr n \<Longrightarrow> 0 \<le> n \<and> n \<le> 9" for f r n
    by (cases f; cases r) (auto simp: compression_level_def Let_def split: if_splits)
  show ?thesis using assms
    by (auto simp: plan_archive_def result_simps native traverse_Inr_all2 split: if_splits dest: level)
qed

text \<open>C17: The executor handed to the scheduler fits the request: it is of the requested kind, has one member per source in
  the order of the request, every member works on its source with the provider registered for it and sends it to the
  requested directory, archives lose their sources only for a move, and a deletion knows exactly the providers of its
  sources and asks for a confirmation exactly if the setting is on and none was given.\<close>

theorem planned_executor_fits:
  assumes "planner_plan env t pl (OperationRequest k) rq = Inr x"
  shows "executor_for env pl k rq x"
proof (cases k)
  case CreateArchive
  then show ?thesis using assms plan_archive_Inr [of rq False x env pl] by (simp add: planner_plan_def)
next
  case MoveToArchive
  then show ?thesis using assms plan_archive_Inr [of rq True x env pl] by (simp add: planner_plan_def)
next
  case CreateDirectory
  then show ?thesis using assms by (auto simp: planner_plan_def plan_create_directory_def result_simps)
next
  case CreateFile
  then show ?thesis using assms by (auto simp: planner_plan_def plan_create_file_def result_simps)
next
  case Rename
  then show ?thesis using assms
    by (auto simp: planner_plan_def plan_rename_def result_simps traverse_Inr_all2 rename_for_def
        elim!: list_all2_mono dest!: plan_rename_pair_Inr split: if_splits list.splits)
next
  case Copy
  then show ?thesis using assms
    by (auto simp: planner_plan_def plan_copy_def result_simps traverse_Inr_all2
        elim!: list_all2_mono intro: plan_copy_source_Inr split: if_splits)
next
  case Move
  then show ?thesis using assms
    by (auto simp: planner_plan_def plan_move_def result_simps traverse_Inr_all2
        elim!: list_all2_mono intro: plan_move_source_Inr split: if_splits)
next
  case Duplicate
  then show ?thesis using assms
    by (auto simp: planner_plan_def plan_duplicate_def result_simps traverse_Inr_all2
        elim!: list_all2_mono intro: plan_duplicate_source_Inr split: if_splits)
next
  case Delete
  then show ?thesis using assms
    by (auto simp: planner_plan_def plan_delete_def result_simps plan_delete_sources_Inr split: if_splits)
next
  case Trash
  then show ?thesis using assms by (auto simp: planner_plan_def plan_trash_def split: if_splits)
qed

definition tree_planner :: operation_planner where
  "tree_planner = \<lparr>pl_providers = [''local'' \<mapsto> tree_provider\<lparr>tp_capabilities_for := (\<lambda>_ _. Inr {CapRead, CapWrite})\<rparr>],
     pl_platform_trash = False, pl_confirm_permanent_delete = True, pl_force_cross_volume_moves = False\<rparr>"

definition tree_request :: start_request where
  "tree_request = \<lparr>sr_sources = [at_path ''s/d'', at_path ''s/e''], sr_destination = Some (at_path ''t''), sr_destinations = [], sr_name = None,
     sr_archive_format = None, sr_archive_compression_level = None, sr_create_intermediate_directories = False,
     sr_symlink_policy = CopyLink, sr_permanent_delete_confirmed = False, sr_override_read_only = False\<rparr>"

theorem planned_executor_fits_witness:
  "\<exists>cxs. planner_plan tree_env 0 tree_planner (OperationRequest Copy) tree_request = Inr (CopiesPlanned cxs)
     \<and> executor_for tree_env tree_planner Copy tree_request (CopiesPlanned cxs)"
proof -
  have "is_ok (plan_copy 0 tree_planner tree_request)"
    unfolding is_ok_plan_copy [of _ _ _ tree_env]
    by (simp add: tree_request_def tree_planner_def tree_provider_def with_destination_def granted_def endpoint_known_def
        at_path_def location_new_def)
  then obtain cxs where plan: "planner_plan tree_env 0 tree_planner (OperationRequest Copy) tree_request = Inr (CopiesPlanned cxs)"
    by (auto simp: is_ok_iff planner_plan_def plan_copy_def result_simps split: if_splits)
  then show ?thesis using planned_executor_fits [OF plan] by blast
qed

end
