(* ===== verification/Checksum.thy ===== *)
theory Checksum
  imports Executor
begin

text \<open>
  Checksums: \<open>hash.rs\<close> and \<open>checksum_file.rs\<close> of \<open>src/crates/fm-checksum/src\<close>. The four hash libraries are
  third-party code and enter as a record of their three calls (new, update, finalize). A stream is what its reads
  return, in order: chunks of bytes and then the end of the file or an error; a read of no bytes is the end of
  the file. The cancellation token is asked at the ticks of a clock that every question advances. Byte counters
  are natural numbers.
\<close>

section \<open>Algorithms and digests\<close>

datatype checksum_algorithm = Sha256 | Blake3 | Crc32 | Md5

definition ALL_algorithms :: "checksum_algorithm list" where
  "ALL_algorithms = [Sha256, Blake3, Crc32, Md5]"

fun algorithm_as_str :: "checksum_algorithm \<Rightarrow> string" where
  "algorithm_as_str Sha256 = ''sha256''"
| "algorithm_as_str Blake3 = ''blake3''"
| "algorithm_as_str Crc32 = ''crc32''"
| "algorithm_as_str Md5 = ''md5''"

fun hex_len :: "checksum_algorithm \<Rightarrow> nat" where
  "hex_len Sha256 = 64"
| "hex_len Blake3 = 64"
| "hex_len Crc32 = 8"
| "hex_len Md5 = 32"

definition algorithm_from_name :: "string \<Rightarrow> checksum_algorithm option" where
  "algorithm_from_name n = find (\<lambda>a. algorithm_as_str a = map to_ascii_lowercase n) ALL_algorithms"

record checksum_set =
  cs_digests :: "checksum_algorithm \<rightharpoonup> string"
  cs_bytes_hashed :: nat

definition checksum_set_default :: checksum_set where
  "checksum_set_default = \<lparr>cs_digests = Map.empty, cs_bytes_hashed = 0\<rparr>"

definition checksum_get :: "checksum_set \<Rightarrow> checksum_algorithm \<Rightarrow> string option" where
  "checksum_get cs a = cs_digests cs a"

definition checksum_iter :: "checksum_set \<Rightarrow> (checksum_algorithm \<times> string) list" where
  "checksum_iter cs = List.map_filter (\<lambda>a. map_option (Pair a) (cs_digests cs a)) ALL_algorithms"

datatype checksum_error =
    ChecksumCancelled
  | NoAlgorithmRequested
  | ChecksumRead string
  | ChecksumOpen string vfs_error

fun checksum_error_text :: "checksum_error \<Rightarrow> string" where
  "checksum_error_text ChecksumCancelled = ''checksum calculation was cancelled''"
| "checksum_error_text NoAlgorithmRequested = ''no checksum algorithm was requested''"
| "checksum_error_text (ChecksumRead e) = ''failed to read entry for checksum: '' @ e"
| "checksum_error_text (ChecksumOpen u e) = ''failed to open `'' @ u @ ''` for checksum: '' @ vfs_error_text e"

section \<open>Hashers\<close>

record 'h hash_library =
  hl_new :: "checksum_algorithm \<Rightarrow> 'h"
  hl_update :: "checksum_algorithm \<Rightarrow> string \<Rightarrow> 'h \<Rightarrow> 'h"
  hl_finalize :: "checksum_algorithm \<Rightarrow> 'h \<Rightarrow> string"

record 'h hashers =
  hs_sha256 :: "'h option"
  hs_blake3 :: "'h option"
  hs_crc32 :: "'h option"
  hs_md5 :: "'h option"
  hs_bytes :: nat

definition hashers_new :: "'h hash_library \<Rightarrow> checksum_algorithm list \<Rightarrow> checksum_error + 'h hashers" where
  "hashers_new lib algorithms =
    (let start = (\<lambda>a. if a \<in> set algorithms then Some (hl_new lib a) else None) in
     if algorithms = [] then Inl NoAlgorithmRequested
     else Inr \<lparr>hs_sha256 = start Sha256, hs_blake3 = start Blake3, hs_crc32 = start Crc32, hs_md5 = start Md5, hs_bytes = 0\<rparr>)"

definition hashers_update :: "'h hash_library \<Rightarrow> string \<Rightarrow> 'h hashers \<Rightarrow> 'h hashers" where
  "hashers_update lib chunk hs =
    \<lparr>hs_sha256 = map_option (hl_update lib Sha256 chunk) (hs_sha256 hs),
     hs_blake3 = map_option (hl_update lib Blake3 chunk) (hs_blake3 hs),
     hs_crc32 = map_option (hl_update lib Crc32 chunk) (hs_crc32 hs),
     hs_md5 = map_option (hl_update lib Md5 chunk) (hs_md5 hs),
     hs_bytes = hs_bytes hs + length chunk\<rparr>"

definition LOWER_HEX :: string where
  "LOWER_HEX = ''0123456789abcdef''"

definition to_hex :: "string \<Rightarrow> string" where
  "to_hex bytes = concat (map (\<lambda>c. [LOWER_HEX ! (byte c div 16), LOWER_HEX ! (byte c mod 16)]) bytes)"

definition hashers_finish :: "'h hash_library \<Rightarrow> 'h hashers \<Rightarrow> checksum_set" where
  "hashers_finish lib hs =
    \<lparr>cs_digests = (\<lambda>a. map_option (\<lambda>h. to_hex (hl_finalize lib a h))
       (case a of Sha256 \<Rightarrow> hs_sha256 hs | Blake3 \<Rightarrow> hs_blake3 hs | Crc32 \<Rightarrow> hs_crc32 hs | Md5 \<Rightarrow> hs_md5 hs)),
     cs_bytes_hashed = hs_bytes hs\<rparr>"

section \<open>Streaming\<close>

record read_stream =
  rs_chunks :: "string list"
  rs_error :: "string option"

definition chunk_budget :: "nat option \<Rightarrow> nat \<Rightarrow> nat \<Rightarrow> nat option" where
  "chunk_budget limit already n =
    (case limit of
       None \<Rightarrow> Some n
     | Some l \<Rightarrow> (let remaining = l - already in if remaining = 0 then None else Some (min remaining n)))"

fun hash_chunks ::
  "'h hash_library \<Rightarrow> (nat \<Rightarrow> bool) \<Rightarrow> nat option \<Rightarrow> string option \<Rightarrow> string list \<Rightarrow> 'h hashers \<Rightarrow> nat \<Rightarrow>
   (checksum_error + 'h hashers) \<times> nat" where
  "hash_chunks lib cancelled limit err [] hs t =
    (if cancelled t then (Inl ChecksumCancelled, t + 1)
     else (case err of None \<Rightarrow> Inr hs | Some e \<Rightarrow> Inl (ChecksumRead e), t + 1))"
| "hash_chunks lib cancelled limit err (c # cs) hs t =
    (if cancelled t then (Inl ChecksumCancelled, t + 1)
     else if c = [] then (Inr hs, t + 1)
     else case chunk_budget limit (hs_bytes hs) (length c) of
            None \<Rightarrow> (Inr hs, t + 1)
          | Some usable \<Rightarrow>
              (let hs = hashers_update lib (take usable c) hs in
               if (case limit of None \<Rightarrow> False | Some l \<Rightarrow> l \<le> hs_bytes hs) then (Inr hs, t + 1)
               else hash_chunks lib cancelled limit err cs hs (t + 1)))"

definition hash_stream_bounded ::
  "'h hash_library \<Rightarrow> (nat \<Rightarrow> bool) \<Rightarrow> read_stream \<Rightarrow> checksum_algorithm list \<Rightarrow> nat option \<Rightarrow> nat \<Rightarrow>
   (checksum_error + checksum_set) \<times> nat" where
  "hash_stream_bounded lib cancelled reader algorithms limit t =
    (case hashers_new lib algorithms of
       Inl e \<Rightarrow> (Inl e, t)
     | Inr hs \<Rightarrow>
         if limit = Some 0 then (Inr (hashers_finish lib hs), t)
         else (case hash_chunks lib cancelled limit (rs_error reader) (rs_chunks reader) hs t of
                 (Inl e, t) \<Rightarrow> (Inl e, t)
               | (Inr hs, t) \<Rightarrow> (Inr (hashers_finish lib hs), t)))"

definition hash_stream ::
  "'h hash_library \<Rightarrow> (nat \<Rightarrow> bool) \<Rightarrow> read_stream \<Rightarrow> checksum_algorithm list \<Rightarrow> nat \<Rightarrow> (checksum_error + checksum_set) \<times> nat" where
  "hash_stream lib cancelled reader algorithms t = hash_stream_bounded lib cancelled reader algorithms None t"

definition hash_stream_prefix ::
  "'h hash_library \<Rightarrow> (nat \<Rightarrow> bool) \<Rightarrow> read_stream \<Rightarrow> checksum_algorithm list \<Rightarrow> nat \<Rightarrow> nat \<Rightarrow> (checksum_error + checksum_set) \<times> nat" where
  "hash_stream_prefix lib cancelled reader algorithms max_bytes t =
    hash_stream_bounded lib cancelled reader algorithms (Some max_bytes) t"

text \<open>The same loop over a synchronous reader.\<close>

definition hash_blocking_bounded ::
  "'h hash_library \<Rightarrow> (nat \<Rightarrow> bool) \<Rightarrow> read_stream \<Rightarrow> checksum_algorithm list \<Rightarrow> nat option \<Rightarrow> nat \<Rightarrow>
   (checksum_error + checksum_set) \<times> nat" where
  "hash_blocking_bounded lib cancelled reader algorithms limit t =
    (case hashers_new lib algorithms of
       Inl e \<Rightarrow> (Inl e, t)
     | Inr hs \<Rightarrow>
         if limit = Some 0 then (Inr (hashers_finish lib hs), t)
         else (case hash_chunks lib cancelled limit (rs_error reader) (rs_chunks reader) hs t of
                 (Inl e, t) \<Rightarrow> (Inl e, t)
               | (Inr hs, t) \<Rightarrow> (Inr (hashers_finish lib hs), t)))"

text \<open>Of a provider: listing, its capabilities and the stream it opens for an entry at a tick.\<close>

record checksum_provider = provider +
  cp_capabilities :: "provider_capability set"
  cp_capabilities_for :: "nat \<Rightarrow> location \<Rightarrow> vfs_error + provider_capability set"
  cp_open_read :: "nat \<Rightarrow> location \<Rightarrow> vfs_error + read_stream"

record 'h checksum_env =
  ce_library :: "'h hash_library"
  ce_cancelled :: "nat \<Rightarrow> bool"
  ce_providers :: "string \<rightharpoonup> checksum_provider"

definition open_entry :: "'h checksum_env \<Rightarrow> location \<Rightarrow> nat \<Rightarrow> (checksum_error + read_stream) \<times> nat" where
  "open_entry env l t =
    (case map_err (ChecksumOpen (uri l)) (registry_resolve (ce_providers env) l) of
       Inl e \<Rightarrow> (Inl e, t)
     | Inr pr \<Rightarrow> (map_err (ChecksumOpen (uri l)) (cp_open_read pr t l), t + 1))"

definition hash_entry ::
  "'h checksum_env \<Rightarrow> location \<Rightarrow> checksum_algorithm list \<Rightarrow> nat \<Rightarrow> (checksum_error + checksum_set) \<times> nat" where
  "hash_entry env l algorithms t =
    (case open_entry env l t of
       (Inl e, t) \<Rightarrow> (Inl e, t)
     | (Inr reader, t) \<Rightarrow> hash_stream (ce_library env) (ce_cancelled env) reader algorithms t)"

definition hash_entry_prefix ::
  "'h checksum_env \<Rightarrow> location \<Rightarrow> checksum_algorithm list \<Rightarrow> nat \<Rightarrow> nat \<Rightarrow> (checksum_error + checksum_set) \<times> nat" where
  "hash_entry_prefix env l algorithms max_bytes t =
    (case open_entry env l t of
       (Inl e, t) \<Rightarrow> (Inl e, t)
     | (Inr reader, t) \<Rightarrow> hash_stream_prefix (ce_library env) (ce_cancelled env) reader algorithms max_bytes t)"

section \<open>Checksum files\<close>

record checksum_file_entry =
  fe_path :: string
  fe_digest :: string
  fe_binary :: bool
  fe_algorithm :: "checksum_algorithm option"

datatype checksum_file_error = MalformedLine nat | MalformedDigest nat | ChecksumFileIo

datatype verification_status = Match | Mismatch string string | Missing

record verification_result =
  vr_path :: string
  vr_status :: verification_status

definition is_match :: "verification_result \<Rightarrow> bool" where
  "is_match r \<longleftrightarrow> vr_status r = Match"

definition algorithm_for_width :: "nat \<Rightarrow> checksum_algorithm option" where
  "algorithm_for_width n = (if n = 8 then Some Crc32 else if n = 32 then Some Md5 else None)"

definition newline :: char where
  "newline = CHR 0x0A"

definition carriage_return :: char where
  "carriage_return = CHR 0x0D"

definition write_checksum_file :: "(string \<times> string) list \<Rightarrow> checksum_algorithm \<Rightarrow> string" where
  "write_checksum_file entries a =
    ''# '' @ algorithm_as_str a @ [newline] @ concat (map (\<lambda>(path, digest). digest @ ''  '' @ path @ [newline]) entries)"

text \<open>\<open>BufRead::lines\<close>: the pieces between newlines, without a carriage return before the newline; nothing follows
  a final newline.\<close>

definition buf_lines :: "string \<Rightarrow> string list" where
  "buf_lines s =
    (let pieces = split_on newline s
     in map (strip_suffix_char carriage_return) (butlast pieces) @ (if last pieces = [] then [] else [last pieces]))"

definition is_ascii_hexdigit :: "char \<Rightarrow> bool" where
  "is_ascii_hexdigit c \<longleftrightarrow> in_range 48 57 c \<or> in_range 65 70 c \<or> in_range 97 102 c"

definition parse_line :: "string \<Rightarrow> nat \<Rightarrow> checksum_file_error + checksum_file_entry" where
  "parse_line line number =
    and_then (ok_or (MalformedLine number) (split_once (CHR '' '') line)) (\<lambda>(digest, remainder).
    and_then (case strip_prefix ''*'' remainder of
        Some path \<Rightarrow> Inr (True, path)
      | None \<Rightarrow> and_then (ok_or (MalformedLine number) (strip_prefix '' '' remainder)) (\<lambda>path. Inr (False, path))) (\<lambda>(binary, path).
    if path = [] then Inl (MalformedLine number)
    else if digest = [] \<or> odd (length digest) \<or> \<not> list_all is_ascii_hexdigit digest then Inl (MalformedDigest number)
    else Inr \<lparr>fe_path = path, fe_digest = map to_ascii_lowercase digest, fe_binary = binary,
              fe_algorithm = algorithm_for_width (length digest)\<rparr>))"

fun read_lines :: "nat \<Rightarrow> string list \<Rightarrow> checksum_file_error + checksum_file_entry list" where
  "read_lines number [] = Inr []"
| "read_lines number (line # lines) =
    (if \<not> utf8_valid line then Inl ChecksumFileIo
     else (let trimmed = trim_end_matches [carriage_return, newline] line in
           if trim trimmed = [] \<or> starts_with ''#'' trimmed then read_lines (number + 1) lines
           else and_then (parse_line trimmed number) (\<lambda>e. and_then (read_lines (number + 1) lines) (\<lambda>es. Inr (e # es)))))"

definition read_checksum_file :: "string \<Rightarrow> checksum_file_error + checksum_file_entry list" where
  "read_checksum_file s = read_lines 1 (buf_lines s)"

definition verify_entry :: "(string \<rightharpoonup> string) \<Rightarrow> checksum_file_entry \<Rightarrow> verification_result" where
  "verify_entry computed e =
    \<lparr>vr_path = fe_path e,
     vr_status = (case computed (fe_path e) of
         None \<Rightarrow> Missing
       | Some actual \<Rightarrow> if eq_ignore_ascii_case actual (fe_digest e) then Match else Mismatch (fe_digest e) actual)\<rparr>"

text \<open>Collecting the pairs into a hash map keeps the last digest of a path.\<close>

definition verify :: "(string \<times> string) list \<Rightarrow> checksum_file_entry list \<Rightarrow> verification_result list" where
  "verify computed recorded = map (verify_entry (map_of (rev computed))) recorded"

end
