(* ===== verification/Duplicates.thy ===== *)
theory Duplicates
  imports Checksum
begin

text \<open>
  The staged duplicate finder, \<open>src/crates/fm-checksum/src/duplicates.rs\<close>: candidates are grouped by size, then by
  the digest of a prefix, then by the digest of the whole content; hard links are told apart from true copies. The
  operating system's answer to \<open>metadata\<close> and the order in which a \<open>HashMap\<close> yields its keys belong to the
  environment; a \<open>HashMap\<close> itself is the list of its entries in the order of insertion. Counters are natural
  numbers, sizes are \<open>u64\<close>.
\<close>

record duplicate_candidate =
  dc_entry :: entry_ref
  dc_size :: u64

record file_identity =
  fi_device :: u64
  fi_inode :: u64

record file_entry =
  fl_entry :: entry_ref
  fl_size :: u64
  fl_identity :: "file_identity option"

record hardlink_cluster =
  hc_identity :: file_identity
  hc_files :: "file_entry list"

record duplicate_group =
  dg_full_hash :: string
  dg_size :: u64
  dg_hardlink_clusters :: "hardlink_cluster list"
  dg_distinct_files :: "file_entry list"

definition path_count :: "duplicate_group \<Rightarrow> nat" where
  "path_count g = length (dg_distinct_files g) + sum_list (map (length \<circ> hc_files) (dg_hardlink_clusters g))"

definition reclaimable_bytes :: "duplicate_group \<Rightarrow> u64" where
  "reclaimable_bytes g =
    dg_size g * of_nat (length (dg_distinct_files g) + length (dg_hardlink_clusters g) - 1)"

datatype scan_outcome = ScanCompleted | ScanCancelled

record duplicate_stats =
  du_candidates :: nat
  du_size_survivors :: nat
  du_partially_hashed :: nat
  du_fully_hashed :: nat
  du_bytes_hashed :: nat
  du_failed :: nat

record duplicate_scan =
  ds_outcome :: scan_outcome
  ds_groups :: "duplicate_group list"
  ds_stats :: duplicate_stats
  ds_warnings :: "string list"

record duplicate_options =
  do_algorithm :: checksum_algorithm
  do_partial_hash_bytes :: nat
  do_include_empty_files :: bool

definition duplicate_options_default :: duplicate_options where
  "duplicate_options_default = \<lparr>do_algorithm = Blake3, do_partial_hash_bytes = 64 * 1024, do_include_empty_files = False\<rparr>"

datatype duplicate_stage = GroupBySize | PartialHash | FullHash

record duplicate_progress =
  pg_stage :: duplicate_stage
  pg_files_processed :: nat
  pg_files_total :: nat

record resolved =
  re_candidate :: duplicate_candidate
  re_identity :: "file_identity option"

record 'h scan_env = "'h checksum_env" +
  se_metadata :: "nat \<Rightarrow> string \<Rightarrow> file_identity option"
  se_hash_order :: "nat \<Rightarrow> string list \<Rightarrow> string list"

text \<open>The local variables of a scan: the clock, the counters, the warnings, the files processed in the current stage and
  the progress reports made so far.\<close>

record scan_state =
  ss_clock :: nat
  ss_stats :: duplicate_stats
  ss_warnings :: "string list"
  ss_processed :: nat
  ss_reports :: "duplicate_progress list"

definition report :: "bool \<Rightarrow> duplicate_stage \<Rightarrow> nat \<Rightarrow> nat \<Rightarrow> scan_state \<Rightarrow> scan_state" where
  "report watched stage processed files s =
    (if watched then s\<lparr>ss_reports := ss_reports s @ [\<lparr>pg_stage = stage, pg_files_processed = processed, pg_files_total = files\<rparr>]\<rparr> else s)"

text \<open>\<open>map.entry(key).or_default().push(value)\<close>.\<close>

fun entry_push :: "'k \<Rightarrow> 'v \<Rightarrow> ('k \<times> 'v list) list \<Rightarrow> ('k \<times> 'v list) list" where
  "entry_push k v [] = [(k, [v])]"
| "entry_push k v ((k', vs) # es) = (if k = k' then (k', vs @ [v]) # es else (k', vs) # entry_push k v es)"

text \<open>\<open>Ordering::then_with\<close>.\<close>

definition then_with :: "comp \<Rightarrow> comp \<Rightarrow> comp" where
  "then_with a b = (if a = Equiv then b else a)"

section \<open>Stage one: sizes\<close>

definition sort_size_groups :: "duplicate_candidate list list \<Rightarrow> duplicate_candidate list list" where
  "sort_size_groups = sort_by (\<lambda>a b. ord_cmp (case b of [] \<Rightarrow> 0 | c # _ \<Rightarrow> dc_size c) (case a of [] \<Rightarrow> 0 | c # _ \<Rightarrow> dc_size c))"

definition group_by_size :: "duplicate_candidate list \<Rightarrow> duplicate_options \<Rightarrow> duplicate_candidate list list" where
  "group_by_size candidates options =
    sort_size_groups [g \<leftarrow> map snd (fold (\<lambda>c. entry_push (dc_size c) c)
        [c \<leftarrow> candidates. \<not> (dc_size c = 0 \<and> \<not> do_include_empty_files options)] []).
      1 < length g]"

section \<open>Hashing one member\<close>

definition identity_of :: "'h scan_env \<Rightarrow> location \<Rightarrow> scan_state \<Rightarrow> file_identity option \<times> scan_state" where
  "identity_of env l s =
    (case to_native_path l of
       Inl _ \<Rightarrow> (None, s)
     | Inr path \<Rightarrow> (se_metadata env (ss_clock s) path, s\<lparr>ss_clock := ss_clock s + 1\<rparr>))"

datatype digest_outcome = Digest string | DigestSkipped | DigestCancelled

definition count_failed :: "string \<Rightarrow> scan_state \<Rightarrow> scan_state" where
  "count_failed warning s =
    s\<lparr>ss_stats := (ss_stats s)\<lparr>du_failed := du_failed (ss_stats s) + 1\<rparr>, ss_warnings := ss_warnings s @ [warning]\<rparr>"

definition take_digest ::
  "checksum_error + checksum_set \<Rightarrow> checksum_algorithm \<Rightarrow> location \<Rightarrow> scan_state \<Rightarrow> digest_outcome \<times> scan_state" where
  "take_digest r a l s =
    (case r of
       Inr cs \<Rightarrow>
         (let s = s\<lparr>ss_stats := (ss_stats s)\<lparr>du_bytes_hashed := du_bytes_hashed (ss_stats s) + cs_bytes_hashed cs\<rparr>\<rparr> in
          case checksum_get cs a of
            Some d \<Rightarrow> (Digest d, s)
          | None \<Rightarrow> (DigestSkipped, count_failed (uri l @ '': no '' @ algorithm_as_str a @ '' digest was produced'') s))
     | Inl ChecksumCancelled \<Rightarrow> (DigestCancelled, s)
     | Inl e \<Rightarrow> (DigestSkipped, count_failed (uri l @ '': '' @ checksum_error_text e) s))"

definition hash_at_stage ::
  "'h scan_env \<Rightarrow> duplicate_options \<Rightarrow> duplicate_stage \<Rightarrow> location \<Rightarrow> scan_state \<Rightarrow> digest_outcome \<times> scan_state" where
  "hash_at_stage env options stage l s =
    (let (r, t) = (if stage = PartialHash
           then hash_entry_prefix (checksum_env.truncate env) l [do_algorithm options] (do_partial_hash_bytes options) (ss_clock s)
           else hash_entry (checksum_env.truncate env) l [do_algorithm options] (ss_clock s))
     in take_digest r (do_algorithm options) l (s\<lparr>ss_clock := t\<rparr>))"

definition count_hashed :: "duplicate_stage \<Rightarrow> scan_state \<Rightarrow> scan_state" where
  "count_hashed stage s =
    s\<lparr>ss_stats := (if stage = PartialHash
        then (ss_stats s)\<lparr>du_partially_hashed := du_partially_hashed (ss_stats s) + 1\<rparr>
        else (ss_stats s)\<lparr>du_fully_hashed := du_fully_hashed (ss_stats s) + 1\<rparr>)\<rparr>"

text \<open>The buckets by digest and the digests of the identities met so far.\<close>

record hash_buckets =
  hb_buckets :: "(string \<times> resolved list) list"
  hb_by_identity :: "file_identity \<rightharpoonup> string"

definition hash_buckets_new :: hash_buckets where
  "hash_buckets_new = \<lparr>hb_buckets = [], hb_by_identity = Map.empty\<rparr>"

definition put_digest ::
  "bool \<Rightarrow> duplicate_stage \<Rightarrow> nat \<Rightarrow> resolved \<Rightarrow> string \<Rightarrow> hash_buckets \<Rightarrow> scan_state \<Rightarrow> hash_buckets option \<times> scan_state" where
  "put_digest watched stage files m d b s =
    (let s = report watched stage (ss_processed s + 1) files (s\<lparr>ss_processed := ss_processed s + 1\<rparr>)
     in (Some (b\<lparr>hb_buckets := entry_push d m (hb_buckets b)\<rparr>), s))"

text \<open>The body of both loops after the identity is known: a cached digest or a fresh one. \<open>None\<close> ends the scan.\<close>

definition hash_member ::
  "'h scan_env \<Rightarrow> duplicate_options \<Rightarrow> bool \<Rightarrow> duplicate_stage \<Rightarrow> nat \<Rightarrow> resolved \<Rightarrow> hash_buckets \<Rightarrow> scan_state \<Rightarrow>
   hash_buckets option \<times> scan_state" where
  "hash_member env options watched stage files m b s =
    (case Option.bind (re_identity m) (hb_by_identity b) of
       Some d \<Rightarrow> put_digest watched stage files m d b s
     | None \<Rightarrow>
         (case hash_at_stage env options stage (entry_location (dc_entry (re_candidate m))) s of
            (DigestCancelled, s) \<Rightarrow> (None, s)
          | (DigestSkipped, s) \<Rightarrow> (Some b, s\<lparr>ss_processed := ss_processed s + 1\<rparr>)
          | (Digest d, s) \<Rightarrow>
              put_digest watched stage files m d
                (case re_identity m of
                   None \<Rightarrow> b
                 | Some i \<Rightarrow> b\<lparr>hb_by_identity := (hb_by_identity b)(i \<mapsto> d)\<rparr>)
                (count_hashed stage s)))"

section \<open>Stages two and three\<close>

definition cancelled_at :: "'h scan_env \<Rightarrow> scan_state \<Rightarrow> bool \<times> scan_state" where
  "cancelled_at env s = (ce_cancelled env (ss_clock s), s\<lparr>ss_clock := ss_clock s + 1\<rparr>)"

fun partial_hash_group ::
  "'h scan_env \<Rightarrow> duplicate_options \<Rightarrow> bool \<Rightarrow> nat \<Rightarrow> duplicate_candidate list \<Rightarrow> hash_buckets \<Rightarrow> scan_state \<Rightarrow>
   hash_buckets option \<times> scan_state" where
  "partial_hash_group env options watched files [] b s = (Some b, s)"
| "partial_hash_group env options watched files (c # cs) b s =
    (case cancelled_at env s of
       (True, s) \<Rightarrow> (None, s)
     | (False, s) \<Rightarrow>
         (case identity_of env (entry_location (dc_entry c)) s of (i, s) \<Rightarrow>
         (case hash_member env options watched PartialHash files \<lparr>re_candidate = c, re_identity = i\<rparr> b s of
            (None, s) \<Rightarrow> (None, s)
          | (Some b, s) \<Rightarrow> partial_hash_group env options watched files cs b s)))"

text \<open>Iterating over a \<open>HashMap\<close>: its entries in the order of the environment.\<close>

definition hash_entries :: "'h scan_env \<Rightarrow> scan_state \<Rightarrow> (string \<times> 'v) list \<Rightarrow> (string \<times> 'v) list" where
  "hash_entries env s es = List.map_filter (\<lambda>k. map_option (Pair k) (map_of es k)) (se_hash_order env (ss_clock s) (map fst es))"

definition sort_resolved :: "resolved list \<Rightarrow> resolved list" where
  "sort_resolved = sort_by (\<lambda>a b. ord_cmp (uri (entry_location (dc_entry (re_candidate a)))) (uri (entry_location (dc_entry (re_candidate b)))))"

fun partial_hash_stage ::
  "'h scan_env \<Rightarrow> duplicate_options \<Rightarrow> bool \<Rightarrow> nat \<Rightarrow> duplicate_candidate list list \<Rightarrow> scan_state \<Rightarrow> resolved list list option \<times> scan_state" where
  "partial_hash_stage env options watched files [] s = (Some [], s)"
| "partial_hash_stage env options watched files (g # gs) s =
    (case partial_hash_group env options watched files g hash_buckets_new s of
       (None, s) \<Rightarrow> (None, s)
     | (Some b, s) \<Rightarrow>
         (let survivors = map sort_resolved [bucket \<leftarrow> map snd (hash_entries env s (hb_buckets b)). 1 < length bucket] in
          case partial_hash_stage env options watched files gs s of
            (None, s) \<Rightarrow> (None, s)
          | (Some rest, s) \<Rightarrow> (Some (survivors @ rest), s)))"

fun full_hash_group ::
  "'h scan_env \<Rightarrow> duplicate_options \<Rightarrow> bool \<Rightarrow> nat \<Rightarrow> resolved list \<Rightarrow> hash_buckets \<Rightarrow> scan_state \<Rightarrow> hash_buckets option \<times> scan_state" where
  "full_hash_group env options watched files [] b s = (Some b, s)"
| "full_hash_group env options watched files (m # ms) b s =
    (case cancelled_at env s of
       (True, s) \<Rightarrow> (None, s)
     | (False, s) \<Rightarrow>
         (case hash_member env options watched FullHash files m b s of
            (None, s) \<Rightarrow> (None, s)
          | (Some b, s) \<Rightarrow> full_hash_group env options watched files ms b s))"

definition sort_files :: "file_entry list \<Rightarrow> file_entry list" where
  "sort_files = sort_by (\<lambda>a b. ord_cmp (uri (entry_location (fl_entry a))) (uri (entry_location (fl_entry b))))"

definition file_of :: "resolved \<Rightarrow> file_entry" where
  "file_of m = \<lparr>fl_entry = dc_entry (re_candidate m), fl_size = dc_size (re_candidate m), fl_identity = re_identity m\<rparr>"

definition build_group :: "string \<Rightarrow> resolved list \<Rightarrow> duplicate_group" where
  "build_group full_hash members =
    (let files = map file_of members;
         by_identity = fold (\<lambda>f. entry_push (the (fl_identity f)) f) [f \<leftarrow> files. fl_identity f \<noteq> None] [];
         unknown = [f \<leftarrow> files. fl_identity f = None];
         clusters = map (\<lambda>(i, fs). \<lparr>hc_identity = i, hc_files = sort_files fs\<rparr>) [e \<leftarrow> by_identity. 1 < length (snd e)];
         singles = concat (map snd [e \<leftarrow> by_identity. \<not> 1 < length (snd e)])
     in \<lparr>dg_full_hash = full_hash,
         dg_size = (case members of [] \<Rightarrow> 0 | m # _ \<Rightarrow> dc_size (re_candidate m)),
         dg_hardlink_clusters = sort_by (\<lambda>a b. then_with (ord_cmp (fi_device (hc_identity a)) (fi_device (hc_identity b)))
            (ord_cmp (fi_inode (hc_identity a)) (fi_inode (hc_identity b)))) clusters,
         dg_distinct_files = sort_files (unknown @ singles)\<rparr>)"

definition build_groups :: "(string \<times> resolved list) list \<Rightarrow> duplicate_group list" where
  "build_groups es = map (\<lambda>(d, ms). build_group d ms) [e \<leftarrow> es. \<not> length (snd e) < 2]"

fun full_hash_groups ::
  "'h scan_env \<Rightarrow> duplicate_options \<Rightarrow> bool \<Rightarrow> nat \<Rightarrow> resolved list list \<Rightarrow> scan_state \<Rightarrow> duplicate_group list option \<times> scan_state" where
  "full_hash_groups env options watched files [] s = (Some [], s)"
| "full_hash_groups env options watched files (g # gs) s =
    (case full_hash_group env options watched files g hash_buckets_new s of
       (None, s) \<Rightarrow> (None, s)
     | (Some b, s) \<Rightarrow>
         (let found = build_groups (hash_entries env s (hb_buckets b)) in
          case full_hash_groups env options watched files gs s of
            (None, s) \<Rightarrow> (None, s)
          | (Some rest, s) \<Rightarrow> (Some (found @ rest), s)))"

definition full_hash_stage ::
  "'h scan_env \<Rightarrow> duplicate_options \<Rightarrow> bool \<Rightarrow> resolved list list \<Rightarrow> scan_state \<Rightarrow> duplicate_group list option \<times> scan_state" where
  "full_hash_stage env options watched groups s =
    (case full_hash_groups env options watched (sum_list (map length groups)) groups (s\<lparr>ss_processed := 0\<rparr>) of
       (None, s) \<Rightarrow> (None, s)
     | (Some found, s) \<Rightarrow>
         (Some (sort_by (\<lambda>a b. then_with (ord_cmp (dg_size b) (dg_size a)) (ord_cmp (dg_full_hash a) (dg_full_hash b))) found), s))"

section \<open>The scan\<close>

definition cancelled_scan :: "scan_state \<Rightarrow> duplicate_scan" where
  "cancelled_scan s = \<lparr>ds_outcome = ScanCancelled, ds_groups = [], ds_stats = ss_stats s, ds_warnings = ss_warnings s\<rparr>"

definition scan_start :: "nat \<Rightarrow> duplicate_candidate list \<Rightarrow> scan_state" where
  "scan_start t candidates =
    \<lparr>ss_clock = t,
     ss_stats = \<lparr>du_candidates = length candidates, du_size_survivors = 0, du_partially_hashed = 0, du_fully_hashed = 0,
                 du_bytes_hashed = 0, du_failed = 0\<rparr>,
     ss_warnings = [], ss_processed = 0, ss_reports = []\<rparr>"

definition find_duplicates_observed ::
  "'h scan_env \<Rightarrow> duplicate_candidate list \<Rightarrow> duplicate_options \<Rightarrow> bool \<Rightarrow> nat \<Rightarrow> duplicate_scan \<times> scan_state" where
  "find_duplicates_observed env candidates options watched t =
    (let size_groups = group_by_size candidates options;
         survivors = sum_list (map length size_groups);
         s = (scan_start t candidates)\<lparr>ss_stats := (ss_stats (scan_start t candidates))\<lparr>du_size_survivors := survivors\<rparr>\<rparr>;
         s = report watched GroupBySize survivors survivors s
     in case cancelled_at env s of
          (True, s) \<Rightarrow> (cancelled_scan s, s)
        | (False, s) \<Rightarrow>
            (case partial_hash_stage env options watched survivors size_groups s of
               (None, s) \<Rightarrow> (cancelled_scan s, s)
             | (Some prefix_groups, s) \<Rightarrow>
                 (case full_hash_stage env options watched prefix_groups s of
                    (None, s) \<Rightarrow> (cancelled_scan s, s)
                  | (Some groups, s) \<Rightarrow>
                      (\<lparr>ds_outcome = ScanCompleted, ds_groups = groups, ds_stats = ss_stats s, ds_warnings = ss_warnings s\<rparr>, s))))"

definition find_duplicates ::
  "'h scan_env \<Rightarrow> duplicate_candidate list \<Rightarrow> duplicate_options \<Rightarrow> nat \<Rightarrow> duplicate_scan" where
  "find_duplicates env candidates options t = fst (find_duplicates_observed env candidates options False t)"

end
