(* ===== verification/Checksum_Engine.thy ===== *)
theory Checksum_Engine
  imports Duplicates
begin

text \<open>
  Checksum jobs and duplicate scans: \<open>engine.rs\<close> and \<open>store.rs\<close> of \<open>src/crates/fm-checksum/src\<close>. A job is
  registered in a store, runs in the background and publishes what it computed in batches; the scan collects the
  candidates below its roots first. Jobs of different ids do not interfere, so a job is a function of the store and
  the clock; when a batch is due by time is asked of the environment. All events of a job go to the audience
  that started it.
\<close>

section \<open>Results stores\<close>

record checksum_entry_result =
  cr_location :: location
  cr_relative_path :: string
  cr_size :: nat
  cr_checksums :: checksum_set
  cr_error :: "string option"

record checksum_job_state =
  cj_algorithms :: "checksum_algorithm list"
  cj_entries :: "checksum_entry_result list"
  cj_complete :: bool
  cj_cancelled :: bool
  cj_total_entries :: nat
  cj_token_cancelled :: bool

type_synonym checksum_store = "nat \<rightharpoonup> checksum_job_state"

record checksum_page =
  cpg_algorithms :: "checksum_algorithm list"
  cpg_entries :: "checksum_entry_result list"
  cpg_is_complete :: bool
  cpg_is_cancelled :: bool
  cpg_has_more :: bool
  cpg_total :: nat
  cpg_total_entries :: nat

definition checksum_register :: "nat \<Rightarrow> checksum_algorithm list \<Rightarrow> nat \<Rightarrow> checksum_store \<Rightarrow> checksum_store" where
  "checksum_register j algorithms n st = st(j \<mapsto> \<lparr>cj_algorithms = algorithms, cj_entries = [], cj_complete = False,
     cj_cancelled = False, cj_total_entries = n, cj_token_cancelled = False\<rparr>)"

definition update_job :: "nat \<Rightarrow> ('s \<Rightarrow> 's) \<Rightarrow> (nat \<rightharpoonup> 's) \<Rightarrow> (nat \<rightharpoonup> 's)" where
  "update_job j f st = (case st j of None \<Rightarrow> st | Some s \<Rightarrow> st(j \<mapsto> f s))"

definition checksum_append :: "nat \<Rightarrow> checksum_entry_result list \<Rightarrow> checksum_store \<Rightarrow> checksum_store" where
  "checksum_append j es = update_job j (\<lambda>s. s\<lparr>cj_entries := cj_entries s @ es\<rparr>)"

definition checksum_mark_complete :: "nat \<Rightarrow> bool \<Rightarrow> checksum_store \<Rightarrow> checksum_store" where
  "checksum_mark_complete j cancelled = update_job j (\<lambda>s. s\<lparr>cj_complete := True, cj_cancelled := cancelled\<rparr>)"

definition checksum_cancel :: "nat \<Rightarrow> checksum_store \<Rightarrow> checksum_store option" where
  "checksum_cancel j st = map_option (\<lambda>s. st(j \<mapsto> s\<lparr>cj_token_cancelled := True\<rparr>)) (st j)"

definition checksum_all_entries :: "nat \<Rightarrow> checksum_store \<Rightarrow> checksum_entry_result list option" where
  "checksum_all_entries j st = map_option cj_entries (st j)"

definition checksum_algorithms :: "nat \<Rightarrow> checksum_store \<Rightarrow> checksum_algorithm list option" where
  "checksum_algorithms j st = map_option cj_algorithms (st j)"

definition checksum_page_of :: "nat \<Rightarrow> nat \<Rightarrow> nat \<Rightarrow> checksum_store \<Rightarrow> checksum_page option" where
  "checksum_page_of j offset limit st =
    map_option (\<lambda>s. let page = take limit (drop offset (cj_entries s)) in
      \<lparr>cpg_algorithms = cj_algorithms s, cpg_entries = page, cpg_is_complete = cj_complete s, cpg_is_cancelled = cj_cancelled s,
       cpg_has_more = (offset + length page < length (cj_entries s) \<or> \<not> cj_complete s), cpg_total = length (cj_entries s),
       cpg_total_entries = cj_total_entries s\<rparr>) (st j)"

record duplicate_scan_state =
  dj_roots :: "location list"
  dj_groups :: "duplicate_group list"
  dj_complete :: bool
  dj_cancelled :: bool
  dj_stats :: duplicate_stats
  dj_warnings :: "string list"
  dj_token_cancelled :: bool

type_synonym duplicate_store = "nat \<rightharpoonup> duplicate_scan_state"

record duplicate_page =
  dpg_roots :: "location list"
  dpg_groups :: "duplicate_group list"
  dpg_is_complete :: bool
  dpg_is_cancelled :: bool
  dpg_has_more :: bool
  dpg_total :: nat
  dpg_stats :: duplicate_stats
  dpg_warnings :: "string list"

definition duplicate_stats_default :: duplicate_stats where
  "duplicate_stats_default = \<lparr>du_candidates = 0, du_size_survivors = 0, du_partially_hashed = 0, du_fully_hashed = 0,
     du_bytes_hashed = 0, du_failed = 0\<rparr>"

definition duplicate_register :: "nat \<Rightarrow> location list \<Rightarrow> duplicate_store \<Rightarrow> duplicate_store" where
  "duplicate_register j roots st = st(j \<mapsto> \<lparr>dj_roots = roots, dj_groups = [], dj_complete = False, dj_cancelled = False,
     dj_stats = duplicate_stats_default, dj_warnings = [], dj_token_cancelled = False\<rparr>)"

definition scan_finish ::
  "nat \<Rightarrow> duplicate_group list \<Rightarrow> duplicate_stats \<Rightarrow> string list \<Rightarrow> bool \<Rightarrow> duplicate_store \<Rightarrow> duplicate_store" where
  "scan_finish j groups stats warnings cancelled =
    update_job j (\<lambda>s. s\<lparr>dj_groups := groups, dj_stats := stats, dj_warnings := warnings, dj_complete := True, dj_cancelled := cancelled\<rparr>)"

definition duplicate_cancel :: "nat \<Rightarrow> duplicate_store \<Rightarrow> duplicate_store option" where
  "duplicate_cancel j st = map_option (\<lambda>s. st(j \<mapsto> s\<lparr>dj_token_cancelled := True\<rparr>)) (st j)"

definition duplicate_page_of :: "nat \<Rightarrow> nat \<Rightarrow> nat \<Rightarrow> duplicate_store \<Rightarrow> duplicate_page option" where
  "duplicate_page_of j offset limit st =
    map_option (\<lambda>s. let page = take limit (drop offset (dj_groups s)) in
      \<lparr>dpg_roots = dj_roots s, dpg_groups = page, dpg_is_complete = dj_complete s, dpg_is_cancelled = dj_cancelled s,
       dpg_has_more = (offset + length page < length (dj_groups s) \<or> \<not> dj_complete s), dpg_total = length (dj_groups s),
       dpg_stats = dj_stats s, dpg_warnings = dj_warnings s\<rparr>) (st j)"

section \<open>Requests and events\<close>

datatype checksum_engine_error =
    InvalidTarget string
  | EngineUnsupportedCapability string
  | EmptyRequest string
  | JobNotFound nat

record checksum_target =
  ct_entry :: entry_ref
  ct_relative_path :: string
  ct_size :: nat

record checksum_job_options =
  jo_algorithms :: "checksum_algorithm list"
  jo_operation_id :: "op_id option"

record duplicate_scan_options =
  so_detection :: duplicate_options
  so_show_hidden :: bool
  so_operation_id :: "op_id option"

record checksum_entry_payload =
  ep_location :: location
  ep_relative_path :: string
  ep_size :: nat
  ep_checksums :: "string \<rightharpoonup> string"
  ep_error :: "string option"

record duplicate_group_payload =
  gp_full_hash :: string
  gp_size :: u64
  gp_hardlink_clusters :: "(u64 \<times> u64 \<times> location list) list"
  gp_distinct_locations :: "location list"
  gp_reclaimable_bytes :: u64

datatype checksum_event =
    ChecksumResultsBatch nat "checksum_entry_payload list" bool bool
  | DuplicateResultsReady nat "duplicate_group_payload list" bool u32
  | ChecksumProgress op_id nat nat nat
  | ChecksumStateChanged op_id operation_state

definition require_checksum_capability ::
  "('h, 'a) checksum_env_scheme \<Rightarrow> nat \<Rightarrow> location \<Rightarrow> checksum_engine_error + unit" where
  "require_checksum_capability env t l =
    and_then (map_err (InvalidTarget \<circ> vfs_error_text) (registry_resolve (ce_providers env) l)) (\<lambda>pr.
    let capabilities = (case cp_capabilities_for pr t l of Inr caps \<Rightarrow> caps | Inl _ \<Rightarrow> cp_capabilities pr) in
    if CapChecksum \<in> capabilities then Inr () else Inl (EngineUnsupportedCapability (uri l)))"

definition start_checksums ::
  "('h, 'a) checksum_env_scheme \<Rightarrow> nat \<Rightarrow> nat \<Rightarrow> checksum_target list \<Rightarrow> checksum_job_options \<Rightarrow> checksum_store \<Rightarrow>
   checksum_engine_error + checksum_store" where
  "start_checksums env t j targets options st =
    (if jo_algorithms options = [] then Inl (EmptyRequest ''at least one checksum algorithm must be requested'')
     else if targets = [] then Inl (EmptyRequest ''at least one entry must be selected'')
     else and_then (for_each (\<lambda>g. require_checksum_capability env t (entry_location (ct_entry g))) targets) (\<lambda>_.
          Inr (checksum_register j (jo_algorithms options) (length targets) st)))"

definition start_duplicate_scan ::
  "('h, 'a) checksum_env_scheme \<Rightarrow> nat \<Rightarrow> nat \<Rightarrow> location list \<Rightarrow> duplicate_store \<Rightarrow> checksum_engine_error + duplicate_store" where
  "start_duplicate_scan env t j roots st =
    (if roots = [] then Inl (EmptyRequest ''at least one root must be supplied'')
     else and_then (for_each (require_checksum_capability env t) roots) (\<lambda>_. Inr (duplicate_register j roots st)))"

definition cancel_checksums :: "nat \<Rightarrow> checksum_store \<Rightarrow> checksum_engine_error + checksum_store" where
  "cancel_checksums j st = ok_or (JobNotFound j) (checksum_cancel j st)"

definition cancel_duplicate_scan :: "nat \<Rightarrow> duplicate_store \<Rightarrow> checksum_engine_error + duplicate_store" where
  "cancel_duplicate_scan j st = ok_or (JobNotFound j) (duplicate_cancel j st)"

section \<open>Checksum jobs\<close>

definition CHECKSUM_BATCH_SIZE :: nat where
  "CHECKSUM_BATCH_SIZE = 50"

text \<open>The local variables of a job, its store and the events it published.\<close>

record job_run =
  jr_clock :: nat
  jr_buffer :: "checksum_entry_result list"
  jr_completed :: nat
  jr_completed_bytes :: nat
  jr_store :: checksum_store
  jr_events :: "checksum_event list"

definition checksum_payload :: "checksum_entry_result \<Rightarrow> checksum_entry_payload" where
  "checksum_payload e = \<lparr>ep_location = cr_location e, ep_relative_path = cr_relative_path e, ep_size = cr_size e,
     ep_checksums = map_of (map (\<lambda>(a, d). (algorithm_as_str a, d)) (checksum_iter (cr_checksums e))), ep_error = cr_error e\<rparr>"

definition flush_checksums :: "nat \<Rightarrow> checksum_job_options \<Rightarrow> nat \<Rightarrow> bool \<Rightarrow> bool \<Rightarrow> job_run \<Rightarrow> job_run" where
  "flush_checksums j options files is_complete is_cancelled r =
    (if jr_buffer r = [] \<and> \<not> is_complete then r
     else (let st = checksum_append j (jr_buffer r) (jr_store r);
               st = (if is_complete then checksum_mark_complete j is_cancelled st else st);
               events = jr_events r @ [ChecksumResultsBatch j (map checksum_payload (jr_buffer r)) is_complete is_cancelled]
                 @ (case jo_operation_id options of None \<Rightarrow> []
                    | Some op \<Rightarrow> [ChecksumProgress op (jr_completed r) files (jr_completed_bytes r)])
           in r\<lparr>jr_buffer := [], jr_store := st, jr_events := events\<rparr>))"

definition entry_result :: "checksum_target \<Rightarrow> checksum_error + checksum_set \<Rightarrow> checksum_entry_result" where
  "entry_result g result =
    (case result of
       Inr cs \<Rightarrow> \<lparr>cr_location = entry_location (ct_entry g), cr_relative_path = ct_relative_path g,
         cr_size = cs_bytes_hashed cs, cr_checksums = cs, cr_error = None\<rparr>
     | Inl e \<Rightarrow> \<lparr>cr_location = entry_location (ct_entry g), cr_relative_path = ct_relative_path g,
         cr_size = ct_size g, cr_checksums = checksum_set_default, cr_error = Some (checksum_error_text e)\<rparr>)"

text \<open>The loop over the targets: whether it was left by a cancellation. \<open>due t\<close> says whether a hundred milliseconds passed
  since the last batch.\<close>

fun checksum_targets ::
  "('h, 'a) checksum_env_scheme \<Rightarrow> (nat \<Rightarrow> bool) \<Rightarrow> nat \<Rightarrow> checksum_job_options \<Rightarrow> nat \<Rightarrow> checksum_target list \<Rightarrow> job_run \<Rightarrow> bool \<times> job_run" where
  "checksum_targets env due j options files [] r = (False, r)"
| "checksum_targets env due j options files (g # gs) r =
    (if ce_cancelled env (jr_clock r) then (True, r\<lparr>jr_clock := jr_clock r + 1\<rparr>)
     else case hash_entry (checksum_env.truncate env) (entry_location (ct_entry g)) (jo_algorithms options) (jr_clock r + 1) of
            (Inl ChecksumCancelled, t) \<Rightarrow> (True, r\<lparr>jr_clock := t\<rparr>)
          | (result, t) \<Rightarrow>
              (let r = r\<lparr>jr_clock := t + 1, jr_buffer := jr_buffer r @ [entry_result g result], jr_completed := jr_completed r + 1,
                     jr_completed_bytes := jr_completed_bytes r + (case result of Inr cs \<Rightarrow> cs_bytes_hashed cs | Inl _ \<Rightarrow> 0)\<rparr>;
                   r = (if CHECKSUM_BATCH_SIZE \<le> length (jr_buffer r) \<or> due t then flush_checksums j options files False False r else r)
               in checksum_targets env due j options files gs r))"

definition run_checksum_job ::
  "('h, 'a) checksum_env_scheme \<Rightarrow> (nat \<Rightarrow> bool) \<Rightarrow> nat \<Rightarrow> checksum_job_options \<Rightarrow> checksum_target list \<Rightarrow> nat \<Rightarrow> checksum_store \<Rightarrow> job_run" where
  "run_checksum_job env due j options targets t st =
    (let files = length targets;
         (cancelled, r) = checksum_targets env due j options files targets
            \<lparr>jr_clock = t, jr_buffer = [], jr_completed = 0, jr_completed_bytes = 0, jr_store = st, jr_events = []\<rparr>;
         r = flush_checksums j options files True cancelled r
     in case jo_operation_id options of
          None \<Rightarrow> r
        | Some op \<Rightarrow> r\<lparr>jr_events := jr_events r @ [ChecksumStateChanged op (if cancelled then Cancelled else Completed)]\<rparr>)"

section \<open>Duplicate scans\<close>

partial_function (option) list_scan_pages ::
  "('h, 'a) checksum_env_scheme \<Rightarrow> checksum_provider \<Rightarrow> location \<Rightarrow> string option \<Rightarrow> entry_summary list \<Rightarrow> nat \<Rightarrow>
   (entry_summary list option \<times> nat) option" where
  "list_scan_pages env pr l token entries t =
    (if ce_cancelled env t then Some (Some entries, t + 1)
     else case pr_list pr (t + 1) l token of
            Inl _ \<Rightarrow> Some (None, t + 2)
          | Inr page \<Rightarrow>
              (let entries = entries @ dp_entries page in
               if dp_token page = None then Some (Some entries, t + 2)
               else list_scan_pages env pr l (dp_token page) entries (t + 2)))"

declare list_scan_pages.simps [code]

definition list_scan_directory ::
  "('h, 'a) checksum_env_scheme \<Rightarrow> location \<Rightarrow> nat \<Rightarrow> (entry_summary list option \<times> nat) option" where
  "list_scan_directory env l t =
    (case registry_resolve (ce_providers env) l of
       Inl _ \<Rightarrow> Some (None, t)
     | Inr pr \<Rightarrow>
         (case cp_capabilities_for pr t l of
            Inl _ \<Rightarrow> Some (None, t + 1)
          | Inr caps \<Rightarrow> if CapList \<notin> caps then Some (None, t + 1) else list_scan_pages env pr l None [] (t + 1)))"

definition shown_entries :: "bool \<Rightarrow> entry_summary list \<Rightarrow> entry_summary list" where
  "shown_entries show_all es = [e \<leftarrow> es. show_all \<or> \<not> es_hidden e]"

definition candidate_of :: "entry_summary \<Rightarrow> duplicate_candidate" where
  "candidate_of e = \<lparr>dc_entry = \<lparr>entry_id = es_id e, entry_location = es_location e\<rparr>,
     dc_size = (case es_size e of Some n \<Rightarrow> n | None \<Rightarrow> 0)\<rparr>"

text \<open>The stack holds the directories still to be listed, the last one pushed first.\<close>

partial_function (option) collect_loop ::
  "('h, 'a) checksum_env_scheme \<Rightarrow> bool \<Rightarrow> location list \<Rightarrow> string set \<Rightarrow> duplicate_candidate list \<Rightarrow> nat \<Rightarrow>
   (duplicate_candidate list \<times> nat) option" where
  "collect_loop env show_all pending seen found t =
    (case pending of
       [] \<Rightarrow> Some (found, t)
     | l # pending \<Rightarrow>
         if ce_cancelled env t then Some (found, t + 1)
         else if uri l \<in> seen then collect_loop env show_all pending seen found (t + 1)
         else case list_scan_directory env l (t + 1) of
                None \<Rightarrow> None
              | Some (None, t) \<Rightarrow> collect_loop env show_all pending (insert (uri l) seen) found t
              | Some (Some entries, t) \<Rightarrow>
                  (let shown = shown_entries show_all entries in
                   collect_loop env show_all (rev (map es_location [e \<leftarrow> shown. es_kind e = Directory]) @ pending)
                     (insert (uri l) seen) (found @ map candidate_of [e \<leftarrow> shown. es_kind e = File]) t))"

declare collect_loop.simps [code]

definition collect_candidates ::
  "('h, 'a) checksum_env_scheme \<Rightarrow> location list \<Rightarrow> bool \<Rightarrow> nat \<Rightarrow> (duplicate_candidate list \<times> nat) option" where
  "collect_candidates env roots show_all t = collect_loop env show_all (rev roots) {} [] t"

definition duplicate_payload :: "duplicate_group \<Rightarrow> duplicate_group_payload" where
  "duplicate_payload g = \<lparr>gp_full_hash = dg_full_hash g, gp_size = dg_size g,
     gp_hardlink_clusters = map (\<lambda>c. (fi_device (hc_identity c), fi_inode (hc_identity c),
       map (entry_location \<circ> fl_entry) (hc_files c))) (dg_hardlink_clusters g),
     gp_distinct_locations = map (entry_location \<circ> fl_entry) (dg_distinct_files g), gp_reclaimable_bytes = reclaimable_bytes g\<rparr>"

definition on_progress :: "op_id option \<Rightarrow> duplicate_progress \<Rightarrow> checksum_event list" where
  "on_progress operation_id p =
    (case operation_id of
       None \<Rightarrow> []
     | Some op \<Rightarrow> if pg_stage p = GroupBySize then [] else [ChecksumProgress op (pg_files_processed p) (pg_files_total p) 0])"

definition run_duplicate_scan ::
  "'h scan_env \<Rightarrow> nat \<Rightarrow> location list \<Rightarrow> duplicate_scan_options \<Rightarrow> nat \<Rightarrow> duplicate_store \<Rightarrow>
   (duplicate_store \<times> checksum_event list \<times> nat) option" where
  "run_duplicate_scan env j roots options t st =
    (case collect_candidates env roots (so_show_hidden options) t of
       None \<Rightarrow> None
     | Some (candidates, t) \<Rightarrow>
         (let (scan, s) = find_duplicates_observed env candidates (so_detection options) True t;
              cancelled = (ds_outcome scan = ScanCancelled);
              warnings_count = (if length (ds_warnings scan) < 2 ^ 32 then of_nat (length (ds_warnings scan)) else - 1)
          in Some (scan_finish j (ds_groups scan) (ds_stats scan) (ds_warnings scan) cancelled st,
                   concat (map (on_progress (so_operation_id options)) (ss_reports s))
                   @ [DuplicateResultsReady j (map duplicate_payload (ds_groups scan)) cancelled warnings_count]
                   @ (case so_operation_id options of None \<Rightarrow> []
                      | Some op \<Rightarrow> [ChecksumStateChanged op (if cancelled then Cancelled else Completed)]),
                   ss_clock s)))"

end
