(* ===== verification/Checksum_Laws.thy ===== *)
theory Checksum_Laws
  imports Checksum
begin

text \<open>
  What the checksums of \<open>fm-checksum\<close> are: the digest of the whole content (or of its prefix) whatever the sizes
  of the chunks, never of a part of it; and that a written checksum file is read back as it was written and
  verifies exactly the unchanged files.
\<close>

section \<open>Hashing in chunks\<close>

text \<open>The documented behaviour of the hash libraries: feeding two chunks is feeding their concatenation.\<close>

definition incremental :: "'h hash_library \<Rightarrow> bool" where
  "incremental lib \<longleftrightarrow>
    (\<forall>a h. hl_update lib a [] h = h) \<and> (\<forall>a x y h. hl_update lib a (x @ y) h = hl_update lib a y (hl_update lib a x h))"

definition digest_of :: "'h hash_library \<Rightarrow> checksum_algorithm \<Rightarrow> string \<Rightarrow> string" where
  "digest_of lib a x = to_hex (hl_finalize lib a (hl_update lib a x (hl_new lib a)))"

definition checksum_of :: "'h hash_library \<Rightarrow> checksum_algorithm list \<Rightarrow> string \<Rightarrow> checksum_set" where
  "checksum_of lib algorithms x =
    \<lparr>cs_digests = (\<lambda>a. if a \<in> set algorithms then Some (digest_of lib a x) else None), cs_bytes_hashed = length x\<rparr>"

text \<open>What a stream delivers: everything up to the first empty read.\<close>

definition stream_bytes :: "read_stream \<Rightarrow> string" where
  "stream_bytes r = concat (takeWhile (\<lambda>c. c \<noteq> []) (rs_chunks r))"

definition within_limit :: "nat option \<Rightarrow> string \<Rightarrow> string" where
  "within_limit limit x = (case limit of None \<Rightarrow> x | Some l \<Rightarrow> take l x)"

lemma incremental_Nil: "incremental lib \<Longrightarrow> hl_update lib a [] = id"
  by (auto simp: incremental_def)

lemma incremental_append: "incremental lib \<Longrightarrow> hl_update lib a (x @ y) = hl_update lib a y \<circ> hl_update lib a x"
  by (auto simp: incremental_def)

lemma hashers_update_Nil: "incremental lib \<Longrightarrow> hashers_update lib [] hs = hs"
  by (cases hs) (simp add: hashers_update_def incremental_Nil option.map_id)

lemma hashers_update_append:
  "incremental lib \<Longrightarrow> hashers_update lib (x @ y) hs = hashers_update lib y (hashers_update lib x hs)"
  by (simp add: hashers_update_def incremental_append option.map_comp)

lemma hs_bytes_update [simp]: "hs_bytes (hashers_update lib x hs) = hs_bytes hs + length x"
  by (simp add: hashers_update_def)

lemma hash_chunks_all:
  assumes "incremental lib"
  shows "hash_chunks lib cancelled None err cs hs t = (Inr hs', t') \<Longrightarrow>
    hs' = hashers_update lib (concat (takeWhile (\<lambda>c. c \<noteq> []) cs)) hs"
proof (induction cs arbitrary: hs t)
  case Nil
  then show ?case using assms by (auto simp: hashers_update_Nil split: if_splits option.splits)
next
  case (Cons c cs)
  then show ?case using assms
    by (auto simp: hashers_update_Nil hashers_update_append chunk_budget_def Let_def split: if_splits)
qed

lemma hash_chunks_limited:
  assumes "incremental lib"
  shows "hash_chunks lib cancelled (Some l) err cs hs t = (Inr hs', t') \<Longrightarrow> hs_bytes hs < l \<Longrightarrow>
    hs' = hashers_update lib (take (l - hs_bytes hs) (concat (takeWhile (\<lambda>c. c \<noteq> []) cs))) hs"
proof (induction cs arbitrary: hs t)
  case Nil
  then show ?case using assms by (auto simp: hashers_update_Nil split: if_splits option.splits)
next
  case (Cons c cs)
  show ?case
  proof (cases "c = [] \<or> l - hs_bytes hs \<le> length c")
    case True
    then show ?thesis using Cons.prems assms
      by (auto simp: hashers_update_Nil chunk_budget_def Let_def min_def split: if_splits)
  next
    case False
    let ?hs = "hashers_update lib c hs"
    have "hash_chunks lib cancelled (Some l) err cs ?hs (t + 1) = (Inr hs', t')"
      using Cons.prems False by (auto simp: chunk_budget_def Let_def min_def split: if_splits)
    then have "hs' = hashers_update lib (take (l - hs_bytes ?hs) (concat (takeWhile (\<lambda>c. c \<noteq> []) cs))) ?hs"
      by (rule Cons.IH) (use False in auto)
    then show ?thesis using False assms by (simp add: hashers_update_append)
  qed
qed

lemma hash_chunks_total:
  "\<forall>t. \<not> cancelled t \<Longrightarrow> \<exists>hs' t'. hash_chunks lib cancelled limit None cs hs t = (Inr hs', t')"
  by (induction cs arbitrary: hs t) (auto simp: Let_def split: option.splits)

lemma hashers_finish_new:
  assumes "hashers_new lib algorithms = Inr hs"
  shows "hashers_finish lib (hashers_update lib x hs) = checksum_of lib algorithms x"
proof -
  have "cs_digests (hashers_finish lib (hashers_update lib x hs)) a = cs_digests (checksum_of lib algorithms x) a" for a
    using assms by (cases a) (auto simp: hashers_new_def hashers_finish_def hashers_update_def checksum_of_def digest_of_def Let_def split: if_splits)
  then have "cs_digests (hashers_finish lib (hashers_update lib x hs)) = cs_digests (checksum_of lib algorithms x)" by (rule ext)
  moreover have "hs_bytes hs = 0" using assms by (auto simp: hashers_new_def Let_def split: if_splits)
  ultimately show ?thesis by (simp add: hashers_finish_def checksum_of_def)
qed

lemma hash_stream_bounded_Inr:
  assumes "incremental lib" "hash_stream_bounded lib cancelled r algorithms limit t = (Inr cs, t')"
  shows "cs = checksum_of lib algorithms (within_limit limit (stream_bytes r)) \<and> algorithms \<noteq> []"
proof -
  obtain hs where hs: "hashers_new lib algorithms = Inr hs"
    using assms(2) by (auto simp: hash_stream_bounded_def split: sum.splits)
  then have zero: "hs_bytes hs = 0" "algorithms \<noteq> []" by (auto simp: hashers_new_def Let_def split: if_splits)
  show ?thesis
  proof (cases "limit = Some 0")
    case True
    then show ?thesis using assms hs zero hashers_finish_new [OF hs, of "[]"]
      by (auto simp: hash_stream_bounded_def within_limit_def hashers_update_Nil)
  next
    case False
    then obtain hs' where run: "hash_chunks lib cancelled limit (rs_error r) (rs_chunks r) hs t = (Inr hs', t')"
      and cs: "cs = hashers_finish lib hs'"
      using assms(2) hs by (auto simp: hash_stream_bounded_def split: sum.splits prod.splits)
    have "hs' = hashers_update lib (within_limit limit (stream_bytes r)) hs"
    proof (cases limit)
      case None
      then show ?thesis using hash_chunks_all [OF assms(1)] run by (auto simp: within_limit_def stream_bytes_def)
    next
      case (Some l)
      then show ?thesis using hash_chunks_limited [OF assms(1), of cancelled l _ _ hs] run False zero
        by (auto simp: within_limit_def stream_bytes_def)
    qed
    then show ?thesis using cs hashers_finish_new [OF hs] zero by simp
  qed
qed

lemma hash_stream_bounded_total:
  assumes "\<forall>t. \<not> cancelled t" "rs_error r = None" "algorithms \<noteq> []"
  shows "\<exists>cs t'. hash_stream_bounded lib cancelled r algorithms limit t = (Inr cs, t')"
proof -
  obtain hs where hs: "hashers_new lib algorithms = Inr hs" using assms(3) by (auto simp: hashers_new_def Let_def)
  obtain hs' t' where "hash_chunks lib cancelled limit None (rs_chunks r) hs t = (Inr hs', t')"
    using hash_chunks_total [OF assms(1)] by blast
  then show ?thesis using hs assms(2) by (auto simp: hash_stream_bounded_def)
qed

lemma hash_blocking_bounded_stream: "hash_blocking_bounded = hash_stream_bounded"
  by (intro ext) (simp add: hash_blocking_bounded_def hash_stream_bounded_def)

section \<open>Checksum files\<close>

text \<open>A digest as \<open>to_hex\<close> prints it, and a path that fits on a line.\<close>

definition is_lower_hexdigit :: "char \<Rightarrow> bool" where
  "is_lower_hexdigit c \<longleftrightarrow> in_range 48 57 c \<or> in_range 97 102 c"

definition digest_ok :: "string \<Rightarrow> bool" where
  "digest_ok d \<longleftrightarrow> d \<noteq> [] \<and> even (length d) \<and> list_all is_lower_hexdigit d"

definition path_ok :: "string \<Rightarrow> bool" where
  "path_ok p \<longleftrightarrow> p \<noteq> [] \<and> newline \<notin> set p \<and> last p \<noteq> carriage_return \<and> utf8_valid p"

definition recorded_entry :: "string \<times> string \<Rightarrow> checksum_file_entry" where
  "recorded_entry = (\<lambda>(path, digest). \<lparr>fe_path = path, fe_digest = digest, fe_binary = False, fe_algorithm = algorithm_for_width (length digest)\<rparr>)"

lemma LOWER_HEX_ok: "n < 16 \<Longrightarrow> is_lower_hexdigit (LOWER_HEX ! n)"
proof -
  have "\<forall>n\<in>{..<16}. is_lower_hexdigit (LOWER_HEX ! n)" by code_simp
  then show "n < 16 \<Longrightarrow> is_lower_hexdigit (LOWER_HEX ! n)" by simp
qed

lemma to_hex_ok: "bytes \<noteq> [] \<Longrightarrow> digest_ok (to_hex bytes)"
proof -
  have "byte c div 16 < 16" for c using byte_less_256 [of c] by (simp add: less_mult_imp_div_less)
  then have "even (length (to_hex bytes))" "list_all is_lower_hexdigit (to_hex bytes)"
    by (induction bytes) (auto simp: to_hex_def LOWER_HEX_ok)
  then show "bytes \<noteq> [] \<Longrightarrow> digest_ok (to_hex bytes)" by (cases bytes) (auto simp: digest_ok_def to_hex_def)
qed

lemma literal_bytes [simp]: "byte (CHR ''#'') = 35" "byte (CHR '' '') = 32" "byte newline = 10" "byte carriage_return = 13"
  by code_simp+

lemma lower_hexdigit_range: "is_lower_hexdigit c \<Longrightarrow> 48 \<le> byte c \<and> byte c < 103 \<and> \<not> in_range 65 90 c"
  by (auto simp: is_lower_hexdigit_def in_range_def)

lemma lower_hexdigit_char:
  assumes "is_lower_hexdigit c"
  shows "is_ascii_hexdigit c" "to_ascii_lowercase c = c" "32 < byte c" "byte c < 128" "c \<noteq> CHR ''#''" "c \<noteq> CHR '' ''" "c \<noteq> newline"
  using assms lower_hexdigit_range [OF assms] literal_bytes
  by (auto simp: is_lower_hexdigit_def is_ascii_hexdigit_def to_ascii_lowercase_def simp del: literal_bytes)

lemma ws_len_bytes:
  "0 < ws_len [z] \<Longrightarrow> byte z \<le> 32" "32 < byte z \<Longrightarrow> ws_len [z] = 0"
  "ws_len [y, z] = 2 \<Longrightarrow> 128 \<le> byte y \<and> 128 \<le> byte z"
  "ws_len [x, y, z] = 3 \<Longrightarrow> 128 \<le> byte x \<and> 128 \<le> byte y \<and> 128 \<le> byte z"
  by (simp_all add: in_range_def split: if_splits) auto

lemma rev_ws_len_drops_no_graphic:
  assumes "32 < byte c" "byte c < 128" "c \<in> set s"
  shows "c \<in> set (drop (rev_ws_len s) s)"
  using assms
  by (cases s rule: rev_ws_len.cases) (auto simp: ws_len_bytes(2) simp del: ws_len.simps dest!: ws_len_bytes(1,3,4) split: if_splits)

lemma trim_rev_end_keeps_graphic:
  "32 < byte c \<Longrightarrow> byte c < 128 \<Longrightarrow> c \<in> set s \<Longrightarrow> c \<in> set (trim_rev_end s)"
proof (induction s rule: trim_rev_end.induct)
  case (1 s)
  then show ?case using rev_ws_len_drops_no_graphic [of c s] by (subst trim_rev_end.simps) auto
qed

lemma trim_not_Nil: "32 < byte c \<Longrightarrow> byte c < 128 \<Longrightarrow> trim (c # s) \<noteq> []"
proof -
  assume c: "32 < byte c" "byte c < 128"
  have "ws_len (c # s) = 0" using c by (cases "c # s" rule: ws_len.cases) (auto simp: in_range_def)
  then have "trim_start (c # s) = c # s" by (subst trim_start.simps) simp
  then show ?thesis using trim_rev_end_keeps_graphic [OF c, of "rev (c # s)"] by (auto simp: trim_def)
qed

lemma utf8_valid_ascii_prefix: "\<forall>c\<in>set s. byte c < 128 \<Longrightarrow> utf8_valid (s @ r) = utf8_valid r"
  by (induction s) (auto simp: utf8_valid_ascii_Cons)

lemma split_on_terminated:
  "\<forall>l\<in>set ls. c \<notin> set l \<Longrightarrow> split_on c (concat (map (\<lambda>l. l @ [c]) ls)) = ls @ [[]]"
  by (induction ls) (auto simp: split_on_append_sep)

definition entry_line :: "string \<times> string \<Rightarrow> string" where
  "entry_line = (\<lambda>(path, digest). digest @ ''  '' @ path)"

lemma entry_line_ok:
  assumes "path_ok p" "digest_ok d"
  shows "newline \<notin> set (entry_line (p, d))" "utf8_valid (entry_line (p, d))" "trim (entry_line (p, d)) \<noteq> []"
    "last (entry_line (p, d)) \<noteq> newline" "last (entry_line (p, d)) \<noteq> carriage_return" "entry_line (p, d) \<noteq> []" "\<not> starts_with ''#'' (entry_line (p, d))"
proof -
  obtain c r where d: "d = c # r" "is_lower_hexdigit c" using assms(2) by (cases d) (auto simp: digest_ok_def)
  have ascii: "\<forall>c\<in>set (d @ ''  ''). byte c < 128"
    using assms(2) lower_hexdigit_char(4) by (auto simp: digest_ok_def list_all_iff)
  then show "utf8_valid (entry_line (p, d))" using utf8_valid_ascii_prefix [OF ascii, of p] assms(1)
    by (simp add: entry_line_def path_ok_def)
  show "newline \<notin> set (entry_line (p, d))"
    using assms lower_hexdigit_char(7) by (auto simp: entry_line_def path_ok_def digest_ok_def list_all_iff dest: arg_cong [of _ _ byte])
  show "trim (entry_line (p, d)) \<noteq> []" using trim_not_Nil lower_hexdigit_char(3,4) d by (simp add: entry_line_def)
  show "\<not> starts_with ''#'' (entry_line (p, d))" using lower_hexdigit_char(5) d by (simp add: entry_line_def starts_with_iff)
  show "last (entry_line (p, d)) \<noteq> newline" "last (entry_line (p, d)) \<noteq> carriage_return"
    using assms(1) last_in_set [of p] by (auto simp: entry_line_def path_ok_def simp del: last_in_set)
qed (simp add: entry_line_def)

lemma trim_end_matches_id: "s = [] \<or> last s \<notin> set cs \<Longrightarrow> trim_end_matches cs s = s"
  by (cases s rule: rev_cases) (auto simp: trim_end_matches_def)

lemma parse_entry_line:
  assumes "path_ok p" "digest_ok d"
  shows "parse_line (entry_line (p, d)) n = Inr (recorded_entry (p, d))"
proof -
  have hex: "list_all is_ascii_hexdigit d" "map to_ascii_lowercase d = d" "CHR '' '' \<notin> set d"
    using assms(2) lower_hexdigit_char(1,2) lower_hexdigit_char(6) [of "CHR '' ''"] by (auto simp: digest_ok_def list_all_iff intro: map_idI)
  then have "split_once (CHR '' '') (entry_line (p, d)) = Some (d, '' '' @ p)"
    using split_once_append [of "CHR '' ''" d] by (simp add: entry_line_def)
  then show ?thesis using hex assms by (simp add: parse_line_def recorded_entry_def digest_ok_def path_ok_def strip_prefix_def starts_with_def)
qed

lemma read_entry_lines:
  "list_all (\<lambda>(p, d). path_ok p \<and> digest_ok d) es \<Longrightarrow> read_lines n (map entry_line es) = Inr (map recorded_entry es)"
proof (induction es arbitrary: n)
  case (Cons e es)
  obtain p d where e: "e = (p, d)" by force
  then have ok: "path_ok p" "digest_ok d" using Cons.prems by auto
  have "trim_end_matches [carriage_return, newline] (entry_line e) = entry_line e"
    using entry_line_ok [OF ok] e by (intro trim_end_matches_id) auto
  then show ?case using entry_line_ok [OF ok] parse_entry_line [OF ok] Cons e by simp
qed simp

lemma read_written:
  assumes "list_all (\<lambda>(p, d). path_ok p \<and> digest_ok d) es"
  shows "read_checksum_file (write_checksum_file es a) = Inr (map recorded_entry es)"
proof -
  let ?h = "''# '' @ algorithm_as_str a"
  have h: "\<forall>c\<in>set ?h. 32 \<le> byte c \<and> byte c < 128"
    by (cases a; hypsubst; code_simp)
  then have no: "newline \<notin> set ?h" "carriage_return \<notin> set ?h" by (fastforce simp del: set_append)+
  then have last: "last ?h \<noteq> newline" "last ?h \<noteq> carriage_return" using last_in_set [of ?h] by auto
  have header: "newline \<notin> set ?h" "utf8_valid ?h" "strip_suffix_char carriage_return ?h = ?h"
    "trim_end_matches [carriage_return, newline] ?h = ?h"
    using no last h utf8_valid_ascii [of ?h] strip_suffix_char_id [of ?h] trim_end_matches_id [of ?h] by auto
  have clean: "\<forall>l\<in>set (map entry_line es). newline \<notin> set l \<and> last l \<noteq> carriage_return"
    using assms entry_line_ok by (auto simp: list_all_iff)
  have "write_checksum_file es a = concat (map (\<lambda>l. l @ [newline]) ((''# '' @ algorithm_as_str a) # map entry_line es))"
    by (simp add: write_checksum_file_def entry_line_def comp_def case_prod_unfold)
  then have "split_on newline (write_checksum_file es a) = ((''# '' @ algorithm_as_str a) # map entry_line es) @ [[]]"
    using split_on_terminated [of "(''# '' @ algorithm_as_str a) # map entry_line es" newline] clean header(1) by simp
  then have "buf_lines (write_checksum_file es a) = (''# '' @ algorithm_as_str a) # map (strip_suffix_char carriage_return) (map entry_line es)"
    unfolding buf_lines_def Let_def using header(3) by (simp add: butlast_append)
  also have "map (strip_suffix_char carriage_return) (map entry_line es) = map entry_line es"
    by (rule map_idI) (use clean strip_suffix_char_id in blast)
  finally show ?thesis
    using read_entry_lines [OF assms] header by (simp add: read_checksum_file_def starts_with_def)
qed

section \<open>Properties\<close>

text \<open>C28: A checksum is the digest of exactly the bytes the provider delivers, for every requested algorithm and no other,
  however the stream is cut into chunks; a prefix checksum is the digest of the prefix. An uncancelled calculation over
  a stream that does not fail always produces it, so a cancelled or failed one never passes for a short file.\<close>

theorem checksum_is_digest_of_content:
  assumes lib: "incremental (ce_library env)"
    and provider: "ce_providers env (provider_id l) = Some pr"
  shows "(\<forall>cs t'. hash_entry env l algorithms t = (Inr cs, t') \<longrightarrow>
      (\<exists>r. cp_open_read pr t l = Inr r \<and> cs = checksum_of (ce_library env) algorithms (stream_bytes r)))
    \<and> (\<forall>n cs t'. hash_entry_prefix env l algorithms n t = (Inr cs, t') \<longrightarrow>
      (\<exists>r. cp_open_read pr t l = Inr r \<and> cs = checksum_of (ce_library env) algorithms (take n (stream_bytes r))))
    \<and> (\<forall>r. (\<forall>t. \<not> ce_cancelled env t) \<and> cp_open_read pr t l = Inr r \<and> rs_error r = None \<and> algorithms \<noteq> [] \<longrightarrow>
      (\<exists>t'. hash_entry env l algorithms t = (Inr (checksum_of (ce_library env) algorithms (stream_bytes r)), t')))"
proof -
  have opened: "open_entry env l t = (map_err (ChecksumOpen (uri l)) (cp_open_read pr t l), t + 1)"
    using provider by (simp add: open_entry_def registry_resolve_def)
  have streamed: "cs = checksum_of (ce_library env) algorithms (within_limit limit (stream_bytes r))"
    if "hash_stream_bounded (ce_library env) (ce_cancelled env) r algorithms limit (t + 1) = (Inr cs, t')" for limit r cs t'
    using hash_stream_bounded_Inr [OF lib that] by simp
  note hashing = hash_entry_def hash_entry_prefix_def opened hash_stream_def hash_stream_prefix_def
  have "\<exists>r. cp_open_read pr t l = Inr r \<and> cs = checksum_of (ce_library env) algorithms (stream_bytes r)"
    if "hash_entry env l algorithms t = (Inr cs, t')" for cs t'
    using that streamed [of _ None] by (cases "cp_open_read pr t l") (auto simp: hashing within_limit_def)
  moreover have "\<exists>r. cp_open_read pr t l = Inr r \<and> cs = checksum_of (ce_library env) algorithms (take n (stream_bytes r))"
    if "hash_entry_prefix env l algorithms n t = (Inr cs, t')" for n cs t'
    using that streamed [of _ "Some n"] by (cases "cp_open_read pr t l") (auto simp: hashing within_limit_def)
  moreover have "\<exists>t'. hash_entry env l algorithms t = (Inr (checksum_of (ce_library env) algorithms (stream_bytes r)), t')"
    if "\<forall>t. \<not> ce_cancelled env t" "cp_open_read pr t l = Inr r" "rs_error r = None" "algorithms \<noteq> []" for r
    using hash_stream_bounded_total [of "ce_cancelled env" r algorithms "ce_library env" None "t + 1"] streamed [of r None] that
    by (fastforce simp: hashing within_limit_def)
  ultimately show ?thesis by blast
qed

text \<open>C29: A written checksum file reads back as it was written, with the algorithm wherever the width of the digest tells it,
  for all paths that fit on one line; verifying it against the current digests (of either case) reports every path in
  order: a match exactly if the digest is unchanged, a mismatch with both digests if not, and as missing every path
  without a digest.\<close>

theorem checksum_file_round_trip:
  assumes "list_all (\<lambda>(p, d). path_ok p \<and> digest_ok d) es"
  shows "\<exists>read. read_checksum_file (write_checksum_file es a) = Inr read
    \<and> map (\<lambda>e. (fe_path e, fe_digest e)) read = es
    \<and> (\<forall>e\<in>set read. fe_algorithm e = algorithm_for_width (length (fe_digest e)) \<and> \<not> fe_binary e)
    \<and> map vr_path (verify computed read) = map fst es
    \<and> (\<forall>i<length es. vr_status (verify computed read ! i) =
        (case map_of (rev computed) (fst (es ! i)) of
           None \<Rightarrow> Missing
         | Some now \<Rightarrow> if eq_ignore_ascii_case now (snd (es ! i)) then Match else Mismatch (snd (es ! i)) now))"
proof (intro exI conjI)
  show "read_checksum_file (write_checksum_file es a) = Inr (map recorded_entry es)" using assms by (rule read_written)
  show "map (\<lambda>e. (fe_path e, fe_digest e)) (map recorded_entry es) = es"
    by (auto simp: recorded_entry_def intro: map_idI)
qed (auto simp: recorded_entry_def verify_def verify_entry_def case_prod_beta split: option.split)

text \<open>A small hash library: the state is the bytes seen, the digest the last of them.\<close>

definition last_library :: "string hash_library" where
  "last_library = \<lparr>hl_new = (\<lambda>_. []), hl_update = (\<lambda>_ x h. h @ x),
     hl_finalize = (\<lambda>_ h. if h = [] then [] else [last h])\<rparr>"

definition two_chunks :: read_stream where
  "two_chunks = \<lparr>rs_chunks = [''ab'', ''c''], rs_error = None\<rparr>"

definition chunk_provider :: checksum_provider where
  "chunk_provider = \<lparr>pr_change_tracking = Unsupported, pr_list = (\<lambda>_ l _. Inl (VfsNotFound (uri l))), pr_inspect = (\<lambda>_ l. Inl (VfsNotFound (uri l))),
     pr_watch = (\<lambda>_ _. Inr ()), cp_capabilities = {}, cp_capabilities_for = (\<lambda>_ _. Inr {}), cp_open_read = (\<lambda>_ _. Inr two_chunks)\<rparr>"

definition chunk_env :: "string checksum_env" where
  "chunk_env = \<lparr>ce_library = last_library, ce_cancelled = (\<lambda>_. False), ce_providers = [''local'' \<mapsto> chunk_provider]\<rparr>"

lemma incremental_last: "incremental last_library"
  by (simp add: incremental_def last_library_def)

theorem checksum_is_digest_of_content_witness:
  "\<exists>t'. hash_entry chunk_env (location_new ''local'' ''file:///a'') [Md5] 0 = (Inr (checksum_of last_library [Md5] ''abc''), t')
     \<and> digest_of last_library Md5 ''abc'' = ''63''"
proof -
  have bytes: "stream_bytes two_chunks = ''abc''" by code_simp
  have "digest_of last_library Md5 ''abc'' = ''63''" by code_simp
  then show ?thesis
    using checksum_is_digest_of_content [of chunk_env "location_new ''local'' ''file:///a''" chunk_provider "[Md5]" 0] incremental_last bytes
    by (simp add: chunk_env_def location_new_def chunk_provider_def two_chunks_def)
qed

theorem checksum_file_round_trip_witness:
  "\<exists>read. read_checksum_file (write_checksum_file [(''a b'', ''00ff''), (''#c'', ''1234abcd'')] Crc32) = Inr read
     \<and> map fe_path read = [''a b'', ''#c''] \<and> map vr_status (verify [(''#c'', ''1234ABCD'')] read) = [Missing, Match]"
proof -
  have ok: "list_all (\<lambda>(p, d). path_ok p \<and> digest_ok d) [(''a b'', ''00ff''), (''#c'', ''1234abcd'')]" by code_simp
  have eq: "eq_ignore_ascii_case ''1234ABCD'' ''1234abcd''" by code_simp
  obtain read where r: "read_checksum_file (write_checksum_file [(''a b'', ''00ff''), (''#c'', ''1234abcd'')] Crc32) = Inr read"
    and paths: "map (\<lambda>e. (fe_path e, fe_digest e)) read = [(''a b'', ''00ff''), (''#c'', ''1234abcd'')]"
    and v: "\<forall>i<2. vr_status (verify [(''#c'', ''1234ABCD'')] read ! i) =
      (case map_of [(''#c'', ''1234ABCD'')] (fst ([(''a b'', ''00ff''), (''#c'', ''1234abcd'')] ! i)) of
         None \<Rightarrow> Missing
       | Some now \<Rightarrow> if eq_ignore_ascii_case now (snd ([(''a b'', ''00ff''), (''#c'', ''1234abcd'')] ! i)) then Match
           else Mismatch (snd ([(''a b'', ''00ff''), (''#c'', ''1234abcd'')] ! i)) now)"
    using checksum_file_round_trip [OF ok, of Crc32 "[(''#c'', ''1234ABCD'')]"] by auto
  obtain e1 e2 where read: "read = [e1, e2]" "fe_path e1 = ''a b''" "fe_path e2 = ''#c''" using paths by auto
  have "vr_status (verify [(''#c'', ''1234ABCD'')] read ! 0) = Missing" "vr_status (verify [(''#c'', ''1234ABCD'')] read ! 1) = Match"
    using v [rule_format, of 0] v [rule_format, of 1] eq by simp_all
  then show ?thesis using r read by (simp add: verify_def)
qed

end
