(* ===== verification/Duplicates_Laws.thy ===== *)
theory Duplicates_Laws
  imports Duplicates Checksum_Laws Directory_Laws "HOL-Library.Multiset"
begin

text \<open>
  Correctness of the duplicate finder. The reference is not staged: two candidates belong together when size, digest of
  the prefix and digest of the content agree, and a group is a class of two or more. Each stage refines such classes,
  and refining classes by a second key is classifying by both (\<open>dup_classes_refine\<close>), so the three stages give the
  classes of the three keys together, whatever order the hash maps yield and whichever digests were cached.
\<close>

section \<open>Classes of two or more\<close>

definition dup_classes :: "('a \<Rightarrow> 'k) \<Rightarrow> 'a multiset \<Rightarrow> 'a multiset multiset" where
  "dup_classes kf X =
    image_mset (\<lambda>k. {#x \<in># X. kf x = k#}) (mset_set {k. 2 \<le> size {#x \<in># X. kf x = k#}})"

lemma dup_keys_subset: "{k. 2 \<le> size {#x \<in># X. kf x = k#}} \<subseteq> kf ` set_mset X"
proof
  fix k assume "k \<in> {k. 2 \<le> size {#x \<in># X. kf x = k#}}"
  then have "{#x \<in># X. kf x = k#} \<noteq> {#}" by (metis mem_Collect_eq not_numeral_le_zero size_empty)
  then obtain x where "x \<in># {#x \<in># X. kf x = k#}" by (rule multiset_nonemptyE)
  then show "k \<in> kf ` set_mset X" by auto
qed

lemma dup_keys_finite [simp]: "finite {k. 2 \<le> size {#x \<in># X. kf x = k#}}"
  using dup_keys_subset by (rule finite_subset) simp

lemma dup_classes_image: "dup_classes kf (image_mset f X) = image_mset (image_mset f) (dup_classes (\<lambda>x. kf (f x)) X)"
  by (simp add: dup_classes_def filter_mset_image_mset comp_def multiset.map_comp)

lemma mset_set_Sigma:
  assumes "finite A" "\<And>a. finite (B a)"
  shows "(\<Sum>a\<in>A. image_mset (Pair a) (mset_set (B a))) = mset_set (Sigma A B)"
  using assms(1)
proof (induction A)
  case (insert a A)
  have "Sigma (insert a A) B = Pair a ` B a \<union> Sigma A B" by auto
  moreover have "Pair a ` B a \<inter> Sigma A B = {}" using insert.hyps by auto
  moreover have "image_mset (Pair a) (mset_set (B a)) = mset_set (Pair a ` B a)"
    by (rule image_mset_mset_set) (simp add: inj_on_def)
  ultimately show ?case using insert assms by (simp add: mset_set_Union)
qed simp

lemma image_mset_sum: "image_mset f (\<Sum>a\<in>A. g a) = (\<Sum>a\<in>A. image_mset f (g a))"
  by (induction A rule: infinite_finite_induct) auto

lemma image_mset_sum_mset: "image_mset f (\<Sum>\<^sub># M) = \<Sum>\<^sub># (image_mset (image_mset f) M)"
  by (induction M) auto

lemma dup_classes_small: "size X < 2 \<Longrightarrow> dup_classes kf X = {#}"
proof -
  assume "size X < 2"
  then have "\<not> 2 \<le> size {#x \<in># X. kf x = k#}" for k
    using size_filter_mset_lesseq [of "\<lambda>x. kf x = k" X] by linarith
  then show ?thesis by (simp add: dup_classes_def)
qed

text \<open>Classifying every class of the first key by a second one is classifying by both.\<close>

lemma dup_classes_refine:
  "\<Sum>\<^sub># (image_mset (\<lambda>G. dup_classes kf2 (filter_mset P G)) (dup_classes kf1 X))
    = dup_classes (\<lambda>x. (kf1 x, kf2 x)) (filter_mset P X)"
proof -
  let ?K = "{a. 2 \<le> size {#x \<in># X. kf1 x = a#}}"
  let ?L = "\<lambda>a. {b. 2 \<le> size {#x \<in># X. kf1 x = a \<and> P x \<and> kf2 x = b#}}"
  let ?cell = "\<lambda>(a, b). {#x \<in># X. kf1 x = a \<and> P x \<and> kf2 x = b#}"
  have fin: "finite (?L a)" for a
    using dup_keys_finite [of kf2 "{#x \<in># X. kf1 x = a \<and> P x#}"] by (simp add: filter_filter_mset conj_assoc)
  have le: "size {#x \<in># X. kf1 x = a \<and> P x \<and> kf2 x = b#} \<le> size {#x \<in># X. kf1 x = a#}" for a b
    using size_filter_mset_lesseq [of "\<lambda>x. P x \<and> kf2 x = b" "{#x \<in># X. kf1 x = a#}"] by (simp add: filter_filter_mset conj_ac)
  then have sigma: "{k. 2 \<le> size {#x \<in># filter_mset P X. (kf1 x, kf2 x) = k#}} = Sigma ?K ?L"
    by (auto simp: filter_filter_mset conj_ac intro: order_trans)
  have "\<Sum>\<^sub># (image_mset (\<lambda>G. dup_classes kf2 (filter_mset P G)) (dup_classes kf1 X))
      = (\<Sum>a\<in>?K. image_mset ?cell (image_mset (Pair a) (mset_set (?L a))))"
    by (simp add: dup_classes_def sum_unfold_sum_mset multiset.map_comp comp_def filter_filter_mset conj_ac)
  also have "\<dots> = image_mset ?cell (\<Sum>a\<in>?K. image_mset (Pair a) (mset_set (?L a)))"
    by (simp only: image_mset_sum)
  also have "\<dots> = image_mset ?cell (mset_set (Sigma ?K ?L))"
    using mset_set_Sigma [of ?K ?L] fin by simp
  also have "\<dots> = dup_classes (\<lambda>x. (kf1 x, kf2 x)) (filter_mset P X)"
    unfolding dup_classes_def sigma by (intro image_mset_cong) (auto simp: filter_filter_mset conj_ac)
  finally show ?thesis .
qed

section \<open>Buckets\<close>

definition bucket_list :: "('a \<Rightarrow> 'k) \<Rightarrow> 'a list \<Rightarrow> ('k \<times> 'a list) list" where
  "bucket_list kf xs = fold (\<lambda>x. entry_push (kf x) x) xs []"

lemma entry_push_map:
  "distinct ks \<Longrightarrow> entry_push k v (map (\<lambda>k. (k, f k)) ks) =
    (if k \<in> set ks then map (\<lambda>j. (j, if j = k then f j @ [v] else f j)) ks else map (\<lambda>k. (k, f k)) ks @ [(k, [v])])"
  by (induction ks) auto

lemma bucket_list_form:
  "\<exists>ks. distinct ks \<and> set ks = kf ` set xs \<and> bucket_list kf xs = map (\<lambda>k. (k, [x \<leftarrow> xs. kf x = k])) ks"
proof (induction xs rule: rev_induct)
  case Nil
  then show ?case by (simp add: bucket_list_def)
next
  case (snoc x xs)
  then obtain ks where ks: "distinct ks" "set ks = kf ` set xs" "bucket_list kf xs = map (\<lambda>k. (k, [x \<leftarrow> xs. kf x = k])) ks"
    by blast
  have step: "bucket_list kf (xs @ [x]) = entry_push (kf x) x (bucket_list kf xs)" by (simp add: bucket_list_def)
  show ?case
  proof (cases "kf x \<in> set ks")
    case True
    then have "bucket_list kf (xs @ [x]) = map (\<lambda>k. (k, [y \<leftarrow> xs @ [x]. kf y = k])) ks"
      using ks step by (auto simp: entry_push_map)
    then show ?thesis using ks True by (intro exI [of _ ks]) auto
  next
    case False
    then have "[y \<leftarrow> xs. kf y = kf x] = []" using ks(2) False by (auto simp: filter_empty_conv dest: image_eqI [OF sym])
    moreover have "kf x \<noteq> k" if "k \<in> set ks" for k using False that by auto
    ultimately have "bucket_list kf (xs @ [x]) = map (\<lambda>k. (k, [y \<leftarrow> xs @ [x]. kf y = k])) (ks @ [kf x])"
      using ks step False by (auto simp: entry_push_map)
    then show ?thesis using ks False by (intro exI [of _ "ks @ [kf x]"]) auto
  qed
qed

lemma bucket_list_distinct: "distinct (map fst (bucket_list kf xs))"
  using bucket_list_form [of kf xs] by (auto simp: comp_def)

lemma bucket_list_member: "(k, ys) \<in> set (bucket_list kf xs) \<Longrightarrow> ys = [x \<leftarrow> xs. kf x = k] \<and> ys \<noteq> []"
proof -
  assume e: "(k, ys) \<in> set (bucket_list kf xs)"
  obtain ks where ks: "set ks = kf ` set xs" "bucket_list kf xs = map (\<lambda>k. (k, [x \<leftarrow> xs. kf x = k])) ks"
    using bucket_list_form [of kf xs] by blast
  with e have "k \<in> kf ` set xs" "ys = [x \<leftarrow> xs. kf x = k]" by auto
  then show ?thesis by (auto simp: filter_empty_conv)
qed

lemma bucket_list_classes:
  "mset (map (mset \<circ> snd) [e \<leftarrow> bucket_list kf xs. 1 < length (snd e)]) = dup_classes kf (mset xs)"
proof -
  obtain ks where ks: "distinct ks" "set ks = kf ` set xs" "bucket_list kf xs = map (\<lambda>k. (k, [x \<leftarrow> xs. kf x = k])) ks"
    using bucket_list_form [of kf xs] by blast
  let ?many = "\<lambda>k. 1 < length [x \<leftarrow> xs. kf x = k]"
  have size: "size {#x \<in># mset xs. kf x = k#} = length [x \<leftarrow> xs. kf x = k]" for k
    unfolding mset_filter [symmetric] by (rule size_mset)
  have "{k. 2 \<le> size {#x \<in># mset xs. kf x = k#}} = set (filter ?many ks)"
    using dup_keys_subset [of kf "mset xs"] ks(2) unfolding size by auto
  then have "mset_set {k. 2 \<le> size {#x \<in># mset xs. kf x = k#}} = mset (filter ?many ks)"
    using mset_set_set [OF distinct_filter [OF ks(1)], of ?many] by (simp only:)
  then show ?thesis unfolding dup_classes_def ks(3) by (simp add: filter_map comp_def)
qed

lemma map_filter_fst: "\<forall>e\<in>set es. f (fst e) = Some e \<Longrightarrow> List.map_filter f (map fst es) = es"
  by (induction es) (auto simp: List.map_filter_simps)

lemma mset_hash_entries:
  assumes "mset (se_hash_order env (ss_clock s) (map fst es)) = mset (map fst es)" "distinct (map fst es)"
  shows "mset (hash_entries env s es) = mset es"
proof -
  let ?f = "\<lambda>k. map_option (Pair k) (map_of es k)"
  have "mset (List.map_filter ?f ks) = image_mset (the \<circ> ?f) (filter_mset (\<lambda>k. ?f k \<noteq> None) (mset ks))" for ks
    by (simp add: List.map_filter_def)
  then have "mset (hash_entries env s es) = mset (List.map_filter ?f (map fst es))"
    unfolding hash_entries_def using assms(1) by (metis (no_types, lifting))
  also have "List.map_filter ?f (map fst es) = es"
    by (rule map_filter_fst) (use assms(2) in auto)
  finally show ?thesis .
qed

section \<open>A file system that stands still\<close>

text \<open>Every location has a content, or cannot be opened, and the same identity at all times; two locations of one
  identity are one file. The hash library is incremental and a hash map yields every key once.\<close>

definition stable_scan ::
  "'h scan_env \<Rightarrow> (location \<Rightarrow> string option) \<Rightarrow> (location \<Rightarrow> file_identity option) \<Rightarrow> bool" where
  "stable_scan env content identity \<longleftrightarrow>
    incremental (ce_library env)
    \<and> (\<forall>t l. case ce_providers env (provider_id l) of
         None \<Rightarrow> content l = None
       | Some pr \<Rightarrow>
           (case content l of
              None \<Rightarrow> \<not> is_ok (cp_open_read pr t l)
            | Some x \<Rightarrow> \<exists>r. cp_open_read pr t l = Inr r \<and> stream_bytes r = x \<and> rs_error r = None))
    \<and> (\<forall>t l. identity l = (case to_native_path l of Inl _ \<Rightarrow> None | Inr path \<Rightarrow> se_metadata env t path))
    \<and> (\<forall>l l'. identity l \<noteq> None \<and> identity l = identity l' \<longrightarrow> content l = content l')
    \<and> (\<forall>t ks. mset (se_hash_order env t ks) = mset ks)"

lemma stable_unreadable:
  assumes "stable_scan env content identity" "content l = None" "ce_providers env (provider_id l) = Some pr"
  shows "\<exists>e. cp_open_read pr t l = Inl e"
proof -
  have "\<not> is_ok (cp_open_read pr t l)"
    using assms(1) [unfolded stable_scan_def, THEN conjunct2, THEN conjunct1, rule_format, of l t] assms(2,3) by simp
  then show ?thesis by (cases "cp_open_read pr t l") auto
qed

lemma stable_readable:
  assumes "stable_scan env content identity" "content l = Some x"
  obtains pr r where "ce_providers env (provider_id l) = Some pr" "cp_open_read pr t l = Inr r" "stream_bytes r = x" "rs_error r = None"
  using assms(1) [unfolded stable_scan_def, THEN conjunct2, THEN conjunct1, rule_format, of l t] assms(2)
  by (auto split: option.splits)

lemma stable_simps:
  assumes "stable_scan env content identity"
  shows "incremental (ce_library env)"
    "(case to_native_path l of Inl _ \<Rightarrow> None | Inr path \<Rightarrow> se_metadata env t path) = identity l"
    "identity l = Some i \<Longrightarrow> identity l' = Some i \<Longrightarrow> content l = content l'"
    "mset (se_hash_order env t ks) = mset ks"
proof -
  note parts = assms [unfolded stable_scan_def]
  show "incremental (ce_library env)" using parts by (rule conjunct1)
  show "(case to_native_path l of Inl _ \<Rightarrow> None | Inr path \<Rightarrow> se_metadata env t path) = identity l"
    using parts [THEN conjunct2, THEN conjunct2, THEN conjunct1, rule_format, of l t] by (rule sym)
  show "identity l = Some i \<Longrightarrow> identity l' = Some i \<Longrightarrow> content l = content l'"
    using parts [THEN conjunct2, THEN conjunct2, THEN conjunct2, THEN conjunct1, rule_format, of l l'] by simp
  show "mset (se_hash_order env t ks) = mset ks"
    using parts [THEN conjunct2, THEN conjunct2, THEN conjunct2, THEN conjunct2, rule_format, of t ks] .
qed

definition stage_digest :: "'h scan_env \<Rightarrow> duplicate_options \<Rightarrow> duplicate_stage \<Rightarrow> string \<Rightarrow> string" where
  "stage_digest env options stage x =
    digest_of (ce_library env) (do_algorithm options) (if stage = PartialHash then take (do_partial_hash_bytes options) x else x)"

lemma truncate_env [simp]:
  "ce_library (checksum_env.truncate env) = ce_library env" "ce_cancelled (checksum_env.truncate env) = ce_cancelled env"
  "ce_providers (checksum_env.truncate env) = ce_providers env"
  by (simp_all add: checksum_env.truncate_def)

lemma hash_at_stage_stable:
  assumes st: "stable_scan env content identity" and nc: "\<forall>t. \<not> ce_cancelled env t"
  shows "\<exists>s'. hash_at_stage env options stage l s =
    (case content l of Some x \<Rightarrow> Digest (stage_digest env options stage x) | None \<Rightarrow> DigestSkipped, s')"
proof -
  let ?env = "checksum_env.truncate env"
  let ?limit = "if stage = PartialHash then Some (do_partial_hash_bytes options) else None"
  have hashed: "(if stage = PartialHash then hash_entry_prefix ?env l [do_algorithm options] (do_partial_hash_bytes options) t
      else hash_entry ?env l [do_algorithm options] t) =
    (case open_entry ?env l t of
       (Inl e, t) \<Rightarrow> (Inl e, t)
     | (Inr r, t) \<Rightarrow> hash_stream_bounded (ce_library env) (ce_cancelled env) r [do_algorithm options] ?limit t)" for t
    by (auto simp: hash_entry_prefix_def hash_entry_def hash_stream_prefix_def hash_stream_def split: prod.split sum.split)
  show ?thesis
  proof (cases "content l")
    case None
    then have "\<exists>e t'. open_entry ?env l (ss_clock s) = (Inl (ChecksumOpen (uri l) e), t')"
      using stable_unreadable [OF st None, of _ "ss_clock s"]
      by (cases "ce_providers env (provider_id l)") (auto simp: open_entry_def registry_resolve_def)
    then obtain e t' where "open_entry ?env l (ss_clock s) = (Inl (ChecksumOpen (uri l) e), t')" by blast
    then show ?thesis using None unfolding hash_at_stage_def hashed by (simp add: take_digest_def)
  next
    case (Some x)
    then obtain pr r where pr: "ce_providers env (provider_id l) = Some pr"
      and r: "cp_open_read pr (ss_clock s) l = Inr r" "stream_bytes r = x" "rs_error r = None"
      using stable_readable [OF st, of l x "ss_clock s"] by blast
    have opened: "open_entry ?env l (ss_clock s) = (Inr r, ss_clock s + 1)"
      using pr r by (simp add: open_entry_def registry_resolve_def)
    obtain cs t' where run: "hash_stream_bounded (ce_library env) (ce_cancelled env) r [do_algorithm options] ?limit (ss_clock s + 1) = (Inr cs, t')"
      using hash_stream_bounded_total [OF nc r(3), of "[do_algorithm options]"] by blast
    have "cs = checksum_of (ce_library env) [do_algorithm options] (within_limit ?limit x)"
      using hash_stream_bounded_Inr [OF stable_simps(1) [OF st] run] r(2) by simp
    then have "checksum_get cs (do_algorithm options) = Some (stage_digest env options stage x)"
      by (simp add: checksum_get_def checksum_of_def stage_digest_def within_limit_def)
    then show ?thesis using Some run opened unfolding hash_at_stage_def hashed by (simp add: take_digest_def Let_def)
  qed
qed

section \<open>The loops\<close>

abbreviation member_location :: "resolved \<Rightarrow> location" where
  "member_location m \<equiv> entry_location (dc_entry (re_candidate m))"

text \<open>Every cached digest is the digest of every file of its identity.\<close>

definition cache_ok ::
  "'h scan_env \<Rightarrow> duplicate_options \<Rightarrow> duplicate_stage \<Rightarrow> (location \<Rightarrow> string option) \<Rightarrow> (location \<Rightarrow> file_identity option) \<Rightarrow> hash_buckets \<Rightarrow> bool" where
  "cache_ok env options stage content identity b \<longleftrightarrow>
    (\<forall>i d l. hb_by_identity b i = Some d \<and> identity l = Some i \<longrightarrow>
      (\<exists>x. content l = Some x \<and> d = stage_digest env options stage x))"

definition content_digest ::
  "'h scan_env \<Rightarrow> duplicate_options \<Rightarrow> duplicate_stage \<Rightarrow> (location \<Rightarrow> string option) \<Rightarrow> location \<Rightarrow> string" where
  "content_digest env options stage content l = stage_digest env options stage (the (content l))"

lemma hash_member_stable:
  assumes st: "stable_scan env content identity" and nc: "\<forall>t. \<not> ce_cancelled env t"
    and m: "re_identity m = identity (member_location m)" and b: "cache_ok env options stage content identity b"
  shows "\<exists>b' s'. hash_member env options watched stage files m b s = (Some b', s')
    \<and> cache_ok env options stage content identity b'
    \<and> hb_buckets b' = (if content (member_location m) = None then hb_buckets b
        else entry_push (content_digest env options stage content (member_location m)) m (hb_buckets b))"
proof (cases "Option.bind (re_identity m) (hb_by_identity b)")
  case (Some d)
  then obtain x where "content (member_location m) = Some x" "d = stage_digest env options stage x"
    using b m unfolding cache_ok_def bind_eq_Some_conv by metis
  then show ?thesis using Some b by (simp add: hash_member_def put_digest_def Let_def cache_ok_def content_digest_def)
next
  case None
  obtain s' where hash: "hash_at_stage env options stage (member_location m) s =
      (case content (member_location m) of Some x \<Rightarrow> Digest (stage_digest env options stage x) | None \<Rightarrow> DigestSkipped, s')"
    using hash_at_stage_stable [OF st nc] by blast
  show ?thesis
  proof (cases "content (member_location m)")
    case None
    then show ?thesis using \<open>Option.bind _ _ = None\<close> hash b by (simp add: hash_member_def)
  next
    case (Some x)
    have "content l = Some x" if "identity l = Some i" "re_identity m = Some i" for l i
      using stable_simps(3) [OF st, of "member_location m" i l] m Some that by simp
    then have "cache_ok env options stage content identity (b\<lparr>hb_by_identity := (hb_by_identity b)(i \<mapsto> stage_digest env options stage x)\<rparr>)"
      if "re_identity m = Some i" for i
      using b that by (auto simp: cache_ok_def)
    then show ?thesis using None Some hash b
      by (cases "re_identity m") (auto simp: hash_member_def put_digest_def Let_def content_digest_def cache_ok_def)
  qed
qed

lemma full_hash_group_stable:
  assumes st: "stable_scan env content identity" and nc: "\<forall>t. \<not> ce_cancelled env t"
  shows "\<forall>m\<in>set ms. re_identity m = identity (member_location m) \<Longrightarrow> cache_ok env options FullHash content identity b \<Longrightarrow>
    \<exists>b' s'. full_hash_group env options watched files ms b s = (Some b', s')
      \<and> hb_buckets b' = fold (\<lambda>m. entry_push (content_digest env options FullHash content (member_location m)) m)
          [m \<leftarrow> ms. content (member_location m) \<noteq> None] (hb_buckets b)"
proof (induction ms arbitrary: b s)
  case (Cons m ms)
  obtain b1 s1 where step: "hash_member env options watched FullHash files m b (s\<lparr>ss_clock := ss_clock s + 1\<rparr>) = (Some b1, s1)"
    and ok: "cache_ok env options FullHash content identity b1"
    and b1: "hb_buckets b1 = (if content (member_location m) = None then hb_buckets b
        else entry_push (content_digest env options FullHash content (member_location m)) m (hb_buckets b))"
    using hash_member_stable [OF st nc, of m options FullHash b] Cons.prems by auto blast
  obtain b2 s2 where "full_hash_group env options watched files ms b1 s1 = (Some b2, s2)"
    "hb_buckets b2 = fold (\<lambda>m. entry_push (content_digest env options FullHash content (member_location m)) m)
        [m \<leftarrow> ms. content (member_location m) \<noteq> None] (hb_buckets b1)"
    using Cons.IH [OF _ ok] Cons.prems(1) by (meson list.set_intros(2))
  then show ?case using nc step b1 by (simp add: cancelled_at_def)
qed simp

lemma partial_hash_group_stable:
  assumes st: "stable_scan env content identity" and nc: "\<forall>t. \<not> ce_cancelled env t"
  shows "cache_ok env options PartialHash content identity b \<Longrightarrow>
    \<exists>b' s'. partial_hash_group env options watched files cs b s = (Some b', s')
      \<and> hb_buckets b' = fold (\<lambda>m. entry_push (content_digest env options PartialHash content (member_location m)) m)
          (map (\<lambda>c. \<lparr>re_candidate = c, re_identity = identity (entry_location (dc_entry c))\<rparr>)
            [c \<leftarrow> cs. content (entry_location (dc_entry c)) \<noteq> None]) (hb_buckets b)"
proof (induction cs arbitrary: b s)
  case (Cons c cs)
  let ?m = "\<lparr>re_candidate = c, re_identity = identity (entry_location (dc_entry c))\<rparr>"
  obtain s0 where id: "identity_of env (entry_location (dc_entry c)) (s\<lparr>ss_clock := ss_clock s + 1\<rparr>) = (re_identity ?m, s0)"
    using stable_simps(2) [OF st, of "ss_clock s + 1" "entry_location (dc_entry c)"]
    by (cases "to_native_path (entry_location (dc_entry c))") (auto simp: identity_of_def)
  obtain b1 s1 where step: "hash_member env options watched PartialHash files ?m b s0 = (Some b1, s1)"
    and ok: "cache_ok env options PartialHash content identity b1"
    and b1: "hb_buckets b1 = (if content (member_location ?m) = None then hb_buckets b
        else entry_push (content_digest env options PartialHash content (member_location ?m)) ?m (hb_buckets b))"
    using hash_member_stable [OF st nc, of ?m options PartialHash b] Cons.prems by auto blast
  obtain b2 s2 where "partial_hash_group env options watched files cs b1 s1 = (Some b2, s2)"
    "hb_buckets b2 = fold (\<lambda>m. entry_push (content_digest env options PartialHash content (member_location m)) m)
      (map (\<lambda>c. \<lparr>re_candidate = c, re_identity = identity (entry_location (dc_entry c))\<rparr>)
        [c \<leftarrow> cs. content (entry_location (dc_entry c)) \<noteq> None]) (hb_buckets b1)"
    using Cons.IH [OF ok] by blast
  then show ?case using nc step b1 id by (simp add: cancelled_at_def)
qed simp

section \<open>The stages\<close>

lemma cache_ok_new [simp]: "cache_ok env options stage content identity hash_buckets_new"
  by (simp add: cache_ok_def hash_buckets_new_def)

lemma hash_buckets_new_buckets [simp]: "hb_buckets hash_buckets_new = []"
  by (simp add: hash_buckets_new_def)

definition candidate_content :: "(location \<Rightarrow> string option) \<Rightarrow> duplicate_candidate \<Rightarrow> string option" where
  "candidate_content content c = content (entry_location (dc_entry c))"

definition candidate_digest ::
  "'h scan_env \<Rightarrow> duplicate_options \<Rightarrow> duplicate_stage \<Rightarrow> (location \<Rightarrow> string option) \<Rightarrow> duplicate_candidate \<Rightarrow> string" where
  "candidate_digest env options stage content c = content_digest env options stage content (entry_location (dc_entry c))"

definition resolve_with :: "(location \<Rightarrow> file_identity option) \<Rightarrow> duplicate_candidate \<Rightarrow> resolved" where
  "resolve_with identity c = \<lparr>re_candidate = c, re_identity = identity (entry_location (dc_entry c))\<rparr>"

lemma resolve_with_simps [simp]:
  "re_candidate (resolve_with identity c) = c" "re_identity (resolve_with identity c) = identity (entry_location (dc_entry c))"
  by (simp_all add: resolve_with_def)

text \<open>The buckets of two or more that a hash map yields are the classes of its keys, in whatever order.\<close>

lemma hash_entries_classes:
  assumes "stable_scan env content identity"
  shows "mset (map (mset \<circ> snd) [e \<leftarrow> hash_entries env s (bucket_list kf xs). 1 < length (snd e)]) = dup_classes kf (mset xs)"
proof -
  have "mset (hash_entries env s (bucket_list kf xs)) = mset (bucket_list kf xs)"
    by (rule mset_hash_entries) (simp_all add: stable_simps(4) [OF assms] bucket_list_distinct)
  then show ?thesis unfolding bucket_list_classes [symmetric] by (simp only: mset_map mset_filter)
qed

lemma set_hash_entries:
  assumes "stable_scan env content identity"
  shows "set (hash_entries env s (bucket_list kf xs)) = set (bucket_list kf xs)"
  using mset_hash_entries [of env s "bucket_list kf xs"] stable_simps(4) [OF assms] bucket_list_distinct
  by (metis set_mset_mset)

lemma mset_sort_resolved [simp]: "mset (sort_resolved ms) = mset ms"
  by (simp add: sort_resolved_def)

lemma partial_hash_stage_stable:
  assumes st: "stable_scan env content identity" and nc: "\<forall>t. \<not> ce_cancelled env t"
  shows "\<exists>found s'. partial_hash_stage env options watched files gs s = (Some found, s')
    \<and> mset (map mset found) = image_mset (image_mset (resolve_with identity))
        (\<Sum>\<^sub># (mset (map (\<lambda>g. dup_classes (candidate_digest env options PartialHash content)
          (filter_mset (\<lambda>c. candidate_content content c \<noteq> None) (mset g))) gs)))"
proof (induction gs arbitrary: s)
  case (Cons g gs)
  let ?readable = "\<lambda>c. candidate_content content c \<noteq> None"
  let ?kf = "\<lambda>m. candidate_digest env options PartialHash content (re_candidate m)"
  let ?ms = "map (resolve_with identity) (filter ?readable g)"
  obtain b s1 where b: "partial_hash_group env options watched files g hash_buckets_new s = (Some b, s1)"
    "hb_buckets b = bucket_list ?kf ?ms"
    using partial_hash_group_stable [OF st nc cache_ok_new, of options watched files g s]
    by (auto simp: bucket_list_def candidate_digest_def candidate_content_def resolve_with_def [abs_def])
  obtain rest s2 where rest: "partial_hash_stage env options watched files gs s1 = (Some rest, s2)"
    "mset (map mset rest) = image_mset (image_mset (resolve_with identity))
        (\<Sum>\<^sub># (mset (map (\<lambda>g. dup_classes (candidate_digest env options PartialHash content) (filter_mset ?readable (mset g))) gs)))"
    using Cons.IH by blast
  have "mset (map mset (map sort_resolved [bucket \<leftarrow> map snd (hash_entries env s1 (hb_buckets b)). 1 < length bucket]))
      = mset (map (mset \<circ> snd) [e \<leftarrow> hash_entries env s1 (hb_buckets b). 1 < length (snd e)])"
    by (simp add: filter_map comp_def)
  also have "\<dots> = dup_classes ?kf (mset ?ms)" unfolding b(2) by (rule hash_entries_classes [OF st])
  also have "\<dots> = image_mset (image_mset (resolve_with identity))
      (dup_classes (candidate_digest env options PartialHash content) (filter_mset ?readable (mset g)))"
    by (simp add: dup_classes_image flip: mset_filter)
  finally have found: "mset (map mset (map sort_resolved [bucket \<leftarrow> map snd (hash_entries env s1 (hb_buckets b)). 1 < length bucket])) =
      image_mset (image_mset (resolve_with identity))
        (dup_classes (candidate_digest env options PartialHash content) (filter_mset ?readable (mset g)))" .
  have run: "partial_hash_stage env options watched files (g # gs) s =
      (Some (map sort_resolved [bucket \<leftarrow> map snd (hash_entries env s1 (hb_buckets b)). 1 < length bucket] @ rest), s2)"
    using b(1) rest(1) by (simp add: Let_def)
  show ?case
    by (intro exI conjI, rule run) (simp only: map_append mset_append list.map mset.simps sum_mset.add_mset image_mset_union found rest(2))
qed simp

section \<open>Groups\<close>

definition group_files :: "duplicate_group \<Rightarrow> file_entry list" where
  "group_files g = dg_distinct_files g @ concat (map hc_files (dg_hardlink_clusters g))"

lemma mset_sort_files [simp]: "mset (sort_files fs) = mset fs"
  by (simp add: sort_files_def)

lemma mset_concat_entry_push: "mset (concat (map snd (entry_push k v es))) = add_mset v (mset (concat (map snd es)))"
  by (induction es) auto

lemma mset_concat_bucket_list: "mset (concat (map snd (bucket_list kf xs))) = mset xs"
  by (induction xs rule: rev_induct) (simp_all add: bucket_list_def mset_concat_entry_push)

lemma mset_concat_filter_split: "mset (concat (map f [e \<leftarrow> es. P e])) + mset (concat (map f [e \<leftarrow> es. \<not> P e])) = mset (concat (map f es))"
  by (induction es) auto

lemma mset_concat_sort_by: "mset (concat (map f (sort_by cmp xs))) = mset (concat (map f xs))"
proof -
  have "mset (concat (map f zs)) = \<Sum>\<^sub># (image_mset (mset \<circ> f) (mset zs))" for zs
    by (induction zs) auto
  then show ?thesis by (simp only: mset_sort_by)
qed

text \<open>The files of known identity, collected by identity; hard links are the identities met more than once.\<close>

definition identity_buckets :: "resolved list \<Rightarrow> (file_identity \<times> file_entry list) list" where
  "identity_buckets ms = bucket_list (\<lambda>f. the (fl_identity f)) [f \<leftarrow> map file_of ms. fl_identity f \<noteq> None]"

definition cluster_of :: "file_identity \<times> file_entry list \<Rightarrow> hardlink_cluster" where
  "cluster_of = (\<lambda>(i, fs). \<lparr>hc_identity = i, hc_files = sort_files fs\<rparr>)"

definition cluster_cmp :: "hardlink_cluster \<Rightarrow> hardlink_cluster \<Rightarrow> comp" where
  "cluster_cmp a b = then_with (ord_cmp (fi_device (hc_identity a)) (fi_device (hc_identity b)))
    (ord_cmp (fi_inode (hc_identity a)) (fi_inode (hc_identity b)))"

lemma build_group_simps:
  "dg_hardlink_clusters (build_group d ms) = sort_by cluster_cmp (map cluster_of [e \<leftarrow> identity_buckets ms. 1 < length (snd e)])"
  "dg_distinct_files (build_group d ms) =
    sort_files ([f \<leftarrow> map file_of ms. fl_identity f = None] @ concat (map snd [e \<leftarrow> identity_buckets ms. \<not> 1 < length (snd e)]))"
  "dg_full_hash (build_group d ms) = d"
  "dg_size (build_group d ms) = (case ms of [] \<Rightarrow> 0 | m # _ \<Rightarrow> dc_size (re_candidate m))"
  by (simp_all add: build_group_def Let_def identity_buckets_def bucket_list_def cluster_of_def cluster_cmp_def [abs_def])

lemma mset_cluster_files: "mset (concat (map hc_files (map cluster_of es))) = mset (concat (map snd es))"
  by (induction es) (auto simp: cluster_of_def)

lemma mset_filter_split: "mset [x \<leftarrow> xs. P x] + mset [x \<leftarrow> xs. \<not> P x] = mset xs"
  by (induction xs) auto

lemma mset_group_files: "mset (group_files (build_group d ms)) = image_mset file_of (mset ms)"
proof -
  let ?es = "identity_buckets ms" and ?fs = "map file_of ms"
  have "mset (group_files (build_group d ms)) =
      mset [f \<leftarrow> ?fs. fl_identity f = None] + (mset (concat (map snd [e \<leftarrow> ?es. 1 < length (snd e)]))
        + mset (concat (map snd [e \<leftarrow> ?es. \<not> 1 < length (snd e)])))"
    unfolding group_files_def build_group_simps mset_append mset_concat_sort_by mset_cluster_files mset_sort_files
    by (simp only: add_ac)
  also have "\<dots> = mset [f \<leftarrow> ?fs. fl_identity f = None] + mset [f \<leftarrow> ?fs. fl_identity f \<noteq> None]"
    unfolding mset_concat_filter_split unfolding identity_buckets_def mset_concat_bucket_list ..
  also have "\<dots> = mset ?fs" by (rule mset_filter_split)
  finally show ?thesis by (simp only: mset_map)
qed

text \<open>The recorded hash is the digest of every file, the recorded size the size of one of them.\<close>

definition group_hash_ok :: "'h scan_env \<Rightarrow> duplicate_options \<Rightarrow> (location \<Rightarrow> string option) \<Rightarrow> duplicate_group \<Rightarrow> bool" where
  "group_hash_ok env options content g \<longleftrightarrow>
    (\<forall>f\<in>set (group_files g). content_digest env options FullHash content (entry_location (fl_entry f)) = dg_full_hash g)
    \<and> (\<exists>f\<in>set (group_files g). fl_size f = dg_size g)"

lemma set_group_files: "set (group_files (build_group d ms)) = file_of ` set ms"
  using arg_cong [OF mset_group_files, of set_mset] by simp

lemma build_groups_hash_ok:
  assumes "set es \<subseteq> set (bucket_list (\<lambda>m. candidate_digest env options FullHash content (re_candidate m)) ms)" "g \<in> set (build_groups es)"
  shows "group_hash_ok env options content g"
proof -
  obtain d ns where g: "g = build_group d ns" and e: "(d, ns) \<in> set es" using assms(2) by (auto simp: build_groups_def)
  then have ns: "ns = [m \<leftarrow> ms. candidate_digest env options FullHash content (re_candidate m) = d]" "ns \<noteq> []"
    using bucket_list_member [of d ns] assms(1) by blast+
  obtain m r where "ns = m # r" using ns(2) by (cases ns) auto
  then have "m \<in> set ns" "dg_size g = fl_size (file_of m)"
    by (simp_all add: g build_group_simps file_of_def)
  moreover have "\<forall>m\<in>set ns. candidate_digest env options FullHash content (re_candidate m) = d" using ns(1) by simp
  ultimately show ?thesis
    by (auto simp: group_hash_ok_def g set_group_files build_group_simps candidate_digest_def file_of_def)
qed

lemma full_hash_groups_stable:
  assumes st: "stable_scan env content identity" and nc: "\<forall>t. \<not> ce_cancelled env t"
  shows "\<forall>g\<in>set gs. \<forall>m\<in>set g. re_identity m = identity (member_location m) \<Longrightarrow>
    \<exists>found s'. full_hash_groups env options watched files gs s = (Some found, s')
    \<and> mset (map (mset \<circ> group_files) found) = image_mset (image_mset file_of)
        (\<Sum>\<^sub># (mset (map (\<lambda>g. dup_classes (\<lambda>m. candidate_digest env options FullHash content (re_candidate m))
          (filter_mset (\<lambda>m. candidate_content content (re_candidate m) \<noteq> None) (mset g))) gs)))
    \<and> (\<forall>g\<in>set found. group_hash_ok env options content g)"
proof (induction gs arbitrary: s)
  case (Cons g gs)
  let ?readable = "\<lambda>m. candidate_content content (re_candidate m) \<noteq> None"
  let ?kf = "\<lambda>m. candidate_digest env options FullHash content (re_candidate m)"
  obtain b s1 where b: "full_hash_group env options watched files g hash_buckets_new s = (Some b, s1)"
    "hb_buckets b = bucket_list ?kf (filter ?readable g)"
    using full_hash_group_stable [OF st nc _ cache_ok_new, of g options watched files s] Cons.prems
    by (auto simp: bucket_list_def candidate_digest_def candidate_content_def)
  obtain rest s2 where rest: "full_hash_groups env options watched files gs s1 = (Some rest, s2)"
    "mset (map (mset \<circ> group_files) rest) = image_mset (image_mset file_of)
        (\<Sum>\<^sub># (mset (map (\<lambda>g. dup_classes ?kf (filter_mset ?readable (mset g))) gs)))"
    "\<forall>g\<in>set rest. group_hash_ok env options content g"
  proof -
    have "\<forall>g\<in>set gs. \<forall>m\<in>set g. re_identity m = identity (member_location m)" using Cons.prems by simp
    then show thesis using Cons.IH [of s1] that by blast
  qed
  have two: "(\<not> n < 2) = (1 < n)" for n :: nat by auto
  have "mset (map (mset \<circ> group_files) (build_groups (hash_entries env s1 (hb_buckets b))))
      = image_mset (image_mset file_of) (mset (map (mset \<circ> snd) [e \<leftarrow> hash_entries env s1 (hb_buckets b). 1 < length (snd e)]))"
    unfolding build_groups_def two
    by (simp add: comp_def case_prod_unfold mset_group_files multiset.map_comp del: mset_filter)
  also have "\<dots> = image_mset (image_mset file_of) (dup_classes ?kf (mset (filter ?readable g)))"
    unfolding b(2) by (simp only: hash_entries_classes [OF st])
  finally have found: "mset (map (mset \<circ> group_files) (build_groups (hash_entries env s1 (hb_buckets b)))) =
      image_mset (image_mset file_of) (dup_classes ?kf (filter_mset ?readable (mset g)))" by (simp only: mset_filter)
  have run: "full_hash_groups env options watched files (g # gs) s = (Some (build_groups (hash_entries env s1 (hb_buckets b)) @ rest), s2)"
    using b(1) rest(1) by (simp add: Let_def)
  have ok: "\<forall>g\<in>set (build_groups (hash_entries env s1 (hb_buckets b)) @ rest). group_hash_ok env options content g"
    using rest(3) build_groups_hash_ok [OF equalityD1 [OF set_hash_entries [OF st]]] b(2) by (metis Un_iff set_append)
  show ?case
    by (intro exI conjI, rule run)
      (simp only: map_append mset_append list.map mset.simps sum_mset.add_mset image_mset_union found rest(2), rule ok)
qed simp

section \<open>The whole scan\<close>

definition eligible :: "duplicate_options \<Rightarrow> (location \<Rightarrow> string option) \<Rightarrow> duplicate_candidate \<Rightarrow> bool" where
  "eligible options content c \<longleftrightarrow> (dc_size c \<noteq> 0 \<or> do_include_empty_files options) \<and> candidate_content content c \<noteq> None"

text \<open>What makes two candidates duplicates: size, digest of the prefix and digest of the content.\<close>

definition duplicate_key ::
  "'h scan_env \<Rightarrow> duplicate_options \<Rightarrow> (location \<Rightarrow> string option) \<Rightarrow> duplicate_candidate \<Rightarrow> (u64 \<times> string) \<times> string" where
  "duplicate_key env options content c =
    ((dc_size c, candidate_digest env options PartialHash content c), candidate_digest env options FullHash content c)"

lemma group_by_size_classes:
  "mset (map mset (group_by_size cs options)) =
    dup_classes dc_size (filter_mset (\<lambda>c. dc_size c \<noteq> 0 \<or> do_include_empty_files options) (mset cs))"
proof -
  let ?cs = "[c \<leftarrow> cs. \<not> (dc_size c = 0 \<and> \<not> do_include_empty_files options)]"
  have "mset (map mset (group_by_size cs options)) = mset (map mset [g \<leftarrow> map snd (bucket_list dc_size ?cs). 1 < length g])"
    by (simp add: group_by_size_def sort_size_groups_def bucket_list_def)
  also have "[g \<leftarrow> map snd (bucket_list dc_size ?cs). 1 < length g] = map snd [e \<leftarrow> bucket_list dc_size ?cs. 1 < length (snd e)]"
    by (simp add: filter_map comp_def)
  also have "mset (map mset \<dots>) = dup_classes dc_size (mset ?cs)"
    using bucket_list_classes [of dc_size ?cs] by (simp only: map_map)
  finally show ?thesis by simp
qed

lemma sum_mset_map: "\<Sum>\<^sub># (mset (map (\<lambda>g. F (mset g)) gs)) = \<Sum>\<^sub># (image_mset F (mset (map mset gs)))"
  by (simp add: multiset.map_comp comp_def)

lemma dup_classes_same: "A \<in># dup_classes kf X \<Longrightarrow> x \<in># A \<Longrightarrow> y \<in># A \<Longrightarrow> kf x = kf y"
  by (auto simp: dup_classes_def)

lemma find_duplicates_stable:
  assumes st: "stable_scan env content identity" and nc: "\<forall>t. \<not> ce_cancelled env t"
    and X_def: "X = filter_mset (eligible options content) (mset candidates)"
  shows "\<exists>scan s groups. find_duplicates_observed env candidates options watched t = (scan, s)
    \<and> ds_outcome scan = ScanCompleted \<and> ds_groups scan = groups
    \<and> mset (map (mset \<circ> group_files) groups) =
        image_mset (image_mset (file_of \<circ> resolve_with identity)) (dup_classes (duplicate_key env options content) X)
    \<and> (\<forall>g\<in>set groups. group_hash_ok env options content g)"
proof -
  let ?readable = "\<lambda>c. candidate_content content c \<noteq> None"
  let ?gs = "group_by_size candidates options"
  let ?n = "sum_list (map length ?gs)"
  let ?s = "report watched GroupBySize ?n ?n ((scan_start t candidates)\<lparr>ss_stats := (ss_stats (scan_start t candidates))\<lparr>du_size_survivors := ?n\<rparr>\<rparr>)"
  let ?k2 = "candidate_digest env options PartialHash content" and ?k3 = "candidate_digest env options FullHash content"
  have X: "filter_mset ?readable (filter_mset (\<lambda>c. dc_size c \<noteq> 0 \<or> do_include_empty_files options) (mset candidates)) = X"
    unfolding X_def filter_filter_mset by (rule filter_mset_cong) (auto simp: eligible_def)
  obtain ps s1 where ps: "partial_hash_stage env options watched ?n ?gs (?s\<lparr>ss_clock := ss_clock ?s + 1\<rparr>) = (Some ps, s1)"
    "mset (map mset ps) = image_mset (image_mset (resolve_with identity))
      (\<Sum>\<^sub># (mset (map (\<lambda>g. dup_classes ?k2 (filter_mset ?readable (mset g))) ?gs)))"
    using partial_hash_stage_stable [OF st nc] by blast
  have classes: "mset (map mset ps) = image_mset (image_mset (resolve_with identity)) (dup_classes (\<lambda>c. (dc_size c, ?k2 c)) X)"
    unfolding ps(2) sum_mset_map [of "\<lambda>G. dup_classes ?k2 (filter_mset ?readable G)"] group_by_size_classes dup_classes_refine X ..
  have identities: "\<forall>g\<in>set ps. \<forall>m\<in>set g. re_identity m = identity (member_location m) \<and> ?readable (re_candidate m)"
  proof (intro ballI)
    fix g m assume "g \<in> set ps" "m \<in> set g"
    then have "mset g \<in># mset (map mset ps)" "m \<in># mset g" by auto
    then obtain A where A: "A \<in># dup_classes (\<lambda>c. (dc_size c, ?k2 c)) X" "m \<in># image_mset (resolve_with identity) A"
      unfolding classes by (metis (no_types, lifting) image_iff set_image_mset)
    then obtain c where "A \<in># dup_classes (\<lambda>c. (dc_size c, ?k2 c)) X" "c \<in># A" "m = resolve_with identity c" by auto
    then show "re_identity m = identity (member_location m) \<and> ?readable (re_candidate m)"
      by (auto simp: dup_classes_def X_def eligible_def)
  qed
  obtain found s2 where found: "full_hash_groups env options watched (sum_list (map length ps)) ps (s1\<lparr>ss_processed := 0\<rparr>) = (Some found, s2)"
    "mset (map (mset \<circ> group_files) found) = image_mset (image_mset file_of)
        (\<Sum>\<^sub># (mset (map (\<lambda>g. dup_classes (\<lambda>m. ?k3 (re_candidate m)) (filter_mset (\<lambda>m. ?readable (re_candidate m)) (mset g))) ps)))"
    "\<forall>g\<in>set found. group_hash_ok env options content g"
    using full_hash_groups_stable [OF st nc, of ps options watched "sum_list (map length ps)" "s1\<lparr>ss_processed := 0\<rparr>"] identities by blast
  have "mset (map (mset \<circ> group_files) found) = image_mset (image_mset file_of)
      (\<Sum>\<^sub># (image_mset (\<lambda>G. dup_classes (\<lambda>m. ?k3 (re_candidate m)) (filter_mset (\<lambda>m. ?readable (re_candidate m)) G))
        (image_mset (image_mset (resolve_with identity)) (dup_classes (\<lambda>c. (dc_size c, ?k2 c)) X))))"
    unfolding found(2) sum_mset_map [of "\<lambda>G. dup_classes (\<lambda>m. ?k3 (re_candidate m)) (filter_mset (\<lambda>m. ?readable (re_candidate m)) G)"] classes ..
  also have "\<dots> = image_mset (image_mset file_of) (image_mset (image_mset (resolve_with identity))
      (\<Sum>\<^sub># (image_mset (\<lambda>G. dup_classes ?k3 (filter_mset ?readable G)) (dup_classes (\<lambda>c. (dc_size c, ?k2 c)) X))))"
    by (simp add: multiset.map_comp comp_def filter_mset_image_mset dup_classes_image image_mset_sum_mset)
  also have "\<dots> = image_mset (image_mset (file_of \<circ> resolve_with identity)) (dup_classes (duplicate_key env options content) X)"
  proof -
    have "filter_mset ?readable X = X" unfolding X_def filter_filter_mset by (rule filter_mset_cong) (auto simp: eligible_def)
    then show ?thesis
      unfolding dup_classes_refine by (simp add: duplicate_key_def [abs_def] multiset.map_comp comp_def)
  qed
  finally have final: "mset (map (mset \<circ> group_files) found) =
    image_mset (image_mset (file_of \<circ> resolve_with identity)) (dup_classes (duplicate_key env options content) X)" .
  have "find_duplicates_observed env candidates options watched t =
    (\<lparr>ds_outcome = ScanCompleted,
     ds_groups = sort_by (\<lambda>a b. then_with (ord_cmp (dg_size b) (dg_size a)) (ord_cmp (dg_full_hash a) (dg_full_hash b))) found,
     ds_stats = ss_stats s2, ds_warnings = ss_warnings s2\<rparr>, s2)"
    using ps(1) found(1) nc by (simp add: find_duplicates_observed_def Let_def cancelled_at_def full_hash_stage_def)
  then show ?thesis using final found(3) by auto
qed

section \<open>Properties\<close>

text \<open>C26: On a file system that stands still an uncancelled scan completes, and its groups are exactly the classes of two or
  more readable candidates that agree in size, digest of the prefix and digest of the content, each class once and each
  candidate in at most one group, although most files were never read in full, digests were shared between hard links
  and hash maps yield their keys in any order. The size and the hash a group reports are those of all its files.\<close>

theorem duplicates_are_classes:
  assumes "stable_scan env content identity" "\<forall>t. \<not> ce_cancelled env t"
  shows "ds_outcome (find_duplicates env candidates options t) = ScanCompleted
    \<and> mset (map (\<lambda>g. mset (map fl_entry (group_files g))) (ds_groups (find_duplicates env candidates options t))) =
        image_mset (image_mset dc_entry)
          (dup_classes (duplicate_key env options content) (filter_mset (eligible options content) (mset candidates)))
    \<and> (\<forall>g\<in>set (ds_groups (find_duplicates env candidates options t)). \<forall>f\<in>set (group_files g).
        fl_size f = dg_size g
        \<and> content_digest env options FullHash content (entry_location (fl_entry f)) = dg_full_hash g)"
proof -
  let ?X = "filter_mset (eligible options content) (mset candidates)"
  let ?celles = "dup_classes (duplicate_key env options content) ?X"
  obtain groups where g: "ds_outcome (find_duplicates env candidates options t) = ScanCompleted"
    "ds_groups (find_duplicates env candidates options t) = groups"
    "mset (map (mset \<circ> group_files) groups) = image_mset (image_mset (file_of \<circ> resolve_with identity)) ?celles"
    "\<forall>g\<in>set groups. group_hash_ok env options content g"
    using find_duplicates_stable [OF assms refl, where options = options and candidates = candidates and t = t and watched = False]
    by (auto simp: find_duplicates_def)
  have entries: "fl_entry \<circ> (file_of \<circ> resolve_with identity) = dc_entry" by (auto simp: file_of_def)
  have "mset (map (\<lambda>g. mset (map fl_entry (group_files g))) groups) = image_mset (image_mset fl_entry) (mset (map (mset \<circ> group_files) groups))"
    by (simp add: multiset.map_comp comp_def)
  then have part: "mset (map (\<lambda>g. mset (map fl_entry (group_files g))) groups) = image_mset (image_mset dc_entry) ?celles"
    unfolding g(3) by (simp add: multiset.map_comp comp_def file_of_def)
  have same: "fl_size f = fl_size f'" if "h \<in> set groups" "f \<in> set (group_files h)" "f' \<in> set (group_files h)" for h f f'
  proof -
    note f = that(2,3)
    have "mset (group_files h) \<in># image_mset (image_mset (file_of \<circ> resolve_with identity)) ?celles"
      using that(1) unfolding g(3) [symmetric] by auto
    then obtain A where A: "A \<in># ?celles" "mset (group_files h) = image_mset (file_of \<circ> resolve_with identity) A" by auto
    have files: "set (group_files h) = (file_of \<circ> resolve_with identity) ` set_mset A"
      using arg_cong [OF A(2), of set_mset] by simp
    obtain c where c: "c \<in># A" "f = file_of (resolve_with identity c)" using f(1) unfolding files by auto
    obtain c' where c': "c' \<in># A" "f' = file_of (resolve_with identity c')" using f(2) unfolding files by auto
    have "duplicate_key env options content c = duplicate_key env options content c'"
      by (rule dup_classes_same [OF A(1) c(1) c'(1)])
    then show ?thesis by (simp add: duplicate_key_def file_of_def c(2) c'(2))
  qed
  have "fl_size f = dg_size h \<and> content_digest env options FullHash content (entry_location (fl_entry f)) = dg_full_hash h"
    if "h \<in> set groups" "f \<in> set (group_files h)" for h f
    using g(4) same that unfolding group_hash_ok_def by metis
  then show ?thesis using g(1,2) part by auto
qed

definition sample_file :: "string \<Rightarrow> location" where
  "sample_file n = location_new ''local'' (''file:///'' @ n)"

definition sample_content :: "location \<Rightarrow> string option" where
  "sample_content l = (if l \<in> {sample_file ''a'', sample_file ''b''} then Some ''xx'' else if l = sample_file ''c'' then Some ''xy'' else None)"

definition sample_provider :: checksum_provider where
  "sample_provider = chunk_provider\<lparr>cp_open_read := (\<lambda>_ l. case sample_content l of
     Some x \<Rightarrow> Inr \<lparr>rs_chunks = [x], rs_error = None\<rparr> | None \<Rightarrow> Inl (VfsNotFound (uri l)))\<rparr>"

definition sample_env :: "string scan_env" where
  "sample_env = \<lparr>ce_library = last_library, ce_cancelled = (\<lambda>_. False), ce_providers = [''local'' \<mapsto> sample_provider],
     se_metadata = (\<lambda>_ _. None), se_hash_order = (\<lambda>_ ks. rev ks)\<rparr>"

definition sample_candidates :: "duplicate_candidate list" where
  "sample_candidates = map (\<lambda>(i, n). \<lparr>dc_entry = \<lparr>entry_id = i, entry_location = sample_file n\<rparr>, dc_size = 2\<rparr>) [(1, ''a''), (2, ''c''), (3, ''b''), (4, ''d'')]"

definition sample_options :: duplicate_options where
  "sample_options = \<lparr>do_algorithm = Md5, do_partial_hash_bytes = 1, do_include_empty_files = False\<rparr>"

lemma sample_stable_with:
  assumes "cp_open_read pr = cp_open_read sample_provider"
  shows "stable_scan (sample_env\<lparr>ce_providers := [''local'' \<mapsto> pr]\<rparr>) sample_content (\<lambda>_. None)"
proof -
  have "stream_bytes \<lparr>rs_chunks = [x], rs_error = None\<rparr> = x" for x by (cases x) (simp_all add: stream_bytes_def)
  moreover have "sample_content l = None" if "provider_id l \<noteq> ''local''" for l
    using that by (auto simp: sample_content_def sample_file_def location_new_def)
  ultimately show ?thesis using assms
    by (auto simp: stable_scan_def sample_env_def incremental_last sample_provider_def split: option.split sum.split)
qed

lemma sample_stable: "stable_scan sample_env sample_content (\<lambda>_. None)"
  using sample_stable_with [of sample_provider] by (simp add: sample_env_def)

theorem duplicates_are_classes_witness:
  "ds_outcome (find_duplicates sample_env sample_candidates sample_options 0) = ScanCompleted
   \<and> mset (map (\<lambda>g. mset (map fl_entry (group_files g))) (ds_groups (find_duplicates sample_env sample_candidates sample_options 0)))
     = {# {# dc_entry (sample_candidates ! 0), dc_entry (sample_candidates ! 2) #} #}"
proof -
  let ?kf = "duplicate_key sample_env sample_options sample_content"
  have nc: "\<forall>t. \<not> ce_cancelled sample_env t" by (simp add: sample_env_def)
  have readable: "filter (eligible sample_options sample_content) sample_candidates = take 3 sample_candidates" by code_simp
  have "map (map dc_entry \<circ> snd) [e \<leftarrow> bucket_list ?kf (take 3 sample_candidates). 1 < length (snd e)]
      = [[dc_entry (sample_candidates ! 0), dc_entry (sample_candidates ! 2)]]" by code_simp
  then have "mset (map (mset \<circ> map dc_entry \<circ> snd) [e \<leftarrow> bucket_list ?kf (take 3 sample_candidates). 1 < length (snd e)])
      = {# {# dc_entry (sample_candidates ! 0), dc_entry (sample_candidates ! 2) #} #}"
    unfolding map_map [symmetric] comp_assoc by simp
  then have "image_mset (image_mset dc_entry) (dup_classes ?kf (filter_mset (eligible sample_options sample_content) (mset sample_candidates)))
      = {# {# dc_entry (sample_candidates ! 0), dc_entry (sample_candidates ! 2) #} #}"
    unfolding mset_filter [symmetric] readable bucket_list_classes [symmetric]
    by (simp only: mset_map multiset.map_comp comp_def)
  then show ?thesis using duplicates_are_classes [OF sample_stable nc] by metis
qed

end
