(* ===== verification/Checksum_Engine_Laws.thy ===== *)
theory Checksum_Engine_Laws
  imports Checksum_Engine Duplicates_Laws
begin

text \<open>
  What checksum jobs and duplicate scans report. A job has a result for a prefix of its targets, for all of them
  unless it was cancelled, and its published batches add up to what it stored. A duplicate scan walks every directory
  below its roots once, however listings are paged, and reports the classes of the files found.
\<close>

section \<open>Checksum jobs\<close>

definition batch_payloads :: "checksum_event list \<Rightarrow> checksum_entry_payload list" where
  "batch_payloads events = concat (map (\<lambda>e. case e of ChecksumResultsBatch _ es _ _ \<Rightarrow> es | _ \<Rightarrow> []) events)"

definition batch_flags :: "checksum_event list \<Rightarrow> bool list" where
  "batch_flags events = concat (map (\<lambda>e. case e of ChecksumResultsBatch _ _ last_one _ \<Rightarrow> [last_one] | _ \<Rightarrow> []) events)"

lemma batch_simps [simp]:
  "batch_payloads [] = []" "batch_payloads (xs @ ys) = batch_payloads xs @ batch_payloads ys"
  "batch_payloads (ChecksumResultsBatch j es c d # xs) = es @ batch_payloads xs" "batch_payloads (ChecksumProgress op a b k # xs) = batch_payloads xs"
  "batch_payloads (ChecksumStateChanged op q # xs) = batch_payloads xs"
  "batch_flags [] = []" "batch_flags (xs @ ys) = batch_flags xs @ batch_flags ys"
  "batch_flags (ChecksumResultsBatch j es c d # xs) = c # batch_flags xs" "batch_flags (ChecksumProgress op a b k # xs) = batch_flags xs"
  "batch_flags (ChecksumStateChanged op q # xs) = batch_flags xs"
  by (simp_all add: batch_payloads_def batch_flags_def)

text \<open>While a job runs: what is stored was published, nothing was announced as complete, and only its own entry of the store
  differs from the beginning.\<close>

definition job_inv :: "nat \<Rightarrow> checksum_store \<Rightarrow> job_run \<Rightarrow> bool" where
  "job_inv j st r \<longleftrightarrow>
    (\<exists>s. jr_store r j = Some s \<and> batch_payloads (jr_events r) = map checksum_payload (cj_entries s)
      \<and> cj_complete s = cj_complete (the (st j)))
    \<and> True \<notin> set (batch_flags (jr_events r)) \<and> (\<forall>k. k \<noteq> j \<longrightarrow> jr_store r k = st k)"

definition job_results :: "nat \<Rightarrow> job_run \<Rightarrow> checksum_entry_result list" where
  "job_results j r = cj_entries (the (jr_store r j)) @ jr_buffer r"

definition result_of :: "('h, 'a) checksum_env_scheme \<Rightarrow> checksum_job_options \<Rightarrow> checksum_target \<Rightarrow> checksum_entry_result \<Rightarrow> bool" where
  "result_of env options g e \<longleftrightarrow>
    (\<exists>t t' result. hash_entry (checksum_env.truncate env) (entry_location (ct_entry g)) (jo_algorithms options) t = (result, t')
      \<and> result \<noteq> Inl ChecksumCancelled \<and> e = entry_result g result)"

lemma flush_running:
  assumes "job_inv j st r"
  shows "job_inv j st (flush_checksums j options files False c r)"
    "job_results j (flush_checksums j options files False c r) = job_results j r"
  using assms
  by (auto simp: job_inv_def job_results_def flush_checksums_def Let_def checksum_append_def update_job_def split: option.splits)

lemma flush_final:
  assumes "job_inv j st r"
  shows "let r' = flush_checksums j options files True c r in
    (\<exists>s. jr_store r' j = Some s \<and> cj_entries s = job_results j r \<and> cj_complete s \<and> cj_cancelled s = c)
    \<and> batch_payloads (jr_events r') = map checksum_payload (job_results j r)
    \<and> (\<exists>n. batch_flags (jr_events r') = replicate n False @ [True])
    \<and> (\<forall>k. k \<noteq> j \<longrightarrow> jr_store r' k = st k)"
proof -
  have "True \<notin> set flags \<Longrightarrow> flags = replicate (length flags) False" for flags
    by (induction flags) auto
  then show ?thesis using assms
    by (fastforce simp: job_inv_def job_results_def flush_checksums_def Let_def checksum_append_def checksum_mark_complete_def update_job_def
        split: option.splits)
qed

lemma hash_chunks_cancelled: "hash_chunks lib cancelled limit err cs hs t = (Inl ChecksumCancelled, t') \<Longrightarrow> \<exists>t. cancelled t"
  by (induction cs arbitrary: hs t) (auto simp: Let_def split: if_splits option.splits)

lemma hash_entry_cancelled:
  assumes "hash_entry env l algorithms t = (Inl ChecksumCancelled, t')"
  shows "\<exists>t. ce_cancelled env t"
proof -
  have no_open: "open_entry env l t \<noteq> (Inl ChecksumCancelled, u)" for u
    by (cases "ce_providers env (provider_id l)"; cases "cp_open_read (the (ce_providers env (provider_id l))) t l")
      (auto simp: open_entry_def registry_resolve_def)
  have "hashers_new lib algorithms \<noteq> Inl ChecksumCancelled" for lib :: "'a hash_library"
    by (simp add: hashers_new_def Let_def)
  then show ?thesis using assms no_open hash_chunks_cancelled
    by (fastforce simp: hash_entry_def hash_stream_def hash_stream_bounded_def split: prod.splits sum.splits if_splits)
qed

lemma checksum_targets_run:
  assumes "job_inv j st r" "checksum_targets env due j options files gs r = (c, r')"
  shows "job_inv j st r' \<and> (\<exists>es. job_results j r' = job_results j r @ es \<and> list_all2 (result_of env options) (take (length es) gs) es
    \<and> (if c then \<exists>t. ce_cancelled env t else length es = length gs))"
  using assms
proof (induction gs arbitrary: r)
  case Nil
  then show ?case by auto
next
  case (Cons g gs)
  obtain result t where h: "hash_entry (checksum_env.truncate env) (entry_location (ct_entry g)) (jo_algorithms options) (jr_clock r + 1) = (result, t)"
    by force
  show ?case
  proof (cases "ce_cancelled env (jr_clock r) \<or> result = Inl ChecksumCancelled")
    case True
    then have "\<exists>t. ce_cancelled env t" using hash_entry_cancelled [of "checksum_env.truncate env"] h by auto
    moreover have "c \<and> (\<exists>n. r' = r\<lparr>jr_clock := n\<rparr>)"
      using True Cons.prems(2) h by (auto split: if_splits)
    ultimately show ?thesis using Cons.prems(1) by (auto simp: job_inv_def job_results_def)
  next
    case False
    let ?e = "entry_result g result"
    let ?r1 = "r\<lparr>jr_clock := t + 1, jr_buffer := jr_buffer r @ [?e], jr_completed := jr_completed r + 1,
      jr_completed_bytes := jr_completed_bytes r + (case result of Inr cs \<Rightarrow> cs_bytes_hashed cs | Inl _ \<Rightarrow> 0)\<rparr>"
    let ?r2 = "if CHECKSUM_BATCH_SIZE \<le> length (jr_buffer ?r1) \<or> due t then flush_checksums j options files False False ?r1 else ?r1"
    have "checksum_targets env due j options files gs ?r2 = (c, r')"
      using False Cons.prems(2) h by (auto simp: Let_def split: sum.splits checksum_error.splits)
    moreover have 1: "job_inv j st ?r1" "job_results j ?r1 = job_results j r @ [?e]"
      using Cons.prems(1) by (auto simp: job_inv_def job_results_def)
    then have 2: "job_inv j st ?r2" "job_results j ?r2 = job_results j r @ [?e]"
      using flush_running [OF 1(1)] by auto
    ultimately obtain es where es: "job_inv j st r'" "job_results j r' = (job_results j r @ [?e]) @ es"
      "list_all2 (result_of env options) (take (length es) gs) es" "if c then \<exists>t. ce_cancelled env t else length es = length gs"
      using Cons.IH by metis
    have "result_of env options g ?e" using h False unfolding result_of_def by blast
    then show ?thesis using es by (intro conjI exI [of _ "?e # es"]) auto
  qed
qed

text \<open>C27: Whatever is cancelled or fails, a checksum job ends with its entry of the store complete and holding the results of a
  prefix of its targets in order, each the digests of its file or the reason there are none; all targets have one unless
  the token was cancelled. The published batches add up to exactly the stored results, only the last is announced as
  complete, and no other job is touched.\<close>

theorem checksum_job_reports_all:
  assumes "st j = Some s0" "cj_entries s0 = []"
  shows "let r = run_checksum_job env due j options targets t st in
    \<exists>s. jr_store r j = Some s \<and> cj_complete s
      \<and> list_all2 (result_of env options) (take (length (cj_entries s)) targets) (cj_entries s)
      \<and> (if cj_cancelled s then \<exists>u. ce_cancelled env u else length (cj_entries s) = length targets)
      \<and> batch_payloads (jr_events r) = map checksum_payload (cj_entries s)
      \<and> (\<exists>n. batch_flags (jr_events r) = replicate n False @ [True])
      \<and> (\<forall>k. k \<noteq> j \<longrightarrow> jr_store r k = st k)"
proof -
  let ?r0 = "\<lparr>jr_clock = t, jr_buffer = [], jr_completed = 0, jr_completed_bytes = 0, jr_store = st, jr_events = []\<rparr>"
  have inv: "job_inv j st ?r0" "job_results j ?r0 = []" using assms by (auto simp: job_inv_def job_results_def)
  obtain c r1 where run: "checksum_targets env due j options (length targets) targets ?r0 = (c, r1)" by force
  obtain es where es: "job_inv j st r1" "job_results j r1 = es" "list_all2 (result_of env options) (take (length es) targets) es"
    "if c then \<exists>t. ce_cancelled env t else length es = length targets"
    using checksum_targets_run [OF inv(1) run] inv(2) by auto
  define r2 where "r2 = flush_checksums j options (length targets) True c r1"
  have fin: "\<exists>s. jr_store r2 j = Some s \<and> cj_entries s = es \<and> cj_complete s \<and> cj_cancelled s = c"
    "batch_payloads (jr_events r2) = map checksum_payload es" "\<exists>n. batch_flags (jr_events r2) = replicate n False @ [True]"
    "\<forall>k. k \<noteq> j \<longrightarrow> jr_store r2 k = st k"
    using flush_final [OF es(1), of options "length targets" c] es(2) unfolding r2_def [symmetric] Let_def by auto
  have "jr_store (run_checksum_job env due j options targets t st) = jr_store r2"
    "batch_payloads (jr_events (run_checksum_job env due j options targets t st)) = batch_payloads (jr_events r2)"
    "batch_flags (jr_events (run_checksum_job env due j options targets t st)) = batch_flags (jr_events r2)"
    using run by (simp_all add: run_checksum_job_def r2_def Let_def split: option.splits)
  then show ?thesis using fin es unfolding Let_def by auto
qed

section \<open>Walking the roots\<close>

text \<open>A directory that is always listed as the same pages; \<open>tok i\<close> is the token that leads to page \<open>i\<close>.\<close>

definition serves_pages :: "checksum_provider \<Rightarrow> location \<Rightarrow> entry_summary list list \<Rightarrow> (nat \<Rightarrow> string) \<Rightarrow> bool" where
  "serves_pages pr l pages tok \<longleftrightarrow> pages \<noteq> []
    \<and> (\<forall>t i. i < length pages \<longrightarrow>
        (\<exists>page. pr_list pr t l (if i = 0 then None else Some (tok i)) = Inr page \<and> dp_entries page = pages ! i
          \<and> dp_token page = (if i + 1 < length pages then Some (tok (i + 1)) else None)))"

lemma list_scan_pages_served:
  assumes nc: "\<forall>t. \<not> ce_cancelled env t" and pages: "serves_pages pr l pages tok"
  shows "i < length pages \<Longrightarrow> \<exists>t'. list_scan_pages env pr l (if i = 0 then None else Some (tok i)) es t = Some (Some (es @ concat (drop i pages)), t')"
proof (induction "length pages - i" arbitrary: i es t)
  case (Suc n)
  obtain page where page: "pr_list pr (t + 1) l (if i = 0 then None else Some (tok i)) = Inr page" "dp_entries page = pages ! i"
    "dp_token page = (if i + 1 < length pages then Some (tok (i + 1)) else None)"
    using pages Suc.prems unfolding serves_pages_def by blast
  have split: "concat (drop i pages) = pages ! i @ concat (drop (i + 1) pages)"
    using Suc.prems by (simp add: Cons_nth_drop_Suc [symmetric])
  show ?case
  proof (cases "i + 1 < length pages")
    case True
    have diff_Suc_i: "n = length pages - (i + 1)" using Suc.hyps(2) by simp
    from True obtain t' where "list_scan_pages env pr l (Some (tok (i + 1))) (es @ pages ! i) (t + 2) = Some (Some ((es @ pages ! i) @ concat (drop (i + 1) pages)), t')"
      using Suc.hyps(1) [OF diff_Suc_i True, of "es @ pages ! i" "t + 2"] by auto
    then show ?thesis using True nc page split by (subst list_scan_pages.simps) simp
  next
    case False
    then have "concat (drop (i + 1) pages) = []" by simp
    then show ?thesis using False nc page split by (subst list_scan_pages.simps) simp
  qed
qed simp

text \<open>\<open>listing l\<close> is what the walk sees of a directory: its entries, or nothing if its provider is unknown, does not list or
  refuses.\<close>

definition stable_listing :: "('h, 'a) checksum_env_scheme \<Rightarrow> (location \<Rightarrow> entry_summary list option) \<Rightarrow> bool" where
  "stable_listing env listing \<longleftrightarrow>
    (\<forall>l. case ce_providers env (provider_id l) of
       None \<Rightarrow> listing l = None
     | Some pr \<Rightarrow>
         (case listing l of
            None \<Rightarrow> (\<forall>t. case cp_capabilities_for pr t l of Inl _ \<Rightarrow> True | Inr caps \<Rightarrow> CapList \<notin> caps)
              \<or> (\<forall>t token. \<not> is_ok (pr_list pr t l token))
          | Some es \<Rightarrow> (\<forall>t. \<exists>caps. cp_capabilities_for pr t l = Inr caps \<and> CapList \<in> caps)
              \<and> (\<exists>pages tok. es = concat pages \<and> serves_pages pr l pages tok)))"

lemma list_scan_directory_stable:
  assumes nc: "\<forall>t. \<not> ce_cancelled env t" and st: "stable_listing env listing"
  shows "\<exists>t'. list_scan_directory env l t = Some (listing l, t')"
proof (cases "ce_providers env (provider_id l)")
  case None
  then show ?thesis using st [unfolded stable_listing_def, rule_format, of l] by (simp add: list_scan_directory_def registry_resolve_def)
next
  case (Some pr)
  note parts = st [unfolded stable_listing_def, rule_format, of l]
  show ?thesis
  proof (cases "listing l")
    case None
    have "\<exists>t'. list_scan_pages env pr l None [] (t + 1) = Some (None, t')" if "\<forall>t token. \<not> is_ok (pr_list pr t l token)"
      using that [rule_format, of "t + 2" None] nc by (subst list_scan_pages.simps) (auto split: sum.splits)
    then show ?thesis using parts Some None
      by (auto simp: list_scan_directory_def registry_resolve_def split: sum.splits)
  next
    case (Some es)
    then obtain caps pages tok where "cp_capabilities_for pr t l = Inr caps" "CapList \<in> caps" "es = concat pages" "serves_pages pr l pages tok"
      using parts \<open>ce_providers env (provider_id l) = Some pr\<close> by (simp split: option.splits) metis
    moreover from this have "\<exists>t'. list_scan_pages env pr l None [] (t + 1) = Some (Some (concat pages), t')"
      using list_scan_pages_served [OF nc, of pr l pages tok 0 "[]" "t + 1"] by (simp add: serves_pages_def)
    ultimately show ?thesis using Some \<open>ce_providers env (provider_id l) = Some pr\<close>
      by (simp add: list_scan_directory_def registry_resolve_def)
  qed
qed

definition entries_in :: "bool \<Rightarrow> (location \<Rightarrow> entry_summary list option) \<Rightarrow> location \<Rightarrow> entry_summary list" where
  "entries_in show_all listing l = (case listing l of None \<Rightarrow> [] | Some es \<Rightarrow> shown_entries show_all es)"

text \<open>The directories below the roots.\<close>

inductive below :: "bool \<Rightarrow> (location \<Rightarrow> entry_summary list option) \<Rightarrow> location list \<Rightarrow> location \<Rightarrow> bool"
  for show_all listing roots where
  below_root: "l \<in> set roots \<Longrightarrow> below show_all listing roots l"
| below_sub: "below show_all listing roots l \<Longrightarrow> e \<in> set (entries_in show_all listing l) \<Longrightarrow> es_kind e = Directory \<Longrightarrow>
    below show_all listing roots (es_location e)"

text \<open>The files a directory contributes: the shown ones, in the order of the listing, and none if it cannot be listed.\<close>

definition files_in :: "bool \<Rightarrow> (location \<Rightarrow> entry_summary list option) \<Rightarrow> location \<Rightarrow> duplicate_candidate list" where
  "files_in show_all listing l = map candidate_of [e \<leftarrow> entries_in show_all listing l. es_kind e = File]"

text \<open>The loop: every directory listed was below the roots, its files were taken once and its directories are listed or waiting.\<close>

definition walk_inv ::
  "bool \<Rightarrow> (location \<Rightarrow> entry_summary list option) \<Rightarrow> location list \<Rightarrow> location list \<Rightarrow> location set \<Rightarrow> duplicate_candidate list \<Rightarrow> bool" where
  "walk_inv show_all listing roots pending done found \<longleftrightarrow>
    finite done \<and> set pending \<union> done \<subseteq> Collect (below show_all listing roots)
    \<and> set roots \<subseteq> done \<union> set pending
    \<and> (\<forall>l\<in>done. \<forall>e\<in>set (entries_in show_all listing l). es_kind e = Directory \<longrightarrow> es_location e \<in> done \<union> set pending)
    \<and> mset found = (\<Sum>l\<in>done. mset (files_in show_all listing l))"

lemma walk_inv_end:
  assumes "walk_inv show_all listing roots [] done found"
  shows "mset found = (\<Sum>l\<in>Collect (below show_all listing roots). mset (files_in show_all listing l))"
proof -
  have "l \<in> done" if "below show_all listing roots l" for l
    using that assms by induction (auto simp: walk_inv_def)
  then have "done = Collect (below show_all listing roots)" using assms by (auto simp: walk_inv_def)
  then show ?thesis using assms by (auto simp: walk_inv_def)
qed

lemma walk_inv_step:
  assumes "walk_inv show_all listing roots (l # pending) done found" "l \<notin> done"
  shows "walk_inv show_all listing roots
    (rev (map es_location [e \<leftarrow> entries_in show_all listing l. es_kind e = Directory]) @ pending)
    (insert l done) (found @ files_in show_all listing l)"
  using assms unfolding walk_inv_def by (auto intro: below_sub simp: add.commute)

lemma collect_loop_complete:
  assumes nc: "\<forall>t. \<not> ce_cancelled env t" and st: "stable_listing env listing"
    and fin: "finite (Collect (below show_all listing roots))" and inj: "inj_on uri (Collect (below show_all listing roots))"
  shows "walk_inv show_all listing roots pending done found \<Longrightarrow>
    \<exists>found' t'. collect_loop env show_all pending (uri ` done) found t = Some (found', t')
      \<and> mset found' = (\<Sum>l\<in>Collect (below show_all listing roots). mset (files_in show_all listing l))"
proof (induction "card (Collect (below show_all listing roots) - done)" arbitrary: pending "done" found t rule: less_induct)
  case less
  show ?case using less.prems
  proof (induction pending arbitrary: t)
    case Nil
    then show ?case using walk_inv_end by (subst collect_loop.simps) auto
  next
    case (Cons l pending)
    let ?B = "Collect (below show_all listing roots)"
    have l: "l \<in> ?B" "done \<subseteq> ?B" using Cons.prems by (auto simp: walk_inv_def)
    have seen: "uri l \<in> uri ` done \<longleftrightarrow> l \<in> done" using inj l by (auto simp: inj_on_def)
    show ?case
    proof (cases "l \<in> done")
      case True
      have "walk_inv show_all listing roots pending done found" using Cons.prems True by (auto simp: walk_inv_def)
      then show ?thesis using Cons.IH nc True seen by (subst collect_loop.simps) simp
    next
      case False
      obtain t' where dir: "list_scan_directory env l (t + 1) = Some (listing l, t')"
        using list_scan_directory_stable [OF nc st] by blast
      have "card (?B - insert l done) < card (?B - done)"
        using False l fin by (intro psubset_card_mono) auto
      from less.hyps [OF this walk_inv_step [OF Cons.prems False], of t']
      show ?thesis using nc False seen dir
        by (subst collect_loop.simps) (auto simp: entries_in_def files_in_def Let_def split: option.splits)
    qed
  qed
qed

lemma collect_candidates_complete:
  assumes "\<forall>t. \<not> ce_cancelled env t" "stable_listing env listing"
    "finite (Collect (below show_all listing roots))" "inj_on uri (Collect (below show_all listing roots))"
  shows "\<exists>found t'. collect_candidates env roots show_all t = Some (found, t')
    \<and> mset found = (\<Sum>l\<in>Collect (below show_all listing roots). mset (files_in show_all listing l))"
proof -
  have "walk_inv show_all listing roots (rev roots) {} []" by (auto simp: walk_inv_def intro: below_root)
  from collect_loop_complete [OF assms this, of t] show ?thesis by (simp add: collect_candidates_def)
qed

text \<open>C25: An uncancelled duplicate scan over directories that stand still, finitely many and told apart by their URIs, ends. The
  files it takes are, with multiplicity, the shown files of every directory below the roots, each directory
  contributing its listing once, however it is paged and however often it is reached; symbolic links are not followed. It
  stores as complete exactly the classes of two or more of these files that agree in size, prefix digest and content
  digest. A directory that cannot be listed contributes nothing and leaves no trace: the scan is still reported as complete,
  although that is documented to mean an exhaustive answer.\<close>

theorem duplicate_scan_finds_all:
  assumes nc: "\<forall>t. \<not> ce_cancelled env t"
    and still: "stable_scan env content identity" "stable_listing env listing"
    and fin: "finite (Collect (below (so_show_hidden options) listing roots))"
    and inj: "inj_on uri (Collect (below (so_show_hidden options) listing roots))"
    and job: "st j = Some s0"
  shows "\<exists>cands t1 st' events t' s.
    collect_candidates env roots (so_show_hidden options) t = Some (cands, t1)
    \<and> mset cands = (\<Sum>l\<in>Collect (below (so_show_hidden options) listing roots). mset (files_in (so_show_hidden options) listing l))
    \<and> run_duplicate_scan env j roots options t st = Some (st', events, t')
    \<and> st' j = Some s \<and> dj_complete s \<and> \<not> dj_cancelled s
    \<and> mset (map (\<lambda>g. mset (map fl_entry (group_files g))) (dj_groups s)) =
        image_mset (image_mset dc_entry) (dup_classes (duplicate_key env (so_detection options) content)
          (filter_mset (eligible (so_detection options) content) (mset cands)))"
proof -
  obtain cands t1 where cands: "collect_candidates env roots (so_show_hidden options) t = Some (cands, t1)"
    "mset cands = (\<Sum>l\<in>Collect (below (so_show_hidden options) listing roots). mset (files_in (so_show_hidden options) listing l))"
    using collect_candidates_complete [OF nc still(2) fin inj] by blast
  obtain scan s where scan: "find_duplicates_observed env cands (so_detection options) True t1 = (scan, s)" "ds_outcome scan = ScanCompleted"
    "mset (map (mset \<circ> group_files) (ds_groups scan)) = image_mset (image_mset (file_of \<circ> resolve_with identity))
      (dup_classes (duplicate_key env (so_detection options) content) (filter_mset (eligible (so_detection options) content) (mset cands)))"
    using find_duplicates_stable [OF still(1) nc refl, where options = "so_detection options" and candidates = cands and t = t1 and watched = True] by auto
  have "mset (map (\<lambda>g. mset (map fl_entry (group_files g))) (ds_groups scan))
      = image_mset (image_mset fl_entry) (mset (map (mset \<circ> group_files) (ds_groups scan)))"
    by (simp add: multiset.map_comp comp_def)
  also have "\<dots> = image_mset (image_mset dc_entry) (dup_classes (duplicate_key env (so_detection options) content)
      (filter_mset (eligible (so_detection options) content) (mset cands)))"
    unfolding scan(3) by (simp add: multiset.map_comp comp_def file_of_def)
  finally have groups: "mset (map (\<lambda>g. mset (map fl_entry (group_files g))) (ds_groups scan)) = \<dots>" .
  show ?thesis
    using cands scan(1,2) groups job
    by (simp add: run_duplicate_scan_def scan_finish_def update_job_def Let_def)
qed

section \<open>Witnesses\<close>

definition one_target :: checksum_target where
  "one_target = \<lparr>ct_entry = \<lparr>entry_id = 1, entry_location = location_new ''local'' ''file:///a''\<rparr>, ct_relative_path = ''a'', ct_size = 3\<rparr>"

definition one_job :: checksum_job_options where
  "one_job = \<lparr>jo_algorithms = [Md5], jo_operation_id = None\<rparr>"

theorem checksum_job_reports_all_witness:
  "\<exists>s. jr_store (run_checksum_job chunk_env (\<lambda>_. False) 1 one_job [one_target] 0 (checksum_register 1 [Md5] 1 Map.empty)) 1 = Some s
    \<and> cj_complete s \<and> \<not> cj_cancelled s \<and> length (cj_entries s) = 1"
proof -
  have nc: "\<not> (\<exists>u. ce_cancelled chunk_env u)" by (simp add: chunk_env_def)
  then show ?thesis
    using checksum_job_reports_all [of "checksum_register 1 [Md5] 1 Map.empty" 1 _ chunk_env "\<lambda>_. False" one_job "[one_target]" 0]
    by (simp add: checksum_register_def Let_def) (auto split: if_splits)
qed

text \<open>A root with two files and a directory that cannot be listed.\<close>

definition scan_summary :: "nat \<Rightarrow> string \<Rightarrow> entry_summary" where
  "scan_summary i n = \<lparr>es_id = i, es_location = sample_file n, es_name = n, es_kind = File, es_size = Some 2, es_modified_at = None,
     es_created_at = None, es_hidden = False, es_read_only = False, es_extension = None, es_mime_type = None, es_icon_key = None,
     es_metadata_revision = 0, es_git_status = None\<rparr>"

definition root_entries :: "entry_summary list" where
  "root_entries = [scan_summary 1 ''a'', scan_summary 2 ''b'', (scan_summary 3 ''d'')\<lparr>es_kind := Directory\<rparr>]"

definition root_listing :: "location \<Rightarrow> entry_summary list option" where
  "root_listing l = (if l = sample_file [] then Some root_entries else None)"

definition root_env :: "string scan_env" where
  "root_env = sample_env\<lparr>ce_providers := [''local'' \<mapsto> sample_provider\<lparr>
     pr_list := (\<lambda>_ l _. if l = sample_file [] then Inr \<lparr>dp_entries = root_entries, dp_total_known = None, dp_has_more = False, dp_token = None\<rparr>
       else Inl (VfsNotFound (uri l))),
     cp_capabilities_for := (\<lambda>_ _. Inr {CapList})\<rparr>]\<rparr>"

definition root_options :: duplicate_scan_options where
  "root_options = \<lparr>so_detection = sample_options, so_show_hidden = False, so_operation_id = None\<rparr>"

lemma root_below: "below show_all root_listing [sample_file []] l \<longleftrightarrow> l \<in> {sample_file [], sample_file ''d''}"
proof
  show "below show_all root_listing [sample_file []] l \<Longrightarrow> l \<in> {sample_file [], sample_file ''d''}"
    by (induction rule: below.induct)
      (auto simp: entries_in_def root_listing_def root_entries_def scan_summary_def shown_entries_def split: if_splits)
  have "below show_all root_listing [sample_file []] (es_location ((scan_summary 3 ''d'')\<lparr>es_kind := Directory\<rparr>))"
    by (rule below_sub [of _ _ _ "sample_file []"])
      (auto simp: entries_in_def root_listing_def root_entries_def scan_summary_def shown_entries_def intro: below_root)
  then show "l \<in> {sample_file [], sample_file ''d''} \<Longrightarrow> below show_all root_listing [sample_file []] l"
    by (auto intro: below_root simp: scan_summary_def)
qed

theorem duplicate_scan_finds_all_witness:
  "\<exists>st' events t' s. run_duplicate_scan root_env 1 [sample_file []] root_options 0 (duplicate_register 1 [sample_file []] Map.empty) = Some (st', events, t')
    \<and> st' 1 = Some s \<and> dj_complete s \<and> \<not> dj_cancelled s \<and> root_listing (sample_file ''d'') = None"
proof -
  have nc: "\<forall>t. \<not> ce_cancelled root_env t" by (simp add: root_env_def sample_env_def)
  have scan: "stable_scan root_env sample_content (\<lambda>_. None)"
    unfolding root_env_def by (rule sample_stable_with) simp
  have "serves_pages pr (sample_file []) [root_entries] (\<lambda>_. [])"
    if "ce_providers root_env ''local'' = Some pr" for pr
    using that by (auto simp: serves_pages_def root_env_def)
  then have listing: "stable_listing root_env root_listing"
    unfolding stable_listing_def
    by (intro allI) (auto simp: root_env_def root_listing_def sample_file_def location_new_def split: option.splits intro!: exI [of _ "[root_entries]"])
  have dirs: "Collect (below (so_show_hidden root_options) root_listing [sample_file []]) = {sample_file [], sample_file ''d''}"
    by (auto simp: root_below)
  have fin: "finite (Collect (below (so_show_hidden root_options) root_listing [sample_file []]))"
    and inj: "inj_on uri (Collect (below (so_show_hidden root_options) root_listing [sample_file []]))"
    unfolding dirs by (simp_all add: sample_file_def location_new_def)
  have unlisted: "root_listing (sample_file ''d'') = None" by (simp add: root_listing_def sample_file_def location_new_def)
  obtain s0 where job: "duplicate_register 1 [sample_file []] Map.empty 1 = Some s0" by (simp add: duplicate_register_def)
  show ?thesis using duplicate_scan_finds_all [OF nc scan listing fin inj, where st = "duplicate_register 1 [sample_file []] Map.empty" and j = 1 and t = 0] job unlisted
    by blast
qed

end
