(* ===== verification/Migration.thy ===== *)
theory Migration
  imports Workspace_Command "HOL-Library.AList"
begin

text \<open>
  The schema migrations of \<open>src/crates/fm-application/src/workspace/migration.rs\<close>, on raw JSON.
  A \<open>serde_json::Value\<close> is a datatype with its six constructors and an object is an association
  list; the accessors are the documented ones, the mutable index \<open>tab[..]\<close> included: it turns
  null into an object, adds a missing key as null and panics on any other value. A panic is \<open>None\<close>.
  The clock reading, already printed, and the host's own \<open>Location::from_native_path\<close> are
  arguments: a workspace file is read on the host that wrote it, under that host's path rules.
\<close>

section \<open>JSON values\<close>

datatype json_number = PosInt u64 | NegInt int | Float u64

datatype json =
    JNull
  | JBool bool
  | JNumber json_number
  | JString string
  | JArray "json list"
  | JObject "(string \<times> json) list"

fun as_u64 :: "json \<Rightarrow> u64 option" where
  "as_u64 (JNumber (PosInt n)) = Some n"
| "as_u64 _ = None"

fun as_str :: "json \<Rightarrow> string option" where
  "as_str (JString s) = Some s"
| "as_str _ = None"

fun as_array :: "json \<Rightarrow> json list option" where
  "as_array (JArray xs) = Some xs"
| "as_array _ = None"

fun as_object :: "json \<Rightarrow> (string \<times> json) list option" where
  "as_object (JObject ob) = Some ob"
| "as_object _ = None"

definition json_get :: "string \<Rightarrow> json \<Rightarrow> json option" where
  "json_get k v = Option.bind (as_object v) (\<lambda>ob. map_of ob k)"

text \<open>\<open>entry(k).or_insert(v)\<close>.\<close>

definition or_insert :: "string \<Rightarrow> json \<Rightarrow> (string \<times> json) list \<Rightarrow> (string \<times> json) list" where
  "or_insert k v ob = (if map_of ob k = None then AList.update k v ob else ob)"

text \<open>A panicking loop over the elements of a mutable array.\<close>

fun for_each_mut :: "('a \<Rightarrow> 'a option) \<Rightarrow> 'a list \<Rightarrow> 'a list option" where
  "for_each_mut f [] = Some []"
| "for_each_mut f (x # xs) =
    (case f x of None \<Rightarrow> None | Some y \<Rightarrow> (case for_each_mut f xs of None \<Rightarrow> None | Some ys \<Rightarrow> Some (y # ys)))"

text \<open>\<open>get_mut(k).and_then(Value::as_array_mut)\<close> and the loop over what it finds.\<close>

definition update_array :: "string \<Rightarrow> (json \<Rightarrow> json option) \<Rightarrow> (string \<times> json) list \<Rightarrow> (string \<times> json) list option" where
  "update_array k f ob =
    (case Option.bind (map_of ob k) as_array of
       None \<Rightarrow> Some ob
     | Some xs \<Rightarrow> (case for_each_mut f xs of None \<Rightarrow> None | Some ys \<Rightarrow> Some (AList.update k (JArray ys) ob)))"

text \<open>The same loop on a value that need not be an object.\<close>

fun update_array_of :: "string \<Rightarrow> (json \<Rightarrow> json option) \<Rightarrow> json \<Rightarrow> json option" where
  "update_array_of k f (JObject ob) = map_option JObject (update_array k f ob)"
| "update_array_of k f v = Some v"

text \<open>A function applied to the place \<open>v[k]\<close>.\<close>

fun index_mut :: "string \<Rightarrow> (json \<Rightarrow> json) \<Rightarrow> json \<Rightarrow> json option" where
  "index_mut k f JNull = Some (JObject [(k, f JNull)])"
| "index_mut k f (JObject ob) =
    Some (JObject (AList.update k (f (case map_of ob k of Some x \<Rightarrow> x | None \<Rightarrow> JNull)) ob))"
| "index_mut k f _ = None"

section \<open>The migrations\<close>

definition default_directory_view_configuration :: json where
  "default_directory_view_configuration = JObject
    [(''sort'', JArray []), (''columns'', JArray []), (''show_hidden'', JBool False),
     (''folders_first'', JBool False), (''quick_filter'', JNull)]"

definition not_an_object :: workspace_error where
  "not_an_object = Serialization ''workspace JSON is not an object''"

definition json_u64 :: "u64 \<Rightarrow> json" where
  "json_u64 n = JNumber (PosInt n)"

fun migrate_tab_v0 :: "json \<Rightarrow> json" where
  "migrate_tab_v0 (JObject ob) = JObject (or_insert ''pinned'' (JBool False) (or_insert ''title_override'' JNull ob))"
| "migrate_tab_v0 v = v"

definition first_tab_view :: "json \<Rightarrow> json" where
  "first_tab_view pane =
    (case Option.bind (json_get ''tabs'' pane) as_array of
       Some (tab # _) \<Rightarrow> (case json_get ''view'' tab of Some v \<Rightarrow> v | None \<Rightarrow> default_directory_view_configuration)
     | _ \<Rightarrow> default_directory_view_configuration)"

definition migrate_pane_v0 :: "json \<Rightarrow> json option" where
  "migrate_pane_v0 pane =
    (case as_object pane of
       None \<Rightarrow> Some pane
     | Some ob \<Rightarrow> map_option JObject
         (update_array ''tabs'' (\<lambda>tab. Some (migrate_tab_v0 tab))
           (or_insert ''default_view'' (first_tab_view pane) (or_insert ''title'' JNull ob))))"

definition migrate_v0_to_v1 :: "string \<Rightarrow> json \<Rightarrow> (workspace_error + json) option" where
  "migrate_v0_to_v1 now v =
    (case as_object v of
       None \<Rightarrow> Some (Inl not_an_object)
     | Some ob \<Rightarrow> map_option (\<lambda>ob. Inr (JObject ob))
         (update_array ''panes'' migrate_pane_v0
           (or_insert ''operation_centre'' (JObject [(''visible'', JBool False), (''height'', json_u64 0)])
             (or_insert ''revision'' (json_u64 1)
               (or_insert ''updated_at'' (JString now)
                 (or_insert ''created_at'' (JString now)
                   (AList.update ''schema_version'' (json_u64 1) ob)))))))"

text \<open>The walk that the two later migrations share: the location of every tab, then the locations of
  its history, back before forward.\<close>

definition rewrite_history :: "(json \<Rightarrow> json) \<Rightarrow> json \<Rightarrow> json" where
  "rewrite_history f h =
    (case update_array_of ''back'' (\<lambda>l. Some (f l)) h of
       None \<Rightarrow> h
     | Some h' \<Rightarrow> (case update_array_of ''forward'' (\<lambda>l. Some (f l)) h' of None \<Rightarrow> h' | Some h'' \<Rightarrow> h''))"

definition rewrite_tab :: "(json \<Rightarrow> json) \<Rightarrow> json \<Rightarrow> json option" where
  "rewrite_tab f tab =
    (case index_mut ''location'' f tab of
       None \<Rightarrow> None
     | Some tab' \<Rightarrow>
         (case (as_object tab', json_get ''history'' tab') of
            (Some ob, Some h) \<Rightarrow> Some (JObject (AList.update ''history'' (rewrite_history f h) ob))
          | _ \<Rightarrow> Some tab'))"

definition rewrite_locations :: "(json \<Rightarrow> json) \<Rightarrow> u64 \<Rightarrow> json \<Rightarrow> (workspace_error + json) option" where
  "rewrite_locations f n v =
    (case as_object v of
       None \<Rightarrow> Some (Inl not_an_object)
     | Some ob \<Rightarrow> map_option (\<lambda>ob. Inr (JObject ob))
         (update_array ''panes'' (update_array_of ''tabs'' (rewrite_tab f))
           (AList.update ''schema_version'' (json_u64 n) ob)))"

definition normalize_local_location :: "json \<Rightarrow> json" where
  "normalize_local_location l =
    (case as_object l of
       None \<Rightarrow> l
     | Some ob \<Rightarrow>
         let is_file_uri = (case Option.bind (map_of ob ''uri'') as_str of Some u \<Rightarrow> starts_with ''file:'' u | None \<Rightarrow> False);
             uses_obsolete_alias = (Option.bind (map_of ob ''provider_id'') as_str = Some ''file'')
         in if is_file_uri \<and> uses_obsolete_alias then JObject (AList.update ''provider_id'' (JString ''local'') ob) else l)"

definition repair_native_path_location :: "(string \<Rightarrow> location_error + location) \<Rightarrow> json \<Rightarrow> json" where
  "repair_native_path_location native l =
    (case as_object l of
       None \<Rightarrow> l
     | Some ob \<Rightarrow>
         (case Option.bind (Option.bind (map_of ob ''uri'') as_str) (strip_prefix ''file://'') of
            None \<Rightarrow> l
          | Some path \<Rightarrow>
              if path = [] \<or> starts_with ''/'' path then l
              else (case native path of
                      Inr repaired \<Rightarrow> JObject (AList.update ''uri'' (JString (uri repaired)) ob)
                    | Inl _ \<Rightarrow> l)))"

definition migrate_v1_to_v2 :: "json \<Rightarrow> (workspace_error + json) option" where
  "migrate_v1_to_v2 = rewrite_locations normalize_local_location 2"

definition migrate_v2_to_v3 :: "(string \<Rightarrow> location_error + location) \<Rightarrow> json \<Rightarrow> (workspace_error + json) option" where
  "migrate_v2_to_v3 native = rewrite_locations (repair_native_path_location native) 3"

text \<open>\<open>u32::try_from(..).unwrap_or(u32::MAX)\<close>.\<close>

definition json_schema_version :: "json \<Rightarrow> u32" where
  "json_schema_version v =
    (let n = (case Option.bind (json_get ''schema_version'' v) as_u64 of Some n \<Rightarrow> n | None \<Rightarrow> 0)
     in if unat n < 2 ^ 32 then ucast n else 4294967295)"

function migrate_from :: "string \<Rightarrow> (string \<Rightarrow> location_error + location) \<Rightarrow> u32 \<Rightarrow> json \<Rightarrow> (workspace_error + json) option" where
  "migrate_from now native version v =
    (if version < CURRENT_WORKSPACE_SCHEMA_VERSION then
       (case (if version = 0 then migrate_v0_to_v1 now v
              else if version = 1 then migrate_v1_to_v2 v
              else if version = 2 then migrate_v2_to_v3 native v
              else Some (Inl (UnsupportedSchema version))) of
          None \<Rightarrow> None
        | Some (Inl e) \<Rightarrow> Some (Inl e)
        | Some (Inr v') \<Rightarrow> migrate_from now native (version + 1) v')
     else Some (Inr v))"
  by pat_completeness auto
termination
  by (relation "measure (\<lambda>(_, _, version, _). 3 - unat version)")
    (auto simp: CURRENT_WORKSPACE_SCHEMA_VERSION_def word_less_nat_alt unat_word_ariths)

definition migrate_workspace_json ::
    "string \<Rightarrow> (string \<Rightarrow> location_error + location) \<Rightarrow> json \<Rightarrow> (workspace_error + json) option" where
  "migrate_workspace_json now native v =
    (let version = json_schema_version v in
     if CURRENT_WORKSPACE_SCHEMA_VERSION < version then Some (Inl (UnsupportedSchema version))
     else migrate_from now native version v)"

end
