(* ===== verification/Migration_Laws.thy ===== *)
theory Migration_Laws
  imports Migration
begin

text \<open>
  What the migrations of a stored workspace guarantee: when they succeed, fail or panic, that they
  lose nothing of what the file holds, and that the obsolete provider alias is gone afterwards.
\<close>

section \<open>Loops and places\<close>

lemma as_array_Some [simp]: "as_array v = Some xs \<longleftrightarrow> v = JArray xs"
  by (cases v) auto

lemma as_object_Some [simp]: "as_object v = Some ob \<longleftrightarrow> v = JObject ob"
  by (cases v) auto

lemma as_str_Some [simp]: "as_str v = Some s \<longleftrightarrow> v = JString s"
  by (cases v) auto

lemma json_get_object [simp]: "json_get k (JObject ob) = map_of ob k"
  by (simp add: json_get_def)

lemma for_each_mut_Some: "for_each_mut f xs = Some ys \<Longrightarrow> list_all2 (\<lambda>x y. f x = Some y) xs ys"
  by (induction xs arbitrary: ys) (auto split: option.splits)

lemma for_each_mut_None: "for_each_mut f xs = None \<longleftrightarrow> (\<exists>x\<in>set xs. f x = None)"
  by (induction xs) (auto split: option.splits)

lemma for_each_mut_total [simp]: "for_each_mut (\<lambda>x. Some (g x)) xs = Some (map g xs)"
  by (induction xs) auto

lemma or_insert_get: "map_of (or_insert k v ob) j = (if j = k \<and> map_of ob k = None then Some v else map_of ob j)"
  by (auto simp: or_insert_def update_conv')

lemma array_at_None: "Option.bind m as_array = None \<longleftrightarrow> (\<forall>xs. m \<noteq> Some (JArray xs))"
proof (cases m)
  case (Some v)
  then show ?thesis by (cases v) auto
qed simp

lemma update_array_array:
  "map_of ob k = Some (JArray xs) \<Longrightarrow>
   update_array k f ob = map_option (\<lambda>ys. AList.update k (JArray ys) ob) (for_each_mut f xs)"
  by (simp add: update_array_def option.case_eq_if map_option_case)

lemma update_array_other: "\<forall>xs. map_of ob k \<noteq> Some (JArray xs) \<Longrightarrow> update_array k f ob = Some ob"
  using array_at_None [of "map_of ob k"] by (simp add: update_array_def)

lemma update_array_None:
  "update_array k f ob = None \<longleftrightarrow> (\<exists>xs. map_of ob k = Some (JArray xs) \<and> (\<exists>x\<in>set xs. f x = None))"
  by (cases "\<exists>xs. map_of ob k = Some (JArray xs)")
    (auto simp: update_array_array update_array_other for_each_mut_None [symmetric] simp del: not_None_eq)

lemma update_array_cases:
  assumes "update_array k f ob = Some ob'"
  obtains (same) "ob' = ob" "\<And>xs. map_of ob k \<noteq> Some (JArray xs)"
    | (looped) xs ys where "map_of ob k = Some (JArray xs)" "list_all2 (\<lambda>x y. f x = Some y) xs ys"
        "ob' = AList.update k (JArray ys) ob"
proof (cases "\<exists>xs. map_of ob k = Some (JArray xs)")
  case True
  then obtain xs ys where "map_of ob k = Some (JArray xs)" "for_each_mut f xs = Some ys"
      "ob' = AList.update k (JArray ys) ob"
    using assms by (auto simp: update_array_array)
  then show ?thesis using looped for_each_mut_Some by blast
next
  case False
  then have "ob' = ob" using assms by (simp add: update_array_other)
  then show ?thesis using False same by blast
qed

section \<open>What is kept\<close>

text \<open>Every field of an object stays, and its value is related to the old one as the field allows;
  null may become an object, and any other value stays as it is.\<close>

definition fields_keep :: "(string \<Rightarrow> json \<Rightarrow> json \<Rightarrow> bool) \<Rightarrow> (string \<times> json) list \<Rightarrow> (string \<times> json) list \<Rightarrow> bool" where
  "fields_keep R ob ob' \<longleftrightarrow> list_all (\<lambda>(k, _). case (map_of ob k, map_of ob' k) of
     (Some x, Some x') \<Rightarrow> R k x x' | _ \<Rightarrow> False) ob"

definition object_keeps :: "(string \<Rightarrow> json \<Rightarrow> json \<Rightarrow> bool) \<Rightarrow> json \<Rightarrow> json \<Rightarrow> bool" where
  "object_keeps R v v' \<longleftrightarrow> (case v of
      JObject ob \<Rightarrow> (case v' of JObject ob' \<Rightarrow> fields_keep R ob ob' | _ \<Rightarrow> False)
    | JNull \<Rightarrow> v' = JNull \<or> as_object v' \<noteq> None
    | _ \<Rightarrow> v' = v)"

definition array_keeps :: "(json \<Rightarrow> json \<Rightarrow> bool) \<Rightarrow> json \<Rightarrow> json \<Rightarrow> bool" where
  "array_keeps P v v' \<longleftrightarrow> (case v of
      JArray xs \<Rightarrow> (case v' of JArray ys \<Rightarrow> list_all2 P xs ys | _ \<Rightarrow> False)
    | _ \<Rightarrow> v' = v)"

definition location_field :: "string \<Rightarrow> json \<Rightarrow> json \<Rightarrow> bool" where
  "location_field k x x' \<longleftrightarrow> k = ''uri'' \<or> k = ''provider_id'' \<or> x' = x"

definition history_field :: "string \<Rightarrow> json \<Rightarrow> json \<Rightarrow> bool" where
  "history_field k = (if k = ''back'' \<or> k = ''forward'' then array_keeps (object_keeps location_field) else (=))"

definition tab_field :: "string \<Rightarrow> json \<Rightarrow> json \<Rightarrow> bool" where
  "tab_field k = (if k = ''location'' then object_keeps location_field
     else if k = ''history'' then object_keeps history_field else (=))"

definition pane_field :: "string \<Rightarrow> json \<Rightarrow> json \<Rightarrow> bool" where
  "pane_field k = (if k = ''tabs'' then array_keeps (object_keeps tab_field) else (=))"

definition workspace_field :: "string \<Rightarrow> json \<Rightarrow> json \<Rightarrow> bool" where
  "workspace_field k = (if k = ''schema_version'' then (\<lambda>_ _. True)
     else if k = ''panes'' then array_keeps (object_keeps pane_field) else (=))"

lemma fields_keep_iff:
  "fields_keep R ob ob' \<longleftrightarrow> (\<forall>k x. map_of ob k = Some x \<longrightarrow> (\<exists>x'. map_of ob' k = Some x' \<and> R k x x'))"
proof
  assume keep: "fields_keep R ob ob'"
  show "\<forall>k x. map_of ob k = Some x \<longrightarrow> (\<exists>x'. map_of ob' k = Some x' \<and> R k x x')"
  proof (intro allI impI)
    fix k x assume "map_of ob k = Some x"
    moreover from this have "(k, x) \<in> set ob" by (rule map_of_SomeD)
    ultimately show "\<exists>x'. map_of ob' k = Some x' \<and> R k x x'"
      using keep by (fastforce simp: fields_keep_def list_all_iff split: option.splits)
  qed
next
  assume all: "\<forall>k x. map_of ob k = Some x \<longrightarrow> (\<exists>x'. map_of ob' k = Some x' \<and> R k x x')"
  have "case (map_of ob k, map_of ob' k) of (Some x, Some x') \<Rightarrow> R k x x' | _ \<Rightarrow> False" if member: "(k, y) \<in> set ob" for k y
  proof -
    obtain x where "map_of ob k = Some x"
      using weak_map_of_SomeI [OF member] by blast
    then show ?thesis using all by fastforce
  qed
  then show "fields_keep R ob ob'" by (auto simp: fields_keep_def list_all_iff)
qed

text \<open>A field relation is a preorder when every one of its relations is.\<close>

definition preorder :: "('a \<Rightarrow> 'a \<Rightarrow> bool) \<Rightarrow> bool" where
  "preorder P \<longleftrightarrow> reflp P \<and> transp P"

lemma preorder_refl: "preorder P \<Longrightarrow> P x x"
  by (simp add: preorder_def reflpD)

lemma preorder_trans: "preorder P \<Longrightarrow> P x y \<Longrightarrow> P y z \<Longrightarrow> P x z"
  unfolding preorder_def by (blast dest: transpD)

lemma preorder_eq [simp]: "preorder (=)" "preorder (\<lambda>_ _. True)"
  by (simp_all add: preorder_def reflp_def transp_def)

lemma fields_keep_refl: "(\<And>k. preorder (R k)) \<Longrightarrow> fields_keep R ob ob"
  by (simp add: fields_keep_iff preorder_refl)

lemma fields_keep_trans:
  assumes "\<And>k. preorder (R k)" "fields_keep R a b" "fields_keep R b c"
  shows "fields_keep R a c"
  using assms(2,3) preorder_trans [OF assms(1)] unfolding fields_keep_iff by meson

lemma object_keeps_object [simp]: "object_keeps R (JObject ob) (JObject ob') = fields_keep R ob ob'"
  by (simp add: object_keeps_def)

lemma preorder_object_keeps [simp]:
  assumes R: "\<And>k. preorder (R k)"
  shows "preorder (object_keeps R)"
proof -
  have "object_keeps R v v" for v
    by (cases v) (simp_all add: object_keeps_def fields_keep_refl R)
  moreover have "object_keeps R a c" if "object_keeps R a b" "object_keeps R b c" for a b c
  proof (cases a)
    case (JObject ob)
    then show ?thesis using that fields_keep_trans [OF R]
      by (auto simp: object_keeps_def split: json.splits)
  qed (use that in \<open>auto simp: object_keeps_def split: json.splits\<close>)
  ultimately show ?thesis by (simp add: preorder_def reflpI transpI)
qed

lemma preorder_array_keeps [simp]:
  assumes P: "preorder P"
  shows "preorder (array_keeps P)"
proof -
  have "array_keeps P v v" for v
    by (cases v) (simp_all add: array_keeps_def list_all2_refl preorder_refl [OF P])
  moreover have "array_keeps P a c" if "array_keeps P a b" "array_keeps P b c" for a b c
  proof (cases a)
    case (JArray xs)
    then show ?thesis using that list_all2_trans [OF preorder_trans [OF P]]
      by (auto simp: array_keeps_def split: json.splits)
  qed (use that in \<open>auto simp: array_keeps_def\<close>)
  ultimately show ?thesis by (simp add: preorder_def reflpI transpI)
qed

lemma preorder_fields [simp]:
  "preorder (location_field k)" "preorder (history_field k)" "preorder (tab_field k)"
  "preorder (pane_field k)" "preorder (workspace_field k)"
proof -
  show location: "preorder (location_field k)" for k
    by (auto simp: preorder_def location_field_def reflp_def transp_def)
  show history: "preorder (history_field k)" for k
    by (simp add: history_field_def location preorder_array_keeps preorder_object_keeps)
  show tab: "preorder (tab_field k)" for k
    by (simp add: tab_field_def location history preorder_object_keeps)
  show pane: "preorder (pane_field k)" for k
    by (simp add: pane_field_def tab preorder_array_keeps preorder_object_keeps)
  show "preorder (workspace_field k)"
    by (simp add: workspace_field_def pane)
qed

lemma fields_keep_update:
  assumes "\<And>k. preorder (R k)" "\<And>x. map_of ob k = Some x \<Longrightarrow> R k x y"
  shows "fields_keep R ob (AList.update k y ob)"
  using assms(2) preorder_refl [OF assms(1)] by (auto simp: fields_keep_iff update_conv')

lemma fields_keep_or_insert: "(\<And>k. preorder (R k)) \<Longrightarrow> fields_keep R ob (or_insert k v ob)"
  by (auto simp: fields_keep_iff or_insert_get preorder_refl)

lemma fields_keep_update_array:
  assumes "\<And>k. preorder (R k)" "update_array k f ob = Some ob'" "\<And>x y. f x = Some y \<Longrightarrow> P x y"
    and "\<And>x y. array_keeps P x y \<Longrightarrow> R k x y"
  shows "fields_keep R ob ob'"
  using assms(2)
proof (cases rule: update_array_cases)
  case same
  then show ?thesis by (simp add: fields_keep_refl assms(1))
next
  case (looped xs ys)
  then have "R k (JArray xs) (JArray ys)"
    using assms(3,4) by (simp add: array_keeps_def list_all2_mono)
  then show ?thesis using looped by (auto intro!: fields_keep_update assms(1))
qed

section \<open>The walk over the locations\<close>

text \<open>The tabs that the mutable index of the walk panics on: neither an object nor null.\<close>

definition tab_scalar :: "json \<Rightarrow> bool" where
  "tab_scalar t \<longleftrightarrow> t \<noteq> JNull \<and> as_object t = None"

definition array_at :: "string \<Rightarrow> json \<Rightarrow> json list" where
  "array_at k v = (case Option.bind (json_get k v) as_array of Some xs \<Rightarrow> xs | None \<Rightarrow> [])"

definition pane_scalar :: "json \<Rightarrow> bool" where
  "pane_scalar p \<longleftrightarrow> list_ex tab_scalar (array_at ''tabs'' p)"

definition indexes_scalar :: "json \<Rightarrow> bool" where
  "indexes_scalar v \<longleftrightarrow> list_ex pane_scalar (array_at ''panes'' v)"

lemma array_at_object: "array_at k (JObject ob) = (case map_of ob k of Some (JArray xs) \<Rightarrow> xs | _ \<Rightarrow> [])"
  by (auto simp: array_at_def split: option.splits json.splits)

lemma array_at_no_object [simp]: "as_object v = None \<Longrightarrow> array_at k v = []"
  by (simp add: array_at_def json_get_def)

lemma update_array_at:
  assumes "update_array k f ob = Some ob'"
  shows "list_all2 (\<lambda>x y. f x = Some y) (array_at k (JObject ob)) (array_at k (JObject ob'))"
    and "j \<noteq> k \<Longrightarrow> map_of ob' j = map_of ob j"
  using assms
  by (auto elim!: update_array_cases simp: array_at_object update_conv' split: option.splits json.splits)

lemma update_array_scalar:
  "update_array k f ob = None \<longleftrightarrow> (\<exists>x\<in>set (array_at k (JObject ob)). f x = None)"
  by (simp add: update_array_None array_at_object eq_commute [of "Some _"] split: option.splits json.splits) blast

lemma update_array_of_cases:
  obtains (object) ob where "v = JObject ob" "update_array_of k f v = map_option JObject (update_array k f ob)"
    | (other) "as_object v = None" "update_array_of k f v = Some v"
  by (cases v) auto

lemma update_array_of_None: "update_array_of k f v = None \<longleftrightarrow> (\<exists>x\<in>set (array_at k v). f x = None)"
  by (rule update_array_of_cases [of v k f]) (auto simp: update_array_scalar simp del: not_None_eq)

lemma update_array_of_at:
  "update_array_of k f v = Some v' \<Longrightarrow> list_all2 (\<lambda>x y. f x = Some y) (array_at k v) (array_at k v')"
  by (rule update_array_of_cases [of v k f]) (auto dest: update_array_at(1))

lemma rewrite_tab_None: "rewrite_tab f t = None \<longleftrightarrow> tab_scalar t"
  by (cases t) (auto simp: rewrite_tab_def tab_scalar_def split: option.splits)

lemma rewrite_tab_object: "rewrite_tab f t = Some t' \<Longrightarrow> \<not> tab_scalar t'"
  by (cases t) (auto simp: rewrite_tab_def tab_scalar_def split: option.splits if_splits)

lemma rewritten_none:
  "list_all2 (\<lambda>x y. f x = Some y) xs ys \<Longrightarrow> (\<And>x y. f x = Some y \<Longrightarrow> \<not> Q y) \<Longrightarrow> \<not> list_ex Q ys"
  by (induction rule: list_all2_induct) auto

lemma rewrite_pane_None: "update_array_of ''tabs'' (rewrite_tab f) p = None \<longleftrightarrow> pane_scalar p"
  by (simp add: update_array_of_None rewrite_tab_None pane_scalar_def list_ex_iff)

lemma rewrite_pane_clean: "update_array_of ''tabs'' (rewrite_tab f) p = Some p' \<Longrightarrow> \<not> pane_scalar p'"
  unfolding pane_scalar_def by (drule update_array_of_at) (erule rewritten_none, erule rewrite_tab_object)

lemma schema_update_at: "array_at ''panes'' (JObject (AList.update ''schema_version'' x ob)) = array_at ''panes'' (JObject ob)"
  by (simp add: array_at_object update_conv')

lemma rewrite_locations_None: "rewrite_locations f n (JObject ob) = None \<longleftrightarrow> indexes_scalar (JObject ob)"
  by (simp add: rewrite_locations_def update_array_scalar rewrite_pane_None schema_update_at indexes_scalar_def list_ex_iff)

lemma rewrite_locations_Some:
  assumes "rewrite_locations f n (JObject ob) = Some r"
  obtains ob' where "r = Inr (JObject ob')"
    "update_array ''panes'' (update_array_of ''tabs'' (rewrite_tab f)) (AList.update ''schema_version'' (json_u64 n) ob) = Some ob'"
    "map_of ob' ''schema_version'' = Some (json_u64 n)" "\<not> indexes_scalar (JObject ob')"
proof -
  obtain ob' where ob': "r = Inr (JObject ob')"
      "update_array ''panes'' (update_array_of ''tabs'' (rewrite_tab f)) (AList.update ''schema_version'' (json_u64 n) ob) = Some ob'"
    using assms by (auto simp: rewrite_locations_def)
  have "map_of ob' ''schema_version'' = Some (json_u64 n)"
    using update_array_at(2) [OF ob'(2), of "''schema_version''"] by (simp add: update_conv')
  moreover have "\<not> indexes_scalar (JObject ob')"
    unfolding indexes_scalar_def using update_array_at(1) [OF ob'(2)]
    by (rule rewritten_none) (erule rewrite_pane_clean)
  ultimately show ?thesis using ob' that by blast
qed

subsection \<open>What the walk keeps\<close>

lemma update_array_of_keeps:
  assumes "\<And>k. preorder (R k)" "update_array_of k f v = Some v'" "\<And>x y. f x = Some y \<Longrightarrow> P x y"
    and "\<And>x y. array_keeps P x y \<Longrightarrow> R k x y"
  shows "object_keeps R v v'"
proof (cases rule: update_array_of_cases [of v k f])
  case (object ob)
  then obtain ob' where "v' = JObject ob'" "update_array k f ob = Some ob'" using assms(2) by auto
  then show ?thesis using object fields_keep_update_array [of R k f ob ob' P] assms by simp
next
  case other
  then show ?thesis using assms(2) preorder_refl [OF preorder_object_keeps [OF assms(1)]] by simp
qed

lemma rewrite_history_keeps:
  assumes "\<And>l. object_keeps location_field l (f l)"
  shows "object_keeps history_field h (rewrite_history f h)"
proof -
  have step: "object_keeps history_field a b"
    if "update_array_of k (\<lambda>l. Some (f l)) a = Some b" "k = ''back'' \<or> k = ''forward''" for k a b
    using that assms
    by (intro update_array_of_keeps [where P = "object_keeps location_field", OF _ that(1)]) (auto simp: history_field_def)
  have "update_array_of k (\<lambda>l. Some (f l)) a \<noteq> None" for k a
    by (simp add: update_array_of_None)
  then obtain b c where "update_array_of ''back'' (\<lambda>l. Some (f l)) h = Some b"
      "update_array_of ''forward'' (\<lambda>l. Some (f l)) b = Some c"
    by (meson not_None_eq)
  then have "object_keeps history_field h b" "object_keeps history_field b c" "rewrite_history f h = c"
    using step by (blast, blast, simp add: rewrite_history_def)
  then show ?thesis using preorder_trans [OF preorder_object_keeps] by fastforce
qed

lemma rewrite_tab_keeps:
  assumes f: "\<And>l. object_keeps location_field l (f l)" and "rewrite_tab f t = Some t'"
  shows "object_keeps tab_field t t'"
proof (cases t)
  case (JObject ob)
  let ?ob = "AList.update ''location'' (f (case map_of ob ''location'' of Some x \<Rightarrow> x | None \<Rightarrow> JNull)) ob"
  have "fields_keep tab_field ob ?ob"
    using f by (auto intro!: fields_keep_update simp: tab_field_def)
  moreover have "fields_keep tab_field ?ob (AList.update ''history'' (rewrite_history f h) ?ob)"
    if "map_of ?ob ''history'' = Some h" for h
    using that rewrite_history_keeps [OF f] by (auto intro!: fields_keep_update simp: tab_field_def)
  ultimately show ?thesis
    using assms(2) JObject fields_keep_trans [of tab_field ob ?ob]
    by (auto simp: rewrite_tab_def split: option.splits)
qed (use assms(2) in \<open>auto simp: rewrite_tab_def object_keeps_def split: option.splits if_splits\<close>)

lemma rewrite_locations_keeps:
  assumes f: "\<And>l. object_keeps location_field l (f l)" and "rewrite_locations f n v = Some (Inr v')"
  shows "object_keeps workspace_field v v'"
proof -
  obtain ob where v: "v = JObject ob" using assms(2) by (cases v) (auto simp: rewrite_locations_def)
  obtain ob' where ob': "v' = JObject ob'"
      "update_array ''panes'' (update_array_of ''tabs'' (rewrite_tab f)) (AList.update ''schema_version'' (json_u64 n) ob) = Some ob'"
    using rewrite_locations_Some [OF assms(2) [unfolded v]] by auto
  have pane: "object_keeps pane_field p p'" if "update_array_of ''tabs'' (rewrite_tab f) p = Some p'" for p p'
    using that rewrite_tab_keeps [OF f]
    by (intro update_array_of_keeps [where P = "object_keeps tab_field", OF _ that]) (auto simp: pane_field_def)
  have "fields_keep workspace_field ob (AList.update ''schema_version'' (json_u64 n) ob)"
    by (rule fields_keep_update) (auto simp: workspace_field_def)
  moreover have "fields_keep workspace_field (AList.update ''schema_version'' (json_u64 n) ob) ob'"
    by (rule fields_keep_update_array [where P = "object_keeps pane_field", OF _ ob'(2)]) (auto simp: pane workspace_field_def)
  ultimately show ?thesis using fields_keep_trans [of workspace_field] by (auto simp: v ob')
qed

subsection \<open>Which locations the walk yields\<close>

definition tab_locations :: "json \<Rightarrow> json list" where
  "tab_locations t =
    (case json_get ''location'' t of Some l \<Rightarrow> [l] | None \<Rightarrow> [])
    @ (case json_get ''history'' t of Some h \<Rightarrow> array_at ''back'' h @ array_at ''forward'' h | None \<Rightarrow> [])"

definition locations_of :: "json \<Rightarrow> json list" where
  "locations_of v = concat (map (\<lambda>p. concat (map tab_locations (array_at ''tabs'' p))) (array_at ''panes'' v))"

lemma array_at_update: "array_at j (JObject (AList.update k v ob)) =
    (if j = k then (case v of JArray xs \<Rightarrow> xs | _ \<Rightarrow> []) else array_at j (JObject ob))"
  by (simp add: array_at_object update_conv' split: json.splits)

lemma mapped_array_of:
  "\<exists>b. update_array_of k (\<lambda>l. Some (f l)) a = Some b \<and> array_at k b = map f (array_at k a)
    \<and> (j \<noteq> k \<longrightarrow> array_at j b = array_at j a)"
proof -
  have "update_array_of k (\<lambda>l. Some (f l)) a \<noteq> None" by (simp add: update_array_of_None)
  then obtain b where b: "update_array_of k (\<lambda>l. Some (f l)) a = Some b" by blast
  have "array_at k b = map f (array_at k a)"
    using update_array_of_at [OF b] by (simp add: list_all2_conv_all_nth list_eq_iff_nth_eq)
  moreover have "array_at j b = array_at j a" if "j \<noteq> k"
    using b update_array_at(2) [OF _ that] by (cases a) (auto simp: array_at_object)
  ultimately show ?thesis using b by blast
qed

lemma rewrite_history_at:
  "array_at ''back'' (rewrite_history f h) = map f (array_at ''back'' h)"
  "array_at ''forward'' (rewrite_history f h) = map f (array_at ''forward'' h)"
proof -
  obtain b where b: "update_array_of ''back'' (\<lambda>l. Some (f l)) h = Some b"
      "array_at ''back'' b = map f (array_at ''back'' h)" "array_at ''forward'' b = array_at ''forward'' h"
    using mapped_array_of [of "''back''" f h "''forward''"] by auto
  obtain c where c: "update_array_of ''forward'' (\<lambda>l. Some (f l)) b = Some c"
      "array_at ''forward'' c = map f (array_at ''forward'' b)" "array_at ''back'' c = array_at ''back'' b"
    using mapped_array_of [of "''forward''" f b "''back''"] by auto
  have "rewrite_history f h = c" using b(1) c(1) by (simp add: rewrite_history_def)
  then show "array_at ''back'' (rewrite_history f h) = map f (array_at ''back'' h)"
    "array_at ''forward'' (rewrite_history f h) = map f (array_at ''forward'' h)"
    using b c by auto
qed

lemma rewrite_tab_locations:
  assumes "rewrite_tab f t = Some t'"
  shows "set (tab_locations t') \<subseteq> f ` insert JNull (set (tab_locations t))"
proof (cases t)
  case (JObject ob)
  then show ?thesis using assms
    by (auto simp: rewrite_tab_def tab_locations_def update_conv' rewrite_history_at split: option.splits if_splits)
qed (use assms in \<open>auto simp: rewrite_tab_def tab_locations_def split: option.splits if_splits\<close>)

lemma list_all2_concat_subset:
  assumes "list_all2 (\<lambda>x y. g x = Some y) xs ys"
    and "\<And>x y. g x = Some y \<Longrightarrow> set (L y) \<subseteq> f ` insert n (set (L x))"
  shows "set (concat (map L ys)) \<subseteq> f ` insert n (set (concat (map L xs)))"
  using assms(1)
proof (induction rule: list_all2_induct)
  case (Cons x xs y ys)
  then show ?case using assms(2) [of x y] by auto
qed simp

lemma rewrite_locations_of:
  assumes "rewrite_locations f n v = Some (Inr v')"
  shows "set (locations_of v') \<subseteq> f ` insert JNull (set (locations_of v))"
proof -
  obtain ob where v: "v = JObject ob" using assms by (cases v) (auto simp: rewrite_locations_def)
  obtain ob' where ob': "v' = JObject ob'"
      "update_array ''panes'' (update_array_of ''tabs'' (rewrite_tab f)) (AList.update ''schema_version'' (json_u64 n) ob) = Some ob'"
    using rewrite_locations_Some [OF assms [unfolded v]] by auto
  have "set (concat (map tab_locations (array_at ''tabs'' p'))) \<subseteq> f ` insert JNull (set (concat (map tab_locations (array_at ''tabs'' p))))"
    if "update_array_of ''tabs'' (rewrite_tab f) p = Some p'" for p p'
    by (rule list_all2_concat_subset [OF update_array_of_at [OF that] rewrite_tab_locations])
  then show ?thesis
    using list_all2_concat_subset [OF update_array_at(1) [OF ob'(2)], of "\<lambda>p. concat (map tab_locations (array_at ''tabs'' p))" f JNull]
    by (simp add: locations_of_def v ob'(1) schema_update_at)
qed

section \<open>The three migrations\<close>

lemma location_keeps_same [simp]: "object_keeps location_field l l" "fields_keep location_field ob ob"
  by (simp_all add: preorder_refl fields_keep_refl)

lemma normalize_keeps: "object_keeps location_field l (normalize_local_location l)"
proof (cases l)
  case (JObject ob)
  have "fields_keep location_field ob (AList.update ''provider_id'' (JString ''local'') ob)"
    by (rule fields_keep_update) (auto simp: location_field_def)
  then show ?thesis by (simp add: normalize_local_location_def Let_def JObject)
qed (simp_all add: normalize_local_location_def)

lemma repair_keeps: "object_keeps location_field l (repair_native_path_location native l)"
proof (cases l)
  case (JObject ob)
  have "fields_keep location_field ob (AList.update ''uri'' (JString u) ob)" for u
    by (rule fields_keep_update) (auto simp: location_field_def)
  then show ?thesis by (simp add: repair_native_path_location_def JObject split: option.split sum.split)
qed (simp_all add: repair_native_path_location_def)

lemma migrate_tab_v0_facts:
  "tab_scalar (migrate_tab_v0 t) = tab_scalar t" "object_keeps tab_field t (migrate_tab_v0 t)"
proof -
  show "tab_scalar (migrate_tab_v0 t) = tab_scalar t" by (cases t) (simp_all add: tab_scalar_def)
  show "object_keeps tab_field t (migrate_tab_v0 t)"
  proof (cases t)
    case (JObject ob)
    then show ?thesis
      using fields_keep_trans [of tab_field ob "or_insert ''title_override'' JNull ob"]
      by (simp add: fields_keep_or_insert)
  qed (simp_all add: preorder_refl)
qed

lemma or_insert_at:
  "j \<noteq> k \<Longrightarrow> array_at j (JObject (or_insert k x ob)) = array_at j (JObject ob)"
  by (auto simp: array_at_object or_insert_get split: json.splits option.splits)

lemma list_ex_map_same: "list_all2 (\<lambda>x y. g x = Some y) xs ys \<Longrightarrow> (\<And>x y. g x = Some y \<Longrightarrow> Q y = Q x)
    \<Longrightarrow> list_ex Q ys = list_ex Q xs"
  by (induction rule: list_all2_induct) auto

lemma migrate_pane_v0_facts:
  "\<exists>p'. migrate_pane_v0 p = Some p' \<and> pane_scalar p' = pane_scalar p \<and> object_keeps pane_field p p'"
proof (cases p)
  case (JObject ob)
  let ?ob = "or_insert ''default_view'' (first_tab_view p) (or_insert ''title'' JNull ob)"
  have "update_array ''tabs'' (\<lambda>tab. Some (migrate_tab_v0 tab)) ?ob \<noteq> None" by (simp add: update_array_None)
  then obtain ob' where ob': "update_array ''tabs'' (\<lambda>tab. Some (migrate_tab_v0 tab)) ?ob = Some ob'" by blast
  have "fields_keep pane_field ob ?ob"
    using fields_keep_trans [of pane_field ob "or_insert ''title'' JNull ob" ?ob] by (simp add: fields_keep_or_insert)
  moreover have "fields_keep pane_field ?ob ob'"
    by (rule fields_keep_update_array [where P = "object_keeps tab_field", OF _ ob'])
      (auto simp: migrate_tab_v0_facts pane_field_def)
  ultimately have "fields_keep pane_field ob ob'" using fields_keep_trans [of pane_field ob ?ob] by simp
  moreover have "pane_scalar (JObject ob') = pane_scalar p"
    unfolding pane_scalar_def JObject
    using list_ex_map_same [OF update_array_at(1) [OF ob'], of tab_scalar] by (auto simp: migrate_tab_v0_facts or_insert_at JObject)
  ultimately show ?thesis using ob' by (simp add: migrate_pane_v0_def JObject)
qed (simp_all add: migrate_pane_v0_def preorder_refl)

lemma migrate_v0_facts:
  "\<exists>ob'. migrate_v0_to_v1 now (JObject ob) = Some (Inr (JObject ob'))
    \<and> indexes_scalar (JObject ob') = indexes_scalar (JObject ob) \<and> fields_keep workspace_field ob ob'"
proof -
  let ?a = "AList.update ''schema_version'' (json_u64 1) ob"
  let ?b = "or_insert ''created_at'' (JString now) ?a"
  let ?c = "or_insert ''updated_at'' (JString now) ?b"
  let ?d = "or_insert ''revision'' (json_u64 1) ?c"
  let ?e = "or_insert ''operation_centre'' (JObject [(''visible'', JBool False), (''height'', json_u64 0)]) ?d"
  have pane: "object_keeps pane_field p p' \<and> pane_scalar p' = pane_scalar p" if "migrate_pane_v0 p = Some p'" for p p'
    using migrate_pane_v0_facts [of p] that by auto
  have "migrate_pane_v0 p \<noteq> None" for p using migrate_pane_v0_facts [of p] by auto
  then have "update_array ''panes'' migrate_pane_v0 ?e \<noteq> None" by (simp add: update_array_None)
  then obtain ob' where ob': "update_array ''panes'' migrate_pane_v0 ?e = Some ob'" by blast
  have "fields_keep workspace_field ob ?a" by (rule fields_keep_update) (auto simp: workspace_field_def)
  moreover have "fields_keep workspace_field ?a ?b" "fields_keep workspace_field ?b ?c"
    "fields_keep workspace_field ?c ?d" "fields_keep workspace_field ?d ?e"
    by (simp_all add: fields_keep_or_insert)
  moreover have "fields_keep workspace_field ?e ob'"
    by (rule fields_keep_update_array [where P = "object_keeps pane_field", OF _ ob'])
      (auto simp: pane workspace_field_def)
  ultimately have "fields_keep workspace_field ob ob'" by (meson fields_keep_trans preorder_fields(5))
  moreover have "indexes_scalar (JObject ob') = indexes_scalar (JObject ob)"
    unfolding indexes_scalar_def using list_ex_map_same [OF update_array_at(1) [OF ob'], of pane_scalar]
    by (simp add: pane or_insert_at schema_update_at)
  ultimately show ?thesis using ob' by (simp add: migrate_v0_to_v1_def)
qed

section \<open>The outcome of a migration\<close>

lemma object_keeps_trans:
  "object_keeps workspace_field a b \<Longrightarrow> object_keeps workspace_field b c \<Longrightarrow> object_keeps workspace_field a c"
  using preorder_trans [OF preorder_object_keeps] by fastforce

lemma json_schema_version_json_u64:
  "map_of ob ''schema_version'' = Some (json_u64 n) \<Longrightarrow> unat n < 2 ^ 32 \<Longrightarrow> json_schema_version (JObject ob) = ucast n"
  by (simp add: json_schema_version_def json_u64_def)

lemma json_schema_version_no_object: "as_object v = None \<Longrightarrow> json_schema_version v = 0"
  by (simp add: json_schema_version_def json_get_def)

lemma migrate_from_current: "\<not> version < CURRENT_WORKSPACE_SCHEMA_VERSION \<Longrightarrow> migrate_from now native version v = Some (Inr v)"
  by simp

lemma migrate_current:
  assumes "json_schema_version v = CURRENT_WORKSPACE_SCHEMA_VERSION"
  shows "migrate_workspace_json now native v = Some (Inr v)"
  using assms by (simp add: migrate_workspace_json_def migrate_from_current Let_def del: migrate_from.simps)

declare migrate_from.simps [simp del]

lemma schema_versions_below: "version < CURRENT_WORKSPACE_SCHEMA_VERSION \<Longrightarrow> version = 0 \<or> version = 1 \<or> version = 2"
proof -
  assume "version < CURRENT_WORKSPACE_SCHEMA_VERSION"
  then have "unat version < 3" by (simp add: CURRENT_WORKSPACE_SCHEMA_VERSION_def word_less_nat_alt)
  then have "unat version = unat (0 :: u32) \<or> unat version = unat (1 :: u32) \<or> unat version = unat (2 :: u32)" by auto
  then show ?thesis by (simp only: word_unat_eq_iff)
qed

text \<open>What each migration does to an object, in one form for the loop: panic on a scalar tab, or go on.\<close>

definition migrates_to :: "json \<Rightarrow> json \<Rightarrow> bool" where
  "migrates_to v v' \<longleftrightarrow> as_object v' \<noteq> None \<and> \<not> indexes_scalar v' \<and> object_keeps workspace_field v v'
    \<and> json_schema_version v' = CURRENT_WORKSPACE_SCHEMA_VERSION"

lemma rewrite_locations_facts:
  assumes "\<And>l. object_keeps location_field l (f l)" "\<not> indexes_scalar (JObject ob)"
  obtains ob' where "rewrite_locations f n (JObject ob) = Some (Inr (JObject ob'))"
    "map_of ob' ''schema_version'' = Some (json_u64 n)" "\<not> indexes_scalar (JObject ob')"
    "object_keeps workspace_field (JObject ob) (JObject ob')"
proof -
  obtain r where r: "rewrite_locations f n (JObject ob) = Some r"
    using rewrite_locations_None [of f n ob] assms(2) by blast
  obtain ob' where "r = Inr (JObject ob')" "map_of ob' ''schema_version'' = Some (json_u64 n)" "\<not> indexes_scalar (JObject ob')"
    using rewrite_locations_Some [OF r] by blast
  then show ?thesis using r rewrite_locations_keeps [OF assms(1), of n "JObject ob"] that by auto
qed

lemma migrate_from_2:
  "migrate_from now native 2 (JObject ob) =
    (case migrate_v2_to_v3 native (JObject ob) of None \<Rightarrow> None | Some (Inl e) \<Rightarrow> Some (Inl e) | Some (Inr v) \<Rightarrow> Some (Inr v))"
  by (subst migrate_from.simps) (simp add: CURRENT_WORKSPACE_SCHEMA_VERSION_def migrate_from_current split: option.split sum.split)

lemma migrate_2_outcome:
  "if indexes_scalar (JObject ob) then migrate_from now native 2 (JObject ob) = None
   else \<exists>v'. migrate_from now native 2 (JObject ob) = Some (Inr v') \<and> migrates_to (JObject ob) v'"
proof (cases "indexes_scalar (JObject ob)")
  case False
  obtain ob' where "migrate_v2_to_v3 native (JObject ob) = Some (Inr (JObject ob'))"
      "map_of ob' ''schema_version'' = Some (json_u64 3)" "\<not> indexes_scalar (JObject ob')"
      "object_keeps workspace_field (JObject ob) (JObject ob')"
    using rewrite_locations_facts [of "repair_native_path_location native" ob 3, OF repair_keeps False]
    unfolding migrate_v2_to_v3_def by blast
  then show ?thesis using False
    by (simp add: migrate_from_2 migrates_to_def json_schema_version_json_u64 CURRENT_WORKSPACE_SCHEMA_VERSION_def)
qed (simp add: migrate_from_2 migrate_v2_to_v3_def rewrite_locations_None [THEN iffD2])

lemma migrate_from_1:
  "migrate_from now native 1 v =
    (case migrate_v1_to_v2 v of None \<Rightarrow> None | Some (Inl e) \<Rightarrow> Some (Inl e) | Some (Inr v) \<Rightarrow> migrate_from now native 2 v)"
  by (subst migrate_from.simps) (simp add: CURRENT_WORKSPACE_SCHEMA_VERSION_def split: option.split sum.split)

lemma migrate_1_outcome:
  "if indexes_scalar (JObject ob) then migrate_from now native 1 (JObject ob) = None
   else \<exists>v'. migrate_from now native 1 (JObject ob) = Some (Inr v') \<and> migrates_to (JObject ob) v'"
proof (cases "indexes_scalar (JObject ob)")
  case False
  obtain ob1 where ob1: "migrate_v1_to_v2 (JObject ob) = Some (Inr (JObject ob1))"
      "\<not> indexes_scalar (JObject ob1)" "object_keeps workspace_field (JObject ob) (JObject ob1)"
    using rewrite_locations_facts [of normalize_local_location ob 2, OF normalize_keeps False]
    unfolding migrate_v1_to_v2_def by blast
  then obtain v' where "migrate_from now native 2 (JObject ob1) = Some (Inr v')" "migrates_to (JObject ob1) v'"
    using migrate_2_outcome [of ob1 now native] by (auto simp del: not_None_eq)
  then show ?thesis using ob1 False object_keeps_trans [of "JObject ob" "JObject ob1" v']
    by (simp add: migrate_from_1 migrates_to_def del: object_keeps_object)
qed (simp add: migrate_from_1 migrate_v1_to_v2_def rewrite_locations_None [THEN iffD2])

lemma migrate_from_0:
  "migrate_from now native 0 v =
    (case migrate_v0_to_v1 now v of None \<Rightarrow> None | Some (Inl e) \<Rightarrow> Some (Inl e) | Some (Inr v) \<Rightarrow> migrate_from now native 1 v)"
  by (subst migrate_from.simps) (simp add: CURRENT_WORKSPACE_SCHEMA_VERSION_def split: option.split sum.split)

lemma migrate_0_outcome:
  "if indexes_scalar (JObject ob) then migrate_from now native 0 (JObject ob) = None
   else \<exists>v'. migrate_from now native 0 (JObject ob) = Some (Inr v') \<and> migrates_to (JObject ob) v'"
proof -
  obtain ob1 where ob1: "migrate_v0_to_v1 now (JObject ob) = Some (Inr (JObject ob1))"
      "indexes_scalar (JObject ob1) = indexes_scalar (JObject ob)" "object_keeps workspace_field (JObject ob) (JObject ob1)"
    using migrate_v0_facts [of now ob] by auto
  then show ?thesis using migrate_1_outcome [of ob1 now native] object_keeps_trans [of "JObject ob" "JObject ob1"]
    by (auto simp: migrate_from_0 migrates_to_def simp del: object_keeps_object)
qed

lemma migrate_object_outcome:
  assumes "json_schema_version (JObject ob) < CURRENT_WORKSPACE_SCHEMA_VERSION"
  shows "if indexes_scalar (JObject ob) then migrate_workspace_json now native (JObject ob) = None
   else \<exists>v'. migrate_workspace_json now native (JObject ob) = Some (Inr v') \<and> migrates_to (JObject ob) v'"
proof -
  have "migrate_workspace_json now native (JObject ob) = migrate_from now native (json_schema_version (JObject ob)) (JObject ob)"
    using assms by (auto simp: migrate_workspace_json_def Let_def)
  then show ?thesis
    using schema_versions_below [OF assms] migrate_0_outcome [of ob now native] migrate_1_outcome [of ob now native]
      migrate_2_outcome [of ob now native]
    by (elim disjE) (simp_all only:)
qed

text \<open>C39: The outcome of migrating a stored workspace. A file of a newer schema is refused with its version; a
  file that is no JSON object is refused; a file of an older schema with a tab that is neither an object nor null makes
  the migration panic; and every other file is upgraded to the current schema with all the data it holds kept: only the
  schema version and the provider and URI of locations may change, fields are only added, and migrating the result again changes nothing.\<close>

theorem migration_outcome:
  "case migrate_workspace_json now native v of
     None \<Rightarrow> json_schema_version v < CURRENT_WORKSPACE_SCHEMA_VERSION \<and> as_object v \<noteq> None \<and> indexes_scalar v
   | Some (Inl e) \<Rightarrow>
       (CURRENT_WORKSPACE_SCHEMA_VERSION < json_schema_version v \<and> e = UnsupportedSchema (json_schema_version v))
       \<or> (as_object v = None \<and> e = not_an_object)
   | Some (Inr v') \<Rightarrow>
       (json_schema_version v = CURRENT_WORKSPACE_SCHEMA_VERSION \<and> v' = v
        \<or> json_schema_version v < CURRENT_WORKSPACE_SCHEMA_VERSION \<and> \<not> indexes_scalar v)
       \<and> as_object v' \<noteq> None \<and> json_schema_version v' = CURRENT_WORKSPACE_SCHEMA_VERSION
       \<and> object_keeps workspace_field v v' \<and> migrate_workspace_json later other v' = Some (Inr v')"
proof -
  consider (newer) "CURRENT_WORKSPACE_SCHEMA_VERSION < json_schema_version v"
    | (current) "json_schema_version v = CURRENT_WORKSPACE_SCHEMA_VERSION"
    | (scalar) "as_object v = None"
    | (older) ob where "v = JObject ob" "json_schema_version v < CURRENT_WORKSPACE_SCHEMA_VERSION"
    by (cases v) (auto intro: linorder_cases [of "json_schema_version v" CURRENT_WORKSPACE_SCHEMA_VERSION])
  then show ?thesis
  proof cases
    case newer
    then show ?thesis by (simp add: migrate_workspace_json_def)
  next
    case current
    moreover from this have "as_object v \<noteq> None"
      using json_schema_version_no_object [of v] by (auto simp: CURRENT_WORKSPACE_SCHEMA_VERSION_def simp del: not_None_eq)
    moreover have "object_keeps workspace_field v v" by (simp add: preorder_refl)
    ultimately show ?thesis by (simp add: migrate_current)
  next
    case scalar
    then have "migrate_workspace_json now native v = Some (Inl not_an_object)"
      using json_schema_version_no_object [OF scalar]
      by (simp add: migrate_workspace_json_def migrate_from_0 migrate_v0_to_v1_def CURRENT_WORKSPACE_SCHEMA_VERSION_def)
    then show ?thesis using scalar by simp
  next
    case (older ob)
    then show ?thesis using migrate_object_outcome [of ob now native] migrate_current [of _ later other]
      by (cases "indexes_scalar v") (auto simp: migrates_to_def)
  qed
qed

section \<open>The obsolete provider alias\<close>

text \<open>A \<open>file:\<close> location under the provider id that the first default workspaces used.\<close>

definition obsolete_alias :: "json \<Rightarrow> bool" where
  "obsolete_alias l \<longleftrightarrow>
    (case Option.bind (json_get ''uri'' l) as_str of Some u \<Rightarrow> starts_with ''file:'' u | None \<Rightarrow> False)
    \<and> Option.bind (json_get ''provider_id'' l) as_str = Some ''file''"

lemma normalize_no_alias: "\<not> obsolete_alias (normalize_local_location l)"
  by (cases l) (auto simp: normalize_local_location_def obsolete_alias_def Let_def update_conv' json_get_def)

lemma repair_no_alias: "\<not> obsolete_alias l \<Longrightarrow> \<not> obsolete_alias (repair_native_path_location native l)"
proof (cases l)
  case (JObject ob)
  assume fresh: "\<not> obsolete_alias l"
  have "starts_with ''file:'' u" if "strip_prefix ''file://'' u = Some path" for u path
  proof -
    have "take 7 u = ''file://''" using that by (simp add: strip_prefix_def starts_with_def eval_nat_numeral split: if_splits)
    then have "take 5 (take 7 u) = ''file:''" by simp
    then show ?thesis by (simp add: starts_with_def eval_nat_numeral)
  qed
  then have "\<not> obsolete_alias (JObject (AList.update ''uri'' x ob))"
    if "Option.bind (Option.bind (map_of ob ''uri'') as_str) (strip_prefix ''file://'') = Some path" for x path
    using that fresh by (auto simp: obsolete_alias_def JObject update_conv' bind_eq_Some_conv)
  then show ?thesis using fresh
    by (auto simp: repair_native_path_location_def JObject split: option.split sum.split)
qed (auto simp: repair_native_path_location_def)

lemma migrate_2_no_alias:
  assumes "migrate_from now native 2 (JObject ob) = Some (Inr v')" "\<forall>l\<in>set (locations_of (JObject ob)). \<not> obsolete_alias l"
  shows "\<forall>l\<in>set (locations_of v'). \<not> obsolete_alias l"
proof -
  have "rewrite_locations (repair_native_path_location native) 3 (JObject ob) = Some (Inr v')"
    using assms(1) by (simp add: migrate_from_2 migrate_v2_to_v3_def split: option.splits sum.splits)
  then have "set (locations_of v') \<subseteq> repair_native_path_location native ` insert JNull (set (locations_of (JObject ob)))"
    by (rule rewrite_locations_of)
  moreover have "\<not> obsolete_alias JNull" by (simp add: obsolete_alias_def json_get_def)
  ultimately show ?thesis using assms(2) repair_no_alias by auto
qed

lemma migrate_1_no_alias:
  assumes "migrate_from now native 1 (JObject ob) = Some (Inr v')"
  shows "\<forall>l\<in>set (locations_of v'). \<not> obsolete_alias l"
proof -
  have "\<not> indexes_scalar (JObject ob)" using assms migrate_1_outcome [of ob now native] by (auto split: if_splits)
  then obtain ob1 where ob1: "rewrite_locations normalize_local_location 2 (JObject ob) = Some (Inr (JObject ob1))"
    using rewrite_locations_facts [of normalize_local_location ob 2, OF normalize_keeps] by blast
  then have "\<forall>l\<in>set (locations_of (JObject ob1)). \<not> obsolete_alias l"
    using rewrite_locations_of [OF ob1] normalize_no_alias by blast
  moreover have "migrate_from now native 2 (JObject ob1) = Some (Inr v')"
    using assms ob1 by (simp add: migrate_from_1 migrate_v1_to_v2_def)
  ultimately show ?thesis by (rule migrate_2_no_alias [rotated])
qed

text \<open>C40: Upgrading a workspace stored under schema 0 or 1 leaves no location under the obsolete provider id:
  neither the location of a tab nor one of its history, back or forward, is a \<open>file:\<close> URI of the provider \<open>file\<close>,
  whatever the later repair of native paths rewrites.\<close>

theorem migrated_locations_local:
  assumes "json_schema_version v < 2" and "migrate_workspace_json now native v = Some (Inr v')"
  shows "list_all (\<lambda>l. \<not> obsolete_alias l) (locations_of v')"
proof -
  have below: "json_schema_version v = 0 \<or> json_schema_version v = 1"
  proof -
    have "unat (json_schema_version v) < 2" using assms(1) by (simp add: word_less_nat_alt)
    then have "unat (json_schema_version v) = unat (0 :: u32) \<or> unat (json_schema_version v) = unat (1 :: u32)" by auto
    then show ?thesis by (simp only: word_unat_eq_iff)
  qed
  then have run: "migrate_from now native (json_schema_version v) v = Some (Inr v')"
    using assms(2) by (auto simp: migrate_workspace_json_def Let_def CURRENT_WORKSPACE_SCHEMA_VERSION_def)
  obtain ob where v: "v = JObject ob"
  proof (cases v)
    case (JObject ob)
    then show ?thesis by (rule that)
  qed (use run in \<open>simp_all add: json_schema_version_no_object migrate_from_0 migrate_v0_to_v1_def\<close>)
  obtain ob1 where "migrate_v0_to_v1 now v = Some (Inr (JObject ob1))" using migrate_v0_facts v by blast
  then show ?thesis using below run v migrate_1_no_alias by (auto simp: migrate_from_0 list_all_iff)
qed

definition sample_stored :: json where
  "sample_stored = JObject [(''schema_version'', json_u64 1), (''panes'', JArray [JObject [(''tabs'', JArray [JObject
    [(''location'', JObject [(''provider_id'', JString ''file''), (''uri'', JString ''file:///home'')])]])]])]"

theorem migrated_locations_local_witness:
  "list_all (\<lambda>l. \<not> obsolete_alias l) (locations_of (JObject [(''schema_version'', json_u64 3),
    (''panes'', JArray [JObject [(''tabs'', JArray [JObject
      [(''location'', JObject [(''provider_id'', JString ''local''), (''uri'', JString ''file:///home'')])]])]])]))"
proof (rule migrated_locations_local [of sample_stored "''now''" "\<lambda>_. Inl RelativeNativePath"])
  have version: "json_schema_version sample_stored = 1"
    by (simp add: sample_stored_def json_schema_version_json_u64)
  then show "json_schema_version sample_stored < 2" by simp
  show "migrate_workspace_json ''now'' (\<lambda>_. Inl RelativeNativePath) sample_stored = Some (Inr
    (JObject [(''schema_version'', json_u64 3), (''panes'', JArray [JObject [(''tabs'', JArray [JObject
      [(''location'', JObject [(''provider_id'', JString ''local''), (''uri'', JString ''file:///home'')])]])]])]))"
    using version
    by (simp add: migrate_workspace_json_def CURRENT_WORKSPACE_SCHEMA_VERSION_def migrate_from_1 migrate_from_2
        migrate_v1_to_v2_def migrate_v2_to_v3_def sample_stored_def rewrite_locations_def update_array_def rewrite_tab_def
        normalize_local_location_def repair_native_path_location_def starts_with_def strip_prefix_def Let_def)
qed

end
