(* ===== verification/Spec2Isabelle.thy ===== *)
theory Spec2Isabelle
  imports Location_Laws Workspace_Service Scheduler_Laws Event_Bus Comparison_Laws Directory_Laws Operation_History
    Planner_Laws Checksum_Engine_Laws Migration_Laws
begin

text \<open>
  \<^bold>\<open>Procyon: a verification library for the core of the file manager\<close>

  \<^bold>\<open>The program.\<close> Procyon is a dual-pane file manager. A host (desktop shell, HTTP server, command line) calls one
  application service, \<open>src/crates/fm-application\<close>, which stands on small crates: locations and workspaces
  (\<open>fm-domain\<close>), providers of file systems (\<open>fm-vfs\<close> and its implementations), background operations
  (\<open>fm-operations\<close>), events for the front end (\<open>fm-events\<close>), comparison of directories (\<open>fm-comparison\<close>) and
  checksums and duplicates (\<open>fm-checksum\<close>). A client changes a workspace by commands; the workspace service loads,
  changes, validates and saves it and publishes an event. A pane shows a listing that the directory service keeps
  fresh through shared watches and patches by deltas. A file operation is planned by the operation planner, which picks
  an executor; the scheduler runs the executor in a worker that asks for conflicts, pauses and cancels, and the history
  records what it is told. Everything published goes through the event bus, which replays to clients that reconnect.

  \<^bold>\<open>Theories and sources.\<close> Each component has a theory of definitions in the order of the code, and where the proofs
  are long a second theory, \<open>.._Laws\<close>.
  \<^item> \<open>Prelude\<close>: results in the style of \<open>Result\<close>, saturating and checked counters, facts on lists.
  \<open>Rust_Str\<close>: what the sources use of \<open>str\<close> and byte slices, UTF-8 included.
  \<^item> \<open>Location\<close>, \<open>Location_Laws\<close>: \<open>fm-domain/src/location.rs\<close>. Locations are records of provider and URI; one
  parser and printer per scheme, the percent codec, \<open>join\<close>, \<open>parent\<close>, \<open>name\<close>, normalisation below a root, native
  paths. The locale \<open>segment_grammar\<close> is what every scheme promises, interpreted on all five grammars with segments.
  \<^item> \<open>Workspace_Model\<close>, \<open>Workspace_Command\<close>: \<open>fm-domain/src/workspace.rs\<close>, \<open>workspace_command.rs\<close> and
  \<open>fm-application/src/workspace/command.rs\<close>, \<open>default_workspace.rs\<close>: the records, \<open>validate\<close>, and every
  command. Commands keep validity; going back and forward moves a cursor on one timeline.
  \<^item> \<open>Workspace_Repository\<close>, \<open>Workspace_Events\<close>, \<open>Workspace_Service\<close>: \<open>repository.rs\<close>, \<open>memory.rs\<close>,
  \<open>events.rs\<close>, \<open>service.rs\<close> of the same directory. The locale \<open>workspace_repository\<close> is the contract of the two
  traits; \<open>service_laws\<close> extends it with the service and holds the client lemmas; both are interpreted on the
  in-memory repository.
  \<^item> \<open>Migration\<close>, \<open>Migration_Laws\<close>: \<open>migration.rs\<close>, the upgrades of stored workspaces on raw JSON, and what they
  keep.
  \<^item> \<open>Operations\<close>, \<open>Scheduler\<close>, \<open>Scheduler_Laws\<close>: \<open>fm-operations/src/model.rs\<close>, \<open>naming.rs\<close>, \<open>safety.rs\<close>,
  \<open>scheduler.rs\<close>. A job's task is a worker with a program counter, and \<open>scheduler_act\<close> interleaves the steps of all
  workers with the calls of clients. The laws are an invariant of every reachable state (\<open>reachable\<close>), and from it
  the legality of published transitions, the accounting of completed operations and the end of cancelled workers.
  \<^item> \<open>Event_Bus\<close>: \<open>fm-events/src/bus.rs\<close>. The locale \<open>bounded_log\<close> is interpreted on the replay buffer.
  \<^item> \<open>Comparison\<close>, \<open>Comparison_Laws\<close>: \<open>fm-comparison/src\<close>, classification, traversal, results and sync plans.
  \<^item> \<open>Directory\<close>, \<open>Directory_Laws\<close>: \<open>fm-application/src/directory.rs\<close>. Each section of the code between two
  suspension points is one definition and \<open>dir_step\<close> interleaves the sections of all tasks. The locale
  \<open>rust_order\<close> (an \<open>Ord::cmp\<close> and its stable sort) is interpreted on the order of entries.
  \<^item> \<open>Operation_History\<close>: \<open>operation_history.rs\<close> and the listing of operations in \<open>service.rs\<close>. The locale
  \<open>snapshot_observer\<close> is what the scheduler tells an observer, interpreted on the history.
  \<^item> \<open>Executor\<close>, \<open>Copy_Move\<close>, \<open>File_Operations\<close>, \<open>Planner\<close> and their laws: \<open>operation_planner.rs\<close> with
  \<open>fm-vfs/src/transfer.rs\<close> and \<open>capabilities.rs\<close>. An executor is a state-passing computation with a log of its
  calls to providers. The locale \<open>executor_contract\<close> (an invariant of the executor's fields and
  the calls a request may make in the state it finds) is interpreted on copying, moving and deleting. The planner's laws say exactly which requests are accepted and which
  executor they get.
  \<^item> \<open>Checksum\<close>, \<open>Duplicates\<close>, \<open>Checksum_Engine\<close> and their laws: \<open>fm-checksum/src\<close>: streaming digests, checksum
  files, the staged duplicate finder against a definition without stages, jobs and scans.

  \<^bold>\<open>What is proved.\<close> The numbered properties stand beside the component they are about. Safety of files: a copy
  publishes a destination only after all its bytes were written, executors touch nothing but what their plan names,
  deletion goes bottom up and is audited, a sync plan deletes only what the other side lacks, paths cannot
  leave their root, and what the path check decides is given exactly. State machines: the scheduler under every interleaving, revisions and reference counts of the
  directory service under every interleaving. Refinement and equivalence: deltas patch the client's view to the new
  listing, plans are the pre-order and post-order of the tree, the staged duplicate finder gives the classes of the
  unstaged one, the digest of a stream does not depend on its chunks. Round trips: URIs, checksum files, the history
  file. Termination and liveness: traversals of finite trees end with complete results, paging reaches every entry, a
  reconnecting client gets every event once. Where the code does not do what it means to do, the theorem states
  what it does (a move that deletes skipped entries, a move between providers that always fails).

  \<^bold>\<open>Conventions and bounds.\<close> Identifiers are natural numbers, since the code only makes and compares them. Counters
  whose wrapping matters are words of their width; a plain \<open>+\<close> on them wraps, as in a release build. Clock readings,
  fresh identifiers and answers of providers, hash libraries, channels and the platform are arguments; where an answer may
  change between two questions the environment is asked at the ticks of a logical clock. A loop that follows an
  outside listing, and so may run forever, is a \<open>partial_function\<close> in \<open>option\<close>: \<open>None\<close> is not returning, and that it
  returns is part of the theorems about it, under the hypothesis that listings are finite. There is no fuel. Streams of
  bytes are finite lists of chunks ended by the end of the file or an error. Panics of the modelled code are values too.

  \<^bold>\<open>Not modelled.\<close> Code that only calls the operating system or the network (the platform adapters, the local, SFTP,
  FTP and WebDAV providers, SSH sessions, credential stores, thumbnails and media metadata), code that renames fields
  between equal types (transport objects, mappings), the hosts and the front end, the archive readers and writers, the plugin runtime and the
  search engine, whose core is third-party pattern matching and ranking, and the parts of \<open>service.rs\<close> that only
  forward calls. Progress throttling and the pause flag of \<open>fm-operations\<close> appear only as inputs of the scheduler's
  model. The manifest lists every such part with its reason.
\<close>

end
